(* ===== verification/Prelude.thy ===== *)
theory Prelude
  imports Main "HOL-Library.Word" "HOL-Library.Multiset"
begin

text \<open>
  Shared vocabulary of the development: the machine integer types of the three
  firmware images, the collections of defining equations the component proofs
  rewrite with, generic facts on words and lists, and the interfaces that
  several components implement:

  \<^item> \<open>invariant_machine\<close>: a deterministic state machine driven by events, with an
    invariant that every event keeps; runs over event lists then keep it too;
  \<^item> \<open>receipts\<close>: such a machine that hands out ever increasing receipts (queue tokens, probe
    sequence numbers), so that a retired receipt never becomes live again;
  \<^item> \<open>byte_codec\<close>: a fixed-width little-endian encoding of an integer type.
\<close>

unbundle bit_operations_syntax

type_synonym u8 = "8 word"
type_synonym u16 = "16 word"
type_synonym u32 = "32 word"
type_synonym u64 = "64 word"
type_synonym bytes = "8 word list"

named_theorems wire_defs "wire protocol definitions"
named_theorems queue_defs "dispatch queue definitions"
named_theorems guard_defs "packet guard definitions"
named_theorems health_defs "health monitor definitions"
named_theorems at_defs "AT response text definitions"
named_theorems power_defs "power controller definitions"

section \<open>Words\<close>

abbreviation uint64_max :: u64 where
  "uint64_max \<equiv> - 1"

lemma unat_inc:
  fixes x :: "'a::len word"
  assumes "x \<noteq> - 1"
  shows "unat (x + 1) = Suc (unat x)"
proof -
  have "1 + x \<noteq> 0"
    using assms by (metis add.commute add_eq_0_iff)
  then have "unat (1 + x) = Suc (unat x)" by (rule unatSuc)
  then show ?thesis by (simp add: add.commute)
qed

lemma less_inc:
  fixes x :: "'a::len word"
  assumes "x \<noteq> - 1"
  shows "x < x + 1"
  using assms by (simp add: word_less_nat_alt unat_inc)

lemma less_imp_not_max: "(x::'a::len word) < y \<Longrightarrow> x \<noteq> - 1"
  by (metis word_order.extremum_strict)

lemma le_less_inc:
  fixes x y :: "'a::len word"
  assumes "x \<le> y" and "y \<noteq> - 1"
  shows "x < y + 1"
  using assms(1) less_inc [OF assms(2)] by (rule le_less_trans)

lemma unat_of_nat_small: "n < 2 ^ LENGTH('a) \<Longrightarrow> unat (of_nat n :: 'a::len word) = n"
  by (simp add: unat_of_nat)

lemma unat_bound: "unat (x::'a::len word) < 2 ^ LENGTH('a)"
  by (rule unsigned_less)

lemma unat_max: "unat (- 1 :: 'a::len word) = 2 ^ LENGTH('a) - 1"
  by (simp add: unsigned_minus_1_eq_mask mask_eq_exp_minus_1)

section \<open>Lists\<close>

lemma foldl_invariant:
  assumes "\<And>s e. P s \<Longrightarrow> P (f s e)" and "P s"
  shows "P (foldl f s es)"
  using assms(2) by (induction es arbitrary: s) (auto intro: assms(1))

lemma length_filter_update:
  assumes "i < length xs"
  shows "length (filter P (xs[i := y])) + (if P (xs ! i) then 1 else 0)
       = length (filter P xs) + (if P y then 1 else 0)"
  using assms
proof (induction xs arbitrary: i)
  case Nil
  then show ?case by simp
next
  case (Cons x xs)
  show ?case
  proof (cases i)
    case 0
    then show ?thesis by simp
  next
    case (Suc j)
    with Cons.prems have "j < length xs" by simp
    from Cons.IH [OF this] Suc show ?thesis by simp
  qed
qed

lemma filter_nth_pos:
  assumes "i < length xs" and "P (xs ! i)"
  shows "0 < length (filter P xs)"
  using assms nth_mem [OF assms(1)] by (auto simp: filter_empty_conv)

section \<open>Event-driven machines with an invariant\<close>

locale invariant_machine =
  fixes step :: "'s \<Rightarrow> 'e \<Rightarrow> 's"
    and good :: "'s \<Rightarrow> bool"
  assumes good_step: "good s \<Longrightarrow> good (step s e)"
begin

lemma good_run: "good s \<Longrightarrow> good (foldl step s es)"
  by (rule foldl_invariant) (rule good_step)

lemma good_prefix:
  "good s \<Longrightarrow> es = pre @ suf \<Longrightarrow> good (foldl step s pre)"
  by (rule good_run)

end

text \<open>
  A store of items identified by receipts: a step may forget receipts or issue new ones
  above all that were issued before, never bring an old one back.
\<close>

locale receipts = invariant_machine step good
  for step :: "'s \<Rightarrow> 'e \<Rightarrow> 's" and good :: "'s \<Rightarrow> bool" +
  fixes live :: "'s \<Rightarrow> u64 set" and issued :: "'s \<Rightarrow> u64"
  assumes issued_mono: "good s \<Longrightarrow> issued s \<le> issued (step s e)"
    and live_step: "good s \<Longrightarrow> t \<in> live (step s e) \<Longrightarrow> t \<in> live s \<or> issued s < t"
begin

lemma retired_run:
  assumes "good s" and "t \<notin> live s" and "t \<le> issued s"
  shows "t \<notin> live (foldl step s es)"
  using assms
proof (induction es arbitrary: s)
  case Nil
  then show ?case by simp
next
  case (Cons e es)
  have "good (step s e)" by (rule good_step [OF Cons.prems(1)])
  moreover have "t \<notin> live (step s e)"
    using live_step [OF Cons.prems(1)] Cons.prems(2,3) by (meson leD)
  moreover have "t \<le> issued (step s e)"
    using Cons.prems(3) issued_mono [OF Cons.prems(1)] by (rule order_trans)
  ultimately show ?case using Cons.IH by simp
qed

end

section \<open>Little-endian integer encodings\<close>

definition le16 :: "u16 \<Rightarrow> bytes" where
  "le16 x = [ucast (x AND 0xFF), ucast (drop_bit 8 x AND 0xFF)]"

definition rd_u16le :: "bytes \<Rightarrow> u16" where
  "rd_u16le p = ucast (p ! 0) OR push_bit 8 (ucast (p ! 1))"

definition le32 :: "u32 \<Rightarrow> bytes" where
  "le32 x = map (\<lambda>i. ucast (drop_bit (8 * i) x)) [0, 1, 2, 3]"

definition rd_u32le :: "bytes \<Rightarrow> u32" where
  "rd_u32le p = ucast (p ! 0) OR push_bit 8 (ucast (p ! 1))
     OR push_bit 16 (ucast (p ! 2)) OR push_bit 24 (ucast (p ! 3))"

definition le64 :: "u64 \<Rightarrow> bytes" where
  "le64 x = map (\<lambda>i. ucast (drop_bit (8 * i) x)) [0, 1, 2, 3, 4, 5, 6, 7]"

definition rd_u64le :: "bytes \<Rightarrow> u64" where
  "rd_u64le p = foldl (\<lambda>v i. push_bit 8 v OR ucast (p ! i)) 0 [7, 6, 5, 4, 3, 2, 1, 0]"

locale byte_codec =
  fixes enc :: "'a \<Rightarrow> bytes" and dec :: "bytes \<Rightarrow> 'a" and width :: nat
  assumes enc_length: "length (enc x) = width"
    and dec_enc: "dec (enc x @ rest) = x"
begin

lemma enc_inj: "enc x = enc y \<Longrightarrow> x = y"
  using dec_enc [of x "[]"] dec_enc [of y "[]"] by simp

lemma take_enc: "take width (enc x @ rest) = enc x"
  by (simp add: enc_length)

lemma drop_enc: "drop width (enc x @ rest) = rest"
  by (simp add: enc_length)

end

lemma le16_length [simp]: "length (le16 x) = 2"
  by (simp add: le16_def)

lemma le32_length [simp]: "length (le32 x) = 4"
  by (simp add: le32_def)

lemma le64_length [simp]: "length (le64 x) = 8"
  by (simp add: le64_def)

lemma byte_mask: "(0xFF :: 'a::len word) = mask 8"
  by (simp add: mask_eq_exp_minus_1)

lemma rd_u16le_le16: "rd_u16le (le16 x @ rest) = x"
  unfolding rd_u16le_def le16_def byte_mask
  by (rule bit_word_eqI) (auto simp: bit_simps not_less)

lemma horner_byte:
  fixes x :: "'a::len word"
  shows "push_bit 8 (drop_bit (n + 8) x) OR ucast (ucast (drop_bit n x) :: u8) = drop_bit n x"
  by (rule bit_word_eqI) (auto simp: bit_simps not_less)

lemma top_byte:
  fixes x :: "'a::len word"
  assumes "LENGTH('a) = n + 8"
  shows "ucast (ucast (drop_bit n x) :: u8) = drop_bit n x"
  by (rule bit_word_eqI) (use assms in \<open>auto simp: bit_simps dest: bit_imp_le_length\<close>)

lemmas horner_bytes =
  horner_byte [of 0, simplified] horner_byte [of 8, simplified] horner_byte [of 16, simplified]
  horner_byte [of 24, simplified] horner_byte [of 32, simplified] horner_byte [of 40, simplified]
  horner_byte [of 48, simplified]

lemma or_push_bit_nest:
  fixes a b c d :: "'a::len word"
  shows "a OR push_bit 8 b OR push_bit 16 c OR push_bit 24 d =
     push_bit 8 (push_bit 8 (push_bit 8 d OR c) OR b) OR a"
  by (simp add: push_bit_or or.commute or.left_commute push_bit_push_bit)

lemma rd_u32le_le32: "rd_u32le (le32 x @ rest) = x"
  by (simp add: rd_u32le_def or_push_bit_nest le32_def top_byte horner_bytes)

lemma rd_u64le_le64: "rd_u64le (le64 x @ rest) = x"
  by (simp add: rd_u64le_def le64_def top_byte horner_bytes)

lemma le16_rd: 
  assumes "2 \<le> length p" shows "le16 (rd_u16le p) = take 2 p"
proof -
  obtain a b r where p: "p = a # b # r" using assms by (auto simp: numeral_eq_Suc Suc_le_length_iff)
  have "le16 (rd_u16le p) = [a, b]"
    unfolding p le16_def rd_u16le_def byte_mask
    by (simp, intro conjI; rule bit_word_eqI; auto simp: bit_simps dest: bit_imp_le_length)
  then show ?thesis by (simp add: p)
qed

lemma le32_rd:
  assumes "4 \<le> length p" shows "le32 (rd_u32le p) = take 4 p"
proof -
  obtain a b c d r where p: "p = a # b # c # d # r"
    using assms by (auto simp: numeral_eq_Suc Suc_le_length_iff)
  have "le32 (rd_u32le p) = [a, b, c, d]"
    unfolding p le32_def rd_u32le_def
    by (simp, intro conjI; rule bit_word_eqI; auto simp: bit_simps dest: bit_imp_le_length)
  then show ?thesis by (simp add: p)
qed

lemma le64_rd:
  assumes "8 \<le> length p" shows "le64 (rd_u64le p) = take 8 p"
proof -
  obtain a b c d e f g h r where p: "p = a # b # c # d # e # f # g # h # r"
    using assms by (auto simp: numeral_eq_Suc Suc_le_length_iff)
  have "le64 (rd_u64le p) = [a, b, c, d, e, f, g, h]"
    unfolding p le64_def rd_u64le_def
    by (simp, intro conjI; rule bit_word_eqI; auto simp: bit_simps dest: bit_imp_le_length)
  then show ?thesis by (simp add: p)
qed

interpretation codec16: byte_codec le16 rd_u16le 2
  by unfold_locales (simp_all add: rd_u16le_le16)

interpretation codec32: byte_codec le32 rd_u32le 4
  by unfold_locales (simp_all add: rd_u32le_le32)

interpretation codec64: byte_codec le64 rd_u64le 8
  by unfold_locales (simp_all add: rd_u64le_le64)

section \<open>Big-endian numbers\<close>

fun be_nat :: "bytes \<Rightarrow> nat" where
  "be_nat [] = 0"
| "be_nat (b # bs) = unat b * 256 ^ length bs + be_nat bs"

lemma be_nat_bound: "be_nat bs < 256 ^ length bs"
proof (induction bs)
  case (Cons b bs)
  have "unat b \<le> 255" using unat_bound [of b] by simp
  then have "unat b * 256 ^ length bs \<le> 255 * 256 ^ length bs" by (rule mult_le_mono1)
  from add_le_less_mono [OF this Cons] show ?case by simp
qed simp

end
