(* ===== verification/Wire_Protocol.thy ===== *)
theory Wire_Protocol
  imports Prelude
begin

text \<open>
  The WUPS wire protocol of \<^verbatim>\<open>common/protocol.h\<close>: frame layout, Fletcher-8
  checksum, and the ESP32 transmit path and frame classifiers of
  \<^verbatim>\<open>main/wups_link.c\<close>. A C buffer with its length parameter is a byte list (a null
  pointer behaves like the empty list in every function here); a \<open>uint8_t\<close> is an
  \<^typ>\<open>u8\<close>, a \<open>uint16_t\<close> a \<^typ>\<open>u16\<close>.
\<close>

section \<open>Constants\<close>

definition WUPS_SYNC1 :: u8 where [simp]: "WUPS_SYNC1 = 0xAA"
definition WUPS_SYNC2 :: u8 where [simp]: "WUPS_SYNC2 = 0x55"
definition WUPS_END1 :: u8 where [simp]: "WUPS_END1 = 0x55"
definition WUPS_END2 :: u8 where [simp]: "WUPS_END2 = 0xAA"
definition WUPS_GUARD_BYTE :: u8 where [simp]: "WUPS_GUARD_BYTE = 0x00"
definition WUPS_HEADER_BYTES :: nat where [simp]: "WUPS_HEADER_BYTES = 10"
definition WUPS_TRAILER_BYTES :: nat where [simp]: "WUPS_TRAILER_BYTES = 4"
definition WUPS_FRAMING_BYTES :: nat where
  [simp]: "WUPS_FRAMING_BYTES = WUPS_HEADER_BYTES + WUPS_TRAILER_BYTES"
definition WUPS_MAX_PAYLOAD :: nat where [simp]: "WUPS_MAX_PAYLOAD = 240"
definition WUPS_MAX_FRAME :: nat where
  [simp]: "WUPS_MAX_FRAME = WUPS_FRAMING_BYTES + WUPS_MAX_PAYLOAD"

definition WUPS_ADDR_RPI :: u8 where [simp]: "WUPS_ADDR_RPI = 0x01"
definition WUPS_ADDR_RP2040 :: u8 where [simp]: "WUPS_ADDR_RP2040 = 0x02"
definition WUPS_ADDR_CH32X :: u8 where [simp]: "WUPS_ADDR_CH32X = 0x03"
definition WUPS_ADDR_ESP32 :: u8 where [simp]: "WUPS_ADDR_ESP32 = 0x04"
definition WUPS_ADDR_INTERNAL :: u8 where [simp]: "WUPS_ADDR_INTERNAL = 0x05"
definition WUPS_ADDR_BROADCAST :: u8 where [simp]: "WUPS_ADDR_BROADCAST = 0xFF"

definition WUPS_FLAG_REQ :: u8 where [simp]: "WUPS_FLAG_REQ = 1"
definition WUPS_FLAG_RESP :: u8 where [simp]: "WUPS_FLAG_RESP = 2"
definition WUPS_FLAG_EVENT :: u8 where [simp]: "WUPS_FLAG_EVENT = 4"

definition WUPS_CLASS_SYSTEM :: u8 where [simp]: "WUPS_CLASS_SYSTEM = 0x01"
definition WUPS_CLASS_POWER :: u8 where [simp]: "WUPS_CLASS_POWER = 0x02"
definition WUPS_CLASS_NET :: u8 where [simp]: "WUPS_CLASS_NET = 0x03"
definition WUPS_CLASS_HOST :: u8 where [simp]: "WUPS_CLASS_HOST = 0x04"

definition WUPS_OP_SYS_PING :: u8 where [simp]: "WUPS_OP_SYS_PING = 0x01"
definition WUPS_OP_SYS_HELLO :: u8 where [simp]: "WUPS_OP_SYS_HELLO = 0x02"
definition WUPS_OP_SYS_STATUS_QUERY :: u8 where [simp]: "WUPS_OP_SYS_STATUS_QUERY = 0x03"
definition WUPS_OP_SYS_LOG :: u8 where [simp]: "WUPS_OP_SYS_LOG = 0x04"
definition WUPS_OP_SYS_RESET :: u8 where [simp]: "WUPS_OP_SYS_RESET = 0x05"
definition WUPS_OP_PWR_STATUS :: u8 where [simp]: "WUPS_OP_PWR_STATUS = 0x01"
definition WUPS_OP_PWR_ENABLE :: u8 where [simp]: "WUPS_OP_PWR_ENABLE = 0x02"
definition WUPS_OP_PWR_DISABLE :: u8 where [simp]: "WUPS_OP_PWR_DISABLE = 0x03"
definition WUPS_OP_PWR_CYCLE :: u8 where [simp]: "WUPS_OP_PWR_CYCLE = 0x04"
definition WUPS_OP_PWR_RESET :: u8 where [simp]: "WUPS_OP_PWR_RESET = 0x05"
definition WUPS_OP_PWR_EVENT :: u8 where [simp]: "WUPS_OP_PWR_EVENT = 0x10"
definition WUPS_OP_NET_PUBLISH :: u8 where [simp]: "WUPS_OP_NET_PUBLISH = 0x02"
definition WUPS_OP_NET_DOWNLINK :: u8 where [simp]: "WUPS_OP_NET_DOWNLINK = 0x10"
definition WUPS_OP_NET_STATUS :: u8 where [simp]: "WUPS_OP_NET_STATUS = 0x01"
definition WUPS_OP_HOST_STATUS :: u8 where [simp]: "WUPS_OP_HOST_STATUS = 0x01"
definition WUPS_OP_HOST_EVENT :: u8 where [simp]: "WUPS_OP_HOST_EVENT = 0x10"

definition WUPS_CLASS_UI :: u8 where [simp]: "WUPS_CLASS_UI = 0x05"
definition WUPS_OP_UI_SET_SCREEN :: u8 where [simp]: "WUPS_OP_UI_SET_SCREEN = 0x02"
definition WUPS_OP_UI_BEEP :: u8 where [simp]: "WUPS_OP_UI_BEEP = 0x03"
definition WUPS_OP_UI_DISPLAY_MSG :: u8 where [simp]: "WUPS_OP_UI_DISPLAY_MSG = 0x04"
definition WUPS_OP_UI_TRUST_PROMPT :: u8 where [simp]: "WUPS_OP_UI_TRUST_PROMPT = 0x05"
definition WUPS_OP_UI_LOCAL_RESET :: u8 where [simp]: "WUPS_OP_UI_LOCAL_RESET = 0x07"

definition WUPS_PROTO_VERSION :: u8 where [simp]: "WUPS_PROTO_VERSION = 1"
definition WUPS_OP_NET_CONFIG :: u8 where [simp]: "WUPS_OP_NET_CONFIG = 0x21"
definition WUPS_NET_CONFIG_HTTP_URL :: u8 where [simp]: "WUPS_NET_CONFIG_HTTP_URL = 1"
definition WUPS_NET_CONFIG_DEVICE_ID :: u8 where [simp]: "WUPS_NET_CONFIG_DEVICE_ID = 2"
definition WUPS_OP_HOST_SHUTDOWN :: u8 where [simp]: "WUPS_OP_HOST_SHUTDOWN = 0x02"
definition WUPS_OP_HOST_RESET :: u8 where [simp]: "WUPS_OP_HOST_RESET = 0x03"
definition WUPS_OP_UI_BUTTON_EVENT :: u8 where [simp]: "WUPS_OP_UI_BUTTON_EVENT = 0x01"
definition WUPS_OP_UI_TRUST_RESULT :: u8 where [simp]: "WUPS_OP_UI_TRUST_RESULT = 0x06"

definition WUPS_CAP_SYSTEM :: u16 where [simp]: "WUPS_CAP_SYSTEM = 0x02"
definition WUPS_CAP_POWER :: u16 where [simp]: "WUPS_CAP_POWER = 0x04"
definition WUPS_CAP_NET :: u16 where [simp]: "WUPS_CAP_NET = 0x08"
definition WUPS_CAP_UI :: u16 where [simp]: "WUPS_CAP_UI = 0x20"

definition WUPS_PWR_EVT_MAINS_LOST :: u8 where [simp]: "WUPS_PWR_EVT_MAINS_LOST = 1"
definition WUPS_PWR_EVT_MAINS_RESTORED :: u8 where [simp]: "WUPS_PWR_EVT_MAINS_RESTORED = 2"
definition WUPS_PWR_EVT_CHARGE_LOW :: u8 where [simp]: "WUPS_PWR_EVT_CHARGE_LOW = 3"
definition WUPS_PWR_EVT_CHARGE_FULL :: u8 where [simp]: "WUPS_PWR_EVT_CHARGE_FULL = 4"
definition WUPS_PWR_EVT_FAULT :: u8 where [simp]: "WUPS_PWR_EVT_FAULT = 5"
definition WUPS_HOST_EVT_SHUTDOWN_IMMINENT :: u8 where
  [simp]: "WUPS_HOST_EVT_SHUTDOWN_IMMINENT = 1"
definition WUPS_HOST_EVT_LOW_DISK :: u8 where [simp]: "WUPS_HOST_EVT_LOW_DISK = 2"
definition WUPS_HOST_EVT_ETH_SYNCED :: u8 where [simp]: "WUPS_HOST_EVT_ETH_SYNCED = 3"
definition WUPS_HOST_EVT_ETH_LOST :: u8 where [simp]: "WUPS_HOST_EVT_ETH_LOST = 4"

text \<open>Sizes of the packed payload structs the classifiers compare lengths with.\<close>

definition sizeof_power_status_v1 :: nat where [simp]: "sizeof_power_status_v1 = 20"
definition sizeof_power_status_v2 :: nat where [simp]: "sizeof_power_status_v2 = 40"
definition sizeof_host_status_v1 :: nat where [simp]: "sizeof_host_status_v1 = 12"
definition sizeof_net_status_v1 :: nat where [simp]: "sizeof_net_status_v1 = 20"
definition sizeof_net_status_v2 :: nat where [simp]: "sizeof_net_status_v2 = 30"
definition sizeof_net_status_v3 :: nat where [simp]: "sizeof_net_status_v3 = 31"
definition sizeof_power_event_v1 :: nat where [simp]: "sizeof_power_event_v1 = 2"
definition sizeof_host_event_v1 :: nat where [simp]: "sizeof_host_event_v1 = 2"

section \<open>Checksum\<close>

fun fletcher_step :: "u8 \<times> u8 \<Rightarrow> u8 \<Rightarrow> u8 \<times> u8" where
  "fletcher_step (a, b) x = (let a' = a + x in (a', b + a'))"

definition wups_fletcher8 :: "bytes \<Rightarrow> u8 \<times> u8" where
  "wups_fletcher8 buf = foldl fletcher_step (0, 0) buf"

lemma wups_fletcher8_Nil [simp]: "wups_fletcher8 [] = (0, 0)"
  by (simp add: wups_fletcher8_def)

lemma wups_fletcher8_snoc [simp]:
  "wups_fletcher8 (xs @ [x]) = fletcher_step (wups_fletcher8 xs) x"
  by (simp add: wups_fletcher8_def)

lemma fletcher_sum: "fst (foldl fletcher_step (a, b) xs) = a + sum_list xs"
  by (induction xs arbitrary: a b) (simp_all add: Let_def)

section \<open>Frames\<close>

record wups_frame =
  f_dst :: u8
  f_src :: u8
  f_cls :: u8
  f_op :: u8
  f_flags :: u8
  f_seq :: u8
  f_payload :: bytes

definition frame_body :: "wups_frame \<Rightarrow> bytes" where
  "frame_body f = [f_dst f, f_src f, f_cls f, f_op f, f_flags f, f_seq f]
     @ le16 (of_nat (length (f_payload f))) @ f_payload f"

definition encode :: "wups_frame \<Rightarrow> bytes" where
  "encode f = (case wups_fletcher8 (frame_body f) of
     (a, b) \<Rightarrow> [WUPS_SYNC1, WUPS_SYNC2] @ frame_body f @ [a, b, WUPS_END1, WUPS_END2])"

definition frame_fits :: "wups_frame \<Rightarrow> bool" where
  "frame_fits f \<longleftrightarrow> length (f_payload f) \<le> WUPS_MAX_PAYLOAD"

definition decode_frame :: "bytes \<Rightarrow> wups_frame" where
  "decode_frame c = \<lparr>f_dst = c ! 2, f_src = c ! 3, f_cls = c ! 4, f_op = c ! 5,
     f_flags = c ! 6, f_seq = c ! 7,
     f_payload = take (unat (rd_u16le (drop 8 c))) (drop 10 c)\<rparr>"

lemma frame_body_length [simp]: "length (frame_body f) = 8 + length (f_payload f)"
  by (simp add: frame_body_def)

lemma encode_length: "length (encode f) = WUPS_FRAMING_BYTES + length (f_payload f)"
  by (simp add: encode_def split: prod.split)

lemma unat_payload_len: "frame_fits f \<Longrightarrow> unat (of_nat (length (f_payload f)) :: u16) = length (f_payload f)"
  by (simp add: frame_fits_def unat_of_nat)

lemma encode_parts:
  assumes "wups_fletcher8 (frame_body f) = (a, b)"
  shows "encode f = [0xAA, 0x55, f_dst f, f_src f, f_cls f, f_op f, f_flags f, f_seq f]
    @ le16 (of_nat (length (f_payload f))) @ f_payload f @ [a, b, 0x55, 0xAA]"
  using assms by (simp add: encode_def frame_body_def)

lemma decode_encode:
  assumes "frame_fits f"
  shows "decode_frame (encode f) = f"
proof -
  obtain a b where ck: "wups_fletcher8 (frame_body f) = (a, b)" by fastforce
  have len: "rd_u16le (drop 8 (encode f)) = of_nat (length (f_payload f))"
    using rd_u16le_le16 by (simp add: encode_parts [OF ck])
  show ?thesis
    by (simp add: decode_frame_def len unat_payload_len [OF assms])
      (simp add: encode_parts [OF ck] le16_def)
qed

lemma encode_inj: "frame_fits f \<Longrightarrow> frame_fits g \<Longrightarrow> encode f = encode g \<Longrightarrow> f = g"
  by (metis decode_encode)

section \<open>Transmit path\<close>

text \<open>
  The transmit half of the link: \<open>uart_out\<close> is everything written to the UART so far, in
  order (the mutex makes one frame's three writes atomic).
\<close>

record link_tx =
  s_tx_seq :: u8
  s_frames_tx :: u32
  s_bytes_tx :: u32
  uart_out :: bytes

definition send_frame_full ::
  "u8 \<Rightarrow> u8 \<Rightarrow> u8 \<Rightarrow> u8 \<Rightarrow> u8 \<Rightarrow> u8 \<Rightarrow> bytes \<Rightarrow> link_tx \<Rightarrow> link_tx" where
  "send_frame_full dst src cls op flags seq payload st =
    (if length payload > WUPS_MAX_PAYLOAD then st
     else
       let payload_len = of_nat (length payload) :: u16;
           header = [WUPS_SYNC1, WUPS_SYNC2, dst, src, cls, op, flags, seq,
                     ucast (payload_len AND 0xFF), ucast (drop_bit 8 payload_len AND 0xFF)];
           (a, b) = foldl fletcher_step (foldl fletcher_step (0, 0) (drop 2 header)) payload;
           trailer = [a, b, WUPS_END1, WUPS_END2, WUPS_GUARD_BYTE]
       in st\<lparr>uart_out := uart_out st @ header @ payload @ trailer,
             s_frames_tx := s_frames_tx st + 1,
             s_bytes_tx := s_bytes_tx st
               + of_nat (WUPS_HEADER_BYTES + length payload + length trailer)\<rparr>)"

definition wups_link_send_seq ::
  "u8 \<Rightarrow> u8 \<Rightarrow> u8 \<Rightarrow> u8 \<Rightarrow> u8 \<Rightarrow> bytes \<Rightarrow> link_tx \<Rightarrow> link_tx" where
  "wups_link_send_seq dst cls op flags seq payload st =
     send_frame_full dst WUPS_ADDR_ESP32 cls op flags seq payload st"

definition wups_link_send :: "u8 \<Rightarrow> u8 \<Rightarrow> u8 \<Rightarrow> u8 \<Rightarrow> bytes \<Rightarrow> link_tx \<Rightarrow> link_tx" where
  "wups_link_send dst cls op flags payload st =
     send_frame_full dst WUPS_ADDR_ESP32 cls op flags (s_tx_seq st) payload
       (st\<lparr>s_tx_seq := s_tx_seq st + 1\<rparr>)"

text \<open>The rendered frame, or \<open>[]\<close> where the C function returns 0 and writes nothing.\<close>

definition wups_link_render_frame ::
  "nat \<Rightarrow> u8 \<Rightarrow> u8 \<Rightarrow> u8 \<Rightarrow> u8 \<Rightarrow> bytes \<Rightarrow> link_tx \<Rightarrow> bytes \<times> link_tx" where
  "wups_link_render_frame cap dst cls op flags payload st =
    (if length payload > WUPS_MAX_PAYLOAD then ([], st)
     else if cap < WUPS_FRAMING_BYTES + length payload then ([], st)
     else
       let payload_len = of_nat (length payload) :: u16;
           out = [WUPS_SYNC1, WUPS_SYNC2, dst, WUPS_ADDR_ESP32, cls, op, flags, s_tx_seq st,
                  ucast (payload_len AND 0xFF), ucast (drop_bit 8 payload_len AND 0xFF)]
                 @ payload;
           (a, b) = wups_fletcher8 (take (8 + length payload) (drop 2 out))
       in (out @ [a, b, WUPS_END1, WUPS_END2], st\<lparr>s_tx_seq := s_tx_seq st + 1\<rparr>))"

section \<open>Frame classifiers\<close>

definition mqtt_wups_frame_valid :: "bytes \<Rightarrow> bool" where
  "mqtt_wups_frame_valid frame =
    (let len = length frame in
     if len < WUPS_FRAMING_BYTES \<or> len > WUPS_MAX_FRAME \<or>
        frame ! 0 \<noteq> WUPS_SYNC1 \<or> frame ! 1 \<noteq> WUPS_SYNC2 \<or>
        frame ! (len - 2) \<noteq> WUPS_END1 \<or> frame ! (len - 1) \<noteq> WUPS_END2 then False
     else
       let payload_len = unat (rd_u16le (drop 8 frame)) in
       if payload_len + WUPS_FRAMING_BYTES \<noteq> len then False
       else case wups_fletcher8 (take (8 + payload_len) (drop 2 frame)) of (a, b) \<Rightarrow>
         a = frame ! (WUPS_HEADER_BYTES + payload_len) \<and>
         b = frame ! (WUPS_HEADER_BYTES + payload_len + 1))"

definition mqtt_wups_snapshot_key :: "bytes \<Rightarrow> u32" where
  "mqtt_wups_snapshot_key frame =
    (let len = length frame in
     if \<not> mqtt_wups_frame_valid frame \<or> frame ! 6 \<noteq> WUPS_FLAG_EVENT \<or>
        len = WUPS_FRAMING_BYTES then 0
     else if frame ! 3 \<noteq> WUPS_ADDR_RPI \<and> frame ! 3 \<noteq> WUPS_ADDR_RP2040 \<and>
        frame ! 3 \<noteq> WUPS_ADDR_CH32X \<and> frame ! 3 \<noteq> WUPS_ADDR_ESP32 then 0
     else
       let payload_len = len - WUPS_FRAMING_BYTES;
           version = frame ! WUPS_HEADER_BYTES;
           known =
             (if frame ! 4 = WUPS_CLASS_POWER \<and> frame ! 5 = WUPS_OP_PWR_STATUS then
                (version = 1 \<and> payload_len = sizeof_power_status_v1) \<or>
                (version = 2 \<and> payload_len = sizeof_power_status_v2)
              else if frame ! 4 = WUPS_CLASS_HOST \<and> frame ! 5 = WUPS_OP_HOST_STATUS then
                version = 1 \<and> payload_len = sizeof_host_status_v1
              else if frame ! 4 = WUPS_CLASS_NET \<and> frame ! 5 = WUPS_OP_NET_STATUS then
                (version = 1 \<and> payload_len = sizeof_net_status_v1) \<or>
                (version = 2 \<and> payload_len = sizeof_net_status_v2) \<or>
                (version = 3 \<and> payload_len = sizeof_net_status_v3)
              else False)
       in if known
          then push_bit 16 (ucast (frame ! 3)) OR push_bit 8 (ucast (frame ! 4))
               OR ucast (frame ! 5)
          else 0)"

definition mqtt_wups_critical_event :: "bytes \<Rightarrow> bool" where
  "mqtt_wups_critical_event frame =
    (let len = length frame in
     if \<not> mqtt_wups_frame_valid frame \<or> frame ! 6 \<noteq> WUPS_FLAG_EVENT \<or>
        len < WUPS_FRAMING_BYTES + 2 \<or> frame ! WUPS_HEADER_BYTES \<noteq> 1 then False
     else
       let event = frame ! (WUPS_HEADER_BYTES + 1) in
       if frame ! 4 = WUPS_CLASS_POWER \<and> frame ! 5 = WUPS_OP_PWR_EVENT \<and>
          len = WUPS_FRAMING_BYTES + sizeof_power_event_v1 then
         event = WUPS_PWR_EVT_MAINS_LOST \<or> event = WUPS_PWR_EVT_MAINS_RESTORED \<or>
         event = WUPS_PWR_EVT_CHARGE_LOW \<or> event = WUPS_PWR_EVT_FAULT
       else if frame ! 4 = WUPS_CLASS_HOST \<and> frame ! 5 = WUPS_OP_HOST_EVENT \<and>
          len = WUPS_FRAMING_BYTES + sizeof_host_event_v1 then
         event = WUPS_HOST_EVT_SHUTDOWN_IMMINENT \<or> event = WUPS_HOST_EVT_LOW_DISK \<or>
         event = WUPS_HOST_EVT_ETH_SYNCED \<or> event = WUPS_HOST_EVT_ETH_LOST
       else False)"

section \<open>Transmitted and rendered bytes\<close>

lemma header_bytes:
  "[dst, src, cls, op, flags, seq, ucast (n AND 0xFF), ucast (drop_bit 8 n AND 0xFF)]
     = [dst, src, cls, op, flags, seq] @ le16 n"
  by (simp add: le16_def)

lemma send_frame_full_bytes:
  assumes "length payload \<le> WUPS_MAX_PAYLOAD"
  shows "uart_out (send_frame_full dst src cls op flags seq payload st)
    = uart_out st
      @ encode \<lparr>f_dst = dst, f_src = src, f_cls = cls, f_op = op, f_flags = flags,
          f_seq = seq, f_payload = payload\<rparr> @ [WUPS_GUARD_BYTE]"
  using assms
  by (simp add: send_frame_full_def Let_def encode_def frame_body_def wups_fletcher8_def
      le16_def split: prod.split)

text \<open>
  A frame rendered into memory by \<open>wups_link_render_frame\<close> (for MQTT or Arkiv) and the
  same frame written to the UART by \<open>wups_link_send\<close> are byte for byte the same frame: the
  render succeeds exactly when the payload is at most 240 bytes and the buffer holds the
  frame, it produces the encoding of the frame with the current sequence number, both
  advance the sequence number by one, and the UART write appends only the guard byte.
\<close>

theorem render_matches_send:
  assumes "length payload \<le> WUPS_MAX_PAYLOAD"
    and "WUPS_FRAMING_BYTES + length payload \<le> cap"
  shows "uart_out (wups_link_send dst cls op flags payload st)
      = uart_out st @ fst (wups_link_render_frame cap dst cls op flags payload st)
          @ [WUPS_GUARD_BYTE]
    \<and> fst (wups_link_render_frame cap dst cls op flags payload st)
      = encode \<lparr>f_dst = dst, f_src = WUPS_ADDR_ESP32, f_cls = cls, f_op = op,
          f_flags = flags, f_seq = s_tx_seq st, f_payload = payload\<rparr>
    \<and> s_tx_seq (wups_link_send dst cls op flags payload st) = s_tx_seq st + 1
    \<and> s_tx_seq (snd (wups_link_render_frame cap dst cls op flags payload st)) = s_tx_seq st + 1"
proof -
  have render: "fst (wups_link_render_frame cap dst cls op flags payload st)
      = encode \<lparr>f_dst = dst, f_src = WUPS_ADDR_ESP32, f_cls = cls, f_op = op,
          f_flags = flags, f_seq = s_tx_seq st, f_payload = payload\<rparr>"
    using assms
    by (simp add: wups_link_render_frame_def Let_def encode_def frame_body_def le16_def
        split: prod.split)
  have seqs: "s_tx_seq (wups_link_send dst cls op flags payload st) = s_tx_seq st + 1"
    "s_tx_seq (snd (wups_link_render_frame cap dst cls op flags payload st)) = s_tx_seq st + 1"
    using assms
    by (simp_all add: wups_link_render_frame_def wups_link_send_def send_frame_full_def Let_def
        split: prod.split)
  have sent: "uart_out (wups_link_send dst cls op flags payload st)
      = uart_out st @ encode \<lparr>f_dst = dst, f_src = WUPS_ADDR_ESP32, f_cls = cls, f_op = op,
          f_flags = flags, f_seq = s_tx_seq st, f_payload = payload\<rparr> @ [WUPS_GUARD_BYTE]"
    using send_frame_full_bytes [OF assms(1)] by (simp add: wups_link_send_def)
  from sent render seqs show ?thesis by simp
qed

theorem render_matches_send_witness:
  "uart_out (wups_link_send 2 3 1 4 [7, 9]
      \<lparr>s_tx_seq = 255, s_frames_tx = 0, s_bytes_tx = 0, uart_out = []\<rparr>)
    = fst (wups_link_render_frame 254 2 3 1 4 [7, 9]
        \<lparr>s_tx_seq = 255, s_frames_tx = 0, s_bytes_tx = 0, uart_out = []\<rparr>) @ [0]"
proof -
  have "length [7, 9 :: u8] \<le> WUPS_MAX_PAYLOAD" by simp
  moreover have "WUPS_FRAMING_BYTES + length [7, 9 :: u8] \<le> 254" by simp
  ultimately show ?thesis
    using render_matches_send [of "[7, 9]" 254 2 3 1 4
        "\<lparr>s_tx_seq = 255, s_frames_tx = 0, s_bytes_tx = 0, uart_out = []\<rparr>"]
    by simp
qed

section \<open>The frame validity test\<close>

lemma take_drop_split: "n + m \<le> length xs \<Longrightarrow> drop n xs = take m (drop n xs) @ drop (n + m) xs"
  by (metis add.commute append_take_drop_id drop_drop)

lemma list_split10:
  assumes "10 \<le> length xs"
  shows "xs = [xs ! 0, xs ! 1, xs ! 2, xs ! 3, xs ! 4, xs ! 5, xs ! 6, xs ! 7, xs ! 8, xs ! 9]
    @ drop 10 xs"
proof -
  have step: "drop k xs = xs ! k # drop (Suc k) xs" if "k < 10" for k
    using that assms by (simp add: Cons_nth_drop_Suc)
  from step [of 0] step [of 1] step [of 2] step [of 3] step [of 4] step [of 5] step [of 6]
    step [of 7] step [of 8] step [of 9]
  show ?thesis by (simp add: eval_nat_numeral)
qed

lemma le16_rd_u16le: "le16 (rd_u16le (x # y # r)) = [x, y]"
proof -
  have "ucast (rd_u16le (x # y # r) AND mask 8) = x"
    by (rule bit_word_eqI) (auto simp: rd_u16le_def bit_simps)
  moreover have "ucast (drop_bit 8 (rd_u16le (x # y # r)) AND mask 8) = y"
    by (rule bit_word_eqI) (auto simp: rd_u16le_def bit_simps dest: bit_imp_le_length)
  ultimately show ?thesis by (simp add: le16_def byte_mask)
qed

lemma frame_body_decode:
  assumes "10 + n \<le> length c" and "n = unat (rd_u16le (drop 8 c))"
  shows "frame_body (decode_frame c) = take (8 + n) (drop 2 c)"
proof -
  have c: "c = [c ! 0, c ! 1, c ! 2, c ! 3, c ! 4, c ! 5, c ! 6, c ! 7, c ! 8, c ! 9] @ drop 10 c"
    using assms(1) by (intro list_split10) simp
  have d8: "drop 8 c = c ! 8 # c ! 9 # drop 10 c"
    by (subst c) simp
  have n: "(of_nat n :: u16) = rd_u16le (drop 8 c)"
    using assms(2) by simp
  have "le16 (of_nat n) = [c ! 8, c ! 9]"
    unfolding n d8 by (rule le16_rd_u16le)
  moreover have "take (8 + n) (drop 2 c)
      = [c ! 2, c ! 3, c ! 4, c ! 5, c ! 6, c ! 7, c ! 8, c ! 9] @ take n (drop 10 c)"
    by (subst c) (simp add: eval_nat_numeral)
  moreover have "length (take n (drop 10 c)) = n"
    using assms(1) by simp
  ultimately show ?thesis
    by (simp add: frame_body_def decode_frame_def assms(2) [symmetric])
qed

lemma encode_decode:
  assumes n: "n = unat (rd_u16le (drop 8 c))" and len: "length c = 14 + n"
    and sync: "c ! 0 = 0xAA" "c ! 1 = 0x55"
    and ck: "wups_fletcher8 (take (8 + n) (drop 2 c)) = (c ! (10 + n), c ! (11 + n))"
    and ends: "c ! (12 + n) = 0x55" "c ! (13 + n) = 0xAA"
  shows "encode (decode_frame c) = c"
proof -
  have body: "frame_body (decode_frame c) = take (8 + n) (drop 2 c)"
    by (rule frame_body_decode [OF _ n]) (simp add: len)
  have tail: "drop (10 + n) c = [c ! (10 + n), c ! (11 + n), c ! (12 + n), c ! (13 + n)]"
  proof -
    have step: "k < length c \<Longrightarrow> drop k c = c ! k # drop (Suc k) c" for k
      by (simp add: Cons_nth_drop_Suc)
    from step [of "10 + n"] step [of "11 + n"] step [of "12 + n"] step [of "13 + n"] len
    show ?thesis by simp
  qed
  have front: "take 2 c = [0xAA, 0x55]"
    using len sync by (cases c; cases "tl c") simp_all
  have "c = take 2 c @ take (8 + n) (drop 2 c) @ drop (10 + n) c"
    using take_drop_split [of 2 "8 + n" c] append_take_drop_id [of 2 c] len by simp
  then show ?thesis
    using ck body tail front ends by (simp add: encode_def)
qed

text \<open>
  The frame test that gates snapshot and critical-event policy accepts exactly the
  encodings of frames with at most 240 payload bytes: nothing else passes, and nothing
  that a sender can produce is refused.
\<close>

theorem frame_valid_iff_encode:
  "mqtt_wups_frame_valid bs \<longleftrightarrow> (\<exists>f. frame_fits f \<and> bs = encode f)"
proof
  assume valid: "mqtt_wups_frame_valid bs"
  define n where "n = unat (rd_u16le (drop 8 bs))"
  from valid have len: "length bs = 14 + n"
    by (auto simp: mqtt_wups_frame_valid_def Let_def n_def [symmetric] split: if_splits)
  then have idx: "length bs - 2 = 12 + n" "length bs - 1 = 13 + n" "length bs - Suc 0 = 13 + n"
    by simp_all
  from valid have "n \<le> 240" "bs ! 0 = 0xAA" "bs ! 1 = 0x55"
    "bs ! (12 + n) = 0x55" "bs ! (13 + n) = 0xAA"
    "wups_fletcher8 (take (8 + n) (drop 2 bs)) = (bs ! (10 + n), bs ! (11 + n))"
    unfolding mqtt_wups_frame_valid_def Let_def n_def [symmetric] idx
    by (auto simp: len add.commute split: if_splits prod.splits)
  note facts = len this
  from facts have "encode (decode_frame bs) = bs"
    by (intro encode_decode [OF n_def]) simp_all
  moreover have "frame_fits (decode_frame bs)"
    using facts by (simp add: frame_fits_def decode_frame_def n_def [symmetric])
  ultimately show "\<exists>f. frame_fits f \<and> bs = encode f" by metis
next
  assume "\<exists>f. frame_fits f \<and> bs = encode f"
  then obtain f where fits: "frame_fits f" and bs: "bs = encode f" by blast
  obtain a b where ck: "wups_fletcher8 (frame_body f) = (a, b)" by fastforce
  define n where "n = length (f_payload f)"
  have parts: "bs = [0xAA, 0x55, f_dst f, f_src f, f_cls f, f_op f, f_flags f, f_seq f]
      @ le16 (of_nat n) @ f_payload f @ [a, b, 0x55, 0xAA]"
    by (simp add: bs encode_parts [OF ck] n_def)
  have len: "rd_u16le (drop 8 bs) = of_nat n"
    using rd_u16le_le16 by (simp add: parts)
  have un: "unat (of_nat n :: u16) = n"
    using unat_payload_len [OF fits] by (simp add: n_def)
  have body: "take (8 + n) (drop 2 bs) = frame_body f"
    using ck by (simp add: bs encode_def n_def)
  have "n \<le> 240" using fits by (simp add: frame_fits_def n_def)
  then show "mqtt_wups_frame_valid bs"
    by (simp add: mqtt_wups_frame_valid_def len un body ck)
      (simp add: parts n_def nth_append le16_def)
qed

lemma key_fields:
  assumes "push_bit 16 (ucast (a::u8)) OR push_bit 8 (ucast (b::u8)) OR ucast (c::u8)
      = (push_bit 16 (ucast a') OR push_bit 8 (ucast b') OR ucast c' :: u32)"
  shows "a = a' \<and> b = b' \<and> c = c'"
proof -
  have pick: "ucast (drop_bit 16 (push_bit 16 (ucast x) OR push_bit 8 (ucast y) OR ucast z :: u32)) = x"
    "ucast (drop_bit 8 (push_bit 16 (ucast x) OR push_bit 8 (ucast y) OR ucast z :: u32)) = y"
    "ucast (push_bit 16 (ucast x) OR push_bit 8 (ucast y) OR ucast z :: u32) = z"
    for x y z :: u8
    by (rule bit_word_eqI, auto simp: bit_simps dest: bit_imp_le_length)+
  from assms show ?thesis by (metis pick)
qed

text \<open>
  Reliable-event priority and snapshot coalescing never apply to the same frame, and a
  coalescing key identifies the reporting node, class and operation: two frames with the
  same non-zero key have the same source, class and operation, so coalescing only ever
  replaces a status report by a later one of the same kind from the same node.
\<close>

theorem snapshot_key_sound:
  "(mqtt_wups_critical_event fr \<longrightarrow> mqtt_wups_snapshot_key fr = 0)
   \<and> (mqtt_wups_snapshot_key fr \<noteq> 0 \<and> mqtt_wups_snapshot_key fr = mqtt_wups_snapshot_key gr
      \<longrightarrow> fr ! 3 = gr ! 3 \<and> fr ! 4 = gr ! 4 \<and> fr ! 5 = gr ! 5
          \<and> mqtt_wups_frame_valid fr \<and> mqtt_wups_frame_valid gr)"
proof (intro conjI impI)
  assume "mqtt_wups_critical_event fr"
  then show "mqtt_wups_snapshot_key fr = 0"
    by (auto simp: mqtt_wups_critical_event_def mqtt_wups_snapshot_key_def Let_def
        split: if_splits)
next
  have key: "mqtt_wups_snapshot_key x \<noteq> 0 \<Longrightarrow> mqtt_wups_frame_valid x
      \<and> mqtt_wups_snapshot_key x
        = push_bit 16 (ucast (x ! 3)) OR push_bit 8 (ucast (x ! 4)) OR ucast (x ! 5)" for x
    by (auto simp: mqtt_wups_snapshot_key_def Let_def split: if_splits)
  assume a: "mqtt_wups_snapshot_key fr \<noteq> 0 \<and> mqtt_wups_snapshot_key fr = mqtt_wups_snapshot_key gr"
  then have fr: "mqtt_wups_snapshot_key fr \<noteq> 0" and gr: "mqtt_wups_snapshot_key gr \<noteq> 0"
    by metis+
  from key [OF fr] key [OF gr] a
  have "fr ! 3 = gr ! 3 \<and> fr ! 4 = gr ! 4 \<and> fr ! 5 = gr ! 5"
    by (intro key_fields) simp
  with key [OF fr] key [OF gr]
  show "fr ! 3 = gr ! 3" "fr ! 4 = gr ! 4" "fr ! 5 = gr ! 5"
    "mqtt_wups_frame_valid fr" "mqtt_wups_frame_valid gr"
    by simp_all
qed

theorem snapshot_key_sound_witness:
  "mqtt_wups_snapshot_key (encode \<lparr>f_dst = 2, f_src = 1, f_cls = 4, f_op = 1, f_flags = 4,
      f_seq = 9, f_payload = [1, 0, 0, 0, 0, 0, 0, 0, 0, 0, 0, 0]\<rparr>) = 0x10401
   \<and> mqtt_wups_critical_event (encode \<lparr>f_dst = 255, f_src = 3, f_cls = 2, f_op = 16,
      f_flags = 4, f_seq = 0, f_payload = [1, 1]\<rparr>)
   \<and> mqtt_wups_snapshot_key (encode \<lparr>f_dst = 255, f_src = 3, f_cls = 2, f_op = 16,
      f_flags = 4, f_seq = 0, f_payload = [1, 1]\<rparr>) = 0"
proof -
  have k: "mqtt_wups_snapshot_key (encode \<lparr>f_dst = 2, f_src = 1, f_cls = 4, f_op = 1,
      f_flags = 4, f_seq = 9, f_payload = [1, 0, 0, 0, 0, 0, 0, 0, 0, 0, 0, 0]\<rparr>) = 0x10401"
    by code_simp
  have c: "mqtt_wups_critical_event (encode \<lparr>f_dst = 255, f_src = 3, f_cls = 2, f_op = 16,
      f_flags = 4, f_seq = 0, f_payload = [1, 1]\<rparr>)"
    by code_simp
  from k c show ?thesis
    using snapshot_key_sound [of "encode \<lparr>f_dst = 255, f_src = 3, f_cls = 2, f_op = 16,
      f_flags = 4, f_seq = 0, f_payload = [1, 1]\<rparr>"] by blast
qed

text \<open>
  The checksum detects every corruption of a single byte of the checked range, and
  every error pattern whose byte differences do not sum to zero modulo 256.
\<close>

theorem fletcher_detects:
  assumes "sum_list xs \<noteq> sum_list ys"
  shows "wups_fletcher8 xs \<noteq> wups_fletcher8 ys"
  using assms fletcher_sum [of 0 0 xs] fletcher_sum [of 0 0 ys]
  by (auto simp: wups_fletcher8_def)

theorem fletcher_detects_witness:
  "wups_fletcher8 [4, 2, 1] \<noteq> wups_fletcher8 [4, 3, 1]"
  by (rule fletcher_detects) simp

end
