(* ===== verification/Wire_Deframer.thy ===== *)
theory Wire_Deframer
  imports Wire_Protocol
begin

text \<open>
  The byte-wise receive state machines: \<open>rx_byte\<close> of \<^verbatim>\<open>main/wups_link.c\<close> (ESP32) and
  \<open>wups_rx_byte\<close> of \<^verbatim>\<open>firmware-ch32x/User/main.c\<close> (CH32X).

  The specification of a deframer is \<open>spec_step\<close>: it keeps the bytes of the current frame
  candidate, extends the candidate while it is a prefix of some frame, delivers a complete
  one, and on any failed check re-evaluates the failing byte as the first byte of a new
  candidate. The locale \<open>deframer\<close> is the contract (the machine refines \<open>spec_step\<close>
  through a view), and it carries the round trip, re-synchronisation, soundness and bounded
  recovery results once; both machines are interpretations.
\<close>

section \<open>The specification\<close>

definition cand_len :: "bytes \<Rightarrow> nat" where
  "cand_len c = unat (rd_u16le (drop 8 c))"

definition prefix_ok :: "bytes \<Rightarrow> bool" where
  "prefix_ok c \<longleftrightarrow>
     (1 \<le> length c \<longrightarrow> c ! 0 = WUPS_SYNC1) \<and>
     (2 \<le> length c \<longrightarrow> c ! 1 = WUPS_SYNC2) \<and>
     (10 \<le> length c \<longrightarrow> cand_len c \<le> WUPS_MAX_PAYLOAD \<and> length c \<le> 14 + cand_len c) \<and>
     (10 \<le> length c \<and> 12 + cand_len c \<le> length c \<longrightarrow>
        wups_fletcher8 (take (8 + cand_len c) (drop 2 c))
          = (c ! (10 + cand_len c), c ! (11 + cand_len c))) \<and>
     (10 \<le> length c \<and> 13 + cand_len c \<le> length c \<longrightarrow> c ! (12 + cand_len c) = WUPS_END1) \<and>
     (10 \<le> length c \<and> 14 + cand_len c \<le> length c \<longrightarrow> c ! (13 + cand_len c) = WUPS_END2)"

definition complete :: "bytes \<Rightarrow> bool" where
  "complete c \<longleftrightarrow> 10 \<le> length c \<and> length c = 14 + cand_len c"

definition restart :: "u8 \<Rightarrow> bytes" where
  "restart b = (if b = WUPS_SYNC1 then [b] else [])"

definition spec_step :: "bytes \<Rightarrow> u8 \<Rightarrow> bytes \<times> wups_frame option" where
  "spec_step acc b =
    (let c = acc @ [b] in
     if \<not> prefix_ok c then (restart b, None)
     else if complete c then ([], Some (decode_frame c))
     else (c, None))"

section \<open>The ESP32 machine\<close>

datatype wups_rx_state =
  WUPS_RX_SYNC1 | WUPS_RX_SYNC2 | WUPS_RX_DST | WUPS_RX_SRC | WUPS_RX_CLASS | WUPS_RX_OP
| WUPS_RX_FLAGS | WUPS_RX_SEQ | WUPS_RX_LEN_L | WUPS_RX_LEN_H | WUPS_RX_PAYLOAD
| WUPS_RX_CK_A | WUPS_RX_CK_B | WUPS_RX_END1 | WUPS_RX_END2

record s_rx =
  rx_state :: wups_rx_state
  rx_dst :: u8
  rx_src :: u8
  rx_cls :: u8
  rx_op :: u8
  rx_flags :: u8
  rx_seq :: u8
  rx_len :: u16
  rx_pidx :: u16
  rx_payload :: bytes
  rx_ck_a :: u8
  rx_exp_a :: u8
  rx_exp_b :: u8

text \<open>Receive counters and the stamp the link watchdog reads.\<close>

record link_rx =
  s_frames_rx :: u32
  s_rx_resync :: u32
  s_rx_bad :: u32
  s_frames_rx_unicast :: u32
  s_last_frame_ms :: u32

definition rx_reset :: "s_rx \<Rightarrow> s_rx" where
  "rx_reset r = r\<lparr>rx_state := WUPS_RX_SYNC1\<rparr>"

definition rx_reset_with :: "u8 \<Rightarrow> s_rx \<Rightarrow> s_rx" where
  "rx_reset_with b r =
     r\<lparr>rx_state := (if b = WUPS_SYNC1 then WUPS_RX_SYNC2 else WUPS_RX_SYNC1)\<rparr>"

definition rx_step :: "u8 \<Rightarrow> s_rx \<Rightarrow> s_rx" where
  "rx_step b r = (let a = rx_exp_a r + b in r\<lparr>rx_exp_a := a, rx_exp_b := rx_exp_b r + a\<rparr>)"

definition rx_frame :: "s_rx \<Rightarrow> wups_frame" where
  "rx_frame r = \<lparr>f_dst = rx_dst r, f_src = rx_src r, f_cls = rx_cls r, f_op = rx_op r,
     f_flags = rx_flags r, f_seq = rx_seq r, f_payload = take (unat (rx_len r)) (rx_payload r)\<rparr>"

text \<open>
  \<open>deliver_frame\<close> updates the counters; the frame it hands to \<open>on_local_frame\<close> (with the
  verified checksum bytes) is the second component, \<open>None\<close> when the destination is not
  this node. \<open>now\<close> is the millisecond clock the handler samples.
\<close>

definition deliver_frame ::
  "u32 \<Rightarrow> s_rx \<Rightarrow> link_rx \<Rightarrow> link_rx \<times> (wups_frame \<times> u8 \<times> u8) option" where
  "deliver_frame now r k =
    (if rx_dst r \<noteq> WUPS_ADDR_ESP32 \<and> rx_dst r \<noteq> WUPS_ADDR_BROADCAST \<and>
        rx_dst r \<noteq> WUPS_ADDR_INTERNAL then (k, None)
     else
       let k1 = k\<lparr>s_frames_rx := s_frames_rx k + 1\<rparr>;
           k2 = (if rx_dst r = WUPS_ADDR_ESP32
                 then k1\<lparr>s_frames_rx_unicast := s_frames_rx_unicast k1 + 1,
                         s_last_frame_ms := now\<rparr>
                 else k1)
       in (k2, Some (rx_frame r, rx_exp_a r, rx_exp_b r)))"

datatype rx_out = NoFrame | Deframed wups_frame "(wups_frame \<times> u8 \<times> u8) option"

fun rx_byte :: "u32 \<Rightarrow> u8 \<Rightarrow> s_rx \<times> link_rx \<Rightarrow> (s_rx \<times> link_rx) \<times> rx_out" where
  "rx_byte now b (r, k) =
    (case rx_state r of
       WUPS_RX_SYNC1 \<Rightarrow>
         ((if b = WUPS_SYNC1 then r\<lparr>rx_state := WUPS_RX_SYNC2\<rparr> else r, k), NoFrame)
     | WUPS_RX_SYNC2 \<Rightarrow>
         (if b = WUPS_SYNC2
          then ((r\<lparr>rx_exp_a := 0, rx_exp_b := 0, rx_pidx := 0, rx_state := WUPS_RX_DST\<rparr>, k),
                NoFrame)
          else ((rx_reset_with b r, k\<lparr>s_rx_resync := s_rx_resync k + 1\<rparr>), NoFrame))
     | WUPS_RX_DST \<Rightarrow> (((rx_step b (r\<lparr>rx_dst := b\<rparr>))\<lparr>rx_state := WUPS_RX_SRC\<rparr>, k), NoFrame)
     | WUPS_RX_SRC \<Rightarrow> (((rx_step b (r\<lparr>rx_src := b\<rparr>))\<lparr>rx_state := WUPS_RX_CLASS\<rparr>, k), NoFrame)
     | WUPS_RX_CLASS \<Rightarrow> (((rx_step b (r\<lparr>rx_cls := b\<rparr>))\<lparr>rx_state := WUPS_RX_OP\<rparr>, k), NoFrame)
     | WUPS_RX_OP \<Rightarrow> (((rx_step b (r\<lparr>rx_op := b\<rparr>))\<lparr>rx_state := WUPS_RX_FLAGS\<rparr>, k), NoFrame)
     | WUPS_RX_FLAGS \<Rightarrow> (((rx_step b (r\<lparr>rx_flags := b\<rparr>))\<lparr>rx_state := WUPS_RX_SEQ\<rparr>, k), NoFrame)
     | WUPS_RX_SEQ \<Rightarrow> (((rx_step b (r\<lparr>rx_seq := b\<rparr>))\<lparr>rx_state := WUPS_RX_LEN_L\<rparr>, k), NoFrame)
     | WUPS_RX_LEN_L \<Rightarrow>
         (((rx_step b (r\<lparr>rx_len := ucast b\<rparr>))\<lparr>rx_state := WUPS_RX_LEN_H\<rparr>, k), NoFrame)
     | WUPS_RX_LEN_H \<Rightarrow>
         (let r1 = rx_step b (r\<lparr>rx_len := rx_len r OR push_bit 8 (ucast b)\<rparr>) in
          if unat (rx_len r1) > WUPS_MAX_PAYLOAD
          then ((rx_reset_with b r1, k\<lparr>s_rx_bad := s_rx_bad k + 1\<rparr>), NoFrame)
          else ((r1\<lparr>rx_state := (if rx_len r1 = 0 then WUPS_RX_CK_A else WUPS_RX_PAYLOAD)\<rparr>, k),
                NoFrame))
     | WUPS_RX_PAYLOAD \<Rightarrow>
         (let r1 = rx_step b (r\<lparr>rx_payload := (rx_payload r)[unat (rx_pidx r) := b],
                                rx_pidx := rx_pidx r + 1\<rparr>)
          in ((if rx_pidx r1 \<ge> rx_len r1 then r1\<lparr>rx_state := WUPS_RX_CK_A\<rparr> else r1, k), NoFrame))
     | WUPS_RX_CK_A \<Rightarrow> ((r\<lparr>rx_ck_a := b, rx_state := WUPS_RX_CK_B\<rparr>, k), NoFrame)
     | WUPS_RX_CK_B \<Rightarrow>
         (if rx_ck_a r = rx_exp_a r \<and> b = rx_exp_b r
          then ((r\<lparr>rx_state := WUPS_RX_END1\<rparr>, k), NoFrame)
          else ((rx_reset_with b r, k\<lparr>s_rx_bad := s_rx_bad k + 1\<rparr>), NoFrame))
     | WUPS_RX_END1 \<Rightarrow>
         (if b = WUPS_END1 then ((r\<lparr>rx_state := WUPS_RX_END2\<rparr>, k), NoFrame)
          else ((rx_reset_with b r, k\<lparr>s_rx_bad := s_rx_bad k + 1\<rparr>), NoFrame))
     | WUPS_RX_END2 \<Rightarrow>
         (if b = WUPS_END2
          then (case deliver_frame now r k of
                  (k', d) \<Rightarrow> ((rx_reset r, k'), Deframed (rx_frame r) d))
          else ((rx_reset_with b r, k\<lparr>s_rx_bad := s_rx_bad k + 1\<rparr>), NoFrame)))"

section \<open>The CH32X machine\<close>

record wups_rx =
  wx_state :: wups_rx_state
  wx_dst :: u8
  wx_src :: u8
  wx_cls :: u8
  wx_op :: u8
  wx_flags :: u8
  wx_seq :: u8
  wx_len :: u16
  wx_pidx :: u16
  wx_payload :: bytes
  wx_ck_a :: u8
  wx_ck_b :: u8
  wx_exp_a :: u8
  wx_exp_b :: u8

definition wups_rx_reset :: "wups_rx \<Rightarrow> wups_rx" where
  "wups_rx_reset r = r\<lparr>wx_state := WUPS_RX_SYNC1\<rparr>"

definition wups_rx_reset_with :: "u8 \<Rightarrow> wups_rx \<Rightarrow> wups_rx" where
  "wups_rx_reset_with b r =
     r\<lparr>wx_state := (if b = WUPS_SYNC1 then WUPS_RX_SYNC2 else WUPS_RX_SYNC1)\<rparr>"

definition wups_rx_step :: "u8 \<Rightarrow> wups_rx \<Rightarrow> wups_rx" where
  "wups_rx_step b r =
     (let a = wx_exp_a r + b in r\<lparr>wx_exp_a := a, wx_exp_b := wx_exp_b r + a\<rparr>)"

definition wx_frame :: "wups_rx \<Rightarrow> wups_frame" where
  "wx_frame r = \<lparr>f_dst = wx_dst r, f_src = wx_src r, f_cls = wx_cls r, f_op = wx_op r,
     f_flags = wx_flags r, f_seq = wx_seq r, f_payload = take (unat (wx_len r)) (wx_payload r)\<rparr>"

text \<open>The frame handed to \<open>wups_handle_frame\<close>, if any, is the second component.\<close>

definition wups_rx_byte :: "u8 \<Rightarrow> wups_rx \<Rightarrow> wups_rx \<times> wups_frame option" where
  "wups_rx_byte b r =
    (case wx_state r of
       WUPS_RX_SYNC1 \<Rightarrow> (if b = WUPS_SYNC1 then r\<lparr>wx_state := WUPS_RX_SYNC2\<rparr> else r, None)
     | WUPS_RX_SYNC2 \<Rightarrow>
         (if b = WUPS_SYNC2
          then (r\<lparr>wx_exp_a := 0, wx_exp_b := 0, wx_pidx := 0, wx_state := WUPS_RX_DST\<rparr>, None)
          else (wups_rx_reset_with b r, None))
     | WUPS_RX_DST \<Rightarrow> ((wups_rx_step b (r\<lparr>wx_dst := b\<rparr>))\<lparr>wx_state := WUPS_RX_SRC\<rparr>, None)
     | WUPS_RX_SRC \<Rightarrow> ((wups_rx_step b (r\<lparr>wx_src := b\<rparr>))\<lparr>wx_state := WUPS_RX_CLASS\<rparr>, None)
     | WUPS_RX_CLASS \<Rightarrow> ((wups_rx_step b (r\<lparr>wx_cls := b\<rparr>))\<lparr>wx_state := WUPS_RX_OP\<rparr>, None)
     | WUPS_RX_OP \<Rightarrow> ((wups_rx_step b (r\<lparr>wx_op := b\<rparr>))\<lparr>wx_state := WUPS_RX_FLAGS\<rparr>, None)
     | WUPS_RX_FLAGS \<Rightarrow> ((wups_rx_step b (r\<lparr>wx_flags := b\<rparr>))\<lparr>wx_state := WUPS_RX_SEQ\<rparr>, None)
     | WUPS_RX_SEQ \<Rightarrow> ((wups_rx_step b (r\<lparr>wx_seq := b\<rparr>))\<lparr>wx_state := WUPS_RX_LEN_L\<rparr>, None)
     | WUPS_RX_LEN_L \<Rightarrow>
         ((wups_rx_step b (r\<lparr>wx_len := ucast b\<rparr>))\<lparr>wx_state := WUPS_RX_LEN_H\<rparr>, None)
     | WUPS_RX_LEN_H \<Rightarrow>
         (let r1 = wups_rx_step b (r\<lparr>wx_len := wx_len r OR push_bit 8 (ucast b)\<rparr>) in
          if unat (wx_len r1) > WUPS_MAX_PAYLOAD then (wups_rx_reset_with b r1, None)
          else (r1\<lparr>wx_state := (if wx_len r1 = 0 then WUPS_RX_CK_A else WUPS_RX_PAYLOAD)\<rparr>, None))
     | WUPS_RX_PAYLOAD \<Rightarrow>
         (let r1 = wups_rx_step b (r\<lparr>wx_payload := (wx_payload r)[unat (wx_pidx r) := b],
                                     wx_pidx := wx_pidx r + 1\<rparr>)
          in (if wx_pidx r1 \<ge> wx_len r1 then r1\<lparr>wx_state := WUPS_RX_CK_A\<rparr> else r1, None))
     | WUPS_RX_CK_A \<Rightarrow> (r\<lparr>wx_ck_a := b, wx_state := WUPS_RX_CK_B\<rparr>, None)
     | WUPS_RX_CK_B \<Rightarrow>
         (let r1 = r\<lparr>wx_ck_b := b\<rparr> in
          if wx_ck_a r1 = wx_exp_a r1 \<and> wx_ck_b r1 = wx_exp_b r1
          then (r1\<lparr>wx_state := WUPS_RX_END1\<rparr>, None)
          else (wups_rx_reset_with b r1, None))
     | WUPS_RX_END1 \<Rightarrow>
         (if b = WUPS_END1 then (r\<lparr>wx_state := WUPS_RX_END2\<rparr>, None)
          else (wups_rx_reset_with b r, None))
     | WUPS_RX_END2 \<Rightarrow>
         (if b = WUPS_END2 then (wups_rx_reset r, Some (wx_frame r))
          else (wups_rx_reset_with b r, None)))"

section \<open>Facts about frame candidates\<close>

lemma prefix_ok_short:
  "length c < 10 \<Longrightarrow> prefix_ok c \<longleftrightarrow>
     (1 \<le> length c \<longrightarrow> c ! 0 = 0xAA) \<and> (2 \<le> length c \<longrightarrow> c ! 1 = 0x55)"
  by (auto simp: prefix_ok_def)

lemma not_complete_short: "length c < 14 \<Longrightarrow> \<not> complete c"
  by (simp add: complete_def)

lemma cand_len_append: "10 \<le> length c \<Longrightarrow> cand_len (c @ d) = cand_len c"
  by (simp add: cand_len_def rd_u16le_def nth_append)

lemma cand_len_take: "10 \<le> n \<Longrightarrow> n \<le> length c \<Longrightarrow> cand_len (take n c) = cand_len c"
  by (simp add: cand_len_def rd_u16le_def)

lemma prefix_ok_take:
  assumes "prefix_ok c"
  shows "prefix_ok (take n c)"
proof (cases "n \<le> length c")
  case False
  with assms show ?thesis by simp
next
  case True
  show ?thesis
  proof (cases "n < 10")
    case True
    with assms \<open>n \<le> length c\<close> show ?thesis
      by (auto simp: prefix_ok_short) (auto simp: prefix_ok_def)
  next
    case False
    with True have c: "cand_len (take n c) = cand_len c" by (simp add: cand_len_take)
    have t: "12 + k \<le> n \<Longrightarrow> take (8 + k) (drop 2 (take n c)) = take (8 + k) (drop 2 c)" for k
      by (simp add: drop_take min_def)
    from assms True False show ?thesis
      unfolding prefix_ok_def c by (auto simp: t)
  qed
qed

lemma prefix_ok_encode:
  assumes "frame_fits f"
  shows "prefix_ok (encode f)" "complete (encode f)"
proof -
  obtain a b where ck: "wups_fletcher8 (frame_body f) = (a, b)" by fastforce
  define n where "n = length (f_payload f)"
  have parts: "encode f = [0xAA, 0x55, f_dst f, f_src f, f_cls f, f_op f, f_flags f, f_seq f]
      @ le16 (of_nat n) @ f_payload f @ [a, b, 0x55, 0xAA]"
    by (simp add: encode_parts [OF ck] n_def)
  have len: "cand_len (encode f) = n"
    using unat_payload_len [OF assms] by (simp add: cand_len_def parts rd_u16le_le16 n_def [symmetric])
  have body: "take (8 + n) (drop 2 (encode f)) = frame_body f"
    using ck by (simp add: encode_def n_def)
  have "n \<le> 240" using assms by (simp add: frame_fits_def n_def)
  then show "prefix_ok (encode f)"
    unfolding prefix_ok_def len body ck
    by (simp add: parts n_def [symmetric]) (simp add: nth_append le16_def n_def)
  show "complete (encode f)"
    unfolding complete_def len by (simp add: encode_length n_def)
qed

lemma complete_prefix_is_frame:
  assumes "prefix_ok c" and "complete c"
  shows "encode (decode_frame c) = c" "frame_fits (decode_frame c)"
proof -
  from assms(2) have len: "length c = 14 + cand_len c" by (simp add: complete_def)
  show "encode (decode_frame c) = c"
  proof (rule encode_decode)
    show "cand_len c = unat (rd_u16le (drop 8 c))" by (rule cand_len_def)
  qed (use assms(1) len in \<open>simp_all add: prefix_ok_def\<close>)
  show "frame_fits (decode_frame c)"
  proof -
    have "cand_len c \<le> 240" using assms(1) len by (simp add: prefix_ok_def)
    then show ?thesis by (simp add: frame_fits_def decode_frame_def flip: cand_len_def)
  qed
qed

definition candidate :: "bytes \<Rightarrow> bool" where
  "candidate c \<longleftrightarrow> prefix_ok c \<and> \<not> complete c"

lemma candidate_Nil [simp]: "candidate []"
  by (simp add: candidate_def prefix_ok_short not_complete_short)

lemma candidate_restart [simp]: "candidate (restart b)"
  by (simp add: candidate_def restart_def prefix_ok_short not_complete_short)

lemma candidate_spec_step: "candidate acc \<Longrightarrow> candidate (fst (spec_step acc b))"
  by (auto simp: spec_step_def Let_def) (simp add: candidate_def)

lemma candidate_length: "candidate c \<Longrightarrow> length c \<le> 253"
  by (cases "10 \<le> length c") (auto simp: candidate_def prefix_ok_def complete_def)

lemma spec_step_suffix:
  assumes "candidate acc"
  shows "\<exists>pre. acc @ [b] = pre @ fst (spec_step acc b)"
    "snd (spec_step acc b) = Some f \<Longrightarrow> acc @ [b] = encode f \<and> frame_fits f"
  using complete_prefix_is_frame [of "acc @ [b]"]
  by (auto simp: spec_step_def Let_def restart_def split: if_splits)

section \<open>The deframer contract and its consequences\<close>

fun deframe :: "('s \<Rightarrow> u8 \<Rightarrow> 's \<times> wups_frame option) \<Rightarrow> 's \<Rightarrow> bytes \<Rightarrow> 's \<times> wups_frame list" where
  "deframe step s [] = (s, [])"
| "deframe step s (b # bs) =
     (case step s b of (s', out) \<Rightarrow>
       (case deframe step s' bs of (s'', outs) \<Rightarrow>
         (s'', (case out of None \<Rightarrow> outs | Some f \<Rightarrow> f # outs))))"

lemma fst_deframe_Cons:
  "fst (deframe step s (b # bs)) = fst (deframe step (fst (step s b)) bs)"
  by (simp split: prod.splits)

lemma snd_deframe_Cons:
  "snd (deframe step s (b # bs)) =
     (case snd (step s b) of None \<Rightarrow> [] | Some f \<Rightarrow> [f]) @ snd (deframe step (fst (step s b)) bs)"
  by (simp split: prod.splits option.splits)

lemmas deframe_Cons = fst_deframe_Cons snd_deframe_Cons

lemma deframe_append:
  "deframe step s (xs @ ys) =
     (case deframe step s xs of (s', o1) \<Rightarrow>
       (case deframe step s' ys of (s'', o2) \<Rightarrow> (s'', o1 @ o2)))"
  by (induction xs arbitrary: s) (auto split: prod.splits option.splits)

lemma snd_deframe_append:
  "snd (deframe step s (xs @ ys)) =
     snd (deframe step s xs) @ snd (deframe step (fst (deframe step s xs)) ys)"
  by (simp add: deframe_append split: prod.splits)

locale deframer =
  fixes step :: "'s \<Rightarrow> u8 \<Rightarrow> 's \<times> wups_frame option"
    and view :: "'s \<Rightarrow> bytes"
    and ok :: "'s \<Rightarrow> bool"
  assumes ok_step: "ok s \<Longrightarrow> ok (fst (step s b))"
    and view_step: "ok s \<Longrightarrow> view (fst (step s b)) = fst (spec_step (view s) b)"
    and out_step: "ok s \<Longrightarrow> snd (step s b) = snd (spec_step (view s) b)"
    and ok_view: "ok s \<Longrightarrow> candidate (view s)"
begin

lemma ok_deframe: "ok s \<Longrightarrow> ok (fst (deframe step s bs))"
  by (induction bs arbitrary: s) (auto simp: fst_deframe_Cons ok_step simp del: deframe.simps(2))

lemma deframe_spec:
  "ok s \<Longrightarrow> view (fst (deframe step s bs)) = fst (deframe spec_step (view s) bs)
     \<and> snd (deframe step s bs) = snd (deframe spec_step (view s) bs)"
  by (induction bs arbitrary: s)
    (auto simp: deframe_Cons ok_step view_step out_step simp del: deframe.simps(2))

end

lemma deframe_extend:
  assumes "candidate acc" and "prefix_ok (acc @ bs)" and "\<And>n. n \<le> length bs \<Longrightarrow> \<not> complete (acc @ take n bs)"
  shows "deframe spec_step acc bs = (acc @ bs, [])"
  using assms
proof (induction bs arbitrary: acc)
  case Nil
  then show ?case by simp
next
  case (Cons b bs)
  have ok: "prefix_ok (acc @ [b])"
    using prefix_ok_take [OF Cons.prems(2), of "Suc (length acc)"] by simp
  moreover have nc: "\<not> complete (acc @ [b])" using Cons.prems(3) [of 1] by simp
  ultimately have st: "spec_step acc b = (acc @ [b], None)"
    by (simp add: spec_step_def Let_def)
  have "deframe spec_step (acc @ [b]) bs = ((acc @ [b]) @ bs, [])"
  proof (rule Cons.IH)
    show "candidate (acc @ [b])" using ok nc by (simp add: candidate_def)
    show "prefix_ok ((acc @ [b]) @ bs)" using Cons.prems(2) by simp
    show "\<not> complete ((acc @ [b]) @ take n bs)" if "n \<le> length bs" for n
      using that Cons.prems(3) [of "Suc n"] by simp
  qed
  with st show ?case by simp
qed

lemma not_complete_proper:
  assumes "frame_fits f" and "n < length (encode f)"
  shows "\<not> complete (take n (encode f))"
  using assms prefix_ok_encode(2) [OF assms(1)] cand_len_take [of n "encode f"]
  by (cases "10 \<le> n") (auto simp: complete_def)

lemma deframe_encode_from:
  assumes fits: "frame_fits f" and enc: "encode f = acc @ bs @ [b]" and cand: "candidate acc"
  shows "deframe spec_step acc (bs @ [b]) = ([], [f])"
proof -
  have ext: "deframe spec_step acc bs = (acc @ bs, [])"
  proof (rule deframe_extend [OF cand])
    show "prefix_ok (acc @ bs)"
      using prefix_ok_take [OF prefix_ok_encode(1) [OF fits], of "length (acc @ bs)"] enc by simp
    show "\<not> complete (acc @ take n bs)" if "n \<le> length bs" for n
      using not_complete_proper [OF fits, of "length acc + n"] enc that by simp
  qed
  have "spec_step (acc @ bs) b = ([], Some f)"
    using prefix_ok_encode [OF fits] decode_encode [OF fits] enc
    by (simp add: spec_step_def Let_def)
  with ext show ?thesis by (simp add: deframe_append)
qed

lemma encode_ends:
  obtains bs where "encode f = [0xAA] @ bs @ [0xAA]"
proof -
  obtain a b where ck: "wups_fletcher8 (frame_body f) = (a, b)" by fastforce
  show ?thesis
    by (rule that [of "0x55 # frame_body f @ [a, b, 0x55]"]) (simp add: encode_def ck)
qed

lemma spec_hunting_frame:
  assumes "frame_fits f" and "acc = [] \<or> acc = [0xAA]"
  shows "deframe spec_step acc (encode f) = ([], [f])"
proof -
  obtain bs where enc: "encode f = [0xAA] @ bs @ [0xAA]" by (rule encode_ends)
  have one: "candidate [0xAA]" by (simp add: candidate_def prefix_ok_short not_complete_short)
  have first: "spec_step acc 0xAA = ([0xAA], None)"
    using assms(2) by (auto simp: spec_step_def Let_def restart_def prefix_ok_short not_complete_short)
  have "deframe spec_step [0xAA] (bs @ [0xAA]) = ([], [f])"
    by (rule deframe_encode_from [OF assms(1) _ one]) (simp add: enc)
  with first show ?thesis by (simp add: enc)
qed

lemma spec_sound:
  assumes "candidate acc" and "f \<in> set (snd (deframe spec_step acc bs))"
  shows "frame_fits f \<and> (\<exists>pre suf. acc @ bs = pre @ encode f @ suf)"
  using assms
proof (induction bs arbitrary: acc)
  case Nil
  then show ?case by simp
next
  case (Cons b bs)
  let ?acc = "fst (spec_step acc b)"
  from Cons.prems(2) consider "snd (spec_step acc b) = Some f"
    | "f \<in> set (snd (deframe spec_step ?acc bs))"
    by (auto simp: snd_deframe_Cons simp del: deframe.simps(2) split: option.splits)
  then show ?case
  proof cases
    case 1
    from spec_step_suffix(2) [OF Cons.prems(1) this]
    have "frame_fits f" "acc @ b # bs = [] @ encode f @ bs" by (auto simp flip: append_assoc)
    then show ?thesis by blast
  next
    case 2
    obtain p where p: "acc @ [b] = p @ ?acc"
      using spec_step_suffix(1) [OF Cons.prems(1)] by blast
    from Cons.IH [OF candidate_spec_step [OF Cons.prems(1)] 2] obtain q suf
      where fits: "frame_fits f" and q: "?acc @ bs = q @ encode f @ suf" by blast
    have "acc @ b # bs = (p @ ?acc) @ bs" by (simp flip: p)
    also have "\<dots> = (p @ q) @ encode f @ suf" by (simp add: q)
    finally show ?thesis using fits by blast
  qed
qed

lemma spec_idle_recovers:
  assumes "candidate acc"
  shows "deframe spec_step acc (replicate (254 - length acc) 0) = ([], [])"
proof -
  have zero: "spec_step acc0 0 = (if prefix_ok (acc0 @ [0]) then (acc0 @ [0], None) else ([], None))"
    if "candidate acc0" for acc0
  proof -
    have "\<not> complete (acc0 @ [0])" if ok: "prefix_ok (acc0 @ [0])"
    proof
      assume comp: "complete (acc0 @ [0])"
      then have "(acc0 @ [0]) ! (13 + cand_len (acc0 @ [0])) = 0xAA"
        using ok by (simp add: prefix_ok_def complete_def)
      moreover have "13 + cand_len (acc0 @ [0]) = length acc0"
        using comp by (simp add: complete_def)
      ultimately show False by simp
    qed
    then show ?thesis by (simp add: spec_step_def Let_def restart_def)
  qed
  have idle: "deframe spec_step [] (replicate n 0) = ([], [])" for n
    by (induction n) (simp_all add: zero prefix_ok_short)
  have "candidate acc \<Longrightarrow> 254 \<le> length acc + n \<Longrightarrow>
      deframe spec_step acc (replicate n 0) = ([], [])" for n
  proof (induction n arbitrary: acc)
    case 0
    then show ?case using candidate_length by fastforce
  next
    case (Suc n)
    have c': "candidate (fst (spec_step acc 0))" by (rule candidate_spec_step [OF Suc.prems(1)])
    show ?case
    proof (cases "prefix_ok (acc @ [0])")
      case True
      with c' Suc.prems zero [OF Suc.prems(1)] have "candidate (acc @ [0])" by simp
      with Suc.IH [of "acc @ [0]"] Suc.prems True zero [OF Suc.prems(1)] show ?thesis by simp
    next
      case False
      with zero [OF Suc.prems(1)] idle [of n] show ?thesis by simp
    qed
  qed
  from this [OF assms, of "254 - length acc"] show ?thesis by simp
qed

context deframer
begin

lemma round_trip:
  assumes "ok s" and "view s = [] \<or> view s = [0xAA]" and "frame_fits f"
  shows "view (fst (deframe step s (encode f))) = []" "snd (deframe step s (encode f)) = [f]"
  using deframe_spec [OF assms(1), of "encode f"] spec_hunting_frame [OF assms(3,2)] by simp_all

lemma sound:
  assumes "ok s" and "f \<in> set (snd (deframe step s bs))"
  shows "frame_fits f \<and> (\<exists>pre suf. view s @ bs = pre @ encode f @ suf)"
  using deframe_spec [OF assms(1), of bs] spec_sound [OF ok_view [OF assms(1)], of f bs] assms(2)
  by simp

lemma idle_recovers:
  assumes "ok s" and "254 \<le> n"
  shows "view (fst (deframe step s (replicate n 0))) = []" "snd (deframe step s (replicate n 0)) = []"
proof -
  have len: "length (view s) \<le> 253" using candidate_length [OF ok_view [OF assms(1)]] .
  have "deframe spec_step [] (replicate k 0) = ([], [])" for k
    by (induction k) (simp_all add: spec_step_def Let_def restart_def prefix_ok_short)
  moreover have "replicate n (0::u8) = replicate (254 - length (view s)) 0
      @ replicate (n - (254 - length (view s))) 0"
    using assms(2) by (simp add: replicate_add [symmetric])
  ultimately have "deframe spec_step (view s) (replicate n 0) = ([], [])"
    using spec_idle_recovers [OF ok_view [OF assms(1)]] by (simp add: deframe_append)
  with deframe_spec [OF assms(1), of "replicate n 0"]
  show "view (fst (deframe step s (replicate n 0))) = []"
    "snd (deframe step s (replicate n 0)) = []" by simp_all
qed

end

section \<open>The ESP32 machine refines the specification\<close>

definition rx_head :: "s_rx \<Rightarrow> bytes" where
  "rx_head r = [0xAA, 0x55, rx_dst r, rx_src r, rx_cls r, rx_op r, rx_flags r, rx_seq r]
     @ le16 (rx_len r)"

definition rx_data :: "s_rx \<Rightarrow> bytes" where
  "rx_data r = take (unat (rx_len r)) (rx_payload r)"

fun rx_view :: "s_rx \<Rightarrow> bytes" where
  "rx_view r =
    (case rx_state r of
       WUPS_RX_SYNC1 \<Rightarrow> []
     | WUPS_RX_SYNC2 \<Rightarrow> [0xAA]
     | WUPS_RX_DST \<Rightarrow> take 2 (rx_head r)
     | WUPS_RX_SRC \<Rightarrow> take 3 (rx_head r)
     | WUPS_RX_CLASS \<Rightarrow> take 4 (rx_head r)
     | WUPS_RX_OP \<Rightarrow> take 5 (rx_head r)
     | WUPS_RX_FLAGS \<Rightarrow> take 6 (rx_head r)
     | WUPS_RX_SEQ \<Rightarrow> take 7 (rx_head r)
     | WUPS_RX_LEN_L \<Rightarrow> take 8 (rx_head r)
     | WUPS_RX_LEN_H \<Rightarrow> take 9 (rx_head r)
     | WUPS_RX_PAYLOAD \<Rightarrow> rx_head r @ take (unat (rx_pidx r)) (rx_payload r)
     | WUPS_RX_CK_A \<Rightarrow> rx_head r @ rx_data r
     | WUPS_RX_CK_B \<Rightarrow> rx_head r @ rx_data r @ [rx_ck_a r]
     | WUPS_RX_END1 \<Rightarrow> rx_head r @ rx_data r @ [rx_exp_a r, rx_exp_b r]
     | WUPS_RX_END2 \<Rightarrow> rx_head r @ rx_data r @ [rx_exp_a r, rx_exp_b r, 0x55])"

text \<open>The bytes the running checksum covers in each state.\<close>

fun rx_checked :: "s_rx \<Rightarrow> bytes" where
  "rx_checked r =
    (case rx_state r of
       WUPS_RX_CK_B \<Rightarrow> drop 2 (rx_head r @ rx_data r)
     | WUPS_RX_END1 \<Rightarrow> drop 2 (rx_head r @ rx_data r)
     | WUPS_RX_END2 \<Rightarrow> drop 2 (rx_head r @ rx_data r)
     | _ \<Rightarrow> drop 2 (rx_view r))"

definition rx_ok :: "s_rx \<Rightarrow> bool" where
  "rx_ok r \<longleftrightarrow> length (rx_payload r) = WUPS_MAX_PAYLOAD \<and> candidate (rx_view r)
     \<and> (rx_state r \<notin> {WUPS_RX_SYNC1, WUPS_RX_SYNC2} \<longrightarrow>
          (rx_exp_a r, rx_exp_b r) = wups_fletcher8 (rx_checked r))
     \<and> (rx_state r \<in> {WUPS_RX_DST, WUPS_RX_SRC, WUPS_RX_CLASS, WUPS_RX_OP, WUPS_RX_FLAGS,
            WUPS_RX_SEQ, WUPS_RX_LEN_L, WUPS_RX_LEN_H} \<longrightarrow> rx_pidx r = 0)
     \<and> (rx_state r = WUPS_RX_LEN_H \<longrightarrow> rx_len r = ucast (ucast (rx_len r) :: u8))
     \<and> (rx_state r = WUPS_RX_PAYLOAD \<longrightarrow> rx_pidx r < rx_len r)
     \<and> (rx_state r \<in> {WUPS_RX_PAYLOAD, WUPS_RX_CK_A, WUPS_RX_CK_B, WUPS_RX_END1, WUPS_RX_END2}
          \<longrightarrow> unat (rx_len r) \<le> WUPS_MAX_PAYLOAD)"

lemma cand_len_head: "cand_len ([a0, a1, a2, a3, a4, a5, a6, a7] @ le16 n @ rest) = unat n"
  by (simp add: cand_len_def rd_u16le_le16)

lemma cand_len_rx_head [simp]: "cand_len (rx_head r @ rest) = unat (rx_len r)"
  using cand_len_head by (simp add: rx_head_def)

lemma rx_head_length [simp]: "length (rx_head r) = 10"
  by (simp add: rx_head_def)

lemma rx_head_state [simp]: "rx_head (r\<lparr>rx_state := x\<rparr>) = rx_head r"
  "rx_head (r\<lparr>rx_ck_a := y\<rparr>) = rx_head r"
  by (simp_all add: rx_head_def)

lemma rx_data_state [simp]: "rx_data (r\<lparr>rx_state := x\<rparr>) = rx_data r"
  "rx_data (r\<lparr>rx_ck_a := y\<rparr>) = rx_data r"
  by (simp_all add: rx_data_def)

lemma rx_data_length: "unat (rx_len r) \<le> 240 \<Longrightarrow> length (rx_payload r) = 240 \<Longrightarrow>
    length (rx_data r) = unat (rx_len r)"
  by (simp add: rx_data_def)

lemma rx_head_sync [simp]: "(rx_head r @ rest) ! 0 = 0xAA" "(rx_head r @ rest) ! 1 = 0x55"
  "(rx_head r @ rest) ! Suc 0 = 0x55"
  by (simp_all add: rx_head_def)

lemma le16_ucast: "le16 (ucast (b::u8)) = [b, 0]"
  unfolding le16_def byte_mask
  by (fastforce intro!: bit_word_eqI simp: bit_simps dest: bit_imp_le_length)

text \<open>What the specification does next, by the number of bytes seen so far.\<close>

lemma spec_short:
  assumes "candidate acc" and "2 \<le> length acc" and "length acc < 9"
  shows "spec_step acc b = (acc @ [b], None)"
  using assms
  by (auto simp: spec_step_def Let_def candidate_def prefix_ok_short not_complete_short nth_append)

lemma spec_payload:
  assumes "candidate acc" and "10 \<le> length acc" and "length acc < 11 + cand_len acc"
  shows "spec_step acc b = (acc @ [b], None)"
  using assms
  by (auto simp: spec_step_def Let_def candidate_def prefix_ok_def complete_def nth_append
      cand_len_append)

lemma spec_len_h:
  assumes "candidate acc" and "length acc = 9"
  shows "spec_step acc b =
    (if cand_len (acc @ [b]) \<le> 240 then (acc @ [b], None) else (restart b, None))"
  using assms
  by (auto simp: spec_step_def Let_def candidate_def prefix_ok_def complete_def nth_append)

lemma spec_ck_b:
  assumes "candidate (c @ [x])" and "length c = 10 + cand_len c"
  shows "spec_step (c @ [x]) b =
    (if wups_fletcher8 (drop 2 c) = (x, b) then (c @ [x, b], None) else (restart b, None))"
proof -
  have len: "cand_len (c @ d) = cand_len c" for d
    using assms(2) by (simp add: cand_len_append)
  have tk: "take (8 + cand_len c) (drop 2 (c @ d)) = drop 2 c" for d
    using assms(2) by simp
  have nth: "(c @ [x, b]) ! (10 + cand_len c) = x" "(c @ [x, b]) ! (11 + cand_len c) = b"
    using assms(2) by (simp_all add: nth_append)
  have "prefix_ok (c @ [x, b]) \<longleftrightarrow> wups_fletcher8 (drop 2 c) = (x, b)"
    using assms unfolding prefix_ok_def candidate_def len tk nth
    by (auto simp: nth_append)
  then show ?thesis
    using assms(2) by (simp add: spec_step_def Let_def complete_def len)
qed

lemma spec_end1:
  assumes "candidate (c @ [x, y])" and "length c = 10 + cand_len c"
  shows "spec_step (c @ [x, y]) b =
    (if b = 0x55 then (c @ [x, y, b], None) else (restart b, None))"
proof -
  have len: "cand_len (c @ d) = cand_len c" for d
    using assms(2) by (simp add: cand_len_append)
  have "prefix_ok (c @ [x, y, b]) \<longleftrightarrow> b = 0x55"
    using assms unfolding prefix_ok_def candidate_def len by (auto simp: nth_append)
  then show ?thesis
    using assms(2) by (simp add: spec_step_def Let_def complete_def len)
qed

lemma spec_end2:
  assumes "candidate (c @ [x, y, z])" and "length c = 10 + cand_len c"
  shows "spec_step (c @ [x, y, z]) b =
    (if b = 0xAA then ([], Some (decode_frame (c @ [x, y, z, b]))) else (restart b, None))"
proof -
  have len: "cand_len (c @ d) = cand_len c" for d
    using assms(2) by (simp add: cand_len_append)
  have "prefix_ok (c @ [x, y, z, b]) \<longleftrightarrow> b = 0xAA"
    using assms unfolding prefix_ok_def candidate_def len by (auto simp: nth_append)
  then show ?thesis
    using assms(2) by (simp add: spec_step_def Let_def complete_def len)
qed

lemma spec_sync:
  "spec_step [] b = (restart b, None)"
  "spec_step [0xAA] b = (if b = 0x55 then ([0xAA, 0x55], None) else (restart b, None))"
  by (simp_all add: spec_step_def Let_def restart_def prefix_ok_short not_complete_short)

text \<open>
  Refinement of one byte. \<open>out_frame\<close> is the complete frame the machine recognised,
  whether or not \<open>deliver_frame\<close> then accepts its destination.
\<close>

definition out_frame :: "rx_out \<Rightarrow> wups_frame option" where
  "out_frame out = (case out of NoFrame \<Rightarrow> None | Deframed f d \<Rightarrow> Some f)"

definition esp_step :: "u32 \<Rightarrow> s_rx \<times> link_rx \<Rightarrow> u8 \<Rightarrow> (s_rx \<times> link_rx) \<times> wups_frame option" where
  "esp_step now s b = (case rx_byte now b s of (s', out) \<Rightarrow> (s', out_frame out))"

lemma rx_view_reset [simp]: "rx_view (rx_reset_with b r) = restart b"
  by (simp add: rx_reset_with_def restart_def)

lemma rx_ok_reset [simp]:
  "length (rx_payload r) = 240 \<Longrightarrow> rx_ok (rx_reset_with b r)"
  using candidate_restart [of b] by (auto simp: rx_ok_def rx_reset_with_def restart_def)

lemma rx_ok_reset0 [simp]: "length (rx_payload r) = 240 \<Longrightarrow> rx_ok (rx_reset r)"
  by (simp add: rx_ok_def rx_reset_def)

definition refines :: "s_rx \<Rightarrow> u8 \<Rightarrow> s_rx \<times> wups_frame option \<Rightarrow> bool" where
  "refines r b res \<longleftrightarrow> rx_ok (fst res) \<and> (rx_view (fst res), snd res) = spec_step (rx_view r) b"

lemma candidate_next:
  "rx_ok r \<Longrightarrow> spec_step (rx_view r) b = (v, w) \<Longrightarrow> candidate v"
  using candidate_spec_step [of "rx_view r" b] by (simp add: rx_ok_def)

lemma ucast_u8_u16 [simp]: "ucast (ucast (b::u8) :: u16) = b"
  by (rule bit_word_eqI) (auto simp: bit_simps)

lemma rx_exp_inv:
  "rx_ok r \<Longrightarrow> rx_state r \<notin> {WUPS_RX_SYNC1, WUPS_RX_SYNC2} \<Longrightarrow>
     wups_fletcher8 (rx_checked r) = (rx_exp_a r, rx_exp_b r)"
  unfolding rx_ok_def by metis

lemma rx_ok_header:
  assumes "rx_state r' \<in> {WUPS_RX_DST, WUPS_RX_SRC, WUPS_RX_CLASS, WUPS_RX_OP, WUPS_RX_FLAGS,
      WUPS_RX_SEQ, WUPS_RX_LEN_L, WUPS_RX_LEN_H}"
    and "length (rx_payload r') = 240" and "candidate (rx_view r')" and "rx_pidx r' = 0"
    and "wups_fletcher8 (drop 2 (rx_view r')) = (rx_exp_a r', rx_exp_b r')"
    and "rx_state r' = WUPS_RX_LEN_H \<Longrightarrow> rx_len r' = ucast (ucast (rx_len r') :: u8)"
  shows "rx_ok r'"
proof -
  have "rx_checked r' = drop 2 (rx_view r')" using assms(1) by auto
  then show ?thesis using assms unfolding rx_ok_def by (auto simp del: rx_view.simps)
qed

lemma refine_header:
  assumes ok: "rx_ok r" and st: "rx_state r \<in> {WUPS_RX_DST, WUPS_RX_SRC, WUPS_RX_CLASS,
      WUPS_RX_OP, WUPS_RX_FLAGS, WUPS_RX_SEQ, WUPS_RX_LEN_L}"
    and res: "esp_step now (r, k) b = ((r', k'), out)"
  shows "refines r b (r', out)"
proof -
  have len: "2 \<le> length (rx_view r)" "length (rx_view r) < 9"
    using st by auto
  have sp: "spec_step (rx_view r) b = (rx_view r @ [b], None)"
    by (rule spec_short) (use ok len in \<open>simp_all add: rx_ok_def\<close>)
  have pre: "length (rx_payload r) = 240" "rx_pidx r = 0"
    using ok st by (auto simp: rx_ok_def)
  have ck: "wups_fletcher8 (drop 2 (rx_view r)) = (rx_exp_a r, rx_exp_b r)"
    using rx_exp_inv [OF ok] st by auto
  have out: "out = None" and keep: "rx_payload r' = rx_payload r" "rx_pidx r' = rx_pidx r"
    and exps: "(rx_exp_a r', rx_exp_b r') = fletcher_step (rx_exp_a r, rx_exp_b r) b"
    and st': "rx_state r' \<in> {WUPS_RX_DST, WUPS_RX_SRC, WUPS_RX_CLASS, WUPS_RX_OP, WUPS_RX_FLAGS,
      WUPS_RX_SEQ, WUPS_RX_LEN_L, WUPS_RX_LEN_H}"
    and lenh: "rx_state r' = WUPS_RX_LEN_H \<Longrightarrow> rx_len r' = ucast b"
    using res st by (auto simp: esp_step_def out_frame_def rx_step_def Let_def)
  have view: "rx_view r' = rx_view r @ [b]"
    using res st
    by (auto simp: esp_step_def rx_step_def Let_def rx_head_def le16_ucast)
  have "rx_ok r'"
  proof (rule rx_ok_header [OF st'])
    show "length (rx_payload r') = 240" "rx_pidx r' = 0" using pre keep by simp_all
    show "candidate (rx_view r')" using candidate_next [OF ok sp] view by simp
    show "wups_fletcher8 (drop 2 (rx_view r')) = (rx_exp_a r', rx_exp_b r')"
      using ck exps len by (simp add: view del: rx_view.simps)
    show "rx_len r' = ucast (ucast (rx_len r') :: u8)" if "rx_state r' = WUPS_RX_LEN_H"
      using lenh [OF that] by simp
  qed
  with sp view out show ?thesis by (simp add: refines_def del: rx_view.simps)
qed

lemma le16_join: "le16 (ucast (x::u8) OR push_bit 8 (ucast (y::u8))) = [x, y]"
  using le16_rd_u16le [of x y "[]"] by (simp add: rd_u16le_def)

lemma refine_len_h:
  assumes ok: "rx_ok r" and st: "rx_state r = WUPS_RX_LEN_H"
    and res: "esp_step now (r, k) b = ((r', k'), out)"
  shows "refines r b (r', out)"
proof -
  define lo where "lo = (ucast (rx_len r) :: u8)"
  have len: "rx_len r = ucast lo" using ok st by (simp add: rx_ok_def lo_def)
  have pre: "length (rx_payload r) = 240" "rx_pidx r = 0" "length (rx_view r) = 9"
    using ok st by (auto simp: rx_ok_def)
  define r1 where "r1 = rx_step b (r\<lparr>rx_len := rx_len r OR push_bit 8 (ucast b)\<rparr>)"
  have head: "rx_head r1 = rx_view r @ [b]"
    using st by (simp add: r1_def rx_step_def Let_def rx_head_def len le16_join le16_ucast)
  have cand: "cand_len (rx_view r @ [b]) = unat (rx_len r1)"
    using cand_len_rx_head [of r1 "[]"] by (simp add: head)
  have sp: "spec_step (rx_view r) b =
      (if unat (rx_len r1) \<le> 240 then (rx_view r @ [b], None) else (restart b, None))"
    using spec_len_h [of "rx_view r" b] ok pre cand by (simp add: rx_ok_def del: rx_view.simps)
  have ck: "wups_fletcher8 (drop 2 (rx_head r1)) = (rx_exp_a r1, rx_exp_b r1)"
  proof -
    have "(rx_exp_a r1, rx_exp_b r1) = fletcher_step (rx_exp_a r, rx_exp_b r) b"
      by (simp add: r1_def rx_step_def Let_def)
    then show ?thesis
      using rx_exp_inv [OF ok] st pre by (simp add: head del: rx_view.simps)
  qed
  have keep: "length (rx_payload r1) = 240" "rx_pidx r1 = 0"
    using pre by (simp_all add: r1_def rx_step_def Let_def)
  show ?thesis
  proof (cases "unat (rx_len r1) \<le> 240")
    case False
    with res st have "r' = rx_reset_with b r1" "out = None"
      by (auto simp: esp_step_def r1_def [symmetric] Let_def out_frame_def)
    with sp False keep show ?thesis by (simp add: refines_def del: rx_view.simps)
  next
    case True
    with res st have r': "out = None"
        "r' = r1\<lparr>rx_state := (if rx_len r1 = 0 then WUPS_RX_CK_A else WUPS_RX_PAYLOAD)\<rparr>"
      by (auto simp: esp_step_def r1_def [symmetric] Let_def out_frame_def)
    have hd: "rx_head r' = rx_head r1" by (simp add: r' rx_head_def)
    have view: "rx_view r' = rx_head r1"
      using keep by (simp add: hd) (simp add: r' rx_data_def hd)
    have "candidate (rx_head r1)"
      using candidate_next [OF ok, of b "rx_head r1" None] sp True by (simp add: head)
    then have "rx_ok r'"
      unfolding rx_ok_def view using True keep ck
      by (auto simp: r' hd [unfolded r'] rx_data_def word_gt_0)
    with sp True view head r' show ?thesis by (simp add: refines_def del: rx_view.simps)
  qed
qed

lemma refine_payload:
  assumes ok: "rx_ok r" and st: "rx_state r = WUPS_RX_PAYLOAD"
    and res: "esp_step now (r, k) b = ((r', k'), out)"
  shows "refines r b (r', out)"
proof -
  have pre: "length (rx_payload r) = 240" "rx_pidx r < rx_len r" "unat (rx_len r) \<le> 240"
    using ok st by (auto simp: rx_ok_def)
  define i where "i = unat (rx_pidx r)"
  have i: "i < unat (rx_len r)" using pre(2) by (simp add: i_def word_less_nat_alt)
  have inc: "unat (rx_pidx r + 1) = Suc i"
    using unat_inc [of "rx_pidx r"] pre(2) less_imp_not_max by (auto simp: i_def)
  have view0: "rx_view r = rx_head r @ take i (rx_payload r)" using st by (simp add: i_def)
  have sp: "spec_step (rx_view r) b = (rx_view r @ [b], None)"
    by (rule spec_payload) (use ok i pre in \<open>simp_all add: rx_ok_def view0 del: rx_view.simps\<close>)
  define r1 where "r1 = rx_step b (r\<lparr>rx_payload := (rx_payload r)[i := b], rx_pidx := rx_pidx r + 1\<rparr>)"
  have r1: "rx_head r1 = rx_head r" "rx_len r1 = rx_len r" "rx_pidx r1 = rx_pidx r + 1"
    "rx_payload r1 = (rx_payload r)[i := b]" "rx_state r1 = WUPS_RX_PAYLOAD"
    "(rx_exp_a r1, rx_exp_b r1) = fletcher_step (rx_exp_a r, rx_exp_b r) b"
    by (simp_all add: r1_def rx_step_def Let_def rx_head_def st)
  have r': "out = None"
      "r' = (if rx_len r \<le> rx_pidx r + 1 then r1\<lparr>rx_state := WUPS_RX_CK_A\<rparr> else r1)"
    using res st by (auto simp: esp_step_def r1_def rx_step_def Let_def out_frame_def i_def)
  have data: "take (Suc i) ((rx_payload r)[i := b]) = take i (rx_payload r) @ [b]"
    using i pre by (simp add: take_Suc_conv_app_nth)
  have full: "rx_len r \<le> rx_pidx r + 1 \<Longrightarrow> unat (rx_len r) = Suc i"
    using i inc by (simp add: word_le_nat_alt)
  have hd: "rx_head r' = rx_head r" using r1 by (auto simp: r' rx_head_def)
  have view: "rx_view r' = rx_view r @ [b]"
    unfolding view0 using data inc full r1 by (auto simp: r' hd [unfolded r'] rx_data_def)
  have chk: "rx_checked r' = drop 2 (rx_view r')"
    using r1 by (auto simp: r')
  have ck: "wups_fletcher8 (drop 2 (rx_view r')) = (rx_exp_a r', rx_exp_b r')"
  proof -
    have "(rx_exp_a r', rx_exp_b r') = fletcher_step (rx_exp_a r, rx_exp_b r) b"
      using r1(6) by (simp add: r')
    moreover have "wups_fletcher8 (drop 2 (rx_view r)) = (rx_exp_a r, rx_exp_b r)"
      using rx_exp_inv [OF ok] st by simp
    moreover have "2 \<le> length (rx_view r)" by (simp add: view0 del: rx_view.simps)
    ultimately show ?thesis by (simp add: view del: rx_view.simps)
  qed
  have "candidate (rx_view r')" using candidate_next [OF ok sp] view by simp
  then have "rx_ok r'"
    unfolding rx_ok_def chk ck using pre r1 by (auto simp: r' simp del: rx_view.simps)
  with sp view r' show ?thesis by (simp add: refines_def del: rx_view.simps)
qed

text \<open>The four trailer states: the header and data are fixed, \<open>c\<close> below.\<close>

lemma rx_tail_facts:
  assumes "rx_ok r" and "rx_state r \<in> {WUPS_RX_CK_A, WUPS_RX_CK_B, WUPS_RX_END1, WUPS_RX_END2}"
  defines "c \<equiv> rx_head r @ rx_data r"
  shows "length c = 10 + cand_len c" "length (rx_payload r) = 240" "unat (rx_len r) \<le> 240"
    "wups_fletcher8 (drop 2 c) = (rx_exp_a r, rx_exp_b r)"
proof -
  show l: "length (rx_payload r) = 240" "unat (rx_len r) \<le> 240"
    using assms(1,2) by (auto simp: rx_ok_def)
  then show "length c = 10 + cand_len c"
    by (simp add: c_def rx_data_length)
  show "wups_fletcher8 (drop 2 c) = (rx_exp_a r, rx_exp_b r)"
    using rx_exp_inv [OF assms(1)] assms(2) by (auto simp: c_def)
qed

lemma rx_ok_trailer:
  assumes "rx_state r' \<in> {WUPS_RX_CK_B, WUPS_RX_END1, WUPS_RX_END2}"
    and "length (rx_payload r') = 240" and "unat (rx_len r') \<le> 240" and "candidate (rx_view r')"
    and "wups_fletcher8 (drop 2 (rx_head r' @ rx_data r')) = (rx_exp_a r', rx_exp_b r')"
  shows "rx_ok r'"
proof -
  have "rx_checked r' = drop 2 (rx_head r' @ rx_data r')" using assms(1) by auto
  then show ?thesis using assms unfolding rx_ok_def by (auto simp del: rx_view.simps)
qed

lemma refine_trailer:
  assumes ok: "rx_ok r"
    and st: "rx_state r \<in> {WUPS_RX_CK_A, WUPS_RX_CK_B, WUPS_RX_END1, WUPS_RX_END2}"
    and res: "esp_step now (r, k) b = ((r', k'), out)"
  shows "refines r b (r', out)"
proof -
  define c where "c = rx_head r @ rx_data r"
  note facts = rx_tail_facts [OF ok st, folded c_def]
  have cand: "candidate (rx_view r)" using ok by (simp add: rx_ok_def)
  have trailer: "rx_ok r'"
    if "rx_state r' \<in> {WUPS_RX_CK_B, WUPS_RX_END1, WUPS_RX_END2}"
      "rx_head r' @ rx_data r' = c" "rx_payload r' = rx_payload r" "rx_len r' = rx_len r"
      "rx_exp_a r' = rx_exp_a r" "rx_exp_b r' = rx_exp_b r"
      "spec_step (rx_view r) b = (rx_view r', w)" for w
    by (rule rx_ok_trailer) (use that facts candidate_next [OF ok that(7)] in \<open>simp_all del: rx_view.simps\<close>)
  from st consider "rx_state r = WUPS_RX_CK_A" | "rx_state r = WUPS_RX_CK_B"
    | "rx_state r = WUPS_RX_END1" | "rx_state r = WUPS_RX_END2" by auto
  then show ?thesis
  proof cases
    case 1
    then have view: "rx_view r = c" by (simp add: c_def)
    have sp: "spec_step c b = (c @ [b], None)"
      by (rule spec_payload) (use cand view facts in simp_all)
    have r': "r' = r\<lparr>rx_ck_a := b, rx_state := WUPS_RX_CK_B\<rparr>" "out = None"
      using res 1 by (auto simp: esp_step_def out_frame_def)
    have view': "rx_view r' = c @ [b]" by (simp add: r' c_def)
    have c': "rx_head r' @ rx_data r' = c" by (simp add: r' c_def)
    have "rx_ok r'"
      by (rule trailer [OF _ c', where w = None])
        (simp_all add: view view' sp del: rx_view.simps, simp_all add: r')
    then show ?thesis by (simp add: refines_def view view' sp r'(2) del: rx_view.simps)
  next
    case 2
    then have view: "rx_view r = c @ [rx_ck_a r]" by (simp add: c_def)
    have sp: "spec_step (rx_view r) b =
        (if rx_ck_a r = rx_exp_a r \<and> b = rx_exp_b r
         then (c @ [rx_exp_a r, rx_exp_b r], None) else (restart b, None))"
      using spec_ck_b [of c "rx_ck_a r" b] cand view facts by (auto simp del: rx_view.simps)
    show ?thesis
    proof (cases "rx_ck_a r = rx_exp_a r \<and> b = rx_exp_b r")
      case True
      then have r': "r' = r\<lparr>rx_state := WUPS_RX_END1\<rparr>" "out = None"
        using res 2 by (auto simp: esp_step_def out_frame_def)
      from sp True have sp': "spec_step (rx_view r) b = (c @ [rx_exp_a r, rx_exp_b r], None)"
        by (simp del: rx_view.simps)
      have view': "rx_view r' = c @ [rx_exp_a r, rx_exp_b r]" by (simp add: r' c_def)
      have c': "rx_head r' @ rx_data r' = c" by (simp add: r' c_def)
      have "rx_ok r'"
        by (rule trailer [OF _ c', where w = None])
          (simp_all add: view' sp' del: rx_view.simps, simp_all add: r')
      then show ?thesis by (simp add: refines_def view' sp' r'(2) del: rx_view.simps)
    next
      case False
      then have "r' = rx_reset_with b r" "out = None"
        using res 2 by (auto simp: esp_step_def out_frame_def)
      with False facts show ?thesis by (auto simp: refines_def sp simp del: rx_view.simps)
    qed
  next
    case 3
    then have view: "rx_view r = c @ [rx_exp_a r, rx_exp_b r]" by (simp add: c_def)
    have sp: "spec_step (rx_view r) b =
        (if b = 0x55 then (c @ [rx_exp_a r, rx_exp_b r, b], None) else (restart b, None))"
      using spec_end1 [of c "rx_exp_a r" "rx_exp_b r" b] cand view facts
      by (simp del: rx_view.simps)
    show ?thesis
    proof (cases "b = 0x55")
      case True
      then have r': "r' = r\<lparr>rx_state := WUPS_RX_END2\<rparr>" "out = None"
        using res 3 by (auto simp: esp_step_def out_frame_def)
      from sp True have sp': "spec_step (rx_view r) b = (c @ [rx_exp_a r, rx_exp_b r, b], None)"
        by (simp del: rx_view.simps)
      have view': "rx_view r' = c @ [rx_exp_a r, rx_exp_b r, b]" by (simp add: r' c_def True)
      have c': "rx_head r' @ rx_data r' = c" by (simp add: r' c_def)
      have "rx_ok r'"
        by (rule trailer [OF _ c', where w = None])
          (simp_all add: view' sp' del: rx_view.simps, simp_all add: r')
      then show ?thesis by (simp add: refines_def view' sp' r'(2) del: rx_view.simps)
    next
      case False
      then have "r' = rx_reset_with b r" "out = None"
        using res 3 by (auto simp: esp_step_def out_frame_def)
      with False facts show ?thesis by (auto simp: refines_def sp simp del: rx_view.simps)
    qed
  next
    case 4
    then have view: "rx_view r = c @ [rx_exp_a r, rx_exp_b r, 0x55]" by (simp add: c_def)
    have dec: "decode_frame (c @ d) = rx_frame r" for d
    proof -
      have "rd_u16le (drop 8 (c @ d)) = rx_len r"
        using rd_u16le_le16 by (simp add: c_def rx_head_def)
      moreover have "take (unat (rx_len r)) (drop 10 (c @ d)) = rx_data r"
        using facts by (simp add: c_def rx_data_length)
      ultimately show ?thesis
        by (simp add: decode_frame_def rx_frame_def c_def rx_head_def rx_data_def)
    qed
    have sp: "spec_step (rx_view r) b =
        (if b = 0xAA then ([], Some (rx_frame r)) else (restart b, None))"
      using spec_end2 [of c "rx_exp_a r" "rx_exp_b r" "0x55" b] cand view facts dec
      by (simp del: rx_view.simps)
    show ?thesis
    proof (cases "b = 0xAA")
      case True
      then have "r' = rx_reset r" "out = Some (rx_frame r)"
        using res 4 by (auto simp: esp_step_def out_frame_def split: prod.splits)
      moreover have "rx_view (rx_reset r) = []" by (simp add: rx_reset_def)
      moreover have "spec_step (rx_view r) b = ([], Some (rx_frame r))"
        using sp True by (simp del: rx_view.simps)
      moreover have "rx_ok (rx_reset r)" using facts by simp
      ultimately show ?thesis by (simp add: refines_def del: rx_view.simps)
    next
      case False
      then have "r' = rx_reset_with b r" "out = None"
        using res 4 by (auto simp: esp_step_def out_frame_def)
      with False facts show ?thesis by (auto simp: refines_def sp simp del: rx_view.simps)
    qed
  qed
qed

lemma refine_sync:
  assumes ok: "rx_ok r" and st: "rx_state r \<in> {WUPS_RX_SYNC1, WUPS_RX_SYNC2}"
    and res: "esp_step now (r, k) b = ((r', k'), out)"
  shows "refines r b (r', out)"
proof -
  have pl: "length (rx_payload r) = 240" using ok by (simp add: rx_ok_def)
  from st consider "rx_state r = WUPS_RX_SYNC1" | "rx_state r = WUPS_RX_SYNC2" by auto
  then show ?thesis
  proof cases
    case 1
    then have "r' = rx_reset_with b r" "out = None"
      using res by (auto simp: esp_step_def out_frame_def rx_reset_with_def)
    moreover have "rx_view r = []" using 1 by simp
    ultimately show ?thesis using pl by (simp add: refines_def spec_sync del: rx_view.simps)
  next
    case 2
    show ?thesis
    proof (cases "b = 0x55")
      case True
      have "candidate [0xAA, 0x55]"
        by (simp add: candidate_def prefix_ok_short not_complete_short)
      with True 2 pl res show ?thesis
        by (auto simp: refines_def spec_sync esp_step_def out_frame_def rx_ok_def rx_head_def)
    next
      case False
      with 2 have "r' = rx_reset_with b r" "out = None"
        using res by (auto simp: esp_step_def out_frame_def)
      moreover have "rx_view r = [0xAA]" using 2 by simp
      ultimately show ?thesis
        using pl False by (simp add: refines_def spec_sync del: rx_view.simps)
    qed
  qed
qed

lemma rx_byte_refines:
  assumes "rx_ok r" and "esp_step now (r, k) b = ((r', k'), out)"
  shows "refines r b (r', out)"
  using assms by (cases "rx_state r")
    (auto intro: refine_sync refine_header refine_len_h refine_payload refine_trailer)

interpretation esp: deframer "esp_step now" "\<lambda>s. rx_view (fst s)" "\<lambda>s. rx_ok (fst s)" for now
proof unfold_locales
  fix s :: "s_rx \<times> link_rx" and b
  assume ok: "rx_ok (fst s)"
  obtain r k where s: "s = (r, k)" by fastforce
  obtain r' k' out where st: "esp_step now (r, k) b = ((r', k'), out)" by (metis surj_pair)
  from rx_byte_refines [OF _ st] ok s have "rx_ok r'"
    and eq: "spec_step (rx_view r) b = (rx_view r', out)"
    by (simp_all add: refines_def del: rx_view.simps)
  then show "rx_ok (fst (fst (esp_step now s b)))"
    "rx_view (fst (fst (esp_step now s b))) = fst (spec_step (rx_view (fst s)) b)"
    "snd (esp_step now s b) = snd (spec_step (rx_view (fst s)) b)"
    by (simp_all add: s st eq del: rx_view.simps)
  show "candidate (rx_view (fst s))" using ok by (simp add: rx_ok_def)
qed

section \<open>The CH32X machine refines the specification\<close>

text \<open>The common part of the two receive structures.\<close>

definition wx_core :: "wups_rx \<Rightarrow> s_rx" where
  "wx_core r = \<lparr>rx_state = wx_state r, rx_dst = wx_dst r, rx_src = wx_src r, rx_cls = wx_cls r,
     rx_op = wx_op r, rx_flags = wx_flags r, rx_seq = wx_seq r, rx_len = wx_len r,
     rx_pidx = wx_pidx r, rx_payload = wx_payload r, rx_ck_a = wx_ck_a r,
     rx_exp_a = wx_exp_a r, rx_exp_b = wx_exp_b r\<rparr>"

definition ch32_step :: "wups_rx \<Rightarrow> u8 \<Rightarrow> wups_rx \<times> wups_frame option" where
  "ch32_step r b = wups_rx_byte b r"

lemma rx_frame_core [simp]: "rx_frame (wx_core r) = wx_frame r"
  by (simp add: rx_frame_def wx_frame_def wx_core_def)

lemma ch32_simulates:
  "\<exists>k'. esp_step now (wx_core r, k) b =
     ((wx_core (fst (ch32_step r b)), k'), snd (ch32_step r b))"
  by (cases "wx_state r")
    (auto simp: esp_step_def ch32_step_def wups_rx_byte_def wx_core_def out_frame_def Let_def
      rx_step_def wups_rx_step_def rx_reset_with_def wups_rx_reset_with_def rx_reset_def
      wups_rx_reset_def rx_frame_def wx_frame_def split: prod.splits)

interpretation ch32: deframer ch32_step "\<lambda>r. rx_view (wx_core r)" "\<lambda>r. rx_ok (wx_core r)"
proof unfold_locales
  fix r b
  assume ok: "rx_ok (wx_core r)"
  obtain k k' :: link_rx where st: "esp_step 0 (wx_core r, k) b =
      ((wx_core (fst (ch32_step r b)), k'), snd (ch32_step r b))"
    using ch32_simulates by blast
  from esp.ok_step [of "(wx_core r, k)" 0 b] esp.view_step [of "(wx_core r, k)" 0 b]
    esp.out_step [of "(wx_core r, k)" 0 b] ok
  show "rx_ok (wx_core (fst (ch32_step r b)))"
    "rx_view (wx_core (fst (ch32_step r b))) = fst (spec_step (rx_view (wx_core r)) b)"
    "snd (ch32_step r b) = snd (spec_step (rx_view (wx_core r)) b)"
    by (simp_all add: st del: rx_view.simps)
  show "candidate (rx_view (wx_core r))" using ok by (simp add: rx_ok_def)
qed

section \<open>Properties of the two receivers\<close>

text \<open>The zero-initialised receive structure at boot.\<close>

definition rx_boot :: s_rx where
  "rx_boot = \<lparr>rx_state = WUPS_RX_SYNC1, rx_dst = 0, rx_src = 0, rx_cls = 0, rx_op = 0,
     rx_flags = 0, rx_seq = 0, rx_len = 0, rx_pidx = 0,
     rx_payload = replicate WUPS_MAX_PAYLOAD 0, rx_ck_a = 0, rx_exp_a = 0, rx_exp_b = 0\<rparr>"

lemma rx_ok_boot [simp]: "rx_ok rx_boot"
  by (simp add: rx_ok_def rx_boot_def)

lemma rx_view_Nil: "rx_view r = [] \<Longrightarrow> rx_state r = WUPS_RX_SYNC1"
  by (cases "rx_state r") (auto simp: rx_head_def)

text \<open>
  C2. A complete frame is received exactly once and unchanged by the ESP32 receiver, and the
  receiver is ready for the next one, both when it is hunting for the first sync byte and
  when it has taken a stray 0xAA (such as the end marker of a frame it lost) for it: a
  receiver that is one frame behind re-locks on the very next frame.
\<close>

theorem esp_round_trip:
  assumes "rx_ok r" and "rx_state r \<in> {WUPS_RX_SYNC1, WUPS_RX_SYNC2}" and "frame_fits f"
  shows "snd (deframe (esp_step now) (r, k) (encode f)) = [f]
    \<and> rx_state (fst (fst (deframe (esp_step now) (r, k) (encode f)))) = WUPS_RX_SYNC1"
proof -
  have "rx_view r = [] \<or> rx_view r = [0xAA]" using assms(2) by auto
  with esp.round_trip [of "(r, k)" f now] assms show ?thesis
    by (auto intro!: rx_view_Nil simp del: rx_view.simps)
qed

theorem esp_round_trip_witness:
  "snd (deframe (esp_step 7) (rx_boot\<lparr>rx_state := WUPS_RX_SYNC2\<rparr>,
      \<lparr>s_frames_rx = 0, s_rx_resync = 0, s_rx_bad = 0, s_frames_rx_unicast = 0,
        s_last_frame_ms = 0\<rparr>)
     (encode \<lparr>f_dst = 4, f_src = 2, f_cls = 1, f_op = 1, f_flags = 1, f_seq = 3,
        f_payload = [0xAA, 0x55]\<rparr>))
   = [\<lparr>f_dst = 4, f_src = 2, f_cls = 1, f_op = 1, f_flags = 1, f_seq = 3,
        f_payload = [0xAA, 0x55]\<rparr>]"
proof -
  have ok: "rx_ok (rx_boot\<lparr>rx_state := WUPS_RX_SYNC2\<rparr>)"
    by (simp add: rx_ok_def rx_boot_def candidate_def prefix_ok_short not_complete_short)
  have fits: "frame_fits \<lparr>f_dst = 4, f_src = 2, f_cls = 1, f_op = 1, f_flags = 1, f_seq = 3,
      f_payload = [0xAA, 0x55]\<rparr>"
    by (simp add: frame_fits_def)
  show ?thesis using esp_round_trip [OF ok _ fits] by simp
qed

text \<open>
  C7. The ESP32 receiver never invents a frame: every frame it recognises in a byte stream
  received since boot has at most 240 payload bytes, and its exact encoding, with the right
  checksum and markers, occurs contiguously in that stream.
\<close>

theorem esp_sound:
  assumes "f \<in> set (snd (deframe (esp_step now) (rx_boot, k) bs))"
  shows "frame_fits f \<and> (\<exists>pre suf. bs = pre @ encode f @ suf)"
proof -
  have "rx_view rx_boot = []" by (simp add: rx_boot_def)
  then show ?thesis
    using esp.sound [of "(rx_boot, k)" f now bs] assms by (simp del: rx_view.simps)
qed

theorem esp_sound_witness:
  "frame_fits \<lparr>f_dst = 4, f_src = 2, f_cls = 1, f_op = 1, f_flags = 1, f_seq = 3, f_payload = []\<rparr>"
proof -
  let ?f = "\<lparr>f_dst = 4, f_src = 2, f_cls = 1, f_op = 1, f_flags = 1, f_seq = 3, f_payload = []\<rparr>"
  let ?k = "\<lparr>s_frames_rx = 0, s_rx_resync = 0, s_rx_bad = 0, s_frames_rx_unicast = 0,
      s_last_frame_ms = 0\<rparr>"
  have "snd (deframe (esp_step 0) (rx_boot, ?k) (encode ?f)) = [?f]"
    by (rule esp.round_trip(2)) (simp_all add: frame_fits_def, simp add: rx_boot_def)
  then have "?f \<in> set (snd (deframe (esp_step 0) (rx_boot, ?k) (encode ?f)))" by simp
  from esp_sound [OF this] show ?thesis by blast
qed

text \<open>
  C8. Bounded recovery: whatever state line noise left the receiver in, at most 254 idle
  (guard) bytes bring it back to hunting without delivering anything, so the next frame
  after such a gap is received.
\<close>

theorem esp_recovers:
  assumes "rx_ok r" and "254 \<le> n" and "frame_fits f"
  shows "snd (deframe (esp_step now) (r, k) (replicate n WUPS_GUARD_BYTE @ encode f)) = [f]"
proof -
  let ?s = "fst (deframe (esp_step now) (r, k) (replicate n 0))"
  have idle: "rx_view (fst ?s) = []" "snd (deframe (esp_step now) (r, k) (replicate n 0)) = []"
    using esp.idle_recovers [of "(r, k)" n now] assms(1,2) by (simp_all del: rx_view.simps)
  have "rx_ok (fst ?s)" using esp.ok_deframe [of "(r, k)" now "replicate n 0"] assms(1) by simp
  then have "snd (deframe (esp_step now) ?s (encode f)) = [f]"
    using esp.round_trip(2) [of ?s f now] idle(1) assms(3) by (simp del: rx_view.simps)
  with idle(2) show ?thesis by (simp add: snd_deframe_append)
qed

theorem esp_recovers_witness:
  "snd (deframe (esp_step 0) (rx_boot,
      \<lparr>s_frames_rx = 0, s_rx_resync = 0, s_rx_bad = 0, s_frames_rx_unicast = 0,
        s_last_frame_ms = 0\<rparr>)
     (replicate 300 WUPS_GUARD_BYTE @ encode \<lparr>f_dst = 4, f_src = 2, f_cls = 1, f_op = 1,
        f_flags = 1, f_seq = 3, f_payload = []\<rparr>))
   = [\<lparr>f_dst = 4, f_src = 2, f_cls = 1, f_op = 1, f_flags = 1, f_seq = 3, f_payload = []\<rparr>]"
  by (rule esp_recovers) (simp_all add: frame_fits_def)

text \<open>
  No byte stream makes the ESP32 receiver write outside its payload buffer: whenever it
  is about to store a payload byte, the index is below the announced length and below the
  240-byte buffer size.
\<close>

theorem esp_payload_in_bounds:
  "rx_state (fst (fst (deframe (esp_step now) (rx_boot, k) bs))) = WUPS_RX_PAYLOAD \<longrightarrow>
   unat (rx_pidx (fst (fst (deframe (esp_step now) (rx_boot, k) bs))))
     < length (rx_payload (fst (fst (deframe (esp_step now) (rx_boot, k) bs))))"
proof
  let ?r = "fst (fst (deframe (esp_step now) (rx_boot, k) bs))"
  assume st: "rx_state ?r = WUPS_RX_PAYLOAD"
  have "rx_ok ?r" using esp.ok_deframe [of "(rx_boot, k)" now bs] by simp
  with st have "rx_pidx ?r < rx_len ?r" "unat (rx_len ?r) \<le> 240" "length (rx_payload ?r) = 240"
    by (simp_all add: rx_ok_def)
  then show "unat (rx_pidx ?r) < length (rx_payload ?r)" by (simp add: word_less_nat_alt)
qed

theorem esp_payload_in_bounds_witness:
  "unat (rx_pidx (fst (fst (deframe (esp_step 0) (rx_boot,
      \<lparr>s_frames_rx = 0, s_rx_resync = 0, s_rx_bad = 0, s_frames_rx_unicast = 0,
        s_last_frame_ms = 0\<rparr>)
     [0xAA, 0x55, 4, 2, 1, 1, 1, 3, 2, 0]))))
   < length (rx_payload (fst (fst (deframe (esp_step 0) (rx_boot,
      \<lparr>s_frames_rx = 0, s_rx_resync = 0, s_rx_bad = 0, s_frames_rx_unicast = 0,
        s_last_frame_ms = 0\<rparr>)
     [0xAA, 0x55, 4, 2, 1, 1, 1, 3, 2, 0]))))"
  by (rule esp_payload_in_bounds [rule_format])
    (simp add: rx_boot_def esp_step_def out_frame_def rx_step_def Let_def)

text \<open>
  C25. The CH32X receiver and the ESP32 receiver are the same machine: started from matching
  structures they recognise the same frames in every byte stream and stay in matching
  structures, whatever the ESP32's clock and counters are.
\<close>

theorem ch32_equals_esp:
  "snd (deframe ch32_step r bs) = snd (deframe (esp_step now) (wx_core r, k) bs)
   \<and> wx_core (fst (deframe ch32_step r bs)) = fst (fst (deframe (esp_step now) (wx_core r, k) bs))"
proof (induction bs arbitrary: r k)
  case Nil
  then show ?case by simp
next
  case (Cons b bs)
  obtain k' where "esp_step now (wx_core r, k) b =
      ((wx_core (fst (ch32_step r b)), k'), snd (ch32_step r b))"
    using ch32_simulates by blast
  with Cons.IH [of "fst (ch32_step r b)" k'] show ?case
    by (simp add: deframe_Cons del: deframe.simps(2))
qed

text \<open>
  Only frames addressed to the ESP32 itself feed the link watchdog: a received byte
  changes the unicast counter or the last-frame stamp only when it completes a frame whose
  destination is the ESP32, and then the stamp is the current time; a broadcast frame, even
  one wrapped in another frame's payload, leaves both alone.
\<close>

theorem watchdog_fed_by_unicast_only:
  assumes "rx_byte now b (r, k) = ((r', k'), out)"
  shows "(case out of Deframed f d \<Rightarrow> f_dst f = WUPS_ADDR_ESP32 | NoFrame \<Rightarrow> False)
       \<and> s_frames_rx_unicast k' = s_frames_rx_unicast k + 1 \<and> s_last_frame_ms k' = now
     \<or> (case out of Deframed f d \<Rightarrow> f_dst f \<noteq> WUPS_ADDR_ESP32 | NoFrame \<Rightarrow> True)
       \<and> s_frames_rx_unicast k' = s_frames_rx_unicast k \<and> s_last_frame_ms k' = s_last_frame_ms k"
  using assms
  by (cases "rx_state r")
    (auto simp: Let_def deliver_frame_def rx_frame_def split: if_splits prod.splits)

theorem watchdog_fed_by_unicast_only_witness:
  "\<exists>r' k' out. rx_byte 9 0xAA (rx_boot\<lparr>rx_state := WUPS_RX_END2, rx_dst := 255\<rparr>,
      \<lparr>s_frames_rx = 5, s_rx_resync = 0, s_rx_bad = 0, s_frames_rx_unicast = 2,
        s_last_frame_ms = 3\<rparr>) = ((r', k'), out)
    \<and> s_last_frame_ms k' = 3"
proof -
  obtain r' k' out where st: "rx_byte 9 0xAA (rx_boot\<lparr>rx_state := WUPS_RX_END2, rx_dst := 255\<rparr>,
      \<lparr>s_frames_rx = 5, s_rx_resync = 0, s_rx_bad = 0, s_frames_rx_unicast = 2,
        s_last_frame_ms = 3\<rparr>) = ((r', k'), out)"
    by (metis surj_pair)
  moreover from st have "case out of Deframed f d \<Rightarrow> f_dst f = 255 | NoFrame \<Rightarrow> False"
    by (auto simp: rx_boot_def deliver_frame_def rx_frame_def Let_def)
  ultimately show ?thesis
    using watchdog_fed_by_unicast_only [OF st] by (auto split: rx_out.splits)
qed

end
