(* ===== verification/Dispatch_Queue.thy ===== *)
theory Dispatch_Queue
  imports Prelude
begin

text \<open>
  The bounded MQTT dispatch queue of the LTE-M card, \<open>mqtt_dispatch_queue.c\<close>: a pool of 32
  slots in which requests wait for the MQTT task, one at most in flight.

  Data: the structs are records of the same fields; a char buffer is the character or byte
  list it holds (the topic without its terminating NUL, the payload without the zero tail
  after \<open>payload_len\<close>), a possibly NULL pointer of the request is an option.  The queue
  pointer itself is never NULL in the callers, so its NULL guards have no counterpart.
  The loops over \<open>slots[0..31]\<close> are recursions with the same index and accumulators, the
  index 32 playing its role of "none".

  Abstraction: \<open>entries\<close> lists the occupied slots by age; the refinement lemmas say what
  every operation does to that list, and the properties at the end follow from them.
\<close>

section \<open>Data\<close>

definition MQTT_DISPATCH_CAPACITY :: nat where [simp]: "MQTT_DISPATCH_CAPACITY = 32"
definition MQTT_DISPATCH_CRITICAL_RESERVE :: nat where [simp]: "MQTT_DISPATCH_CRITICAL_RESERVE = 8"
definition MQTT_DISPATCH_TOPIC_CAPACITY :: nat where [simp]: "MQTT_DISPATCH_TOPIC_CAPACITY = 64"
definition MQTT_DISPATCH_PAYLOAD_CAPACITY :: nat where [simp]: "MQTT_DISPATCH_PAYLOAD_CAPACITY = 256"
definition MQTT_DISPATCH_CRITICAL_BURST :: u32 where [simp]: "MQTT_DISPATCH_CRITICAL_BURST = 8"

datatype mqtt_dispatch_result =
  MQTT_DISPATCH_ACCEPTED | MQTT_DISPATCH_FULL | MQTT_DISPATCH_TOO_LARGE | MQTT_DISPATCH_INVALID

record mqtt_dispatch_request =
  rq_topic :: "string option"
  rq_payload :: "bytes option"
  rq_payload_len :: nat
  rq_qos :: int
  rq_retain :: bool
  rq_critical :: bool
  rq_coalesce_key :: u32
  rq_deadline_ms :: u64

record mqtt_dispatch_item =
  it_topic :: string
  it_payload :: bytes
  it_payload_len :: nat
  it_qos :: int
  it_retain :: bool
  it_critical :: bool
  it_coalesce_key :: u32
  it_token :: u64
  it_deadline_ms :: u64

record mqtt_dispatch_stats =
  st_accepted :: u64
  st_coalesced :: u64
  st_full :: u64
  st_expired :: u64
  st_dropped :: u64
  st_depth :: u32
  st_highwater :: u32

datatype mqtt_dispatch_slot_state =
  MQTT_DISPATCH_SLOT_FREE | MQTT_DISPATCH_SLOT_QUEUED | MQTT_DISPATCH_SLOT_INFLIGHT

record mqtt_dispatch_slot =
  sl_item :: mqtt_dispatch_item
  sl_order :: u64
  sl_retry_after_ms :: u64
  sl_state :: mqtt_dispatch_slot_state

record mqtt_dispatch_queue =
  q_slots :: "mqtt_dispatch_slot list"
  q_counters :: mqtt_dispatch_stats
  q_last_token :: u64
  q_critical_streak :: u32

record mqtt_dispatch_claim_t =
  cl_slot :: nat
  cl_item :: mqtt_dispatch_item

datatype mqtt_dispatch_finish_kind =
  MQTT_DISPATCH_SENT | MQTT_DISPATCH_RETRY | MQTT_DISPATCH_DROP

definition zero_item :: mqtt_dispatch_item where
  "zero_item = \<lparr>it_topic = [], it_payload = [], it_payload_len = 0, it_qos = 0, it_retain = False,
     it_critical = False, it_coalesce_key = 0, it_token = 0, it_deadline_ms = 0\<rparr>"

definition zero_slot :: mqtt_dispatch_slot where
  "zero_slot = \<lparr>sl_item = zero_item, sl_order = 0, sl_retry_after_ms = 0,
     sl_state = MQTT_DISPATCH_SLOT_FREE\<rparr>"

definition zero_stats :: mqtt_dispatch_stats where
  "zero_stats = \<lparr>st_accepted = 0, st_coalesced = 0, st_full = 0, st_expired = 0, st_dropped = 0,
     st_depth = 0, st_highwater = 0\<rparr>"

section \<open>Operations\<close>

definition expired :: "mqtt_dispatch_item \<Rightarrow> u64 \<Rightarrow> bool" where
  "expired item now_ms \<longleftrightarrow> it_deadline_ms item \<noteq> 0 \<and> it_deadline_ms item \<le> now_ms"

definition release_slot :: "mqtt_dispatch_queue \<Rightarrow> nat \<Rightarrow> mqtt_dispatch_queue" where
  "release_slot q index = q\<lparr>q_slots := (q_slots q)[index := zero_slot],
     q_counters := (q_counters q)\<lparr>st_depth := st_depth (q_counters q) - 1\<rparr>\<rparr>"

definition mqtt_dispatch_init :: mqtt_dispatch_queue where
  "mqtt_dispatch_init = \<lparr>q_slots = replicate MQTT_DISPATCH_CAPACITY zero_slot,
     q_counters = zero_stats, q_last_token = 0, q_critical_streak = 0\<rparr>"

text \<open>The bounded scan for the terminating NUL: the end of the list is the NUL.\<close>

fun topic_scan :: "nat \<Rightarrow> string \<Rightarrow> nat" where
  "topic_scan topic_len [] = topic_len"
| "topic_scan topic_len (c # cs) =
     (if topic_len < MQTT_DISPATCH_TOPIC_CAPACITY then topic_scan (Suc topic_len) cs else topic_len)"

definition coalesces :: "mqtt_dispatch_request \<Rightarrow> string \<Rightarrow> mqtt_dispatch_slot \<Rightarrow> bool" where
  "coalesces request topic slot \<longleftrightarrow>
     sl_state slot = MQTT_DISPATCH_SLOT_QUEUED \<and> \<not> rq_critical request \<and>
     \<not> it_critical (sl_item slot) \<and> rq_coalesce_key request \<noteq> 0 \<and>
     it_coalesce_key (sl_item slot) = rq_coalesce_key request \<and>
     it_qos (sl_item slot) = rq_qos request \<and> it_retain (sl_item slot) = rq_retain request \<and>
     it_topic (sl_item slot) = topic"

text \<open>The admission loop; its accumulators are \<open>free_slot\<close>, \<open>replacement\<close>, \<open>noncritical\<close>.\<close>

fun submit_scan :: "mqtt_dispatch_request \<Rightarrow> string \<Rightarrow> nat \<Rightarrow> mqtt_dispatch_slot list
    \<Rightarrow> nat \<times> nat \<times> nat \<Rightarrow> nat \<times> nat \<times> nat" where
  "submit_scan request topic i [] acc = acc"
| "submit_scan request topic i (slot # slots) (free_slot, replacement, noncritical) =
     submit_scan request topic (Suc i) slots
       (if sl_state slot = MQTT_DISPATCH_SLOT_FREE
        then (if free_slot = MQTT_DISPATCH_CAPACITY then i else free_slot, replacement, noncritical)
        else (free_slot,
              if coalesces request topic slot then i else replacement,
              if \<not> it_critical (sl_item slot) then noncritical + 1 else noncritical))"

definition request_item :: "mqtt_dispatch_request \<Rightarrow> string \<Rightarrow> u64 \<Rightarrow> mqtt_dispatch_item" where
  "request_item request topic token =
     \<lparr>it_topic = topic,
      it_payload = (case rq_payload request of None \<Rightarrow> [] | Some p \<Rightarrow> take (rq_payload_len request) p),
      it_payload_len = rq_payload_len request, it_qos = rq_qos request,
      it_retain = rq_retain request, it_critical = rq_critical request,
      it_coalesce_key = rq_coalesce_key request, it_token = token,
      it_deadline_ms = rq_deadline_ms request\<rparr>"

definition request_invalid :: "mqtt_dispatch_queue \<Rightarrow> mqtt_dispatch_request \<Rightarrow> bool" where
  "request_invalid q request \<longleftrightarrow>
     rq_topic request = None \<or> rq_topic request = Some [] \<or>
     (rq_payload request = None \<and> rq_payload_len request \<noteq> 0) \<or>
     rq_qos request < 0 \<or> rq_qos request > 2 \<or> q_last_token q = uint64_max"

text \<open>Admission once the indices are known: lines 65 to 90.\<close>

definition submit_store :: "mqtt_dispatch_queue \<Rightarrow> mqtt_dispatch_request \<Rightarrow> string \<Rightarrow> nat \<Rightarrow> nat
    \<Rightarrow> mqtt_dispatch_queue \<times> mqtt_dispatch_result \<times> u64 \<times> u64" where
  "submit_store q request topic index replacement =
     (let slot = q_slots q ! index;
          c = q_counters q;
          token = q_last_token q + 1;
          (slot1, c1, replaced) =
            (if replacement \<noteq> MQTT_DISPATCH_CAPACITY
             then (slot, c\<lparr>st_coalesced := st_coalesced c + 1\<rparr>, it_token (sl_item slot))
             else (slot\<lparr>sl_order := token, sl_retry_after_ms := 0\<rparr>,
                   c\<lparr>st_depth := st_depth c + 1,
                     st_highwater := (if st_depth c + 1 > st_highwater c then st_depth c + 1
                                      else st_highwater c)\<rparr>,
                   0));
          slot2 = slot1\<lparr>sl_item := request_item request topic token,
                    sl_state := MQTT_DISPATCH_SLOT_QUEUED\<rparr>
      in (q\<lparr>q_slots := (q_slots q)[index := slot2],
           q_counters := c1\<lparr>st_accepted := st_accepted c1 + 1\<rparr>,
           q_last_token := token\<rparr>,
          MQTT_DISPATCH_ACCEPTED, token, replaced))"

definition mqtt_dispatch_submit :: "mqtt_dispatch_queue \<Rightarrow> mqtt_dispatch_request
    \<Rightarrow> mqtt_dispatch_queue \<times> mqtt_dispatch_result \<times> u64 \<times> u64" where
  "mqtt_dispatch_submit q request =
     (if request_invalid q request then (q, MQTT_DISPATCH_INVALID, 0, 0)
      else let topic = the (rq_topic request) in
        if topic_scan 0 topic = MQTT_DISPATCH_TOPIC_CAPACITY \<or>
           rq_payload_len request > MQTT_DISPATCH_PAYLOAD_CAPACITY
        then (q, MQTT_DISPATCH_TOO_LARGE, 0, 0)
        else let (free_slot, replacement, noncritical) =
               submit_scan request topic 0 (q_slots q)
                 (MQTT_DISPATCH_CAPACITY, MQTT_DISPATCH_CAPACITY, 0);
             index = (if replacement = MQTT_DISPATCH_CAPACITY then free_slot else replacement)
          in if index = MQTT_DISPATCH_CAPACITY \<or>
               (replacement = MQTT_DISPATCH_CAPACITY \<and> \<not> rq_critical request \<and>
                noncritical \<ge> MQTT_DISPATCH_CAPACITY - MQTT_DISPATCH_CRITICAL_RESERVE)
             then (q\<lparr>q_counters := (q_counters q)\<lparr>st_full := st_full (q_counters q) + 1\<rparr>\<rparr>,
                   MQTT_DISPATCH_FULL, 0, 0)
             else submit_store q request topic index replacement)"

text \<open>The expiry loop from index \<open>i\<close>; the receipts are collected in slot order.\<close>

function expire_from :: "u64 \<Rightarrow> nat \<Rightarrow> mqtt_dispatch_queue \<Rightarrow> u64 list
    \<Rightarrow> mqtt_dispatch_queue \<times> u64 list" where
  "expire_from now_ms i q expired_tokens =
     (if i < MQTT_DISPATCH_CAPACITY then
        let slot = q_slots q ! i in
        if sl_state slot \<noteq> MQTT_DISPATCH_SLOT_QUEUED \<or> \<not> expired (sl_item slot) now_ms
        then expire_from now_ms (Suc i) q expired_tokens
        else expire_from now_ms (Suc i)
          (release_slot (q\<lparr>q_counters := (q_counters q)\<lparr>st_expired := st_expired (q_counters q) + 1\<rparr>\<rparr>) i)
          (expired_tokens @ [it_token (sl_item slot)])
      else (q, expired_tokens))"
  by pat_completeness auto
termination
  by (relation "measure (\<lambda>(_, i, _, _). MQTT_DISPATCH_CAPACITY - i)") auto

declare expire_from.simps [simp del]

definition mqtt_dispatch_expire :: "mqtt_dispatch_queue \<Rightarrow> u64
    \<Rightarrow> mqtt_dispatch_queue \<times> u64 list \<times> nat" where
  "mqtt_dispatch_expire q now_ms =
     (case expire_from now_ms 0 q [] of (q', tokens) \<Rightarrow> (q', tokens, length tokens))"

text \<open>
  The claim loop: the oldest unexpired queued slot of each priority class, or None when a
  slot is in flight.
\<close>

fun claim_scan :: "u64 \<Rightarrow> mqtt_dispatch_slot list \<Rightarrow> nat \<Rightarrow> mqtt_dispatch_slot list
    \<Rightarrow> nat \<times> nat \<Rightarrow> (nat \<times> nat) option" where
  "claim_scan now_ms slots i [] acc = Some acc"
| "claim_scan now_ms slots i (slot # rest) (critical, other) =
     (if sl_state slot = MQTT_DISPATCH_SLOT_INFLIGHT then None
      else if sl_state slot \<noteq> MQTT_DISPATCH_SLOT_QUEUED \<or> expired (sl_item slot) now_ms
      then claim_scan now_ms slots (Suc i) rest (critical, other)
      else
        let candidate = (if it_critical (sl_item slot) then critical else other);
            candidate' =
              (if candidate = MQTT_DISPATCH_CAPACITY \<or> sl_order slot < sl_order (slots ! candidate)
               then i else candidate)
        in claim_scan now_ms slots (Suc i) rest
          (if it_critical (sl_item slot) then (candidate', other) else (critical, candidate')))"

definition retry_gate :: "mqtt_dispatch_queue \<Rightarrow> u64 \<Rightarrow> nat \<Rightarrow> nat" where
  "retry_gate q now_ms index =
     (if index \<noteq> MQTT_DISPATCH_CAPACITY \<and> sl_retry_after_ms (q_slots q ! index) > now_ms
      then MQTT_DISPATCH_CAPACITY else index)"

definition claim_slot :: "mqtt_dispatch_queue \<Rightarrow> nat \<Rightarrow> u32
    \<Rightarrow> mqtt_dispatch_queue \<times> mqtt_dispatch_claim_t option" where
  "claim_slot q index streak =
     (q\<lparr>q_slots := (q_slots q)[index := (q_slots q ! index)\<lparr>sl_state := MQTT_DISPATCH_SLOT_INFLIGHT\<rparr>],
        q_critical_streak := streak\<rparr>,
      Some \<lparr>cl_slot = index, cl_item = sl_item (q_slots q ! index)\<rparr>)"

definition mqtt_dispatch_claim :: "mqtt_dispatch_queue \<Rightarrow> u64
    \<Rightarrow> mqtt_dispatch_queue \<times> mqtt_dispatch_claim_t option" where
  "mqtt_dispatch_claim q now_ms =
     (case claim_scan now_ms (q_slots q) 0 (q_slots q) (MQTT_DISPATCH_CAPACITY, MQTT_DISPATCH_CAPACITY) of
        None \<Rightarrow> (q, None)
      | Some (critical0, other0) \<Rightarrow>
          let critical = retry_gate q now_ms critical0;
              other = retry_gate q now_ms other0
          in if critical \<noteq> MQTT_DISPATCH_CAPACITY \<and>
                (other = MQTT_DISPATCH_CAPACITY \<or> q_critical_streak q < MQTT_DISPATCH_CRITICAL_BURST)
             then claim_slot q critical
                    (if q_critical_streak q < MQTT_DISPATCH_CRITICAL_BURST
                     then q_critical_streak q + 1 else q_critical_streak q)
             else if other = MQTT_DISPATCH_CAPACITY then (q, None)
             else claim_slot q other 0)"

definition mqtt_dispatch_finish :: "mqtt_dispatch_queue \<Rightarrow> mqtt_dispatch_claim_t
    \<Rightarrow> mqtt_dispatch_finish_kind \<Rightarrow> u64 \<Rightarrow> u64 \<Rightarrow> mqtt_dispatch_queue \<times> bool" where
  "mqtt_dispatch_finish q claim result now_ms retry_after_ms =
     (if cl_slot claim \<ge> MQTT_DISPATCH_CAPACITY then (q, False)
      else let slot = q_slots q ! cl_slot claim; c = q_counters q in
        if sl_state slot \<noteq> MQTT_DISPATCH_SLOT_INFLIGHT \<or>
           it_token (sl_item slot) \<noteq> it_token (cl_item claim)
        then (q, False)
        else if result = MQTT_DISPATCH_RETRY \<and> \<not> expired (sl_item slot) now_ms
        then (q\<lparr>q_slots := (q_slots q)[cl_slot claim :=
                slot\<lparr>sl_state := MQTT_DISPATCH_SLOT_QUEUED, sl_retry_after_ms := retry_after_ms\<rparr>]\<rparr>,
              True)
        else (release_slot (q\<lparr>q_counters :=
                (if result = MQTT_DISPATCH_RETRY then c\<lparr>st_expired := st_expired c + 1\<rparr>
                 else if result = MQTT_DISPATCH_DROP then c\<lparr>st_dropped := st_dropped c + 1\<rparr>
                 else c)\<rparr>) (cl_slot claim),
              True))"

definition mqtt_dispatch_stats_of :: "mqtt_dispatch_queue \<Rightarrow> mqtt_dispatch_stats" where
  "mqtt_dispatch_stats_of q = q_counters q"

section \<open>The age-ordered view\<close>

definition occ :: "mqtt_dispatch_slot \<Rightarrow> bool" where
  "occ s \<longleftrightarrow> sl_state s \<noteq> MQTT_DISPATCH_SLOT_FREE"

definition entries :: "mqtt_dispatch_queue \<Rightarrow> mqtt_dispatch_slot list" where
  "entries q = sort_key sl_order (filter occ (q_slots q))"

abbreviation slot_token :: "mqtt_dispatch_slot \<Rightarrow> u64" where
  "slot_token s \<equiv> it_token (sl_item s)"

abbreviation noncrit :: "mqtt_dispatch_slot \<Rightarrow> bool" where
  "noncrit s \<equiv> \<not> it_critical (sl_item s)"

abbreviation inflight :: "mqtt_dispatch_slot \<Rightarrow> bool" where
  "inflight s \<equiv> sl_state s = MQTT_DISPATCH_SLOT_INFLIGHT"

text \<open>Replacing the entry of a given age, and removing it.\<close>

definition put_entry :: "mqtt_dispatch_slot \<Rightarrow> mqtt_dispatch_slot list \<Rightarrow> mqtt_dispatch_slot list" where
  "put_entry s es = map (\<lambda>x. if sl_order x = sl_order s then s else x) es"

definition drop_entry :: "mqtt_dispatch_slot \<Rightarrow> mqtt_dispatch_slot list \<Rightarrow> mqtt_dispatch_slot list" where
  "drop_entry s es = filter (\<lambda>x. sl_order x \<noteq> sl_order s) es"

text \<open>What the pool guarantees about its entries, with the highest receipt issued.\<close>

definition entries_ok :: "u64 \<Rightarrow> mqtt_dispatch_slot list \<Rightarrow> bool" where
  "entries_ok lt es \<longleftrightarrow>
     sorted_wrt (<) (map sl_order es) \<and> distinct (map slot_token es) \<and>
     (\<forall>s \<in> set es. occ s \<and> 0 < sl_order s \<and> sl_order s \<le> slot_token s \<and> slot_token s \<le> lt) \<and>
     length (filter noncrit es) \<le> 24 \<and> length (filter inflight es) \<le> 1"

definition q_ok :: "mqtt_dispatch_queue \<Rightarrow> bool" where
  "q_ok q \<longleftrightarrow> length (q_slots q) = MQTT_DISPATCH_CAPACITY \<and>
     entries_ok (q_last_token q) (entries q) \<and>
     st_depth (q_counters q) = of_nat (length (entries q)) \<and>
     st_depth (q_counters q) \<le> st_highwater (q_counters q) \<and> st_highwater (q_counters q) \<le> 32 \<and>
     q_critical_streak q \<le> MQTT_DISPATCH_CRITICAL_BURST"

lemma occ_zero [simp]: "\<not> occ zero_slot"
  by (simp add: occ_def zero_slot_def)

lemma mset_entries: "mset (entries q) = mset (filter occ (q_slots q))"
  by (simp add: entries_def)

lemma set_entries: "set (entries q) = {s \<in> set (q_slots q). occ s}"
  by (auto simp: entries_def)

lemma length_entries: "length (entries q) = length (filter occ (q_slots q))"
  by (simp add: entries_def)

lemma length_entries_le: "q_ok q \<Longrightarrow> length (entries q) \<le> 32"
  using length_filter_le [of occ "q_slots q"] by (simp add: length_entries q_ok_def)

lemma entries_cong: "q_slots q' = q_slots q \<Longrightarrow> entries q' = entries q"
  by (simp add: entries_def)

lemma entries_ok_inj: "entries_ok lt es \<Longrightarrow> inj_on sl_order (set es)"
  by (metis distinct_map entries_ok_def strict_sorted_iff)

lemma entries_ok_inj_token: "entries_ok lt es \<Longrightarrow> inj_on slot_token (set es)"
  by (simp add: entries_ok_def distinct_map)

lemma strict_sorted_map_sorted: "sorted_wrt (<) (map (f :: 'a \<Rightarrow> 'b::linorder) xs) \<Longrightarrow> sorted (map f xs)"
  by (simp add: strict_sorted_iff)

text \<open>One slot of the pool changes: what happens to the multiset of occupied slots.\<close>

lemma filter_update_mset:
  assumes "i < length xs" and "P (xs ! i)"
  obtains M where "mset (filter P xs) = add_mset (xs ! i) M"
    and "\<And>y. mset (filter P (xs[i := y])) = (if P y then add_mset y M else M)"
proof
  let ?M = "mset (filter P xs) - {#xs ! i#}"
  have mem: "xs ! i \<in># mset (filter P xs)" using assms by simp
  then show "mset (filter P xs) = add_mset (xs ! i) ?M" by simp
  fix y
  show "mset (filter P (xs[i := y])) = (if P y then add_mset y ?M else ?M)"
    using assms by (simp add: mset_update)
qed

lemma filter_update_mset_new:
  assumes "i < length xs" and "\<not> P (xs ! i)" and "P y"
  shows "mset (filter P (xs[i := y])) = add_mset y (mset (filter P xs))"
  using assms by (simp add: mset_update)

lemma entriesI:
  assumes "mset (filter occ (q_slots q)) = mset es" and "sorted_wrt (<) (map sl_order es)"
  shows "entries q = es"
proof -
  have "inj_on sl_order (set es)"
    using assms(2) by (simp add: strict_sorted_iff distinct_map)
  then have "inj_on sl_order (set (filter occ (q_slots q)))"
    using mset_eq_setD [OF assms(1)] by metis
  then show ?thesis
    unfolding entries_def
    by (rule sort_key_inj_key_eq [OF assms(1)]) (rule strict_sorted_map_sorted [OF assms(2)])
qed

lemma map_order_put [simp]: "map sl_order (put_entry s es) = map sl_order es"
  by (simp add: put_entry_def)

lemma length_put [simp]: "length (put_entry s es) = length es"
  by (simp add: put_entry_def)

lemma sorted_drop: "sorted_wrt (<) (map sl_order es) \<Longrightarrow> sorted_wrt (<) (map sl_order (drop_entry s es))"
  by (simp add: drop_entry_def sorted_wrt_map sorted_wrt_filter)

lemma entries_insert:
  assumes "q_ok q" and "i < length (q_slots q)" and "\<not> occ (q_slots q ! i)" and "occ s"
    and "\<And>x. x \<in> set (entries q) \<Longrightarrow> sl_order x < sl_order s"
    and "q_slots q' = (q_slots q)[i := s]"
  shows "entries q' = entries q @ [s]"
proof (rule entriesI)
  show "mset (filter occ (q_slots q')) = mset (entries q @ [s])"
    using filter_update_mset_new [of i "q_slots q" occ s] assms by (simp add: mset_entries)
  show "sorted_wrt (<) (map sl_order (entries q @ [s]))"
    using assms(1,5) by (simp add: q_ok_def entries_ok_def sorted_wrt_append)
qed

lemma others_differ:
  assumes "entries_ok lt es" and "mset es = add_mset old M" and "x \<in># M"
  shows "sl_order x \<noteq> sl_order old"
proof -
  have "old \<in># mset es" using assms(2) by simp
  then have "old \<in> set es" by simp
  then obtain xs ys where es: "es = xs @ old # ys" by (blast dest: split_list)
  have "distinct (map sl_order es)"
    using assms(1) by (simp add: entries_ok_def strict_sorted_iff)
  moreover have "M = mset (xs @ ys)" using assms(2) es by simp
  then have "x \<in> set xs \<union> set ys" using assms(3) by simp
  ultimately show ?thesis by (auto simp: es image_iff)
qed

lemma slot_update_cases:
  assumes "q_ok q" and "i < length (q_slots q)" and "occ (q_slots q ! i)"
  obtains M where "mset (entries q) = add_mset (q_slots q ! i) M"
    and "\<And>y. mset (filter occ ((q_slots q)[i := y])) = (if occ y then add_mset y M else M)"
    and "\<And>x. x \<in># M \<Longrightarrow> sl_order x \<noteq> sl_order (q_slots q ! i)"
proof -
  obtain M where M: "mset (filter occ (q_slots q)) = add_mset (q_slots q ! i) M"
    "\<And>y. mset (filter occ ((q_slots q)[i := y])) = (if occ y then add_mset y M else M)"
    using filter_update_mset [of i "q_slots q" occ] assms(2,3) by blast
  have "entries_ok (q_last_token q) (entries q)" using assms(1) by (simp add: q_ok_def)
  note differ = others_differ [OF this]
  show thesis
    by (rule that [of M]) (use M differ in \<open>simp_all add: mset_entries\<close>)
qed

lemma entries_put:
  assumes "q_ok q" and "i < length (q_slots q)" and "occ (q_slots q ! i)" and "occ s"
    and "sl_order s = sl_order (q_slots q ! i)" and "q_slots q' = (q_slots q)[i := s]"
  shows "entries q' = put_entry s (entries q)"
proof (rule entriesI)
  obtain M where M: "mset (entries q) = add_mset (q_slots q ! i) M"
    "\<And>y. mset (filter occ ((q_slots q)[i := y])) = (if occ y then add_mset y M else M)"
    "\<And>x. x \<in># M \<Longrightarrow> sl_order x \<noteq> sl_order (q_slots q ! i)"
    using slot_update_cases [OF assms(1-3)] by blast
  have "image_mset (\<lambda>x. if sl_order x = sl_order s then s else x) M = image_mset (\<lambda>x. x) M"
    by (rule image_mset_cong) (use M(3) assms(5) in simp)
  then show "mset (filter occ (q_slots q')) = mset (put_entry s (entries q))"
    using M(1,2) assms(4-6) by (simp add: put_entry_def)
  show "sorted_wrt (<) (map sl_order (put_entry s (entries q)))"
    using assms(1) by (simp add: q_ok_def entries_ok_def)
qed

lemma entries_drop:
  assumes "q_ok q" and "i < length (q_slots q)" and "occ (q_slots q ! i)"
    and "q_slots q' = (q_slots q)[i := zero_slot]"
  shows "entries q' = drop_entry (q_slots q ! i) (entries q)"
proof (rule entriesI)
  obtain M where M: "mset (entries q) = add_mset (q_slots q ! i) M"
    "\<And>y. mset (filter occ ((q_slots q)[i := y])) = (if occ y then add_mset y M else M)"
    "\<And>x. x \<in># M \<Longrightarrow> sl_order x \<noteq> sl_order (q_slots q ! i)"
    using slot_update_cases [OF assms(1-3)] by blast
  have "filter_mset (\<lambda>x. sl_order x \<noteq> sl_order (q_slots q ! i)) M = filter_mset (\<lambda>x. True) M"
    by (rule filter_mset_cong) (use M(3) in simp_all)
  then show "mset (filter occ (q_slots q')) = mset (drop_entry (q_slots q ! i) (entries q))"
    using M(1,2) assms(4) by (simp add: drop_entry_def)
  show "sorted_wrt (<) (map sl_order (drop_entry (q_slots q ! i) (entries q)))"
    using assms(1) by (intro sorted_drop) (simp add: q_ok_def entries_ok_def)
qed

subsection \<open>The abstract operations keep the guarantees\<close>

lemma q_ok_entries: "q_ok q \<Longrightarrow> entries_ok (q_last_token q) (entries q)"
  by (simp add: q_ok_def)

lemma entry_split:
  assumes "entries_ok lt es" and "s0 \<in> set es" and "sl_order s = sl_order s0"
  obtains xs ys where "es = xs @ s0 # ys" and "put_entry s es = xs @ s # ys"
    and "drop_entry s es = xs @ ys"
proof -
  from assms(2) obtain xs ys where es: "es = xs @ s0 # ys" by (blast dest: split_list)
  have "distinct (map sl_order es)" using assms(1) by (simp add: entries_ok_def strict_sorted_iff)
  then have ne: "x \<in> set xs \<union> set ys \<Longrightarrow> sl_order x \<noteq> sl_order s" for x
    by (auto simp: es assms(3) image_iff)
  then have "map (\<lambda>x. if sl_order x = sl_order s then s else x) xs = xs"
    "map (\<lambda>x. if sl_order x = sl_order s then s else x) ys = ys"
    by (auto intro: map_idI)
  moreover have "filter (\<lambda>x. sl_order x \<noteq> sl_order s) xs = xs"
    "filter (\<lambda>x. sl_order x \<noteq> sl_order s) ys = ys"
    using ne by (auto intro: filter_True)
  ultimately show thesis
    by (intro that [of xs ys]) (simp_all add: es put_entry_def drop_entry_def assms(3))
qed

lemma entries_ok_append:
  assumes "entries_ok lt es" and "lt \<noteq> uint64_max" and "sl_order s = lt + 1" and "slot_token s = lt + 1"
    and "sl_state s = MQTT_DISPATCH_SLOT_QUEUED" and "noncrit s \<Longrightarrow> length (filter noncrit es) < 24"
  shows "entries_ok (lt + 1) (es @ [s])"
proof -
  have low: "x \<in> set es \<Longrightarrow> sl_order x < lt + 1 \<and> slot_token x < lt + 1" for x
    using assms(1,2) le_less_inc [of _ lt] by (auto simp: entries_ok_def)
  have "0 < lt + 1" using less_inc [OF assms(2)] by (metis word_gt_0 word_not_simps(1))
  with low assms show ?thesis
    by (auto simp: entries_ok_def sorted_wrt_append occ_def less_imp_le dest!: low)
qed

lemma entries_ok_put:
  assumes "entries_ok lt es" and "s0 \<in> set es" and "sl_order s = sl_order s0" and "occ s"
    and "it_critical (sl_item s) = it_critical (sl_item s0)" and "lt \<le> lt'"
    and "slot_token s = slot_token s0 \<or> (lt < slot_token s \<and> slot_token s \<le> lt')"
    and "inflight s \<Longrightarrow> filter inflight es = []"
  shows "entries_ok lt' (put_entry s es)"
proof -
  obtain xs ys where es: "es = xs @ s0 # ys" "put_entry s es = xs @ s # ys"
    using entry_split [OF assms(1-3)] by metis
  have sorted: "sorted_wrt (<) (map sl_order (put_entry s es))"
    using assms(1) by (simp add: entries_ok_def)
  have le: "x \<in> set xs \<union> set ys \<Longrightarrow> slot_token x \<le> lt" for x
    using assms(1) by (auto simp: entries_ok_def es)
  have "x \<in> set xs \<union> set ys \<Longrightarrow> slot_token x \<noteq> slot_token s0" for x
    using assms(1) by (auto simp: entries_ok_def es(1) image_iff)
  then have "x \<in> set xs \<union> set ys \<Longrightarrow> slot_token x \<noteq> slot_token s" for x
    using assms(7) le [of x] by (metis leD)
  moreover have "distinct (map slot_token (xs @ ys))" using assms(1) by (auto simp: entries_ok_def es)
  ultimately have "distinct (map slot_token (put_entry s es))" unfolding es(2) by fastforce
  moreover have "length (filter inflight (put_entry s es)) \<le> 1"
    using assms(1,8) unfolding es(2) by (cases "inflight s") (auto simp: entries_ok_def es split: if_splits)
  moreover have "length (filter noncrit (put_entry s es)) \<le> 24"
    using assms(1,5) unfolding es(2) by (simp add: entries_ok_def es(1) split: if_splits)
  moreover have "occ x \<and> 0 < sl_order x \<and> sl_order x \<le> slot_token x \<and> slot_token x \<le> lt'"
    if "x \<in> set (put_entry s es)" for x
  proof (cases "x = s")
    case True
    have "0 < sl_order s0 \<and> sl_order s0 \<le> slot_token s0 \<and> slot_token s0 \<le> lt"
      using assms(1,2) by (simp add: entries_ok_def)
    moreover have "sl_order s \<le> slot_token s \<and> slot_token s \<le> lt'"
      using calculation assms(3,6,7) by (elim disjE) auto
    ultimately show ?thesis using True assms(3,4) by simp
  next
    case False
    with that have "x \<in> set es" unfolding es(2) by (auto simp: es(1))
    with assms(1,6) show ?thesis by (auto simp: entries_ok_def)
  qed
  ultimately show ?thesis using sorted by (simp add: entries_ok_def)
qed

lemma entries_ok_drop:
  assumes "entries_ok lt es"
  shows "entries_ok lt (drop_entry s es)"
proof -
  have le: "length (filter P (drop_entry s es)) \<le> length (filter P es)" for P
    by (induction es) (auto simp: drop_entry_def)
  have "distinct (map slot_token (drop_entry s es))"
    using assms by (simp add: entries_ok_def drop_entry_def distinct_map_filter)
  moreover have "set (drop_entry s es) \<subseteq> set es" by (auto simp: drop_entry_def)
  ultimately show ?thesis
    using assms le [of noncrit] le [of inflight] sorted_drop [of es s]
    unfolding entries_ok_def by (meson le_trans subsetD)
qed

section \<open>Admission\<close>

definition scan_inv :: "mqtt_dispatch_request \<Rightarrow> string \<Rightarrow> mqtt_dispatch_slot list \<Rightarrow> nat \<times> nat \<times> nat \<Rightarrow> bool" where
  "scan_inv request topic pre acc \<longleftrightarrow> (case acc of (free_slot, replacement, noncritical) \<Rightarrow>
     (if free_slot = MQTT_DISPATCH_CAPACITY then list_all occ pre
      else free_slot < length pre \<and> \<not> occ (pre ! free_slot)) \<and>
     (if replacement = MQTT_DISPATCH_CAPACITY then \<not> list_ex (coalesces request topic) pre
      else replacement < length pre \<and> coalesces request topic (pre ! replacement)) \<and>
     noncritical = length (filter noncrit (filter occ pre)))"

lemma coalesces_occ: "coalesces r t s \<Longrightarrow> occ s"
  by (simp add: coalesces_def occ_def)

lemma scan_inv_snoc:
  assumes "scan_inv r t pre (f, p, n)" and "length pre < MQTT_DISPATCH_CAPACITY"
  shows "scan_inv r t (pre @ [s])
    (if sl_state s = MQTT_DISPATCH_SLOT_FREE
     then (if f = MQTT_DISPATCH_CAPACITY then length pre else f, p, n)
     else (f, if coalesces r t s then length pre else p,
           if \<not> it_critical (sl_item s) then n + 1 else n))"
  using assms coalesces_occ [of r t s]
  by (auto simp: scan_inv_def occ_def nth_append split: if_splits)

lemma submit_scan_inv:
  assumes "scan_inv r t pre acc" and "length (pre @ slots) = MQTT_DISPATCH_CAPACITY"
  shows "scan_inv r t (pre @ slots) (submit_scan r t (length pre) slots acc)"
  using assms
proof (induction slots arbitrary: pre acc)
  case Nil
  then show ?case by simp
next
  case (Cons s slots)
  obtain f p n where acc: "acc = (f, p, n)" by (cases acc)
  from Cons.IH [OF scan_inv_snoc [OF Cons.prems(1) [unfolded acc]], of s] Cons.prems(2)
  show ?case by (simp add: acc del: MQTT_DISPATCH_CAPACITY_def)
qed

lemma noncrit_entries:
  "length (filter noncrit (filter occ (q_slots q))) = length (filter noncrit (entries q))"
  by (metis mset_entries mset_filter size_mset)

text \<open>What admission does, by the outcome.\<close>

datatype admission = Refused mqtt_dispatch_result | Fresh nat | Coalesced nat

definition admit :: "mqtt_dispatch_queue \<Rightarrow> mqtt_dispatch_request \<Rightarrow> admission \<Rightarrow> bool" where
  "admit q r a \<longleftrightarrow> (case a of
     Refused res \<Rightarrow> res \<noteq> MQTT_DISPATCH_ACCEPTED
   | Fresh i \<Rightarrow> \<not> request_invalid q r \<and> i < 32 \<and> \<not> occ (q_slots q ! i) \<and>
       (rq_critical r \<or> length (filter noncrit (entries q)) < 24) \<and>
       \<not> list_ex (coalesces r (the (rq_topic r))) (q_slots q)
   | Coalesced i \<Rightarrow> \<not> request_invalid q r \<and> i < 32 \<and> coalesces r (the (rq_topic r)) (q_slots q ! i))"

lemma submit_cases:
  assumes "q_ok q"
  obtains (refused) c res where "mqtt_dispatch_submit q r = (q\<lparr>q_counters := c\<rparr>, res, 0, 0)"
      and "c = q_counters q \<or> c = (q_counters q)\<lparr>st_full := st_full (q_counters q) + 1\<rparr>"
      and "res \<noteq> MQTT_DISPATCH_ACCEPTED"
      and "res = MQTT_DISPATCH_FULL \<Longrightarrow> list_all occ (q_slots q) \<or>
        (\<not> rq_critical r \<and> 24 \<le> length (filter noncrit (entries q)))"
  | (fresh) i where "mqtt_dispatch_submit q r = submit_store q r (the (rq_topic r)) i MQTT_DISPATCH_CAPACITY"
      and "admit q r (Fresh i)"
  | (coalesced) i where "mqtt_dispatch_submit q r = submit_store q r (the (rq_topic r)) i i"
      and "admit q r (Coalesced i)"
proof -
  let ?t = "the (rq_topic r)"
  obtain f p n where scan: "submit_scan r ?t 0 (q_slots q)
      (MQTT_DISPATCH_CAPACITY, MQTT_DISPATCH_CAPACITY, 0) = (f, p, n)"
    by (metis prod_cases3)
  have len: "length (q_slots q) = 32" using assms by (simp add: q_ok_def)
  have inv: "scan_inv r ?t (q_slots q) (f, p, n)"
    using submit_scan_inv [of r ?t "[]" "(MQTT_DISPATCH_CAPACITY, MQTT_DISPATCH_CAPACITY, 0)" "q_slots q"]
      scan len by (simp add: scan_inv_def split: if_splits)
  consider (a) "request_invalid q r \<or> topic_scan 0 ?t = 64 \<or> rq_payload_len r > 256"
    | (b) "\<not> request_invalid q r" "topic_scan 0 ?t \<noteq> 64" "\<not> rq_payload_len r > 256"
    by blast
  then show thesis
  proof cases
    case a
    then have "mqtt_dispatch_submit q r =
        (q, if request_invalid q r then MQTT_DISPATCH_INVALID else MQTT_DISPATCH_TOO_LARGE, 0, 0)"
      by (auto simp: mqtt_dispatch_submit_def Let_def)
    then show thesis by (intro refused [of "q_counters q"]) (auto split: if_splits)
  next
    case b
    have sub: "mqtt_dispatch_submit q r =
      (let index = (if p = 32 then f else p)
       in if index = 32 \<or> (p = 32 \<and> \<not> rq_critical r \<and> n \<ge> 24)
          then (q\<lparr>q_counters := (q_counters q)\<lparr>st_full := st_full (q_counters q) + 1\<rparr>\<rparr>,
                   MQTT_DISPATCH_FULL, 0, 0)
          else submit_store q r ?t index p)"
      using b scan by (simp add: mqtt_dispatch_submit_def Let_def)
    show thesis
    proof (cases "p = 32")
      case True
      show thesis
      proof (cases "f = 32 \<or> (\<not> rq_critical r \<and> n \<ge> 24)")
        case full: True
        then have "mqtt_dispatch_submit q r =
          (q\<lparr>q_counters := (q_counters q)\<lparr>st_full := st_full (q_counters q) + 1\<rparr>\<rparr>, MQTT_DISPATCH_FULL, 0, 0)"
          using True by (auto simp: sub)
        then show thesis
          by (rule refused) (use full inv noncrit_entries [of q] in \<open>auto simp: scan_inv_def\<close>)
      next
        case False
        then show thesis
          using True inv b(1) len noncrit_entries [of q]
          by (intro fresh [of f]) (auto simp: sub admit_def scan_inv_def)
      qed
    next
      case False
      then show thesis
        using inv b(1) len by (intro coalesced [of p]) (auto simp: sub admit_def scan_inv_def)
    qed
  qed
qed

lemma admit_last: "admit q r (Fresh i) \<or> admit q r (Coalesced i) \<Longrightarrow> q_last_token q \<noteq> uint64_max"
  by (auto simp: admit_def request_invalid_def)

text \<open>A fresh admission appends the request at the young end.\<close>

definition fresh_entry :: "mqtt_dispatch_queue \<Rightarrow> mqtt_dispatch_request \<Rightarrow> mqtt_dispatch_slot" where
  "fresh_entry q r = \<lparr>sl_item = request_item r (the (rq_topic r)) (q_last_token q + 1),
     sl_order = q_last_token q + 1, sl_retry_after_ms = 0, sl_state = MQTT_DISPATCH_SLOT_QUEUED\<rparr>"

lemma fresh_update:
  "s\<lparr>sl_order := q_last_token q + 1, sl_retry_after_ms := 0,
     sl_item := request_item r (the (rq_topic r)) (q_last_token q + 1),
     sl_state := MQTT_DISPATCH_SLOT_QUEUED\<rparr> = fresh_entry q r"
  by (cases s) (simp add: fresh_entry_def)

lemma submit_store_fresh:
  assumes "submit_store q r (the (rq_topic r)) i MQTT_DISPATCH_CAPACITY = (q', res, token, replaced)"
  shows "q_slots q' = (q_slots q)[i := fresh_entry q r]"
    and "q_last_token q' = q_last_token q + 1" and "q_critical_streak q' = q_critical_streak q"
    and "q_counters q' = (q_counters q)\<lparr>st_accepted := st_accepted (q_counters q) + 1,
      st_depth := st_depth (q_counters q) + 1,
      st_highwater := max (st_depth (q_counters q) + 1) (st_highwater (q_counters q))\<rparr>"
    and "res = MQTT_DISPATCH_ACCEPTED" and "token = q_last_token q + 1" and "replaced = 0"
  using assms by (auto simp: submit_store_def Let_def fresh_update max_def)

lemma depth_inc:
  assumes "q_ok q" and "length (entries q) < 32"
  shows "st_depth (q_counters q) + 1 = of_nat (Suc (length (entries q)))"
    and "max (st_depth (q_counters q) + 1) (st_highwater (q_counters q)) \<le> 32"
proof -
  show eq: "st_depth (q_counters q) + 1 = of_nat (Suc (length (entries q)))"
    using assms(1) by (simp add: q_ok_def add.commute)
  have "unat (st_depth (q_counters q) + 1) \<le> 32"
    using assms(2) unfolding eq by (simp add: unat_of_nat_small del: of_nat_Suc)
  then show "max (st_depth (q_counters q) + 1) (st_highwater (q_counters q)) \<le> 32"
    using assms(1) by (auto simp: q_ok_def word_le_nat_alt max_def)
qed

lemma length_entries_free:
  assumes "q_ok q" and "i < 32" and "\<not> occ (q_slots q ! i)"
  shows "length (entries q) < 32"
proof -
  have "length (filter occ (q_slots q)) < length (q_slots q)"
    using assms by (intro length_filter_less [of "q_slots q ! i"]) (simp_all add: q_ok_def)
  then show ?thesis using assms(1) by (simp add: length_entries q_ok_def)
qed

lemma submit_fresh:
  assumes "q_ok q" and "admit q r (Fresh i)"
    and "submit_store q r (the (rq_topic r)) i MQTT_DISPATCH_CAPACITY = (q', res, token, replaced)"
  shows "entries q' = entries q @ [fresh_entry q r]" and "q_ok q'"
proof -
  note st = submit_store_fresh [OF assms(3)]
  have adm: "i < 32" "\<not> occ (q_slots q ! i)"
    "\<not> rq_critical r \<Longrightarrow> length (filter noncrit (entries q)) < 24"
    and lt: "q_last_token q \<noteq> uint64_max"
    using assms(2) admit_last by (auto simp: admit_def)
  have ok: "entries_ok (q_last_token q) (entries q)" by (rule q_ok_entries [OF assms(1)])
  show ent: "entries q' = entries q @ [fresh_entry q r]"
    by (rule entries_insert [OF assms(1) _ adm(2) _ _ st(1)])
      (use assms(1) adm(1) ok lt in
        \<open>auto simp: q_ok_def occ_def fresh_entry_def entries_ok_def intro!: le_less_inc\<close>)
  have "entries_ok (q_last_token q') (entries q')"
    unfolding ent st(2) by (rule entries_ok_append [OF ok lt])
      (use adm(3) in \<open>simp_all add: fresh_entry_def request_item_def\<close>)
  then show "q_ok q'"
    using assms(1) depth_inc [OF assms(1) length_entries_free [OF assms(1) adm(1,2)]]
    by (simp add: q_ok_def st ent)
qed

text \<open>Coalescing replaces the queued snapshot in place, keeping its age.\<close>

definition coalesced_entry ::
    "mqtt_dispatch_queue \<Rightarrow> mqtt_dispatch_request \<Rightarrow> mqtt_dispatch_slot \<Rightarrow> mqtt_dispatch_slot" where
  "coalesced_entry q r s = s\<lparr>sl_item := request_item r (the (rq_topic r)) (q_last_token q + 1),
     sl_state := MQTT_DISPATCH_SLOT_QUEUED\<rparr>"

lemma submit_store_coalesced:
  assumes "submit_store q r (the (rq_topic r)) i i = (q', res, token, replaced)" and "i < 32"
  shows "q_slots q' = (q_slots q)[i := coalesced_entry q r (q_slots q ! i)]"
    and "q_last_token q' = q_last_token q + 1" and "q_critical_streak q' = q_critical_streak q"
    and "q_counters q' = (q_counters q)\<lparr>st_accepted := st_accepted (q_counters q) + 1,
      st_coalesced := st_coalesced (q_counters q) + 1\<rparr>"
    and "res = MQTT_DISPATCH_ACCEPTED" and "token = q_last_token q + 1"
    and "replaced = slot_token (q_slots q ! i)"
  using assms by (auto simp: submit_store_def Let_def coalesced_entry_def)

lemma slot_in_entries:
  "q_ok q \<Longrightarrow> i < 32 \<Longrightarrow> occ (q_slots q ! i) \<Longrightarrow> q_slots q ! i \<in> set (entries q)"
  by (simp add: set_entries q_ok_def)

lemma submit_coalesced:
  assumes "q_ok q" and "admit q r (Coalesced i)"
    and "submit_store q r (the (rq_topic r)) i i = (q', res, token, replaced)"
  shows "entries q' = put_entry (coalesced_entry q r (q_slots q ! i)) (entries q)" and "q_ok q'"
proof -
  have adm: "i < 32" "coalesces r (the (rq_topic r)) (q_slots q ! i)"
    and lt: "q_last_token q \<noteq> uint64_max"
    using assms(2) admit_last by (auto simp: admit_def)
  note st = submit_store_coalesced [OF assms(3) adm(1)]
  have occ: "occ (q_slots q ! i)" using adm(2) by (rule coalesces_occ)
  show ent: "entries q' = put_entry (coalesced_entry q r (q_slots q ! i)) (entries q)"
    by (rule entries_put [OF assms(1) _ occ _ _ st(1)])
      (use assms(1) adm(1) in \<open>simp_all add: q_ok_def occ_def coalesced_entry_def\<close>)
  have "entries_ok (q_last_token q') (entries q')"
    unfolding ent st(2)
    by (rule entries_ok_put [OF q_ok_entries [OF assms(1)] slot_in_entries [OF assms(1) adm(1) occ]])
      (use adm(2) less_inc [OF lt] in
        \<open>auto simp: coalesced_entry_def request_item_def occ_def coalesces_def\<close>)
  then show "q_ok q'" using assms(1) by (auto simp: q_ok_def st ent)
qed

lemma q_ok_refused:
  assumes "q_ok q" and "c = q_counters q \<or> c = (q_counters q)\<lparr>st_full := n\<rparr>"
  shows "q_ok (q\<lparr>q_counters := c\<rparr>)" and "entries (q\<lparr>q_counters := c\<rparr>) = entries q"
  using assms by (auto simp: q_ok_def entries_def)

lemma q_ok_submit:
  assumes "q_ok q" shows "q_ok (fst (mqtt_dispatch_submit q r))"
  using assms
proof (cases rule: submit_cases [where r = r])
  case (refused c res)
  then show ?thesis using q_ok_refused [OF assms] by auto
next
  case (fresh i)
  then show ?thesis using submit_fresh(2) [OF assms] by (metis prod.exhaust_sel)
next
  case (coalesced i)
  then show ?thesis using submit_coalesced(2) [OF assms] by (metis prod.exhaust_sel)
qed

section \<open>Release and expiry\<close>

lemma length_drop_entry:
  assumes "entries_ok lt es" and "s \<in> set es"
  shows "length es = Suc (length (drop_entry s es))"
  using entry_split [OF assms refl] by (metis add_Suc_right length_Cons length_append)

lemma release_entry:
  assumes "q_ok q" and "i < 32" and "occ (q_slots q ! i)"
    and "st_depth c = st_depth (q_counters q)" and "st_highwater c = st_highwater (q_counters q)"
  shows "entries (release_slot (q\<lparr>q_counters := c\<rparr>) i) = drop_entry (q_slots q ! i) (entries q)"
    and "q_ok (release_slot (q\<lparr>q_counters := c\<rparr>) i)"
proof -
  let ?q' = "release_slot (q\<lparr>q_counters := c\<rparr>) i"
  show ent: "entries ?q' = drop_entry (q_slots q ! i) (entries q)"
    by (rule entries_drop [OF assms(1) _ assms(3)])
      (use assms(1,2) in \<open>simp_all add: q_ok_def release_slot_def\<close>)
  have len: "length (entries q) = Suc (length (entries ?q'))"
    unfolding ent
    by (rule length_drop_entry [OF q_ok_entries slot_in_entries]) (fact assms)+
  have depth: "st_depth (q_counters q) = of_nat (Suc (length (entries ?q')))"
    using assms(1) len by (simp add: q_ok_def)
  have "length (entries ?q') < 32" using length_entries_le [OF assms(1)] len by simp
  then have "(of_nat (length (entries ?q')) :: u32) \<le> of_nat (Suc (length (entries ?q')))"
    by (simp add: word_le_nat_alt unat_of_nat_small del: of_nat_Suc)
  moreover have dec: "st_depth (q_counters q) - 1 = of_nat (length (entries ?q'))"
    by (simp add: depth)
  ultimately have "st_depth (q_counters q) - 1 \<le> st_depth (q_counters q)"
    by (simp only: dec depth)
  then have "st_depth (q_counters q) - 1 \<le> st_highwater (q_counters q)"
    using assms(1) by (auto simp: q_ok_def)
  moreover have "entries_ok (q_last_token q) (entries ?q')"
    unfolding ent by (rule entries_ok_drop [OF q_ok_entries [OF assms(1)]])
  moreover have "length (q_slots ?q') = length (q_slots q)" "q_last_token ?q' = q_last_token q"
    "q_critical_streak ?q' = q_critical_streak q"
    "q_counters ?q' = c\<lparr>st_depth := st_depth (q_counters q) - 1\<rparr>"
    using assms(4) by (simp_all add: release_slot_def)
  ultimately show "q_ok ?q'"
    using assms(1,5) dec unfolding q_ok_def by simp
qed

definition dead :: "u64 \<Rightarrow> mqtt_dispatch_slot \<Rightarrow> bool" where
  "dead now s \<longleftrightarrow> sl_state s = MQTT_DISPATCH_SLOT_QUEUED \<and> expired (sl_item s) now"

lemma dead_occ: "dead now s \<Longrightarrow> occ s"
  by (simp add: dead_def occ_def)

lemma filter_dead_drop:
  assumes "entries_ok lt es" and "s \<in> set es" and "dead now s"
  shows "filter (\<lambda>x. \<not> dead now x) (drop_entry s es) = filter (\<lambda>x. \<not> dead now x) es"
    and "mset (map slot_token (filter (dead now) es)) =
      add_mset (slot_token s) (mset (map slot_token (filter (dead now) (drop_entry s es))))"
    and "length (filter (dead now) es) = Suc (length (filter (dead now) (drop_entry s es)))"
proof -
  obtain xs ys where "es = xs @ s # ys" "drop_entry s es = xs @ ys"
    using entry_split [OF assms(1,2) refl] by metis
  then show "filter (\<lambda>x. \<not> dead now x) (drop_entry s es) = filter (\<lambda>x. \<not> dead now x) es"
    "mset (map slot_token (filter (dead now) es)) =
      add_mset (slot_token s) (mset (map slot_token (filter (dead now) (drop_entry s es))))"
    "length (filter (dead now) es) = Suc (length (filter (dead now) (drop_entry s es)))"
    using assms(3) by simp_all
qed

lemma expire_from_spec:
  assumes "q_ok q" and "\<And>j. j < i \<Longrightarrow> j < 32 \<Longrightarrow> \<not> dead now (q_slots q ! j)"
    and "expire_from now i q toks = (q', toks')"
  shows "q_ok q' \<and> entries q' = filter (\<lambda>s. \<not> dead now s) (entries q) \<and>
    mset toks' = mset toks + mset (map slot_token (filter (dead now) (entries q))) \<and>
    q_last_token q' = q_last_token q \<and> q_critical_streak q' = q_critical_streak q \<and>
    (\<exists>d. q_counters q' = (q_counters q)\<lparr>st_depth := d, st_expired := st_expired (q_counters q) +
       of_nat (length (filter (dead now) (entries q)))\<rparr>)"
  using assms
proof (induction now i q toks rule: expire_from.induct)
  case (1 now i q toks)
  show ?case
  proof (cases "i < 32")
    case False
    then have "\<not> dead now s" if "s \<in> set (entries q)" for s
      using that 1(3,4) by (auto simp: set_entries in_set_conv_nth q_ok_def)
    then have "filter (\<lambda>s. \<not> dead now s) (entries q) = entries q"
      "filter (dead now) (entries q) = []" by (auto simp: filter_empty_conv)
    moreover have "q' = q" "toks' = toks"
      using False 1(5) by (simp_all add: expire_from.simps [of now i])
    ultimately show ?thesis
      using 1(3) by (auto intro!: exI [of _ "st_depth (q_counters q)"])
  next
    case True
    show ?thesis
    proof (cases "dead now (q_slots q ! i)")
      case False
      then have "j < Suc i \<Longrightarrow> j < 32 \<Longrightarrow> \<not> dead now (q_slots q ! j)" for j
        using 1(4) by (metis less_Suc_eq)
      with False True 1 show ?thesis
        by (intro 1(1)) (auto simp: dead_def expire_from.simps [of now i])
    next
      case dead: True
      let ?c = "(q_counters q)\<lparr>st_expired := st_expired (q_counters q) + 1\<rparr>"
      let ?q = "release_slot (q\<lparr>q_counters := ?c\<rparr>) i"
      let ?s = "q_slots q ! i"
      note rel = release_entry [OF 1(3) True dead_occ [OF dead], of ?c, simplified]
      note mem = slot_in_entries [OF 1(3) True dead_occ [OF dead]]
      note fd = filter_dead_drop [OF q_ok_entries [OF 1(3)] mem dead]
      have step: "expire_from now (Suc i) ?q (toks @ [slot_token ?s]) = (q', toks')"
        using 1(5) True dead by (simp add: expire_from.simps [of now i] dead_def Let_def)
      have low: "j < Suc i \<Longrightarrow> j < 32 \<Longrightarrow> \<not> dead now (q_slots ?q ! j)" for j
        using 1(3,4) by (auto simp: release_slot_def nth_list_update less_Suc_eq dead_def
            zero_slot_def q_ok_def)
      have IH: "q_ok q' \<and> entries q' = filter (\<lambda>s. \<not> dead now s) (entries ?q) \<and>
        mset toks' = mset (toks @ [slot_token ?s]) + mset (map slot_token (filter (dead now) (entries ?q))) \<and>
        q_last_token q' = q_last_token ?q \<and> q_critical_streak q' = q_critical_streak ?q \<and>
        (\<exists>d. q_counters q' = (q_counters ?q)\<lparr>st_depth := d, st_expired := st_expired (q_counters ?q) +
           of_nat (length (filter (dead now) (entries ?q)))\<rparr>)"
        using True dead rel(2) low step by (intro 1(2)) (auto simp: dead_def)
      then show ?thesis
        unfolding rel(1) fd by (auto simp: fd release_slot_def algebra_simps)
    qed
  qed
qed

lemma q_ok_expire:
  assumes "q_ok q" shows "q_ok (fst (mqtt_dispatch_expire q now))"
  using expire_from_spec [OF assms, of 0 now "[]"]
  by (auto simp: mqtt_dispatch_expire_def split: prod.split)

section \<open>Claiming\<close>

definition elig :: "bool \<Rightarrow> u64 \<Rightarrow> mqtt_dispatch_slot \<Rightarrow> bool" where
  "elig crit now s \<longleftrightarrow> sl_state s = MQTT_DISPATCH_SLOT_QUEUED \<and> \<not> expired (sl_item s) now \<and>
     it_critical (sl_item s) = crit"

text \<open>
  The specification: the oldest unexpired queued entry of a class is its head; a head that
  waits for its retry time blocks its class.
\<close>

definition class_head :: "bool \<Rightarrow> u64 \<Rightarrow> mqtt_dispatch_slot list \<Rightarrow> mqtt_dispatch_slot option" where
  "class_head crit now es = (case filter (elig crit now) es of
     [] \<Rightarrow> None | s # _ \<Rightarrow> if sl_retry_after_ms s > now then None else Some s)"

definition spec_claim :: "mqtt_dispatch_slot list \<Rightarrow> u32 \<Rightarrow> u64 \<Rightarrow> (mqtt_dispatch_slot \<times> u32) option" where
  "spec_claim es streak now =
     (if list_ex inflight es then None
      else case (class_head True now es, class_head False now es) of
        (Some c, None) \<Rightarrow> Some (c, if streak < 8 then streak + 1 else streak)
      | (Some c, Some n) \<Rightarrow> if streak < 8 then Some (c, streak + 1) else Some (n, 0)
      | (None, Some n) \<Rightarrow> Some (n, 0)
      | (None, None) \<Rightarrow> None)"

definition best :: "bool \<Rightarrow> u64 \<Rightarrow> mqtt_dispatch_slot list \<Rightarrow> nat \<Rightarrow> nat \<Rightarrow> bool" where
  "best crit now slots n idx \<longleftrightarrow>
     (if idx = MQTT_DISPATCH_CAPACITY then \<forall>j < n. \<not> elig crit now (slots ! j)
      else idx < n \<and> elig crit now (slots ! idx) \<and>
        (\<forall>j < n. elig crit now (slots ! j) \<longrightarrow> sl_order (slots ! idx) \<le> sl_order (slots ! j)))"

lemma best_skip: "best crit now slots n idx \<Longrightarrow> \<not> elig crit now (slots ! n) \<Longrightarrow> best crit now slots (Suc n) idx"
  by (auto simp: best_def less_Suc_eq)

lemma best_take:
  assumes "best crit now slots n idx" and "elig crit now (slots ! n)" and "n < MQTT_DISPATCH_CAPACITY"
  shows "best crit now slots (Suc n)
    (if idx = MQTT_DISPATCH_CAPACITY \<or> sl_order (slots ! n) < sl_order (slots ! idx) then n else idx)"
proof -
  consider "idx = 32" | "idx \<noteq> 32" "sl_order (slots ! n) < sl_order (slots ! idx)"
    | "idx \<noteq> 32" "\<not> sl_order (slots ! n) < sl_order (slots ! idx)"
    by blast
  then show ?thesis
  proof cases
    case 2
    then have "elig crit now (slots ! j) \<Longrightarrow> j < n \<Longrightarrow> sl_order (slots ! n) \<le> sl_order (slots ! j)" for j
      using assms(1) by (auto simp: best_def)
    with 2 assms(2,3) show ?thesis by (auto simp: best_def less_Suc_eq)
  qed (use assms in \<open>auto simp: best_def less_Suc_eq\<close>)
qed

lemma claim_scan_spec:
  assumes "length slots = MQTT_DISPATCH_CAPACITY" and "rest = drop i slots" and "i \<le> length slots"
    and "best True now slots i c" and "best False now slots i n" and "\<not> list_ex inflight (take i slots)"
  shows "if list_ex inflight slots then claim_scan now slots i rest (c, n) = None
     else \<exists>c' n'. claim_scan now slots i rest (c, n) = Some (c', n') \<and>
       best True now slots (length slots) c' \<and> best False now slots (length slots) n'"
  using assms
proof (induction rest arbitrary: i c n)
  case Nil
  then have "i = length slots" by simp
  with Nil show ?case by simp
next
  case (Cons s rest)
  then have i: "i < length slots" by (metis drop_eq_Nil linorder_not_less list.distinct(1))
  have s: "s = slots ! i" "rest = drop (Suc i) slots"
    using Cons.prems(2) i by (metis Cons_nth_drop_Suc list.inject)+
  have i': "i < MQTT_DISPATCH_CAPACITY" using i Cons.prems(1) by (simp del: MQTT_DISPATCH_CAPACITY_def)
  show ?case
  proof (cases "inflight s")
    case True
    then have "list_ex inflight slots" using s i by (auto simp: list_ex_iff)
    with True show ?thesis by simp
  next
    case False
    then have fly: "\<not> list_ex inflight (take (Suc i) slots)"
      using Cons.prems(6) s(1) i by (simp add: take_Suc_conv_app_nth)
    note IH = Cons.IH [OF Cons.prems(1) s(2) Suc_leI [OF i] _ _ fly]
    show ?thesis
    proof (cases "sl_state s \<noteq> MQTT_DISPATCH_SLOT_QUEUED \<or> expired (sl_item s) now")
      case True
      then have "\<not> elig b now (slots ! i)" for b using s by (auto simp: elig_def)
      with IH [OF best_skip [OF Cons.prems(4)] best_skip [OF Cons.prems(5)]] True False
      show ?thesis by simp
    next
      case queued: False
      then have el: "elig b now (slots ! i) = (it_critical (sl_item s) = b)" for b
        using s by (auto simp: elig_def)
      show ?thesis
      proof (cases "it_critical (sl_item s)")
        case True
        with IH [OF best_take [OF Cons.prems(4) _ i'] best_skip [OF Cons.prems(5)]] el queued False
        show ?thesis by (simp add: s(1) Let_def del: MQTT_DISPATCH_CAPACITY_def)
      next
        case nc: False
        with IH [OF best_skip [OF Cons.prems(4)] best_take [OF Cons.prems(5) _ i']] el queued False
        show ?thesis by (simp add: s(1) Let_def del: MQTT_DISPATCH_CAPACITY_def)
      qed
    qed
  qed
qed

lemma best_head:
  assumes "q_ok q" and "best crit now (q_slots q) 32 idx"
  shows "class_head crit now (entries q) =
    (if retry_gate q now idx = MQTT_DISPATCH_CAPACITY then None
     else Some (q_slots q ! retry_gate q now idx))"
    and "retry_gate q now idx \<noteq> MQTT_DISPATCH_CAPACITY \<Longrightarrow>
      retry_gate q now idx < 32 \<and> elig crit now (q_slots q ! retry_gate q now idx)"
proof -
  have len: "length (q_slots q) = 32" using assms(1) by (simp add: q_ok_def)
  show "retry_gate q now idx \<noteq> MQTT_DISPATCH_CAPACITY \<Longrightarrow>
      retry_gate q now idx < 32 \<and> elig crit now (q_slots q ! retry_gate q now idx)"
    using assms(2) by (auto simp: retry_gate_def best_def split: if_splits)
  show "class_head crit now (entries q) =
    (if retry_gate q now idx = MQTT_DISPATCH_CAPACITY then None
     else Some (q_slots q ! retry_gate q now idx))"
  proof (cases "idx = 32")
    case True
    then have "filter (elig crit now) (entries q) = []"
      using assms(2) len by (auto simp: best_def filter_empty_conv set_entries in_set_conv_nth)
    with True show ?thesis by (simp add: class_head_def retry_gate_def)
  next
    case False
    let ?s = "q_slots q ! idx"
    have idx: "idx < 32" "elig crit now ?s" using False assms(2) by (auto simp: best_def)
    have least: "sl_order ?s \<le> sl_order x" if "x \<in> set (entries q)" "elig crit now x" for x
      using that False assms(2) len by (auto simp: best_def set_entries in_set_conv_nth)
    have occ: "occ ?s" using idx(2) by (simp add: elig_def occ_def)
    have ok: "entries_ok (q_last_token q) (entries q)" by (rule q_ok_entries [OF assms(1)])
    obtain xs ys where es: "entries q = xs @ ?s # ys"
      using slot_in_entries [OF assms(1) idx(1) occ] by (blast dest: split_list)
    have "sl_order x < sl_order ?s" if "x \<in> set xs" for x
      using ok that by (auto simp: entries_ok_def es sorted_wrt_append)
    then have "filter (elig crit now) xs = []"
      using least by (fastforce simp: filter_empty_conv es)
    then have "filter (elig crit now) (entries q) = ?s # filter (elig crit now) ys"
      using idx(2) by (simp add: es)
    with False show ?thesis by (simp add: class_head_def retry_gate_def)
  qed
qed

definition flown :: "mqtt_dispatch_slot \<Rightarrow> mqtt_dispatch_slot" where
  "flown s = s\<lparr>sl_state := MQTT_DISPATCH_SLOT_INFLIGHT\<rparr>"

lemma flown_simps [simp]:
  "sl_order (flown s) = sl_order s" "sl_item (flown s) = sl_item s" "inflight (flown s)" "occ (flown s)"
  by (simp_all add: flown_def occ_def)

lemma entries_inflight: "list_ex inflight (entries q) = list_ex inflight (q_slots q)"
  by (auto simp: list_ex_iff set_entries occ_def)

lemma claim_slot_spec:
  assumes "q_ok q" and "i < 32" and "elig b now (q_slots q ! i)" and "\<not> list_ex inflight (entries q)"
    and "streak \<le> 8"
  shows "entries (fst (claim_slot q i streak)) = put_entry (flown (q_slots q ! i)) (entries q)"
    and "q_ok (fst (claim_slot q i streak))"
proof -
  let ?q' = "fst (claim_slot q i streak)"
  have occ: "occ (q_slots q ! i)" using assms(3) by (simp add: elig_def occ_def)
  show ent: "entries ?q' = put_entry (flown (q_slots q ! i)) (entries q)"
    by (rule entries_put [OF assms(1) _ occ])
      (use assms(1,2) in \<open>simp_all add: q_ok_def claim_slot_def flown_def occ_def\<close>)
  have "entries_ok (q_last_token q) (entries ?q')"
    unfolding ent
    by (rule entries_ok_put [OF q_ok_entries [OF assms(1)] slot_in_entries [OF assms(1,2) occ]])
      (use assms(4) in \<open>auto simp: filter_empty_conv list_ex_iff\<close>)
  moreover have "length (entries ?q') = length (entries q)" by (simp add: ent)
  ultimately show "q_ok ?q'"
    using assms(1,5) by (auto simp: q_ok_def claim_slot_def)
qed

lemma claim_refines:
  assumes "q_ok q"
  shows "case spec_claim (entries q) (q_critical_streak q) now of
      None \<Rightarrow> mqtt_dispatch_claim q now = (q, None)
    | Some (s, streak) \<Rightarrow> \<exists>i < 32. q_slots q ! i = s \<and> (\<exists>b. elig b now s) \<and> streak \<le> 8 \<and>
        mqtt_dispatch_claim q now = claim_slot q i streak"
proof (cases "list_ex inflight (entries q)")
  case True
  have len: "length (q_slots q) = MQTT_DISPATCH_CAPACITY" using assms by (simp add: q_ok_def)
  show ?thesis
    using claim_scan_spec [OF len, of "q_slots q" 0 now 32 32] True entries_inflight [of q]
    by (simp add: spec_claim_def mqtt_dispatch_claim_def best_def)
next
  case False
  have len: "length (q_slots q) = MQTT_DISPATCH_CAPACITY" using assms by (simp add: q_ok_def)
  obtain c n where scan: "claim_scan now (q_slots q) 0 (q_slots q)
      (MQTT_DISPATCH_CAPACITY, MQTT_DISPATCH_CAPACITY) = Some (c, n)"
    and best: "best True now (q_slots q) 32 c" "best False now (q_slots q) 32 n"
    using claim_scan_spec [OF len, of "q_slots q" 0 now 32 32] False entries_inflight [of q] len
    by (auto simp: best_def)
  note hc = best_head [OF assms best(1)]
  note hn = best_head [OF assms best(2)]
  have st: "q_critical_streak q \<le> 8" using assms by (simp add: q_ok_def)
  have st1: "q_critical_streak q < 8 \<Longrightarrow> q_critical_streak q + 1 \<le> 8"
    by (metis inc_le word_le_sub1 add.commute)
  have claim: "mqtt_dispatch_claim q now =
    (if retry_gate q now c \<noteq> MQTT_DISPATCH_CAPACITY \<and>
        (retry_gate q now n = MQTT_DISPATCH_CAPACITY \<or> q_critical_streak q < 8)
     then claim_slot q (retry_gate q now c)
       (if q_critical_streak q < 8 then q_critical_streak q + 1 else q_critical_streak q)
     else if retry_gate q now n = MQTT_DISPATCH_CAPACITY then (q, None)
     else claim_slot q (retry_gate q now n) 0)"
    by (simp add: mqtt_dispatch_claim_def scan Let_def del: MQTT_DISPATCH_CAPACITY_def)
  show ?thesis
    using hc hn st st1 False
    by (auto simp: spec_claim_def claim split: if_splits simp del: MQTT_DISPATCH_CAPACITY_def)
qed

lemma q_ok_claim:
  assumes "q_ok q" shows "q_ok (fst (mqtt_dispatch_claim q now))"
proof (cases "spec_claim (entries q) (q_critical_streak q) now")
  case None
  with claim_refines [OF assms, of now] assms show ?thesis by simp
next
  case (Some p)
  obtain s streak where p: "p = (s, streak)" by (cases p)
  have "\<not> list_ex inflight (entries q)" using Some by (auto simp: spec_claim_def split: if_splits)
  with claim_refines [OF assms, of now] Some p claim_slot_spec(2) [OF assms] show ?thesis by auto
qed

section \<open>Completion\<close>

text \<open>A completion is genuine when its slot is in flight for its receipt.\<close>

definition genuine :: "mqtt_dispatch_queue \<Rightarrow> mqtt_dispatch_claim_t \<Rightarrow> bool" where
  "genuine q claim \<longleftrightarrow> cl_slot claim < 32 \<and> inflight (q_slots q ! cl_slot claim) \<and>
     slot_token (q_slots q ! cl_slot claim) = it_token (cl_item claim)"

definition retried :: "mqtt_dispatch_slot \<Rightarrow> u64 \<Rightarrow> mqtt_dispatch_slot" where
  "retried s retry = s\<lparr>sl_state := MQTT_DISPATCH_SLOT_QUEUED, sl_retry_after_ms := retry\<rparr>"

lemma finish_not_genuine: "\<not> genuine q claim \<Longrightarrow> mqtt_dispatch_finish q claim res now retry = (q, False)"
  by (auto simp: genuine_def mqtt_dispatch_finish_def Let_def)

lemma finish_retry:
  assumes "q_ok q" and "genuine q claim" and "\<not> expired (sl_item (q_slots q ! cl_slot claim)) now"
    and "mqtt_dispatch_finish q claim MQTT_DISPATCH_RETRY now retry = (q', b)"
  shows "b" and "entries q' = put_entry (retried (q_slots q ! cl_slot claim) retry) (entries q)"
    and "q_ok q'" and "q_counters q' = q_counters q" and "q_last_token q' = q_last_token q"
    and "q_critical_streak q' = q_critical_streak q"
proof -
  let ?s = "q_slots q ! cl_slot claim"
  have q': "b" "q' = q\<lparr>q_slots := (q_slots q)[cl_slot claim := retried ?s retry]\<rparr>"
    using assms(2-4) by (auto simp: genuine_def mqtt_dispatch_finish_def retried_def Let_def)
  have occ: "occ ?s" using assms(2) by (simp add: genuine_def occ_def)
  have i: "cl_slot claim < 32" using assms(2) by (simp add: genuine_def)
  show "b" "q_counters q' = q_counters q" "q_last_token q' = q_last_token q"
    "q_critical_streak q' = q_critical_streak q" using q' by simp_all
  show ent: "entries q' = put_entry (retried ?s retry) (entries q)"
    by (rule entries_put [OF assms(1) _ occ])
      (use assms(1) i in \<open>simp_all add: q' q_ok_def retried_def occ_def\<close>)
  have "entries_ok (q_last_token q) (entries q')"
    unfolding ent
    by (rule entries_ok_put [OF q_ok_entries [OF assms(1)] slot_in_entries [OF assms(1) i occ]])
      (simp_all add: retried_def occ_def)
  moreover have "length (entries q') = length (entries q)" by (simp add: ent)
  ultimately show "q_ok q'" using assms(1) unfolding q'(2) by (auto simp: q_ok_def)
qed

lemma finish_release:
  assumes "q_ok q" and "genuine q claim"
    and "res = MQTT_DISPATCH_RETRY \<Longrightarrow> expired (sl_item (q_slots q ! cl_slot claim)) now"
    and "mqtt_dispatch_finish q claim res now retry = (q', b)"
  shows "b" and "entries q' = drop_entry (q_slots q ! cl_slot claim) (entries q)" and "q_ok q'"
    and "q_last_token q' = q_last_token q" and "q_critical_streak q' = q_critical_streak q"
    and "\<exists>d. q_counters q' = (let c = q_counters q in
      (if res = MQTT_DISPATCH_RETRY then c\<lparr>st_expired := st_expired c + 1\<rparr>
       else if res = MQTT_DISPATCH_DROP then c\<lparr>st_dropped := st_dropped c + 1\<rparr> else c)\<lparr>st_depth := d\<rparr>)"
proof -
  let ?c = "let c = q_counters q in (if res = MQTT_DISPATCH_RETRY then c\<lparr>st_expired := st_expired c + 1\<rparr>
       else if res = MQTT_DISPATCH_DROP then c\<lparr>st_dropped := st_dropped c + 1\<rparr> else c)"
  have q': "b" "q' = release_slot (q\<lparr>q_counters := ?c\<rparr>) (cl_slot claim)"
    using assms(2-4) by (auto simp: genuine_def mqtt_dispatch_finish_def Let_def split: if_splits)
  have occ: "occ (q_slots q ! cl_slot claim)" using assms(2) by (simp add: genuine_def occ_def)
  have i: "cl_slot claim < 32" using assms(2) by (simp add: genuine_def)
  have "st_depth ?c = st_depth (q_counters q)" "st_highwater ?c = st_highwater (q_counters q)"
    by (simp_all add: Let_def)
  note rel = release_entry [OF assms(1) i occ this]
  show "entries q' = drop_entry (q_slots q ! cl_slot claim) (entries q)" "q_ok q'"
    unfolding q'(2) by (rule rel)+
  show "b" "q_last_token q' = q_last_token q" "q_critical_streak q' = q_critical_streak q"
    using q' by (simp_all add: release_slot_def)
  show "\<exists>d. q_counters q' = (let c = q_counters q in
      (if res = MQTT_DISPATCH_RETRY then c\<lparr>st_expired := st_expired c + 1\<rparr>
       else if res = MQTT_DISPATCH_DROP then c\<lparr>st_dropped := st_dropped c + 1\<rparr> else c)\<lparr>st_depth := d\<rparr>)"
    by (auto simp: q'(2) release_slot_def Let_def)
qed

lemma q_ok_finish:
  assumes "q_ok q" shows "q_ok (fst (mqtt_dispatch_finish q claim res now retry))"
proof -
  obtain q' b where q': "mqtt_dispatch_finish q claim res now retry = (q', b)" by fastforce
  consider "\<not> genuine q claim"
    | "genuine q claim" "res = MQTT_DISPATCH_RETRY" "\<not> expired (sl_item (q_slots q ! cl_slot claim)) now"
    | "genuine q claim" "res = MQTT_DISPATCH_RETRY \<Longrightarrow> expired (sl_item (q_slots q ! cl_slot claim)) now"
    by blast
  then show ?thesis
  proof cases
    case 1
    then show ?thesis using assms by (simp add: finish_not_genuine)
  next
    case 2
    then show ?thesis using finish_retry(3) [OF assms 2(1,3)] q' by simp
  next
    case 3
    then show ?thesis using finish_release(3) [OF assms 3 q'] q' by simp
  qed
qed

section \<open>Runs\<close>

datatype q_event =
    QSubmit mqtt_dispatch_request
  | QExpire u64
  | QClaim u64
  | QFinish mqtt_dispatch_claim_t mqtt_dispatch_finish_kind u64 u64

fun q_step :: "mqtt_dispatch_queue \<Rightarrow> q_event \<Rightarrow> mqtt_dispatch_queue" where
  "q_step q (QSubmit r) = fst (mqtt_dispatch_submit q r)"
| "q_step q (QExpire now) = fst (mqtt_dispatch_expire q now)"
| "q_step q (QClaim now) = fst (mqtt_dispatch_claim q now)"
| "q_step q (QFinish claim res now retry) = fst (mqtt_dispatch_finish q claim res now retry)"

definition q_tokens :: "mqtt_dispatch_queue \<Rightarrow> u64 set" where
  "q_tokens q = slot_token ` set (entries q)"

lemma put_entry_tokens:
  "slot_token ` set (put_entry s es) \<subseteq> insert (slot_token s) (slot_token ` set es)"
  by (auto simp: put_entry_def)

lemma drop_entry_tokens: "slot_token ` set (drop_entry s es) \<subseteq> slot_token ` set es"
  by (auto simp: drop_entry_def)

lemma submit_tokens:
  assumes "q_ok q"
  shows "q_last_token q \<le> q_last_token (fst (mqtt_dispatch_submit q r)) \<and>
    (\<forall>t \<in> q_tokens (fst (mqtt_dispatch_submit q r)). t \<in> q_tokens q \<or> q_last_token q < t)"
  using assms
proof (cases rule: submit_cases [where r = r])
  case (refused c res)
  then show ?thesis using q_ok_refused(2) [OF assms refused(2)] by (simp add: q_tokens_def)
next
  case (fresh i)
  obtain q' res t u where q': "submit_store q r (the (rq_topic r)) i MQTT_DISPATCH_CAPACITY = (q', res, t, u)"
    by (metis prod_cases4)
  have "q_last_token q < q_last_token q + 1"
    using fresh(2) admit_last less_inc by blast
  then show ?thesis
    using fresh(1) q' submit_fresh(1) [OF assms fresh(2) q'] submit_store_fresh(2) [OF q']
    by (auto simp: q_tokens_def fresh_entry_def request_item_def)
next
  case (coalesced i)
  obtain q' res t u where q': "submit_store q r (the (rq_topic r)) i i = (q', res, t, u)"
    by (metis prod_cases4)
  have i: "i < 32" using coalesced(2) by (simp add: admit_def)
  have "q_last_token q < q_last_token q + 1"
    using coalesced(2) admit_last less_inc by blast
  then show ?thesis
    using coalesced(1) q' submit_coalesced(1) [OF assms coalesced(2) q'] submit_store_coalesced(2) [OF q' i]
      put_entry_tokens [of "coalesced_entry q r (q_slots q ! i)" "entries q"]
    by (auto simp: q_tokens_def coalesced_entry_def request_item_def)
qed

lemma claim_tokens:
  assumes "q_ok q"
  shows "q_last_token (fst (mqtt_dispatch_claim q now)) = q_last_token q"
    and "q_tokens (fst (mqtt_dispatch_claim q now)) \<subseteq> q_tokens q"
proof -
  have "q_last_token (fst (mqtt_dispatch_claim q now)) = q_last_token q \<and>
    q_tokens (fst (mqtt_dispatch_claim q now)) \<subseteq> q_tokens q"
  proof (cases "spec_claim (entries q) (q_critical_streak q) now")
    case None
    with claim_refines [OF assms, of now] show ?thesis by simp
  next
    case (Some p)
    obtain s streak where p: "p = (s, streak)" by (cases p)
    have nofly: "\<not> list_ex inflight (entries q)"
      using Some by (auto simp: spec_claim_def split: if_splits)
    obtain i b where i: "i < 32" "q_slots q ! i = s" "elig b now s" "streak \<le> 8"
        "mqtt_dispatch_claim q now = claim_slot q i streak"
      using claim_refines [OF assms, of now] Some p by auto
    have "s \<in> set (entries q)"
      using slot_in_entries [OF assms i(1)] i(2,3) by (simp add: elig_def occ_def)
    with claim_slot_spec(1) [OF assms i(1) _ nofly i(4)] i put_entry_tokens [of "flown s" "entries q"]
    show ?thesis by (auto simp: q_tokens_def claim_slot_def)
  qed
  then show "q_last_token (fst (mqtt_dispatch_claim q now)) = q_last_token q"
    "q_tokens (fst (mqtt_dispatch_claim q now)) \<subseteq> q_tokens q" by simp_all
qed

lemma finish_tokens:
  assumes "q_ok q"
  shows "q_last_token (fst (mqtt_dispatch_finish q claim res now retry)) = q_last_token q"
    and "q_tokens (fst (mqtt_dispatch_finish q claim res now retry)) \<subseteq> q_tokens q"
proof -
  let ?s = "q_slots q ! cl_slot claim"
  obtain q' b where q': "mqtt_dispatch_finish q claim res now retry = (q', b)" by fastforce
  consider "\<not> genuine q claim"
    | "genuine q claim" "res = MQTT_DISPATCH_RETRY" "\<not> expired (sl_item ?s) now"
    | "genuine q claim" "res = MQTT_DISPATCH_RETRY \<Longrightarrow> expired (sl_item ?s) now"
    by blast
  then have "q_last_token q' = q_last_token q \<and> q_tokens q' \<subseteq> q_tokens q"
  proof cases
    case 1
    then show ?thesis using q' by (simp add: finish_not_genuine)
  next
    case 2
    have "?s \<in> set (entries q)"
      using slot_in_entries [OF assms] 2(1) by (simp add: genuine_def occ_def)
    moreover have "slot_token (retried ?s retry) = slot_token ?s" by (simp add: retried_def)
    ultimately show ?thesis
      using finish_retry(2,5) [OF assms 2(1,3) q' [unfolded 2(2)]]
        put_entry_tokens [of "retried ?s retry" "entries q"]
      by (auto simp: q_tokens_def)
  next
    case 3
    then show ?thesis using finish_release(2,4) [OF assms 3 q'] drop_entry_tokens
      by (simp add: q_tokens_def)
  qed
  then show "q_last_token (fst (mqtt_dispatch_finish q claim res now retry)) = q_last_token q"
    "q_tokens (fst (mqtt_dispatch_finish q claim res now retry)) \<subseteq> q_tokens q"
    using q' by simp_all
qed

lemma expire_spec:
  assumes "q_ok q" and "mqtt_dispatch_expire q now = (q', toks, n)"
  shows "q_ok q'" and "entries q' = filter (\<lambda>s. \<not> dead now s) (entries q)"
    and "mset toks = mset (map slot_token (filter (dead now) (entries q)))"
    and "n = length (filter (dead now) (entries q))"
    and "q_last_token q' = q_last_token q" and "q_critical_streak q' = q_critical_streak q"
    and "\<exists>d. q_counters q' = (q_counters q)\<lparr>st_depth := d, st_expired := st_expired (q_counters q) +
       of_nat (length (filter (dead now) (entries q)))\<rparr>"
proof -
  have e: "expire_from now 0 q [] = (q', toks)" and c: "n = length toks"
    using assms(2) by (auto simp: mqtt_dispatch_expire_def split: prod.splits)
  note spec = expire_from_spec [OF assms(1) _ e, simplified]
  from spec show ms: "mset toks = mset (map slot_token (filter (dead now) (entries q)))" by simp
  show "n = length (filter (dead now) (entries q))"
    using arg_cong [OF ms, of size] unfolding c by (simp only: size_mset length_map)
  from spec show "q_ok q'" "entries q' = filter (\<lambda>s. \<not> dead now s) (entries q)"
    "q_last_token q' = q_last_token q" "q_critical_streak q' = q_critical_streak q"
    "\<exists>d. q_counters q' = (q_counters q)\<lparr>st_depth := d, st_expired := st_expired (q_counters q) +
       of_nat (length (filter (dead now) (entries q)))\<rparr>"
    by simp_all
qed

lemma q_ok_step: "q_ok q \<Longrightarrow> q_ok (q_step q e)"
  by (cases e) (simp_all add: q_ok_submit q_ok_expire q_ok_claim q_ok_finish)

lemma tokens_step:
  assumes "q_ok q"
  shows "q_last_token q \<le> q_last_token (q_step q e) \<and>
    (\<forall>t \<in> q_tokens (q_step q e). t \<in> q_tokens q \<or> q_last_token q < t)"
proof (cases e)
  case (QSubmit r)
  then show ?thesis using submit_tokens [OF assms] by simp
next
  case (QExpire now)
  obtain q' toks n where "mqtt_dispatch_expire q now = (q', toks, n)" by (metis prod_cases3)
  with expire_spec(2,5) [OF assms this] QExpire show ?thesis by (auto simp: q_tokens_def)
next
  case (QClaim now)
  then show ?thesis using claim_tokens [OF assms, of now] by auto
next
  case (QFinish claim res now retry)
  then show ?thesis using finish_tokens [OF assms, of claim res now retry] by auto
qed

interpretation dq: receipts q_step q_ok q_tokens q_last_token
  by unfold_locales (use q_ok_step tokens_step in blast)+

lemma q_ok_init [simp]: "q_ok mqtt_dispatch_init"
  by (simp add: q_ok_def mqtt_dispatch_init_def entries_def entries_ok_def zero_stats_def)

lemma submit_accepted:
  assumes "q_ok q" and "mqtt_dispatch_submit q r = (q', MQTT_DISPATCH_ACCEPTED, token, replaced)"
  shows "(entries q' = entries q @ [fresh_entry q r] \<and> replaced = 0) \<or>
    (\<exists>old \<in> set (entries q). coalesces r (the (rq_topic r)) old \<and> replaced = slot_token old \<and>
      entries q' = put_entry (coalesced_entry q r old) (entries q))"
    and "token = q_last_token q + 1"
proof -
  have "((entries q' = entries q @ [fresh_entry q r] \<and> replaced = 0) \<or>
    (\<exists>old \<in> set (entries q). coalesces r (the (rq_topic r)) old \<and> replaced = slot_token old \<and>
      entries q' = put_entry (coalesced_entry q r old) (entries q))) \<and> token = q_last_token q + 1"
    using assms(1)
  proof (cases rule: submit_cases [where r = r])
    case (refused c res)
    then show ?thesis using assms(2) by simp
  next
    case (fresh i)
    note st = fresh(1) [unfolded assms(2), symmetric]
    show ?thesis
      using submit_fresh(1) [OF assms(1) fresh(2) st] submit_store_fresh(6,7) [OF st] by blast
  next
    case (coalesced i)
    note st = coalesced(1) [unfolded assms(2), symmetric]
    have i: "i < 32" "coalesces r (the (rq_topic r)) (q_slots q ! i)"
      using coalesced(2) by (simp_all add: admit_def)
    show ?thesis
      using submit_coalesced(1) [OF assms(1) coalesced(2) st] submit_store_coalesced(6,7) [OF st i(1)]
        slot_in_entries [OF assms(1) i(1) coalesces_occ [OF i(2)]] i(2) by blast
  qed
  then show "(entries q' = entries q @ [fresh_entry q r] \<and> replaced = 0) \<or>
    (\<exists>old \<in> set (entries q). coalesces r (the (rq_topic r)) old \<and> replaced = slot_token old \<and>
      entries q' = put_entry (coalesced_entry q r old) (entries q))" "token = q_last_token q + 1"
    by simp_all
qed

subsection \<open>Fair claiming\<close>

text \<open>
  The log of a run's successful claims: whether the claimed item was critical, and whether a
  noncritical item was ready at that moment.
\<close>

definition log_of :: "mqtt_dispatch_queue \<Rightarrow> q_event \<Rightarrow> (bool \<times> bool) list" where
  "log_of q e = (case e of
     QClaim now \<Rightarrow> (case snd (mqtt_dispatch_claim q now) of
         None \<Rightarrow> []
       | Some c \<Rightarrow> [(it_critical (cl_item c), class_head False now (entries q) \<noteq> None)])
   | _ \<Rightarrow> [])"

fun claim_log :: "mqtt_dispatch_queue \<Rightarrow> q_event list \<Rightarrow> (bool \<times> bool) list" where
  "claim_log q [] = []"
| "claim_log q (e # es) = log_of q e @ claim_log (q_step q e) es"

lemma class_head_elig: "class_head b now es = Some s \<Longrightarrow> elig b now s"
  by (auto simp: class_head_def dest!: filter_eq_ConsD split: list.splits if_splits)

lemma claim_streak:
  assumes "q_ok q"
  shows "case log_of q (QClaim now) of
      [] \<Rightarrow> q_critical_streak (q_step q (QClaim now)) = q_critical_streak q
    | (crit, waiting) # rest \<Rightarrow> rest = [] \<and>
        (crit \<and> waiting \<longrightarrow> q_critical_streak q < 8) \<and>
        (crit \<longrightarrow> min 8 (unat (q_critical_streak q) + 1) \<le> unat (q_critical_streak (q_step q (QClaim now))))"
proof (cases "spec_claim (entries q) (q_critical_streak q) now")
  case None
  with claim_refines [OF assms, of now] show ?thesis by (simp add: log_of_def)
next
  case (Some p)
  obtain s streak where p: "p = (s, streak)" by (cases p)
  obtain i where i: "q_slots q ! i = s" "mqtt_dispatch_claim q now = claim_slot q i streak"
    using claim_refines [OF assms, of now] Some p by auto
  have st: "q_critical_streak q \<le> 8" using assms by (simp add: q_ok_def)
  have up: "unat (q_critical_streak q + 1) = Suc (unat (q_critical_streak q))"
    if "q_critical_streak q < 8" using that by (intro unat_inc less_imp_not_max)
  have full: "unat (q_critical_streak q) = 8" if "\<not> q_critical_streak q < 8"
    using that st by (simp add: word_less_nat_alt word_le_nat_alt)
  have crit: "class_head b now (entries q) = Some x \<Longrightarrow> it_critical (sl_item x) = b" for b x
    by (auto dest!: class_head_elig simp: elig_def)
  show ?thesis
    using Some i up full crit unfolding p spec_claim_def
    by (auto simp: log_of_def claim_slot_def split: if_splits option.splits)
qed

lemma q_ok_unat_streak: "q_ok q \<Longrightarrow> unat (q_critical_streak q) \<le> 8"
  by (simp add: q_ok_def word_le_nat_alt)

lemma streak_other:
  assumes "q_ok q" and "\<And>now. e \<noteq> QClaim now"
  shows "q_critical_streak (q_step q e) = q_critical_streak q"
proof (cases e)
  case (QSubmit r)
  show ?thesis using assms(1)
  proof (cases rule: submit_cases [where r = r])
    case (refused c res)
    then show ?thesis using QSubmit by simp
  next
    case (fresh i)
    then show ?thesis using QSubmit submit_store_fresh(3) by (metis prod.exhaust_sel q_step.simps(1))
  next
    case (coalesced i)
    obtain q' res t u where q': "submit_store q r (the (rq_topic r)) i i = (q', res, t, u)"
      by (metis prod_cases4)
    have "i < 32" using coalesced(2) by (simp add: admit_def)
    from submit_store_coalesced(3) [OF q' this] show ?thesis using coalesced(1) QSubmit q' by simp
  qed
next
  case (QExpire now)
  then show ?thesis using expire_spec(6) [OF assms(1)] by (metis prod.exhaust_sel q_step.simps(2))
next
  case (QFinish claim res now retry)
  then show ?thesis by (auto simp: mqtt_dispatch_finish_def release_slot_def Let_def)
qed (use assms(2) in auto)

lemma log_step:
  assumes "q_ok q" and "log_of q e = (True, waiting) # rest"
  shows "rest = []" and "waiting \<Longrightarrow> unat (q_critical_streak q) < 8"
    and "min 8 (unat (q_critical_streak q) + 1) \<le> unat (q_critical_streak (q_step q e))"
proof -
  obtain now where e: "e = QClaim now" using assms(2) by (cases e) (simp_all add: log_of_def)
  show "rest = []" "waiting \<Longrightarrow> unat (q_critical_streak q) < 8"
    "min 8 (unat (q_critical_streak q) + 1) \<le> unat (q_critical_streak (q_step q e))"
    using claim_streak [OF assms(1), of now] assms(2) unfolding e
    by (simp_all add: word_less_nat_alt)
qed

lemma log_silent:
  assumes "q_ok q" and "log_of q e = []"
  shows "q_critical_streak (q_step q e) = q_critical_streak q"
proof (cases "\<exists>now. e = QClaim now")
  case True
  then obtain now where "e = QClaim now" by blast
  with claim_streak [OF assms(1), of now] assms(2) show ?thesis by simp
next
  case False
  then show ?thesis using streak_other [OF assms(1)] by blast
qed

lemma log_of_cases: obtains "log_of q e = []" | x where "log_of q e = [x]"
  by (cases e; cases "snd (mqtt_dispatch_claim q (case e of QClaim now \<Rightarrow> now | _ \<Rightarrow> 0))")
    (auto simp: log_of_def)

lemma burst_then_yield:
  assumes "q_ok q" and "claim_log q es = w @ (True, waiting) # post" and "\<forall>x \<in> set w. fst x"
    and "8 \<le> unat (q_critical_streak q) + length w"
  shows "\<not> waiting"
  using assms
proof (induction es arbitrary: q w)
  case Nil
  then show ?case by simp
next
  case (Cons e es)
  note ok' = q_ok_step [OF Cons.prems(1), of e]
  show ?case
  proof (cases rule: log_of_cases [of q e])
    case 1
    with Cons.prems log_silent [OF Cons.prems(1) 1] show ?thesis
      by (intro Cons.IH [OF ok', of w]) auto
  next
    case (2 x)
    show ?thesis
    proof (cases w)
      case Nil
      with 2 Cons.prems(2) have "log_of q e = [(True, waiting)]" by simp
      from log_step(2) [OF Cons.prems(1) this] show ?thesis using Nil Cons.prems(4) by auto
    next
      case (Cons y w')
      with 2 Cons.prems(2,3) have l: "log_of q e = [(True, snd x)]" "y = x" by (cases x; auto)+
      from log_step(3) [OF Cons.prems(1) l(1)]
      have "8 \<le> unat (q_critical_streak (q_step q e)) + length w'"
        using Cons.prems(4) Cons by (auto simp: min_def split: if_splits)
      moreover have "claim_log (q_step q e) es = w' @ (True, waiting) # post"
        using Cons.prems(2) 2 Cons by simp
      ultimately show ?thesis using Cons.IH [OF ok', of w'] Cons.prems(3) Cons by auto
    qed
  qed
qed

lemma claim_log_suffix:
  assumes "q_ok q" and "claim_log q es = pre @ rest"
  shows "\<exists>q' es'. q_ok q' \<and> claim_log q' es' = rest"
  using assms
proof (induction es arbitrary: q pre)
  case Nil
  then show ?case by (intro exI [of _ q] exI [of _ "[]"]) simp
next
  case (Cons e es)
  note ok' = q_ok_step [OF Cons.prems(1), of e]
  show ?case
  proof (cases pre)
    case Nil
    with Cons.prems show ?thesis by (metis append_Nil)
  next
    case (Cons y pre')
    then show ?thesis
      using Cons.IH [OF ok'] Cons.prems(2) by (cases rule: log_of_cases [of q e]) auto
  qed
qed

subsection \<open>Accounting\<close>

definition sent_of :: "mqtt_dispatch_queue \<Rightarrow> q_event \<Rightarrow> nat" where
  "sent_of q e = (case e of
     QFinish claim res now retry \<Rightarrow>
       (if res = MQTT_DISPATCH_SENT \<and> snd (mqtt_dispatch_finish q claim res now retry) then 1 else 0)
   | _ \<Rightarrow> 0)"

fun sent_count :: "mqtt_dispatch_queue \<Rightarrow> q_event list \<Rightarrow> nat" where
  "sent_count q [] = 0"
| "sent_count q (e # es) = sent_of q e + sent_count (q_step q e) es"

definition balance :: "mqtt_dispatch_queue \<Rightarrow> u64" where
  "balance q = (let c = q_counters q in
     st_accepted c - st_coalesced c - st_expired c - st_dropped c - of_nat (length (entries q)))"

lemma length_filter_not: "length (filter (\<lambda>x. \<not> P x) xs) = length xs - length (filter P xs)"
  using sum_length_filter_compl [of P xs] by simp

lemma balance_submit:
  assumes "q_ok q" shows "balance (fst (mqtt_dispatch_submit q r)) = balance q"
  using assms
proof (cases rule: submit_cases [where r = r])
  case (refused c res)
  then show ?thesis using q_ok_refused(2) [OF assms refused(2)] by (auto simp: balance_def Let_def)
next
  case (fresh i)
  obtain q' res t u where q': "submit_store q r (the (rq_topic r)) i MQTT_DISPATCH_CAPACITY = (q', res, t, u)"
    by (metis prod_cases4)
  show ?thesis using fresh(1) q' submit_fresh(1) [OF assms fresh(2) q'] submit_store_fresh(4) [OF q']
    by (simp add: balance_def Let_def)
next
  case (coalesced i)
  obtain q' res t u where q': "submit_store q r (the (rq_topic r)) i i = (q', res, t, u)"
    by (metis prod_cases4)
  have i: "i < 32" using coalesced(2) by (simp add: admit_def)
  show ?thesis
    using coalesced(1) q' submit_coalesced(1) [OF assms coalesced(2) q'] submit_store_coalesced(4) [OF q' i]
    by (simp add: balance_def Let_def)
qed

lemma balance_finish:
  assumes "q_ok q"
  shows "balance (q_step q (QFinish claim res now retry)) =
    balance q + of_nat (sent_of q (QFinish claim res now retry))"
proof -
  let ?s = "q_slots q ! cl_slot claim"
  obtain q' b where q': "mqtt_dispatch_finish q claim res now retry = (q', b)" by fastforce
  consider "\<not> genuine q claim"
    | "genuine q claim" "res = MQTT_DISPATCH_RETRY" "\<not> expired (sl_item ?s) now"
    | "genuine q claim" "res = MQTT_DISPATCH_RETRY \<Longrightarrow> expired (sl_item ?s) now"
    by blast
  then show ?thesis
  proof cases
    case 1
    then show ?thesis by (simp add: finish_not_genuine sent_of_def)
  next
    case 2
    from finish_retry [OF assms 2(1,3) q' [unfolded 2(2)]] 2(2) q'
    show ?thesis by (simp add: balance_def sent_of_def)
  next
    case 3
    have "?s \<in> set (entries q)"
      using slot_in_entries [OF assms] 3(1) by (simp add: genuine_def occ_def)
    then have "length (entries q) = Suc (length (drop_entry ?s (entries q)))"
      by (rule length_drop_entry [OF q_ok_entries [OF assms]])
    with finish_release [OF assms 3 q'] q' show ?thesis
      by (cases res) (auto simp: balance_def sent_of_def Let_def)
  qed
qed

lemma balance_step:
  assumes "q_ok q"
  shows "balance (q_step q e) = balance q + of_nat (sent_of q e)"
proof (cases e)
  case (QExpire now)
  obtain q' toks n where q': "mqtt_dispatch_expire q now = (q', toks, n)" by (metis prod_cases3)
  have "length (filter (dead now) (entries q)) \<le> length (entries q)" by simp
  with expire_spec(2,7) [OF assms q'] QExpire q' show ?thesis
    by (auto simp: balance_def sent_of_def length_filter_not of_nat_diff Let_def)
next
  case (QClaim now)
  have "balance (fst (mqtt_dispatch_claim q now)) = balance q"
  proof (cases "spec_claim (entries q) (q_critical_streak q) now")
    case None
    with claim_refines [OF assms, of now] show ?thesis by simp
  next
    case (Some p)
    obtain s streak where p: "p = (s, streak)" by (cases p)
    have nofly: "\<not> list_ex inflight (entries q)"
      using Some by (auto simp: spec_claim_def split: if_splits)
    obtain i b where "i < 32" "elig b now (q_slots q ! i)" "streak \<le> 8"
        "mqtt_dispatch_claim q now = claim_slot q i streak"
      using claim_refines [OF assms, of now] Some p by auto
    with claim_slot_spec(1) [OF assms this(1,2) nofly this(3)] show ?thesis
      by (simp add: balance_def claim_slot_def)
  qed
  with QClaim show ?thesis by (simp add: sent_of_def)
qed (use balance_submit [OF assms] balance_finish [OF assms] in \<open>simp_all add: sent_of_def\<close>)

lemma balance_run:
  "q_ok q \<Longrightarrow> balance (foldl q_step q es) = balance q + of_nat (sent_count q es)"
  by (induction es arbitrary: q) (simp_all add: balance_step q_ok_step algebra_simps)

section \<open>Properties\<close>

text \<open>
  C9. Whatever sequence of submissions, expiries, claims and completions the firmware
  performs since boot, the pool keeps its 32 slots, the depth counter is the number of
  occupied slots and never exceeds the high-water mark, at most 24 occupied slots are
  noncritical, at most one is in flight, and no two items carry the same receipt or the
  same age.
\<close>

theorem queue_invariant:
  "let q = foldl q_step mqtt_dispatch_init es; occupied = filter occ (q_slots q) in
     length (q_slots q) = 32 \<and> unat (st_depth (q_counters q)) = length occupied \<and>
     length occupied \<le> unat (st_highwater (q_counters q)) \<and>
     length (filter noncrit occupied) \<le> 24 \<and> length (filter inflight occupied) \<le> 1 \<and>
     distinct (map slot_token occupied) \<and> distinct (map sl_order occupied)"
proof -
  let ?q = "foldl q_step mqtt_dispatch_init es"
  have ok: "q_ok ?q" by (rule dq.good_run) simp
  have len: "length (filter P (filter occ (q_slots ?q))) = length (filter P (entries ?q))" for P
    by (metis mset_entries mset_filter size_mset)
  have "image_mset f (mset (filter occ (q_slots ?q))) = image_mset f (mset (entries ?q))" for f :: "_ \<Rightarrow> u64"
    by (simp only: mset_entries)
  then have dist: "distinct (map f (filter occ (q_slots ?q))) = distinct (map f (entries ?q))"
    for f :: "_ \<Rightarrow> u64" by (metis mset_map mset_eq_imp_distinct_iff)
  have "unat (st_depth (q_counters ?q)) = length (entries ?q)"
    using ok length_entries_le [OF ok] by (simp add: q_ok_def unat_of_nat_small)
  moreover have "unat (st_depth (q_counters ?q)) \<le> unat (st_highwater (q_counters ?q))"
    using ok unfolding q_ok_def word_le_nat_alt by blast
  ultimately show ?thesis
    using ok unfolding Let_def len dist length_entries [symmetric]
    by (simp add: q_ok_def entries_ok_def strict_sorted_iff)
qed

text \<open>
  C26. An accepted submission gets the next receipt and is FIFO: it is appended behind
  every queued item, or, when a queued snapshot of the same topic, key, QoS and retain flag
  exists, it takes that snapshot's place and age and the superseded receipt is reported;
  nothing else in the queue changes.
\<close>

theorem submit_fifo:
  assumes "q_ok q" and "mqtt_dispatch_submit q r = (q', MQTT_DISPATCH_ACCEPTED, token, replaced)"
  shows "token = q_last_token q + 1 \<and>
    ((entries q' = entries q @ [fresh_entry q r] \<and> replaced = 0) \<or>
     (\<exists>old \<in> set (entries q). coalesces r (the (rq_topic r)) old \<and> replaced = slot_token old \<and>
        entries q' = put_entry (coalesced_entry q r old) (entries q)))"
  using submit_accepted [OF assms] by blast

definition sample_request :: "bool \<Rightarrow> mqtt_dispatch_request" where
  "sample_request crit = \<lparr>rq_topic = Some ''ups/x/up'', rq_payload = Some [0xAA], rq_payload_len = 1,
     rq_qos = 1, rq_retain = False, rq_critical = crit, rq_coalesce_key = 7, rq_deadline_ms = 0\<rparr>"

theorem submit_fifo_witness:
  "(case mqtt_dispatch_submit mqtt_dispatch_init (sample_request True) of (q', res, token, replaced) \<Rightarrow>
     res = MQTT_DISPATCH_ACCEPTED \<and> token = 1 \<and> length (entries q') = 1)"
proof -
  obtain q' res token replaced where q':
      "mqtt_dispatch_submit mqtt_dispatch_init (sample_request True) = (q', res, token, replaced)"
    by (metis prod_cases4)
  have "fst (snd (mqtt_dispatch_submit mqtt_dispatch_init (sample_request True))) = MQTT_DISPATCH_ACCEPTED"
    by code_simp
  then have res: "res = MQTT_DISPATCH_ACCEPTED" using q' by simp
  have "entries mqtt_dispatch_init = []" "q_last_token mqtt_dispatch_init = 0"
    by (simp_all add: entries_def mqtt_dispatch_init_def)
  with submit_fifo [OF q_ok_init q' [unfolded res]] res q' show ?thesis by simp
qed

text \<open>
  C27. Claiming is FIFO within each priority class: the claim succeeds exactly when nothing
  is in flight and some class has an oldest unexpired item whose retry time has come; it
  returns that item (the critical one first, unless eight critical claims in a row have been
  made while a noncritical one is ready) and marks exactly it as in flight.
\<close>

theorem claim_oldest:
  assumes "q_ok q"
  shows "case mqtt_dispatch_claim q now of
      (q', None) \<Rightarrow> q' = q \<and> spec_claim (entries q) (q_critical_streak q) now = None
    | (q', Some c) \<Rightarrow> \<exists>s streak.
        spec_claim (entries q) (q_critical_streak q) now = Some (s, streak) \<and>
        s \<in> set (entries q) \<and> cl_item c = sl_item s \<and> genuine q' c \<and>
        entries q' = put_entry (flown s) (entries q) \<and> q_critical_streak q' = streak"
proof (cases "spec_claim (entries q) (q_critical_streak q) now")
  case None
  with claim_refines [OF assms, of now] show ?thesis by simp
next
  case (Some p)
  obtain s streak where p: "p = (s, streak)" by (cases p)
  have nofly: "\<not> list_ex inflight (entries q)"
    using Some by (auto simp: spec_claim_def split: if_splits)
  obtain i b where i: "i < 32" "q_slots q ! i = s" "elig b now s" "streak \<le> 8"
      "mqtt_dispatch_claim q now = claim_slot q i streak"
    using claim_refines [OF assms, of now] Some p by auto
  have "s \<in> set (entries q)"
    using slot_in_entries [OF assms i(1)] i(2,3) by (simp add: elig_def occ_def)
  with claim_slot_spec(1) [OF assms i(1) _ nofly i(4)] i Some p assms show ?thesis
    by (auto simp: claim_slot_def genuine_def q_ok_def)
qed

theorem claim_oldest_witness:
  "let q = q_step mqtt_dispatch_init (QSubmit (sample_request True)) in
   case mqtt_dispatch_claim q 5 of (q', None) \<Rightarrow> False
   | (q', Some c) \<Rightarrow> genuine q' c \<and> q_critical_streak q' = 1"
proof -
  let ?q = "q_step mqtt_dispatch_init (QSubmit (sample_request True))"
  have "map_option snd (spec_claim (entries ?q) (q_critical_streak ?q) 5) = Some 1" by code_simp
  with claim_oldest [OF q_ok_step [OF q_ok_init], of "QSubmit (sample_request True)" 5]
  show ?thesis unfolding Let_def by (auto split: prod.splits option.splits)
qed

text \<open>
  C28. Fairness: of nine consecutive successful claims, the last can be critical only if no
  noncritical item was ready when it was made. At most eight critical items overtake a
  ready noncritical one.
\<close>

theorem claim_fairness:
  assumes "q_ok q" and "claim_log q es = pre @ w @ (True, waiting) # post"
    and "length w = 8" and "\<forall>x \<in> set w. fst x"
  shows "\<not> waiting"
proof -
  obtain q' es' where q': "q_ok q'" "claim_log q' es' = w @ (True, waiting) # post"
    using claim_log_suffix [OF assms(1,2)] by blast
  show ?thesis by (rule burst_then_yield [OF q' assms(4)]) (simp add: assms(3))
qed

definition sample_cycle :: "u64 \<Rightarrow> q_event list" where
  "sample_cycle token = [QSubmit (sample_request True), QClaim 0,
     QFinish \<lparr>cl_slot = 0, cl_item = zero_item\<lparr>it_token := token\<rparr>\<rparr> MQTT_DISPATCH_SENT 0 0]"

theorem claim_fairness_witness:
  "claim_log mqtt_dispatch_init (concat (map sample_cycle [1, 2, 3, 4, 5, 6, 7, 8, 9])) =
     replicate 8 (True, False) @ [(True, False)]"
proof -
  have log: "claim_log mqtt_dispatch_init (concat (map sample_cycle [1, 2, 3, 4, 5, 6, 7, 8, 9])) =
      [] @ replicate 8 (True, False) @ (True, False) # []"
    by code_simp
  have "\<not> False" by (rule claim_fairness [OF q_ok_init log]) simp_all
  with log show ?thesis by simp
qed

text \<open>
  C29. A completion is accepted at most once: after a claim was completed as sent or
  dropped, the same claim is refused forever, even when its slot has been reused by later
  items.
\<close>

theorem finish_once:
  assumes "q_ok q" and "mqtt_dispatch_finish q claim res now retry = (q', True)"
    and "res \<noteq> MQTT_DISPATCH_RETRY"
  shows "snd (mqtt_dispatch_finish (foldl q_step q' es) claim res' now' retry') = False"
proof -
  let ?s = "q_slots q ! cl_slot claim" and ?t = "it_token (cl_item claim)"
  have gen: "genuine q claim" using assms(2) finish_not_genuine by fastforce
  have mem: "?s \<in> set (entries q)" and tok: "slot_token ?s = ?t"
    using slot_in_entries [OF assms(1)] gen by (simp_all add: genuine_def occ_def)
  note rel = finish_release [OF assms(1) gen _ assms(2)]
  have ok': "q_ok q'" using rel(3) assms(3) by blast
  have "?t \<le> q_last_token q"
    using q_ok_entries [OF assms(1)] mem tok by (auto simp: entries_ok_def)
  then have "?t \<le> q_last_token q'" using rel(4) assms(3) by simp
  moreover have "?t \<notin> q_tokens q'"
  proof
    assume "?t \<in> q_tokens q'"
    then obtain x where x: "x \<in> set (entries q)" "sl_order x \<noteq> sl_order ?s" "slot_token x = ?t"
      using rel(2) assms(3) by (auto simp: q_tokens_def drop_entry_def)
    with inj_onD [OF entries_ok_inj_token [OF q_ok_entries [OF assms(1)]], of x ?s] mem tok
    show False by simp
  qed
  ultimately have dead: "?t \<notin> q_tokens (foldl q_step q' es)" by (intro dq.retired_run ok')
  have "\<not> genuine (foldl q_step q' es) claim"
  proof
    assume "genuine (foldl q_step q' es) claim"
    with slot_in_entries [OF dq.good_run [OF ok'], of "cl_slot claim" es] dead show False
      by (force simp: genuine_def occ_def q_tokens_def)
  qed
  then show ?thesis by (simp add: finish_not_genuine)
qed

theorem finish_once_witness:
  "let q = foldl q_step mqtt_dispatch_init (take 2 (sample_cycle 1));
       claim = \<lparr>cl_slot = 0, cl_item = zero_item\<lparr>it_token := 1\<rparr>\<rparr> in
   snd (mqtt_dispatch_finish q claim MQTT_DISPATCH_SENT 0 0) \<and>
   \<not> snd (mqtt_dispatch_finish (foldl q_step q (sample_cycle 1 @ take 2 (sample_cycle 2)))
        claim MQTT_DISPATCH_SENT 0 0)"
proof -
  let ?q = "foldl q_step mqtt_dispatch_init (take 2 (sample_cycle 1))"
  let ?claim = "\<lparr>cl_slot = 0, cl_item = zero_item\<lparr>it_token := 1\<rparr>\<rparr>"
  have fin: "snd (mqtt_dispatch_finish ?q ?claim MQTT_DISPATCH_SENT 0 0)" by code_simp
  then have "mqtt_dispatch_finish ?q ?claim MQTT_DISPATCH_SENT 0 0 =
      (q_step ?q (QFinish ?claim MQTT_DISPATCH_SENT 0 0), True)"
    by (metis prod.collapse q_step.simps(4))
  from finish_once [OF dq.good_run [OF q_ok_init] this]
  have "\<not> snd (mqtt_dispatch_finish (foldl q_step (q_step ?q (QFinish ?claim MQTT_DISPATCH_SENT 0 0))
      (take 2 (sample_cycle 2))) ?claim MQTT_DISPATCH_SENT 0 0)"
    by blast
  moreover have "\<not> snd (mqtt_dispatch_finish (foldl q_step ?q (sample_cycle 1 @ take 2 (sample_cycle 2)))
      ?claim MQTT_DISPATCH_SENT 0 0)" by code_simp
  ultimately show ?thesis using fin by (simp add: Let_def)
qed

text \<open>
  Nothing is lost unaccounted: since boot, every accepted submission is still in the
  queue, was superseded by a coalescing one, expired, was dropped by its owner, or was
  handed over as sent; the counters agree with that sum (modulo \<open>2 ^ 64\<close>).
\<close>

theorem dispatch_accounting:
  "let q = foldl q_step mqtt_dispatch_init es; c = mqtt_dispatch_stats_of q in
     st_accepted c = of_nat (length (filter occ (q_slots q))) + st_coalesced c + st_expired c
       + st_dropped c + of_nat (sent_count mqtt_dispatch_init es)"
  using balance_run [OF q_ok_init, of es]
  by (simp add: balance_def Let_def mqtt_dispatch_stats_of_def length_entries algebra_simps
      mqtt_dispatch_init_def zero_stats_def)

text \<open>
  The critical reserve works: a critical submission is refused as full only when all 32
  slots are occupied and at least eight of them already hold critical items.
\<close>

theorem critical_reserve:
  assumes "q_ok q" and "rq_critical r" and "mqtt_dispatch_submit q r = (q', MQTT_DISPATCH_FULL, t, u)"
  shows "length (entries q) = 32 \<and> 8 \<le> length (filter (\<lambda>s. \<not> noncrit s) (entries q)) \<and>
    entries q' = entries q"
  using assms(1)
proof (cases rule: submit_cases [where r = r])
  case (refused c res)
  then have all: "list_all occ (q_slots q)" using assms(2,3) by auto
  then have "filter occ (q_slots q) = q_slots q" by (simp add: list_all_iff filter_id_conv)
  then have len: "length (entries q) = 32" using assms(1) by (simp add: length_entries q_ok_def)
  moreover have "length (filter noncrit (entries q)) \<le> 24"
    using q_ok_entries [OF assms(1)] by (simp add: entries_ok_def)
  moreover have "entries q' = entries q"
    using refused(1) assms(3) q_ok_refused(2) [OF assms(1) refused(2)] by simp
  ultimately show ?thesis
    using length_filter_not [of noncrit "entries q"] by simp
next
  case (fresh i)
  show ?thesis using submit_store_fresh(5) [OF fresh(1) [unfolded assms(3), symmetric]] by simp
next
  case (coalesced i)
  then have "i < 32" by (simp add: admit_def)
  from submit_store_coalesced(5) [OF coalesced(1) [unfolded assms(3), symmetric] this]
  show ?thesis by simp
qed

theorem critical_reserve_witness:
  "let q = foldl q_step mqtt_dispatch_init (replicate 32 (QSubmit (sample_request True))) in
   length (entries q) = 32 \<and> 8 \<le> length (filter (\<lambda>s. \<not> noncrit s) (entries q))"
proof -
  let ?q = "foldl q_step mqtt_dispatch_init (replicate 32 (QSubmit (sample_request True)))"
  have "fst (snd (mqtt_dispatch_submit ?q (sample_request True))) = MQTT_DISPATCH_FULL" by code_simp
  then obtain q' t u where "mqtt_dispatch_submit ?q (sample_request True) = (q', MQTT_DISPATCH_FULL, t, u)"
    by (metis prod.collapse)
  from critical_reserve [OF dq.good_run [OF q_ok_init] _ this] show ?thesis
    by (simp add: sample_request_def Let_def)
qed

end
