(* ===== verification/Packet_Guard.thy ===== *)
theory Packet_Guard
  imports Prelude
begin

text \<open>
  The MQTT packet identity guard, \<open>mqtt_packet_guard.c\<close>.  The guard counts the packet
  identifiers that the MQTT SDK may have allocated, refuses to go on when identifiers could
  repeat or arrive out of order, and turns the PUBACK of one probe message into a proof
  that the broker connection of the current generation is alive.

  The struct is the record \<open>guard\<close>; the fixed array of early acknowledgements is a list of
  eight entries with its counter, a bounded C counter that the invariant keeps at most 8 is
  a natural number, and the C \<open>int\<close> packet identifiers are integers.  Every function returns
  the new guard with the function's boolean result.  \<open>guard_step\<close> drives the guard by a
  sequence of events, so that the properties speak of whole runs since initialisation.
\<close>

section \<open>Data\<close>

definition MQTT_PACKET_GUARD_BUDGET :: u32 where [simp]: "MQTT_PACKET_GUARD_BUDGET = 60000"
definition MQTT_PACKET_GUARD_EARLY_ACKS :: nat where [simp]: "MQTT_PACKET_GUARD_EARLY_ACKS = 8"
definition UINT16_MAX :: int where [simp]: "UINT16_MAX = 65535"

datatype mqtt_packet_probe_state =
    MQTT_PROBE_IDLE | MQTT_PROBE_ARMING | MQTT_PROBE_PENDING | MQTT_PROBE_ACKED
  | MQTT_PROBE_RETIRED | MQTT_PROBE_FAILED | MQTT_PROBE_EXPIRED

record mqtt_packet_early_ack =
  ack_packet_id :: u16
  ack_received_ms :: u64

record mqtt_packet_guard =
  generation :: u64
  attempts :: u32
  attempts_since_id :: u32
  operation_serial :: u64
  completed_operation_serial :: u64
  completed_packet_id :: int
  last_packet_id :: u16
  have_last_packet_id :: bool
  connected :: bool
  operation_pending :: bool
  unsafe :: bool
  reset_armed :: bool
  reset_boundary_seen :: bool
  probe_state :: mqtt_packet_probe_state
  probe_token :: u64
  probe_generation :: u64
  probe_operation_serial :: u64
  probe_started_ms :: u64
  probe_timeout_ms :: u32
  probe_packet_id :: u16
  early_ack_count :: nat
  early_acks :: "mqtt_packet_early_ack list"
  proof_at_ms :: u64
  proof_generation :: u64
  proof_valid :: bool

section \<open>Operations\<close>

definition probe_active :: "mqtt_packet_guard \<Rightarrow> bool" where
  "probe_active g \<longleftrightarrow> probe_state g = MQTT_PROBE_ARMING \<or> probe_state g = MQTT_PROBE_PENDING"

definition within_deadline :: "mqtt_packet_guard \<Rightarrow> u64 \<Rightarrow> bool" where
  "within_deadline g now_ms \<longleftrightarrow> now_ms \<ge> probe_started_ms g \<and>
     now_ms - probe_started_ms g < ucast (probe_timeout_ms g)"

definition fail_probe :: "mqtt_packet_guard \<Rightarrow> mqtt_packet_guard" where
  "fail_probe g = g\<lparr>probe_state := MQTT_PROBE_FAILED, early_ack_count := 0, proof_valid := False\<rparr>"

definition mark_unsafe :: "mqtt_packet_guard \<Rightarrow> mqtt_packet_guard \<times> bool" where
  "mark_unsafe g = (fail_probe (g\<lparr>unsafe := True\<rparr>), False)"

definition accept_ack :: "mqtt_packet_guard \<Rightarrow> u64 \<Rightarrow> mqtt_packet_guard \<times> bool" where
  "accept_ack g received_ms =
     (if \<not> within_deadline g received_ms
      then (g\<lparr>probe_state := MQTT_PROBE_EXPIRED, proof_valid := False\<rparr>, False)
      else (g\<lparr>probe_state := MQTT_PROBE_ACKED, early_ack_count := 0, proof_at_ms := received_ms,
              proof_generation := generation g, proof_valid := True\<rparr>, True))"

definition mqtt_packet_guard_init :: mqtt_packet_guard where
  "mqtt_packet_guard_init =
     \<lparr>generation = 0, attempts = 0, attempts_since_id = 0, operation_serial = 0,
      completed_operation_serial = 0, completed_packet_id = - 1, last_packet_id = 0,
      have_last_packet_id = False, connected = False, operation_pending = False, unsafe = False,
      reset_armed = False, reset_boundary_seen = False, probe_state = MQTT_PROBE_IDLE,
      probe_token = 0, probe_generation = 0, probe_operation_serial = 0, probe_started_ms = 0,
      probe_timeout_ms = 0, probe_packet_id = 0, early_ack_count = 0,
      early_acks = replicate 8 \<lparr>ack_packet_id = 0, ack_received_ms = 0\<rparr>, proof_at_ms = 0,
      proof_generation = 0, proof_valid = False\<rparr>"

definition mqtt_packet_guard_probe_retire :: "mqtt_packet_guard \<Rightarrow> mqtt_packet_guard" where
  "mqtt_packet_guard_probe_retire g =
     g\<lparr>probe_state := MQTT_PROBE_RETIRED, early_ack_count := 0, proof_valid := False\<rparr>"

definition mqtt_packet_guard_packet_begin :: "mqtt_packet_guard \<Rightarrow> mqtt_packet_guard \<times> bool" where
  "mqtt_packet_guard_packet_begin g =
     (if operation_pending g \<or> operation_serial g = uint64_max then mark_unsafe g
      else if unsafe g \<or> reset_armed g \<or> attempts g \<ge> MQTT_PACKET_GUARD_BUDGET then (g, False)
      else (g\<lparr>attempts := attempts g + 1, attempts_since_id := attempts_since_id g + 1,
              operation_serial := operation_serial g + 1, operation_pending := True\<rparr>, True))"

definition id_distance :: "u16 \<Rightarrow> int \<Rightarrow> u32" where
  "id_distance last_id packet_id =
     (if packet_id \<ge> uint last_id then word_of_int packet_id - ucast last_id
      else word_of_int UINT16_MAX - ucast last_id + word_of_int packet_id)"

definition mqtt_packet_guard_packet_result ::
    "mqtt_packet_guard \<Rightarrow> int \<Rightarrow> mqtt_packet_guard \<times> bool" where
  "mqtt_packet_guard_packet_result g0 packet_id =
     (if \<not> operation_pending g0 then mark_unsafe g0
      else let g = g0\<lparr>operation_pending := False,
             completed_operation_serial := operation_serial g0, completed_packet_id := packet_id\<rparr>
        in if unsafe g then (g, False)
           else if packet_id < 0 then (g, True)
           else if packet_id = 0 \<or> packet_id > UINT16_MAX then mark_unsafe g
           else if have_last_packet_id g \<and>
             (let distance = id_distance (last_packet_id g) packet_id
              in distance = 0 \<or> distance > attempts_since_id g) then mark_unsafe g
           else (g\<lparr>last_packet_id := word_of_int packet_id, have_last_packet_id := True,
                   attempts_since_id := 0\<rparr>, True))"

definition mqtt_packet_guard_arm_reset ::
    "mqtt_packet_guard \<Rightarrow> bool \<Rightarrow> mqtt_packet_guard \<times> bool" where
  "mqtt_packet_guard_arm_reset g outbox_empty =
     (if \<not> outbox_empty \<or> operation_pending g then (g, False)
      else (mqtt_packet_guard_probe_retire
             (if \<not> reset_armed g
              then g\<lparr>reset_armed := True, reset_boundary_seen := \<not> connected g\<rparr> else g), True))"

definition mqtt_packet_guard_on_disconnected :: "mqtt_packet_guard \<Rightarrow> mqtt_packet_guard" where
  "mqtt_packet_guard_on_disconnected g =
     mqtt_packet_guard_probe_retire
       (if reset_armed g then g\<lparr>connected := False, reset_boundary_seen := True\<rparr>
        else g\<lparr>connected := False\<rparr>)"

definition mqtt_packet_guard_on_connected :: "mqtt_packet_guard \<Rightarrow> mqtt_packet_guard" where
  "mqtt_packet_guard_on_connected g0 =
     (if connected g0 \<or> generation g0 = uint64_max then fst (mark_unsafe g0)
      else let g = mqtt_packet_guard_probe_retire
             (g0\<lparr>connected := True, generation := generation g0 + 1\<rparr>)
        in if reset_armed g \<and> reset_boundary_seen g \<and> \<not> operation_pending g
           then g\<lparr>attempts := 0, attempts_since_id := 0, have_last_packet_id := False,
                  unsafe := False, reset_armed := False, reset_boundary_seen := False,
                  completed_packet_id := - 1\<rparr>
           else g)"

definition mqtt_packet_guard_probe_begin ::
    "mqtt_packet_guard \<Rightarrow> u64 \<Rightarrow> u64 \<Rightarrow> u32 \<Rightarrow> mqtt_packet_guard \<times> bool" where
  "mqtt_packet_guard_probe_begin g token started_ms timeout_ms =
     (if \<not> connected g \<or> \<not> operation_pending g \<or> unsafe g \<or> reset_armed g \<or> probe_active g \<or>
         token = 0 \<or> token = probe_token g \<or> timeout_ms = 0
      then (g, False)
      else (g\<lparr>probe_state := MQTT_PROBE_ARMING, probe_token := token,
              probe_generation := generation g, probe_operation_serial := operation_serial g,
              probe_started_ms := started_ms, probe_timeout_ms := timeout_ms,
              probe_packet_id := 0, early_ack_count := 0\<rparr>, True))"

text \<open>The search of the first early acknowledgement with a given identifier.\<close>

fun find_early :: "mqtt_packet_early_ack list \<Rightarrow> int \<Rightarrow> mqtt_packet_early_ack option" where
  "find_early [] packet_id = None"
| "find_early (a # as) packet_id =
     (if uint (ack_packet_id a) = packet_id then Some a else find_early as packet_id)"

definition mqtt_packet_guard_probe_result ::
    "mqtt_packet_guard \<Rightarrow> u64 \<Rightarrow> int \<Rightarrow> u64 \<Rightarrow> mqtt_packet_guard \<times> bool" where
  "mqtt_packet_guard_probe_result g0 token packet_id now_ms =
     (if probe_state g0 \<noteq> MQTT_PROBE_ARMING \<or> token \<noteq> probe_token g0 then (g0, False)
      else if unsafe g0 \<or> \<not> connected g0 \<or> probe_generation g0 \<noteq> generation g0 \<or>
        operation_pending g0 \<or> completed_operation_serial g0 \<noteq> probe_operation_serial g0 \<or>
        completed_packet_id g0 \<noteq> packet_id \<or> packet_id \<le> 0 \<or> packet_id > UINT16_MAX
      then (fail_probe g0, False)
      else if \<not> within_deadline g0 now_ms
      then (g0\<lparr>probe_state := MQTT_PROBE_EXPIRED, early_ack_count := 0, proof_valid := False\<rparr>, False)
      else let g = g0\<lparr>probe_packet_id := word_of_int packet_id, probe_state := MQTT_PROBE_PENDING\<rparr>
        in case find_early (take (early_ack_count g) (early_acks g)) packet_id of
             Some a \<Rightarrow> accept_ack g (ack_received_ms a)
           | None \<Rightarrow> (g\<lparr>early_ack_count := 0\<rparr>, False))"

definition mqtt_packet_guard_probe_expire :: "mqtt_packet_guard \<Rightarrow> u64 \<Rightarrow> mqtt_packet_guard" where
  "mqtt_packet_guard_probe_expire g now_ms =
     (if probe_active g \<and> now_ms \<ge> probe_started_ms g \<and> \<not> within_deadline g now_ms
      then g\<lparr>probe_state := MQTT_PROBE_EXPIRED, early_ack_count := 0, proof_valid := False\<rparr>
      else g)"

definition mqtt_packet_guard_on_puback ::
    "mqtt_packet_guard \<Rightarrow> u64 \<Rightarrow> int \<Rightarrow> u64 \<Rightarrow> mqtt_packet_guard \<times> bool" where
  "mqtt_packet_guard_on_puback g gen packet_id received_ms =
     (if \<not> connected g \<or> unsafe g \<or> \<not> probe_active g \<or> gen \<noteq> generation g \<or>
         gen \<noteq> probe_generation g \<or> packet_id \<le> 0 \<or> packet_id > UINT16_MAX
      then (g, False)
      else if received_ms < probe_started_ms g then (g, False)
      else if \<not> within_deadline g received_ms
      then (mqtt_packet_guard_probe_expire g received_ms, False)
      else if probe_state g = MQTT_PROBE_PENDING then
        (if packet_id \<noteq> uint (probe_packet_id g) then (g, False) else accept_ack g received_ms)
      else if find_early (take (early_ack_count g) (early_acks g)) packet_id \<noteq> None then (g, False)
      else if early_ack_count g = MQTT_PACKET_GUARD_EARLY_ACKS then (fail_probe g, False)
      else (g\<lparr>early_acks := (early_acks g)[early_ack_count g :=
                \<lparr>ack_packet_id = word_of_int packet_id, ack_received_ms = received_ms\<rparr>],
              early_ack_count := early_ack_count g + 1\<rparr>, False))"

section \<open>Runs\<close>

datatype guard_event =
    PacketBegin
  | PacketResult int
  | ArmReset bool
  | Disconnected
  | Connected
  | ProbeBegin u64 u64 u32
  | ProbeResult u64 int u64
  | Puback u64 int u64
  | ProbeExpire u64
  | ProbeRetire

fun guard_call :: "mqtt_packet_guard \<Rightarrow> guard_event \<Rightarrow> mqtt_packet_guard \<times> bool" where
  "guard_call g PacketBegin = mqtt_packet_guard_packet_begin g"
| "guard_call g (PacketResult packet_id) = mqtt_packet_guard_packet_result g packet_id"
| "guard_call g (ArmReset outbox_empty) = mqtt_packet_guard_arm_reset g outbox_empty"
| "guard_call g Disconnected = (mqtt_packet_guard_on_disconnected g, False)"
| "guard_call g Connected = (mqtt_packet_guard_on_connected g, False)"
| "guard_call g (ProbeBegin token started timeout) = mqtt_packet_guard_probe_begin g token started timeout"
| "guard_call g (ProbeResult token packet_id now) = mqtt_packet_guard_probe_result g token packet_id now"
| "guard_call g (Puback gen packet_id received) = mqtt_packet_guard_on_puback g gen packet_id received"
| "guard_call g (ProbeExpire now) = (mqtt_packet_guard_probe_expire g now, False)"
| "guard_call g ProbeRetire = (mqtt_packet_guard_probe_retire g, False)"

abbreviation guard_step :: "mqtt_packet_guard \<Rightarrow> guard_event \<Rightarrow> mqtt_packet_guard" where
  "guard_step g e \<equiv> fst (guard_call g e)"

lemmas guard_ops = mqtt_packet_guard_packet_begin_def mqtt_packet_guard_packet_result_def
  mqtt_packet_guard_arm_reset_def mqtt_packet_guard_on_disconnected_def
  mqtt_packet_guard_on_connected_def mqtt_packet_guard_probe_begin_def
  mqtt_packet_guard_probe_result_def mqtt_packet_guard_on_puback_def
  mqtt_packet_guard_probe_expire_def mqtt_packet_guard_probe_retire_def
  mark_unsafe_def fail_probe_def accept_ack_def Let_def

section \<open>Invariant\<close>

definition guard_ok :: "mqtt_packet_guard \<Rightarrow> bool" where
  "guard_ok g \<longleftrightarrow> attempts g \<le> MQTT_PACKET_GUARD_BUDGET \<and> attempts_since_id g \<le> attempts g \<and>
     length (early_acks g) = MQTT_PACKET_GUARD_EARLY_ACKS \<and>
     early_ack_count g \<le> MQTT_PACKET_GUARD_EARLY_ACKS \<and>
     (unsafe g \<or> reset_armed g \<longrightarrow> \<not> proof_valid g \<and> \<not> probe_active g) \<and>
     (proof_valid g \<longrightarrow> connected g \<and> proof_generation g = generation g) \<and>
     (probe_active g \<longrightarrow> connected g \<and> probe_generation g = generation g)"

lemma guard_ok_init: "guard_ok mqtt_packet_guard_init"
  by (simp add: guard_ok_def mqtt_packet_guard_init_def probe_active_def)

lemma budget_inc:
  assumes "(a::u32) < 60000" and "b \<le> a"
  shows "a + 1 \<le> 60000" and "b + 1 \<le> a + 1"
proof -
  have a: "unat (a + 1) = Suc (unat a)" by (rule unat_inc) (rule less_imp_not_max [OF assms(1)])
  have "b < 60000" using assms by simp
  then have b: "unat (b + 1) = Suc (unat b)" by (intro unat_inc less_imp_not_max)
  show "a + 1 \<le> 60000" "b + 1 \<le> a + 1"
    using assms by (simp_all add: word_le_nat_alt word_less_nat_alt a b)
qed

lemma guard_ok_step:
  assumes "guard_ok g"
  shows "guard_ok (guard_step g e)"
proof (cases e)
  case PacketBegin
  then show ?thesis
    using assms budget_inc [of "attempts g" "attempts_since_id g"]
    by (auto simp: guard_ok_def guard_ops probe_active_def not_le)
qed (use assms in \<open>auto simp: guard_ok_def guard_ops probe_active_def split: option.splits\<close>)

interpretation pg: invariant_machine guard_step guard_ok
  by unfold_locales (rule guard_ok_step)

section \<open>Identifier epochs\<close>

text \<open>
  The identifiers that the guard accepted since the last renewal of the budget, newest
  first.  A renewal is a reconnection across an armed reset boundary.
\<close>

definition renews :: "mqtt_packet_guard \<Rightarrow> bool" where
  "renews g \<longleftrightarrow> \<not> connected g \<and> generation g \<noteq> uint64_max \<and> reset_armed g \<and>
     reset_boundary_seen g \<and> \<not> operation_pending g"

definition note_id :: "mqtt_packet_guard \<Rightarrow> guard_event \<Rightarrow> int list \<Rightarrow> int list" where
  "note_id g e ids = (case e of
     PacketResult packet_id \<Rightarrow> if snd (guard_call g e) \<and> 0 < packet_id then packet_id # ids else ids
   | Connected \<Rightarrow> if renews g then [] else ids
   | _ \<Rightarrow> ids)"

fun epoch_ids :: "mqtt_packet_guard \<Rightarrow> int list \<Rightarrow> guard_event list \<Rightarrow> int list" where
  "epoch_ids g ids [] = ids"
| "epoch_ids g ids (e # es) = epoch_ids (guard_step g e) (note_id g e ids) es"

text \<open>
  Unrolling the identifier circle \<open>1..65535\<close>: the accepted identifiers sit at strictly
  increasing positions, whose span is paid for by the attempts counted.
\<close>

definition unrolled :: "nat list \<Rightarrow> int list \<Rightarrow> bool" where
  "unrolled ps ids \<longleftrightarrow> list_all2 (\<lambda>p i. int p mod 65535 = i mod 65535) ps ids \<and> sorted_wrt (>) ps"

definition epoch_ok :: "mqtt_packet_guard \<Rightarrow> int list \<Rightarrow> bool" where
  "epoch_ok g ids \<longleftrightarrow> guard_ok g \<and> (have_last_packet_id g \<longleftrightarrow> ids \<noteq> []) \<and>
     (\<forall>i \<in> set ids. 0 < i \<and> i \<le> 65535) \<and>
     (ids \<noteq> [] \<longrightarrow> hd ids = uint (last_packet_id g) \<and>
       (\<exists>ps. unrolled ps ids \<and>
          hd ps - last ps + unat (attempts_since_id g) \<le> unat (attempts g)))"

lemma uint_of_range: "0 \<le> x \<Longrightarrow> x < 2 ^ LENGTH('a) \<Longrightarrow> uint (word_of_int x :: 'a::len word) = x"
  by (simp add: uint_word_of_int_eq take_bit_int_eq_self)

lemma id_distance_value:
  assumes "0 < p" and "p \<le> 65535"
  shows "uint (id_distance l p) = (if p \<ge> uint l then p - uint l else 65535 - uint l + p)"
proof -
  have l: "ucast l = (word_of_int (uint l) :: u32)" by simp
  have range: "0 \<le> uint l" "uint l \<le> 65535" using uint_lt2p [of l] by simp_all
  have bound: "p - uint l < 4294967296" "0 \<le> 65535 - uint l + p" "65535 - uint l + p < 4294967296"
    using range assms by linarith+
  have "uint (word_of_int (p - uint l) :: u32) = p - uint l" if "p \<ge> uint l"
    using that bound(1) by (intro uint_of_range) simp_all
  moreover have "uint (word_of_int (65535 - uint l + p) :: u32) = 65535 - uint l + p"
    using bound(2,3) by (intro uint_of_range) simp_all
  ultimately show ?thesis
    unfolding id_distance_def l by (simp add: wi_hom_syms)
qed

lemma sorted_desc_bounds:
  assumes "sorted_wrt (>) ps" and "(p :: nat) \<in> set ps"
  shows "last ps \<le> p \<and> p \<le> hd ps"
  using assms
proof (induction ps)
  case Nil
  then show ?case by simp
next
  case (Cons a ps)
  show ?case
  proof (cases ps)
    case Nil
    with Cons.prems show ?thesis by simp
  next
    case (Cons b ps')
    have sorted: "sorted_wrt (>) ps" "\<forall>x \<in> set ps. x < a" using Cons.prems(1) by simp_all
    have "last ps < a" using sorted(2) Cons by simp
    moreover have "p \<in> set ps \<Longrightarrow> last ps \<le> p \<and> p \<le> hd ps" by (rule Cons.IH [OF sorted(1)])
    moreover have "hd ps < a" using sorted(2) Cons by simp
    ultimately show ?thesis using Cons.prems(2) Cons by fastforce
  qed
qed

lemma mod_differ:
  fixes a b m :: int
  assumes "a \<noteq> b" and "\<bar>a - b\<bar> < m"
  shows "a mod m \<noteq> b mod m"
proof
  assume "a mod m = b mod m"
  then have "m dvd a - b" by (simp add: mod_eq_dvd_iff)
  with dvd_imp_le_int [of "a - b" m] assms show False by simp
qed

lemma unrolled_distinct:
  assumes "unrolled ps ids" and "hd ps - last ps < 65535"
  shows "distinct ids"
proof (rule distinct_conv_nth [THEN iffD2], intro allI impI)
  fix i j assume ij: "i < length ids" "j < length ids" "i \<noteq> j"
  have len: "length ps = length ids" using assms(1) by (auto simp: unrolled_def dest: list_all2_lengthD)
  have mod: "int (ps ! k) mod 65535 = ids ! k mod 65535" if "k < length ids" for k
    using assms(1) that by (auto simp: unrolled_def list_all2_conv_all_nth)
  have bound: "last ps \<le> ps ! k \<and> ps ! k \<le> hd ps" if "k < length ids" for k
    using sorted_desc_bounds [of ps "ps ! k"] assms(1) that len by (simp add: unrolled_def)
  have "distinct ps" using assms(1)
    by (metis unrolled_def distinct_rev sorted_wrt_rev strict_sorted_iff)
  then have "ps ! i \<noteq> ps ! j" using ij len by (simp add: nth_eq_iff_index_eq)
  moreover have "\<bar>int (ps ! i) - int (ps ! j)\<bar> < 65535"
    using bound [OF ij(1)] bound [OF ij(2)] assms(2) by linarith
  ultimately have "int (ps ! i) mod 65535 \<noteq> int (ps ! j) mod 65535"
    by (intro mod_differ) simp_all
  then show "ids ! i \<noteq> ids ! j" using mod [OF ij(1)] mod [OF ij(2)] by metis
qed

lemma unrolled_Cons:
  assumes "unrolled ps ids" and "ids \<noteq> []" and "0 < d" and "(hd ids + int d) mod 65535 = p mod 65535"
  shows "unrolled ((hd ps + d) # ps) (p # ids)" and "last ((hd ps + d) # ps) = last ps" and "ps \<noteq> []"
proof -
  have ne: "ps \<noteq> []" using assms(1,2) by (auto simp: unrolled_def)
  then show "ps \<noteq> []" "last ((hd ps + d) # ps) = last ps" by simp_all
  have hd: "int (hd ps) mod 65535 = hd ids mod 65535"
    using assms(1,2) ne by (cases ps; cases ids) (auto simp: unrolled_def)
  have "x < hd ps + d" if "x \<in> set ps" for x
    using sorted_desc_bounds [of ps x] assms(1,3) that by (simp add: unrolled_def)
  moreover have "int (hd ps + d) mod 65535 = p mod 65535"
    using hd assms(4) by (metis mod_add_left_eq of_nat_add)
  ultimately show "unrolled ((hd ps + d) # ps) (p # ids)"
    using assms(1) by (simp add: unrolled_def)
qed

lemma epoch_ok_result:
  assumes "epoch_ok g ids" and "snd (mqtt_packet_guard_packet_result g p)" and "0 < p"
  shows "epoch_ok (fst (mqtt_packet_guard_packet_result g p)) (p # ids)"
proof -
  let ?g = "fst (mqtt_packet_guard_packet_result g p)"
  have ok: "guard_ok ?g" using guard_ok_step [of g "PacketResult p"] assms(1) by (simp add: epoch_ok_def)
  have range: "p \<le> 65535"
    and g': "have_last_packet_id ?g" "last_packet_id ?g = word_of_int p" "attempts_since_id ?g = 0"
      "attempts ?g = attempts g"
    and dist: "have_last_packet_id g \<Longrightarrow> id_distance (last_packet_id g) p \<noteq> 0 \<and>
        id_distance (last_packet_id g) p \<le> attempts_since_id g"
    using assms(2,3)
    by (auto simp: guard_ops not_less split: if_splits)
  have last: "uint (last_packet_id ?g) = p" using range assms(3) by (simp add: g' uint_of_range)
  have "\<exists>ps. unrolled ps (p # ids) \<and> hd ps - last ps \<le> unat (attempts g)"
  proof (cases "ids = []")
    case True
    then show ?thesis by (intro exI [of _ "[nat p]"]) (use assms(3) in \<open>simp add: unrolled_def\<close>)
  next
    case False
    obtain ps where ps: "unrolled ps ids" "hd ps - last ps + unat (attempts_since_id g) \<le> unat (attempts g)"
      and hd: "hd ids = uint (last_packet_id g)" and hl: "have_last_packet_id g"
      using assms(1) False by (auto simp: epoch_ok_def)
    define d where "d = unat (id_distance (last_packet_id g) p)"
    have d: "0 < d" "d \<le> unat (attempts_since_id g)"
      using dist [OF hl] by (simp_all add: d_def word_le_nat_alt unat_gt_0)
    have "int d = (if p \<ge> hd ids then p - hd ids else 65535 - hd ids + p)"
      using id_distance_value [OF assms(3) range, of "last_packet_id g"] by (simp add: d_def hd)
    then have "(hd ids + int d) mod 65535 = p mod 65535" by (simp split: if_splits)
    note new = unrolled_Cons [OF ps(1) False d(1) this]
    have "last ps \<le> hd ps" using sorted_desc_bounds [of ps "hd ps"] ps(1) new(3) by (simp add: unrolled_def)
    then have "hd ((hd ps + d) # ps) - last ((hd ps + d) # ps) \<le> unat (attempts g)"
      using ps(2) d(2) unfolding new(2) by simp
    with new(1) show ?thesis by blast
  qed
  then show ?thesis using ok last g' assms(1,3) range by (auto simp: epoch_ok_def)
qed

lemma packet_result_keep:
  assumes "\<not> (snd (mqtt_packet_guard_packet_result g p) \<and> 0 < p)"
  shows "attempts_since_id (fst (mqtt_packet_guard_packet_result g p)) = attempts_since_id g \<and>
    attempts (fst (mqtt_packet_guard_packet_result g p)) = attempts g \<and>
    last_packet_id (fst (mqtt_packet_guard_packet_result g p)) = last_packet_id g \<and>
    have_last_packet_id (fst (mqtt_packet_guard_packet_result g p)) = have_last_packet_id g"
proof -
  let ?bad = "have_last_packet_id g \<and> (id_distance (last_packet_id g) p = 0 \<or>
    id_distance (last_packet_id g) p > attempts_since_id g)"
  show ?thesis
    using assms
    by (cases "operation_pending g"; cases "unsafe g"; cases "p < 0"; cases "p = 0";
        cases "p > 65535"; cases ?bad) (simp_all add: guard_ops)
qed

lemma epoch_ok_step:
  assumes "epoch_ok g ids"
  shows "epoch_ok (guard_step g e) (note_id g e ids)"
proof -
  have ok: "guard_ok (guard_step g e)" using assms guard_ok_step by (simp add: epoch_ok_def)
  have keep: "epoch_ok (guard_step g e) ids"
    if "attempts_since_id (guard_step g e) = attempts_since_id g"
      "attempts (guard_step g e) = attempts g" "last_packet_id (guard_step g e) = last_packet_id g"
      "have_last_packet_id (guard_step g e) = have_last_packet_id g"
    using assms ok that by (auto simp: epoch_ok_def)
  show ?thesis
  proof (cases e)
    case PacketBegin
    have le: "attempts_since_id g \<le> attempts g" using assms by (simp add: epoch_ok_def guard_ok_def)
    have lt: "unat (attempts g + 1) = Suc (unat (attempts g))"
      "unat (attempts_since_id g + 1) = Suc (unat (attempts_since_id g))" if "attempts g < 60000"
      using less_imp_not_max [OF that] less_imp_not_max [OF le_less_trans [OF le that]]
      by (simp_all add: unat_inc)
    show ?thesis
    proof (cases "snd (mqtt_packet_guard_packet_begin g)")
      case True
      then have "attempts g < 60000" by (auto simp: guard_ops split: if_splits)
      with True lt assms ok PacketBegin show ?thesis
        by (auto simp: epoch_ok_def note_id_def guard_ops split: if_splits)
    next
      case False
      with keep PacketBegin show ?thesis
        by (auto simp: note_id_def guard_ops split: if_splits)
    qed
  next
    case (PacketResult p)
    show ?thesis
    proof (cases "snd (mqtt_packet_guard_packet_result g p) \<and> 0 < p")
      case True
      with epoch_ok_result [OF assms] PacketResult show ?thesis by (simp add: note_id_def)
    next
      case False
      then have "note_id g e ids = ids" using PacketResult by (simp add: note_id_def)
      moreover have "epoch_ok (guard_step g e) ids"
        by (rule keep) (use packet_result_keep [of g p] False PacketResult in auto)
      ultimately show ?thesis by simp
    qed
  next
    case Connected
    show ?thesis
    proof (cases "renews g")
      case True
      with Connected ok show ?thesis
        by (simp add: epoch_ok_def note_id_def renews_def guard_ops)
    next
      case False
      with keep Connected show ?thesis by (auto simp: note_id_def renews_def guard_ops)
    qed
  qed (use keep in \<open>auto simp: note_id_def guard_ops split: option.splits\<close>)
qed

lemma epoch_ok_run: "epoch_ok g ids \<Longrightarrow> epoch_ok (foldl guard_step g es) (epoch_ids g ids es)"
  by (induction es arbitrary: g ids) (simp_all add: epoch_ok_step)

lemma epoch_ok_init: "epoch_ok mqtt_packet_guard_init []"
  using guard_ok_init by (simp add: epoch_ok_def) (simp add: mqtt_packet_guard_init_def)

section \<open>Evidence behind a proof\<close>

text \<open>
  What must have happened, among the events \<open>H\<close>, for the guard's state: every buffered
  acknowledgement was received in the current generation within the probe's deadline, a
  pending probe was told its packet identifier by the SDK, and a proof rests on a probe, on
  the SDK's identifier for it, and on an acknowledgement of that identifier in time.
\<close>

definition proof_evidence :: "guard_event set \<Rightarrow> u64 \<Rightarrow> u64 \<Rightarrow> bool" where
  "proof_evidence H gen at \<longleftrightarrow> (\<exists>pid token started timeout now.
     ProbeBegin token started timeout \<in> H \<and> PacketResult pid \<in> H \<and> ProbeResult token pid now \<in> H \<and>
     Puback gen pid at \<in> H \<and> started \<le> at \<and> at - started < ucast timeout)"

definition probe_evidence :: "guard_event set \<Rightarrow> mqtt_packet_guard \<Rightarrow> bool" where
  "probe_evidence H g \<longleftrightarrow>
     ProbeBegin (probe_token g) (probe_started_ms g) (probe_timeout_ms g) \<in> H"

definition pending_evidence :: "guard_event set \<Rightarrow> mqtt_packet_guard \<Rightarrow> bool" where
  "pending_evidence H g \<longleftrightarrow> PacketResult (uint (probe_packet_id g)) \<in> H \<and>
     (\<exists>now. ProbeResult (probe_token g) (uint (probe_packet_id g)) now \<in> H)"

definition early_evidence :: "guard_event set \<Rightarrow> mqtt_packet_guard \<Rightarrow> bool" where
  "early_evidence H g \<longleftrightarrow> (\<forall>a \<in> set (take (early_ack_count g) (early_acks g)).
     Puback (generation g) (uint (ack_packet_id a)) (ack_received_ms a) \<in> H \<and>
     within_deadline g (ack_received_ms a))"

definition evidence :: "guard_event set \<Rightarrow> mqtt_packet_guard \<Rightarrow> bool" where
  "evidence H g \<longleftrightarrow> guard_ok g \<and>
     (probe_active g \<longrightarrow> probe_evidence H g) \<and>
     (probe_state g = MQTT_PROBE_PENDING \<longrightarrow> pending_evidence H g) \<and>
     (probe_state g = MQTT_PROBE_ARMING \<longrightarrow> early_evidence H g) \<and>
     (completed_packet_id g > 0 \<longrightarrow> PacketResult (completed_packet_id g) \<in> H) \<and>
     (proof_valid g \<longrightarrow> proof_evidence H (proof_generation g) (proof_at_ms g))"

lemma find_early_Some:
  "find_early as p = Some a \<Longrightarrow> a \<in> set as \<and> uint (ack_packet_id a) = p"
  by (induction as) (auto split: if_splits)

lemma uint_id: "0 < p \<Longrightarrow> p \<le> 65535 \<Longrightarrow> uint (word_of_int p :: u16) = p"
  by (simp add: uint_of_range)

lemma accept_evidence:
  assumes "evidence H g" and "probe_state g = MQTT_PROBE_PENDING"
    and "Puback (generation g) (uint (probe_packet_id g)) t \<in> H"
    and "guard_ok (fst (accept_ack g t))"
  shows "evidence H (fst (accept_ack g t))"
proof (cases "within_deadline g t")
  case True
  have "probe_evidence H g" "pending_evidence H g"
    using assms(1,2) by (simp_all add: evidence_def probe_active_def)
  then have "proof_evidence H (generation g) t"
    using assms(3) True
    unfolding proof_evidence_def probe_evidence_def pending_evidence_def within_deadline_def by blast
  with assms(1,4) True show ?thesis
    by (simp add: evidence_def accept_ack_def probe_active_def)
next
  case False
  with assms(1,4) show ?thesis by (simp add: evidence_def accept_ack_def probe_active_def)
qed

lemma puback_cases:
  "let g' = fst (mqtt_packet_guard_on_puback g gen p t);
       act = (\<not> (\<not> connected g \<or> unsafe g \<or> \<not> probe_active g \<or> gen \<noteq> generation g \<or>
         gen \<noteq> probe_generation g \<or> p \<le> 0 \<or> p > UINT16_MAX) \<and> within_deadline g t) in
   g' = g \<or> g' = fail_probe g \<or> g' = mqtt_packet_guard_probe_expire g t \<or>
   (act \<and> probe_state g = MQTT_PROBE_PENDING \<and> p = uint (probe_packet_id g) \<and> g' = fst (accept_ack g t)) \<or>
   (act \<and> probe_state g = MQTT_PROBE_ARMING \<and> early_ack_count g \<noteq> 8 \<and>
    g' = g\<lparr>early_acks := (early_acks g)[early_ack_count g :=
          \<lparr>ack_packet_id = word_of_int p, ack_received_ms = t\<rparr>], early_ack_count := early_ack_count g + 1\<rparr>)"
  unfolding Let_def mqtt_packet_guard_on_puback_def
  by (cases "probe_state g"; cases "within_deadline g t"; cases "early_ack_count g = 8")
    (simp_all add: probe_active_def)

lemma probe_result_cases:
  "let g' = fst (mqtt_packet_guard_probe_result g token p now);
       g1 = g\<lparr>probe_packet_id := word_of_int p, probe_state := MQTT_PROBE_PENDING\<rparr>;
       act = (probe_state g = MQTT_PROBE_ARMING \<and> token = probe_token g \<and> 0 < p \<and> p \<le> 65535 \<and>
         completed_packet_id g = p) in
   g' = g \<or> g' = fail_probe g \<or>
   g' = g\<lparr>probe_state := MQTT_PROBE_EXPIRED, early_ack_count := 0, proof_valid := False\<rparr> \<or>
   (\<exists>a. act \<and> find_early (take (early_ack_count g) (early_acks g)) p = Some a \<and>
      g' = fst (accept_ack g1 (ack_received_ms a))) \<or>
   (act \<and> g' = g1\<lparr>early_ack_count := 0\<rparr>)"
  unfolding Let_def mqtt_packet_guard_probe_result_def
  by (cases "find_early (take (early_ack_count g) (early_acks g)) p";
      cases "probe_state g = MQTT_PROBE_ARMING"; cases "token = probe_token g") simp_all

lemma puback_evidence:
  assumes "evidence H g" and "Puback gen p t \<in> H"
  shows "evidence H (fst (mqtt_packet_guard_on_puback g gen p t))"
proof -
  let ?g = "fst (mqtt_packet_guard_on_puback g gen p t)"
  have ok: "guard_ok ?g"
    using guard_ok_step [of g "Puback gen p t"] assms(1) by (simp add: evidence_def)
  let ?act = "\<not> (\<not> connected g \<or> unsafe g \<or> \<not> probe_active g \<or> gen \<noteq> generation g \<or>
         gen \<noteq> probe_generation g \<or> p \<le> 0 \<or> p > UINT16_MAX) \<and> within_deadline g t"
  consider (idle) "?g = g" | (failed) "?g = fail_probe g"
    | (expire) "?g = mqtt_packet_guard_probe_expire g t"
    | (ack) ?act "probe_state g = MQTT_PROBE_PENDING" "p = uint (probe_packet_id g)" "?g = fst (accept_ack g t)"
    | (early) ?act "probe_state g = MQTT_PROBE_ARMING" "early_ack_count g \<noteq> 8"
      "?g = g\<lparr>early_acks := (early_acks g)[early_ack_count g :=
          \<lparr>ack_packet_id = word_of_int p, ack_received_ms = t\<rparr>], early_ack_count := early_ack_count g + 1\<rparr>"
    using puback_cases [of g gen p t] unfolding Let_def by blast
  then show ?thesis
  proof cases
    case idle
    then show ?thesis using assms(1) by simp
  next
    case failed
    then show ?thesis using assms(1) ok
      by (simp add: evidence_def fail_probe_def probe_active_def)
  next
    case expire
    then show ?thesis using assms(1) ok
      by (auto simp: evidence_def mqtt_packet_guard_probe_expire_def probe_active_def)
  next
    case ack
    have "Puback (generation g) (uint (probe_packet_id g)) t \<in> H" using ack assms(2) by simp
    from accept_evidence [OF assms(1) ack(2) this] show ?thesis using ok ack(4) by simp
  next
    case early
    have n: "early_ack_count g < length (early_acks g)"
      using assms(1) early(3) by (simp add: evidence_def guard_ok_def)
    have "take (Suc (early_ack_count g)) (early_acks ?g) = take (early_ack_count g) (early_acks g) @
        [\<lparr>ack_packet_id = word_of_int p, ack_received_ms = t\<rparr>]"
      using n by (simp add: early(4) take_Suc_conv_app_nth)
    moreover have "within_deadline ?g = within_deadline g" "generation ?g = generation g"
      "early_ack_count ?g = Suc (early_ack_count g)"
      by (simp_all add: early(4) within_deadline_def fun_eq_iff)
    moreover have "early_evidence H g" using assms(1) early(2) by (simp add: evidence_def)
    ultimately have "early_evidence H ?g"
      using early(1) assms(2) uint_id [of p] by (auto simp: early_evidence_def)
    then show ?thesis
      using assms(1) ok early(2) unfolding early(4)
      by (simp add: evidence_def probe_active_def probe_evidence_def)
  qed
qed

lemma result_evidence:
  assumes "evidence H g" and "ProbeResult token p now \<in> H"
  shows "evidence H (fst (mqtt_packet_guard_probe_result g token p now))"
proof -
  let ?g = "fst (mqtt_packet_guard_probe_result g token p now)"
  let ?g1 = "g\<lparr>probe_packet_id := word_of_int p, probe_state := MQTT_PROBE_PENDING\<rparr>"
  have ok: "guard_ok ?g"
    using guard_ok_step [of g "ProbeResult token p now"] assms(1) by (simp add: evidence_def)
  let ?act = "probe_state g = MQTT_PROBE_ARMING \<and> token = probe_token g \<and> 0 < p \<and> p \<le> 65535 \<and>
    completed_packet_id g = p"
  consider (idle) "?g = g" | (failed) "?g = fail_probe g"
    | (expire) "?g = g\<lparr>probe_state := MQTT_PROBE_EXPIRED, early_ack_count := 0, proof_valid := False\<rparr>"
    | (ack) a where ?act "find_early (take (early_ack_count g) (early_acks g)) p = Some a"
        "?g = fst (accept_ack ?g1 (ack_received_ms a))"
    | (wait) ?act "?g = ?g1\<lparr>early_ack_count := 0\<rparr>"
    using probe_result_cases [of g token p now] unfolding Let_def by blast
  then show ?thesis
  proof cases
    case idle
    then show ?thesis using assms(1) by simp
  next
    case failed
    then show ?thesis using assms(1) ok
      by (simp add: evidence_def fail_probe_def probe_active_def)
  next
    case expire
    then show ?thesis using assms(1) ok by (simp add: evidence_def probe_active_def)
  next
    case ack
    have pend: "evidence H ?g1"
      using assms ack(1) uint_id [of p]
      by (auto simp: evidence_def guard_ok_def probe_active_def probe_evidence_def pending_evidence_def)
    have "Puback (generation ?g1) (uint (probe_packet_id ?g1)) (ack_received_ms a) \<in> H"
      using assms(1) ack(1) find_early_Some [OF ack(2)] uint_id [of p]
      by (auto simp: evidence_def early_evidence_def)
    from accept_evidence [OF pend _ this] show ?thesis using ok ack(3) by simp
  next
    case wait
    then show ?thesis using assms ok uint_id [of p]
      by (auto simp: evidence_def probe_active_def probe_evidence_def pending_evidence_def)
  qed
qed

lemma evidence_step:
  assumes "evidence H g" and "e \<in> H"
  shows "evidence H (guard_step g e)"
proof -
  have ok: "guard_ok (guard_step g e)" using assms(1) guard_ok_step by (simp add: evidence_def)
  show ?thesis
  proof (cases e)
    case (PacketResult p)
    then show ?thesis using assms ok
      by (auto simp: evidence_def guard_ops probe_active_def probe_evidence_def pending_evidence_def
          early_evidence_def within_deadline_def)
  next
    case (ProbeResult token p now)
    then show ?thesis using result_evidence assms by simp
  next
    case (Puback gen p t)
    then show ?thesis using puback_evidence assms by simp
  qed (use assms ok in \<open>auto simp: evidence_def guard_ops probe_active_def probe_evidence_def
      pending_evidence_def early_evidence_def within_deadline_def\<close>)
qed

lemma evidence_run:
  "evidence H g \<Longrightarrow> set es \<subseteq> H \<Longrightarrow> evidence H (foldl guard_step g es)"
  by (induction es arbitrary: g) (simp_all add: evidence_step)

lemma evidence_init: "evidence H mqtt_packet_guard_init"
  using guard_ok_init by (simp add: evidence_def) (simp add: mqtt_packet_guard_init_def probe_active_def)

section \<open>One proof per probe, and the unsafe state\<close>

lemma not_active_step:
  assumes "\<not> probe_active g" and "\<And>token started timeout. e \<noteq> ProbeBegin token started timeout"
  shows "\<not> probe_active (guard_step g e)"
  using assms by (cases e) (auto simp: guard_ops probe_active_def)

lemma proof_ends_probe:
  assumes "snd (guard_call g e)" and "e = Puback gen p t \<or> e = ProbeResult token p t"
  shows "\<not> probe_active (guard_step g e)"
proof -
  have "snd (accept_ack g' u) \<Longrightarrow> \<not> probe_active (fst (accept_ack g' u))" for g' u
    by (simp add: accept_ack_def probe_active_def split: if_splits)
  with assms show ?thesis
    by (auto simp: mqtt_packet_guard_on_puback_def mqtt_packet_guard_probe_result_def Let_def
        split: if_splits option.splits)
qed

lemma not_active_no_proof:
  "\<not> probe_active g \<Longrightarrow> \<not> snd (mqtt_packet_guard_on_puback g gen p t) \<and>
     \<not> snd (mqtt_packet_guard_probe_result g token p t)"
  by (auto simp: probe_active_def mqtt_packet_guard_on_puback_def mqtt_packet_guard_probe_result_def)

definition no_probe_begin :: "guard_event list \<Rightarrow> bool" where
  "no_probe_begin es \<longleftrightarrow> (\<forall>e \<in> set es. case e of ProbeBegin _ _ _ \<Rightarrow> False | _ \<Rightarrow> True)"

lemma not_active_run:
  assumes "\<not> probe_active g" and "no_probe_begin es"
  shows "\<not> probe_active (foldl guard_step g es)"
  using assms
proof (induction es arbitrary: g)
  case Nil
  then show ?case by simp
next
  case (Cons e es)
  have "\<not> probe_active (guard_step g e)"
    by (rule not_active_step [OF Cons.prems(1)]) (use Cons.prems(2) in \<open>auto simp: no_probe_begin_def\<close>)
  with Cons show ?case by (simp add: no_probe_begin_def)
qed

lemma unsafe_step:
  assumes "unsafe g" and "\<not> (e = Connected \<and> renews g)"
  shows "unsafe (guard_step g e)"
  using assms by (cases e) (auto simp: guard_ops renews_def split: option.splits)

lemma unsafe_refuses:
  assumes "unsafe g"
  shows "snd (guard_call g e) \<Longrightarrow> \<exists>b. e = ArmReset b"
  using assms by (cases e) (auto simp: guard_ops split: if_splits)

section \<open>Properties\<close>

text \<open>
  Packet identity: within one identity epoch (between two renewals of the attempt
  budget) the guard never accepts the same packet identifier twice, whatever identifiers the
  SDK reports, and it counts at most 60000 attempts. So an acknowledgement names at most one
  message of the epoch.
\<close>

theorem epoch_ids_unique:
  "distinct (epoch_ids mqtt_packet_guard_init [] es) \<and>
   attempts (foldl guard_step mqtt_packet_guard_init es) \<le> 60000"
proof -
  let ?g = "foldl guard_step mqtt_packet_guard_init es"
  let ?ids = "epoch_ids mqtt_packet_guard_init [] es"
  have ok: "epoch_ok ?g ?ids" by (rule epoch_ok_run [OF epoch_ok_init])
  then have le: "attempts ?g \<le> 60000" by (simp add: epoch_ok_def guard_ok_def)
  then have "unat (attempts ?g) \<le> 60000" by (simp add: word_le_nat_alt)
  moreover have "?ids = [] \<or> (\<exists>ps. unrolled ps ?ids \<and> hd ps - last ps \<le> unat (attempts ?g))"
    using ok by (auto simp: epoch_ok_def)
  ultimately show ?thesis using le unrolled_distinct [of _ ?ids] by force
qed

text \<open>
  C30. No proof without evidence: whenever the guard holds a proof of broker liveness, the
  connection is up, the proof belongs to the current connection generation, and in the run so
  far a probe was begun, the SDK gave its message a packet identifier, and a PUBACK for that
  very identifier was received in this generation, not before the probe's start and before
  its timeout.
\<close>

theorem proof_is_sound:
  assumes "proof_valid (foldl guard_step mqtt_packet_guard_init es)"
  shows "let g = foldl guard_step mqtt_packet_guard_init es in
     connected g \<and> \<not> unsafe g \<and> proof_evidence (set es) (generation g) (proof_at_ms g)"
proof -
  let ?g = "foldl guard_step mqtt_packet_guard_init es"
  have ev: "evidence (set es) ?g" by (rule evidence_run [OF evidence_init]) simp
  then have ok: "guard_ok ?g" by (simp add: evidence_def)
  with assms have "connected ?g" "\<not> unsafe ?g" "proof_generation ?g = generation ?g"
    by (auto simp: guard_ok_def)
  with assms ev show ?thesis by (simp add: evidence_def Let_def)
qed

definition sample_probe :: "guard_event list" where
  "sample_probe = [Connected, PacketBegin, ProbeBegin 7 1000 5000, Puback 1 1 1200, PacketResult 1,
     ProbeResult 7 1 1300]"

theorem proof_is_sound_witness:
  "proof_evidence (set sample_probe) 1 1200"
proof -
  have v: "proof_valid (foldl guard_step mqtt_packet_guard_init sample_probe)" by code_simp
  have "generation (foldl guard_step mqtt_packet_guard_init sample_probe) = 1 \<and>
      proof_at_ms (foldl guard_step mqtt_packet_guard_init sample_probe) = 1200" by code_simp
  with proof_is_sound [OF v] show ?thesis by (simp add: Let_def)
qed

text \<open>
  One probe gives at most one proof: after a PUBACK or a probe result reported a new
  proof, no later acknowledgement or result reports one until another probe is begun.
\<close>

theorem one_proof_per_probe:
  assumes "snd (guard_call g e)" and "e = Puback gen p t \<or> e = ProbeResult token p t"
    and "no_probe_begin es"
  shows "\<not> snd (mqtt_packet_guard_on_puback (foldl guard_step (guard_step g e) es) gen' p' t') \<and>
    \<not> snd (mqtt_packet_guard_probe_result (foldl guard_step (guard_step g e) es) token' p' t')"
  using not_active_no_proof [OF not_active_run [OF proof_ends_probe [OF assms(1,2)] assms(3)]] .

theorem one_proof_per_probe_witness:
  "\<not> snd (mqtt_packet_guard_on_puback (foldl guard_step mqtt_packet_guard_init sample_probe) 1 1 1400)"
proof -
  let ?g = "foldl guard_step mqtt_packet_guard_init (butlast sample_probe)"
  have call: "snd (guard_call ?g (ProbeResult 7 1 1300))" by code_simp
  have es: "no_probe_begin []" by (simp add: no_probe_begin_def)
  have "foldl guard_step mqtt_packet_guard_init sample_probe = guard_step ?g (ProbeResult 7 1 1300)"
    by (simp add: sample_probe_def)
  with one_proof_per_probe [OF call _ es] show ?thesis by fastforce
qed

text \<open>
  The unsafe state is latched: once the identifier contract is in doubt, only a
  reconnection across an armed reset boundary clears it, and until then no operation but
  arming that reset reports success: no packet, probe or proof is admitted.
\<close>

theorem unsafe_is_latched:
  assumes "unsafe g"
  shows "(unsafe (guard_step g e) \<or>
      (e = Connected \<and> reset_armed g \<and> reset_boundary_seen g \<and> \<not> operation_pending g)) \<and>
    (snd (guard_call g e) \<longrightarrow> (\<exists>b. e = ArmReset b))"
  using unsafe_step [OF assms, of e] unsafe_refuses [OF assms, of e] by (auto simp: renews_def)

theorem unsafe_is_latched_witness:
  "unsafe (guard_step (guard_step mqtt_packet_guard_init (PacketResult 5)) PacketBegin)"
proof -
  have "unsafe (guard_step mqtt_packet_guard_init (PacketResult 5))" by code_simp
  from unsafe_is_latched [OF this, of PacketBegin] show ?thesis by simp
qed

end
