(* ===== verification/Mqtt_Health.thy ===== *)
theory Mqtt_Health
  imports Prelude
begin

text \<open>
  The MQTT health monitor, \<open>mqtt_health.c\<close>: probes are planned in windows, a proof of
  liveness is an acknowledged probe, and a window that passes without one marks the
  connection degraded.  The struct is the record \<open>mqtt_health\<close>; all times are 64-bit words.
  Each function returns the new state with its result; \<open>health_step\<close> drives the monitor by
  a sequence of calls.  The out pointers of \<open>poll\<close> and \<open>begin_probe\<close> are never NULL in the
  callers and are results here.
\<close>

section \<open>Data\<close>

record mqtt_health_token =
  tk_generation :: u64
  tk_sequence :: u64

record mqtt_health_config =
  cf_probe_interval_ms :: u64
  cf_probe_deadline_ms :: u64
  cf_worker_stall_ms :: u64

datatype mqtt_health_failure =
    MQTT_HEALTH_FAILURE_NONE | MQTT_HEALTH_FAILURE_ADMISSION_TIMEOUT
  | MQTT_HEALTH_FAILURE_ACK_TIMEOUT | MQTT_HEALTH_FAILURE_PROBE_FAILED
  | MQTT_HEALTH_FAILURE_EVENT_LOSS

record mqtt_health_snapshot =
  sn_connected :: bool
  sn_ota_active :: bool
  sn_probe_due :: bool
  sn_probe_pending :: bool
  sn_probe_admitted :: bool
  sn_proof_fresh :: bool
  sn_degraded :: bool
  sn_worker_busy :: bool
  sn_worker_stalled :: bool
  sn_failure :: mqtt_health_failure
  sn_generation :: u64
  sn_next_probe_due_ms :: u64
  sn_probe_deadline_ms :: u64
  sn_last_ack_ms :: u64
  sn_worker_checkpoint_ms :: u64
  sn_pending_token :: mqtt_health_token

record mqtt_health =
  h_config :: mqtt_health_config
  h_now_ms :: u64
  h_generation :: u64
  h_sequence :: u64
  h_next_probe_due_ms :: u64
  h_probe_deadline_ms :: u64
  h_last_ack_ms :: u64
  h_worker_checkpoint_ms :: u64
  h_pending_token :: mqtt_health_token
  h_failure :: mqtt_health_failure
  h_connected :: bool
  h_ota_active :: bool
  h_probe_pending :: bool
  h_probe_admitted :: bool
  h_proof_valid :: bool
  h_worker_busy :: bool

definition zero_token :: mqtt_health_token where
  "zero_token = \<lparr>tk_generation = 0, tk_sequence = 0\<rparr>"

section \<open>Operations\<close>

definition observe_time :: "mqtt_health \<Rightarrow> u64 \<Rightarrow> mqtt_health \<times> u64" where
  "observe_time h now = (let h' = (if now > h_now_ms h then h\<lparr>h_now_ms := now\<rparr> else h)
     in (h', h_now_ms h'))"

definition add_saturated :: "u64 \<Rightarrow> u64 \<Rightarrow> u64" where
  "add_saturated a b = (if b > uint64_max - a then uint64_max else a + b)"

definition clear_pending :: "mqtt_health \<Rightarrow> mqtt_health" where
  "clear_pending h = h\<lparr>h_probe_pending := False, h_probe_admitted := False,
     h_pending_token := zero_token\<rparr>"

definition schedule :: "mqtt_health \<Rightarrow> u64 \<Rightarrow> mqtt_health" where
  "schedule h due = h\<lparr>h_next_probe_due_ms := due,
     h_probe_deadline_ms := add_saturated due (cf_probe_deadline_ms (h_config h))\<rparr>"

definition schedule_next :: "mqtt_health \<Rightarrow> u64 \<Rightarrow> mqtt_health" where
  "schedule_next h now =
     (let due = add_saturated (h_next_probe_due_ms h) (cf_probe_interval_ms (h_config h))
      in schedule h (if due < now then now else due))"

definition fail_window :: "mqtt_health \<Rightarrow> u64 \<Rightarrow> mqtt_health_failure \<Rightarrow> mqtt_health" where
  "fail_window h now reason =
     schedule_next (clear_pending (h\<lparr>h_proof_valid := False, h_failure := reason\<rparr>)) now"

definition advance :: "mqtt_health \<Rightarrow> u64 \<Rightarrow> mqtt_health \<times> u64" where
  "advance h0 now0 = (case observe_time h0 now0 of (h, now) \<Rightarrow>
     (if h_connected h \<and> \<not> h_ota_active h \<and> now \<ge> h_probe_deadline_ms h
      then fail_window h now (if h_probe_admitted h then MQTT_HEALTH_FAILURE_ACK_TIMEOUT
                              else MQTT_HEALTH_FAILURE_ADMISSION_TIMEOUT)
      else h, now))"

definition matches :: "mqtt_health \<Rightarrow> mqtt_health_token \<Rightarrow> bool" where
  "matches h token \<longleftrightarrow> h_connected h \<and> \<not> h_ota_active h \<and> h_probe_pending h \<and>
     tk_generation token = tk_generation (h_pending_token h) \<and>
     tk_sequence token = tk_sequence (h_pending_token h)"

definition mqtt_health_default_config :: mqtt_health_config where
  "mqtt_health_default_config =
     \<lparr>cf_probe_interval_ms = 120000, cf_probe_deadline_ms = 60000, cf_worker_stall_ms = 30000\<rparr>"

definition zero_health :: mqtt_health where
  "zero_health = \<lparr>h_config = \<lparr>cf_probe_interval_ms = 0, cf_probe_deadline_ms = 0, cf_worker_stall_ms = 0\<rparr>,
     h_now_ms = 0, h_generation = 0, h_sequence = 0, h_next_probe_due_ms = 0,
     h_probe_deadline_ms = 0, h_last_ack_ms = 0, h_worker_checkpoint_ms = 0,
     h_pending_token = zero_token, h_failure = MQTT_HEALTH_FAILURE_NONE, h_connected = False,
     h_ota_active = False, h_probe_pending = False, h_probe_admitted = False,
     h_proof_valid = False, h_worker_busy = False\<rparr>"

definition mqtt_health_init :: "u64 \<Rightarrow> mqtt_health_config option \<Rightarrow> mqtt_health \<times> bool" where
  "mqtt_health_init now config =
     (let cfg = (case config of Some c \<Rightarrow> c | None \<Rightarrow> mqtt_health_default_config)
      in if cf_probe_deadline_ms cfg = 0 \<or> cf_worker_stall_ms cfg = 0 \<or>
            cf_probe_interval_ms cfg < cf_probe_deadline_ms cfg
         then (zero_health, False)
         else (zero_health\<lparr>h_config := cfg, h_now_ms := now\<rparr>, True))"

definition mqtt_health_on_connected :: "mqtt_health \<Rightarrow> u64 \<Rightarrow> mqtt_health" where
  "mqtt_health_on_connected h0 now0 = (case observe_time h0 now0 of (h, now) \<Rightarrow>
     schedule (clear_pending
       ((if h_generation h \<noteq> uint64_max then h\<lparr>h_generation := h_generation h + 1\<rparr> else h)
        \<lparr>h_connected := True, h_proof_valid := False, h_failure := MQTT_HEALTH_FAILURE_NONE\<rparr>)) now)"

definition mqtt_health_on_disconnected :: "mqtt_health \<Rightarrow> u64 \<Rightarrow> mqtt_health" where
  "mqtt_health_on_disconnected h0 now0 =
     (clear_pending ((fst (observe_time h0 now0))\<lparr>h_connected := False, h_proof_valid := False,
        h_failure := MQTT_HEALTH_FAILURE_NONE\<rparr>))\<lparr>h_next_probe_due_ms := 0, h_probe_deadline_ms := 0\<rparr>"

definition mqtt_health_poll :: "mqtt_health \<Rightarrow> u64 \<Rightarrow> mqtt_health \<times> mqtt_health_snapshot" where
  "mqtt_health_poll h0 now0 = (case advance h0 now0 of (h, now) \<Rightarrow>
     (h, \<lparr>sn_connected = h_connected h, sn_ota_active = h_ota_active h,
          sn_probe_due = (h_connected h \<and> \<not> h_ota_active h \<and> \<not> h_probe_pending h \<and>
            now \<ge> h_next_probe_due_ms h \<and> now < h_probe_deadline_ms h),
          sn_probe_pending = h_probe_pending h, sn_probe_admitted = h_probe_admitted h,
          sn_proof_fresh = (h_connected h \<and> \<not> h_ota_active h \<and> h_proof_valid h),
          sn_degraded = (h_failure h \<noteq> MQTT_HEALTH_FAILURE_NONE),
          sn_worker_busy = h_worker_busy h,
          sn_worker_stalled = (h_worker_busy h \<and>
            now - h_worker_checkpoint_ms h \<ge> cf_worker_stall_ms (h_config h)),
          sn_failure = h_failure h, sn_generation = h_generation h,
          sn_next_probe_due_ms = h_next_probe_due_ms h,
          sn_probe_deadline_ms = h_probe_deadline_ms h, sn_last_ack_ms = h_last_ack_ms h,
          sn_worker_checkpoint_ms = h_worker_checkpoint_ms h,
          sn_pending_token = h_pending_token h\<rparr>))"

definition mqtt_health_begin_probe ::
    "mqtt_health \<Rightarrow> u64 \<Rightarrow> mqtt_health \<times> mqtt_health_token option" where
  "mqtt_health_begin_probe h0 now0 = (case advance h0 now0 of (h, now) \<Rightarrow>
     (if \<not> h_connected h \<or> h_ota_active h \<or> h_probe_pending h \<or> now < h_next_probe_due_ms h \<or>
         now \<ge> h_probe_deadline_ms h \<or> h_sequence h = uint64_max then (h, None)
      else let token = \<lparr>tk_generation = h_generation h, tk_sequence = h_sequence h + 1\<rparr>
        in (h\<lparr>h_sequence := h_sequence h + 1, h_pending_token := token,
              h_probe_pending := True, h_probe_admitted := False\<rparr>, Some token)))"

definition mqtt_health_probe_admitted ::
    "mqtt_health \<Rightarrow> mqtt_health_token \<Rightarrow> u64 \<Rightarrow> mqtt_health \<times> bool" where
  "mqtt_health_probe_admitted h0 token now0 = (let h = fst (advance h0 now0) in
     (if \<not> matches h token \<or> h_probe_admitted h then (h, False)
      else (h\<lparr>h_probe_admitted := True\<rparr>, True)))"

definition mqtt_health_probe_ack ::
    "mqtt_health \<Rightarrow> mqtt_health_token \<Rightarrow> u64 \<Rightarrow> mqtt_health \<times> bool" where
  "mqtt_health_probe_ack h0 token now0 = (case advance h0 now0 of (h, now) \<Rightarrow>
     (if \<not> matches h token \<or> \<not> h_probe_admitted h then (h, False)
      else (schedule_next (clear_pending (h\<lparr>h_last_ack_ms := now, h_proof_valid := True,
              h_failure := MQTT_HEALTH_FAILURE_NONE\<rparr>)) now, True)))"

definition mqtt_health_probe_failed ::
    "mqtt_health \<Rightarrow> mqtt_health_token \<Rightarrow> u64 \<Rightarrow> mqtt_health \<times> bool" where
  "mqtt_health_probe_failed h0 token now0 = (case advance h0 now0 of (h, now) \<Rightarrow>
     (if \<not> matches h token then (h, False)
      else (fail_window h now MQTT_HEALTH_FAILURE_PROBE_FAILED, True)))"

definition mqtt_health_on_event_loss :: "mqtt_health \<Rightarrow> u64 \<Rightarrow> mqtt_health" where
  "mqtt_health_on_event_loss h0 now0 = (case observe_time h0 now0 of (h, now) \<Rightarrow>
     let h' = clear_pending (h\<lparr>h_proof_valid := False\<rparr>)
     in if h_connected h' \<and> \<not> h_ota_active h'
        then schedule_next (h'\<lparr>h_failure := MQTT_HEALTH_FAILURE_EVENT_LOSS\<rparr>) now else h')"

definition mqtt_health_set_ota_active :: "mqtt_health \<Rightarrow> u64 \<Rightarrow> bool \<Rightarrow> mqtt_health" where
  "mqtt_health_set_ota_active h0 now0 active = (case observe_time h0 now0 of (h, now) \<Rightarrow>
     (if h_ota_active h = active then h
      else let h' = clear_pending (h\<lparr>h_ota_active := active, h_proof_valid := False,
                      h_failure := MQTT_HEALTH_FAILURE_NONE\<rparr>)
        in if h_connected h' \<and> \<not> active then schedule h' now else h'))"

definition mqtt_health_worker_begin :: "mqtt_health \<Rightarrow> u64 \<Rightarrow> mqtt_health" where
  "mqtt_health_worker_begin h0 now0 = (case observe_time h0 now0 of (h, now) \<Rightarrow>
     (if \<not> h_worker_busy h then h\<lparr>h_worker_busy := True, h_worker_checkpoint_ms := now\<rparr> else h))"

definition mqtt_health_worker_checkpoint :: "mqtt_health \<Rightarrow> u64 \<Rightarrow> mqtt_health" where
  "mqtt_health_worker_checkpoint h0 now0 = (case observe_time h0 now0 of (h, now) \<Rightarrow>
     (if h_worker_busy h then h\<lparr>h_worker_checkpoint_ms := now\<rparr> else h))"

definition mqtt_health_worker_end :: "mqtt_health \<Rightarrow> u64 \<Rightarrow> mqtt_health" where
  "mqtt_health_worker_end h0 now0 = (case observe_time h0 now0 of (h, now) \<Rightarrow>
     h\<lparr>h_worker_busy := False, h_worker_checkpoint_ms := now\<rparr>)"

section \<open>Runs\<close>

datatype health_event =
    HConnected u64
  | HDisconnected u64
  | HPoll u64
  | HBegin u64
  | HAdmitted mqtt_health_token u64
  | HAck mqtt_health_token u64
  | HFailed mqtt_health_token u64
  | HEventLoss u64
  | HSetOta u64 bool
  | HWorkerBegin u64
  | HWorkerCheckpoint u64
  | HWorkerEnd u64

fun health_step :: "mqtt_health \<Rightarrow> health_event \<Rightarrow> mqtt_health" where
  "health_step h (HConnected now) = mqtt_health_on_connected h now"
| "health_step h (HDisconnected now) = mqtt_health_on_disconnected h now"
| "health_step h (HPoll now) = fst (mqtt_health_poll h now)"
| "health_step h (HBegin now) = fst (mqtt_health_begin_probe h now)"
| "health_step h (HAdmitted token now) = fst (mqtt_health_probe_admitted h token now)"
| "health_step h (HAck token now) = fst (mqtt_health_probe_ack h token now)"
| "health_step h (HFailed token now) = fst (mqtt_health_probe_failed h token now)"
| "health_step h (HEventLoss now) = mqtt_health_on_event_loss h now"
| "health_step h (HSetOta now active) = mqtt_health_set_ota_active h now active"
| "health_step h (HWorkerBegin now) = mqtt_health_worker_begin h now"
| "health_step h (HWorkerCheckpoint now) = mqtt_health_worker_checkpoint h now"
| "health_step h (HWorkerEnd now) = mqtt_health_worker_end h now"

section \<open>Invariant\<close>

lemma unat_add_saturated: "unat (add_saturated a b) = min (2 ^ 64 - 1) (unat a + unat b)"
proof -
  have m: "unat (uint64_max - a) = 2 ^ 64 - 1 - unat a"
    using unat_sub [OF word_order.extremum [of a]] by (simp add: unat_max)
  have lt: "unat a \<le> 2 ^ 64 - 1" using unat_bound [of a] by simp
  show ?thesis
  proof (cases "b > uint64_max - a")
    case True
    then have "2 ^ 64 - 1 - unat a < unat b" by (simp add: word_less_nat_alt m)
    with lt have "2 ^ 64 - 1 < unat a + unat b" by simp
    with True show ?thesis by (simp add: add_saturated_def unat_max)
  next
    case False
    then have "unat b \<le> 2 ^ 64 - 1 - unat a" by (simp add: word_less_nat_alt m)
    with lt have le: "unat a + unat b \<le> 2 ^ 64 - 1" by simp
    then have "unat (a + b) = unat a + unat b" by (simp add: unat_word_ariths(1))
    with False le show ?thesis by (simp add: add_saturated_def)
  qed
qed

lemma add_saturated_ge: "a \<le> add_saturated a b"
  using unat_bound [of a] by (simp add: word_le_nat_alt unat_add_saturated)

lemma add_saturated_mono: "a \<le> a' \<Longrightarrow> b \<le> b' \<Longrightarrow> add_saturated a b \<le> add_saturated a' b'"
  by (auto simp: word_le_nat_alt unat_add_saturated)

definition config_ok :: "mqtt_health_config \<Rightarrow> bool" where
  "config_ok c \<longleftrightarrow> 0 < cf_probe_deadline_ms c \<and> 0 < cf_worker_stall_ms c \<and>
     cf_probe_deadline_ms c \<le> cf_probe_interval_ms c"

definition proof_limit :: "mqtt_health \<Rightarrow> nat" where
  "proof_limit h = unat (h_last_ack_ms h) + unat (cf_probe_interval_ms (h_config h))
     + unat (cf_probe_deadline_ms (h_config h))"

definition health_ok :: "mqtt_health \<Rightarrow> bool" where
  "health_ok h \<longleftrightarrow> config_ok (h_config h) \<and> h_last_ack_ms h \<le> h_now_ms h \<and>
     h_worker_checkpoint_ms h \<le> h_now_ms h \<and>
     (h_proof_valid h \<longrightarrow> h_connected h \<and> \<not> h_ota_active h \<and>
        unat (h_probe_deadline_ms h) \<le> proof_limit h) \<and>
     (h_probe_pending h \<longrightarrow> h_connected h \<and> \<not> h_ota_active h \<and>
        tk_generation (h_pending_token h) = h_generation h \<and>
        tk_sequence (h_pending_token h) \<le> h_sequence h \<and> h_next_probe_due_ms h \<le> h_now_ms h) \<and>
     (h_probe_admitted h \<longrightarrow> h_probe_pending h)"

lemma observe_snd: "snd (observe_time h now) = h_now_ms (fst (observe_time h now))"
  by (simp add: observe_time_def Let_def)

lemma observe_ge: "now \<le> snd (observe_time h now)" "h_now_ms h \<le> snd (observe_time h now)"
  by (auto simp: observe_time_def Let_def not_less)

lemma observe_fields:
  "observe_time h now = (h', n) \<Longrightarrow>
     \<exists>t. h' = h\<lparr>h_now_ms := t\<rparr> \<and> n = t \<and> h_now_ms h \<le> t \<and> now \<le> t"
  by (auto simp: observe_time_def Let_def not_less split: if_splits intro: exI [of _ "h_now_ms h"])

lemma health_ok_time:
  assumes "health_ok h" and "h_now_ms h \<le> t"
  shows "health_ok (h\<lparr>h_now_ms := t\<rparr>)"
  using assms by (auto simp: health_ok_def proof_limit_def)

lemma health_ok_idle:
  assumes "health_ok h"
  shows "health_ok (clear_pending (h\<lparr>h_proof_valid := False\<rparr>))"
  using assms by (simp add: health_ok_def clear_pending_def proof_limit_def)

lemmas health_fields = clear_pending_def schedule_def schedule_next_def fail_window_def Let_def

lemma health_ok_fail: "health_ok h \<Longrightarrow> health_ok (fail_window h now reason)"
  by (simp add: health_ok_def health_fields proof_limit_def)

text \<open>After \<open>advance\<close> a connected, unpaused monitor is inside its window.\<close>

lemma advance_cases:
  assumes "advance h0 now0 = (h, now)"
  obtains t where "h_now_ms h0 \<le> t" and "now0 \<le> t" and "now = t" and "h = h0\<lparr>h_now_ms := t\<rparr>"
      and "h_connected h \<and> \<not> h_ota_active h \<longrightarrow> now < h_probe_deadline_ms h"
  | t r where "h_now_ms h0 \<le> t" and "now0 \<le> t" and "now = t" and "h = fail_window (h0\<lparr>h_now_ms := t\<rparr>) t r"
      and "h_connected h0" and "\<not> h_ota_active h0" and "h_probe_deadline_ms h0 \<le> t"
      and "r \<noteq> MQTT_HEALTH_FAILURE_NONE"
proof -
  obtain t where t: "observe_time h0 now0 = (h0\<lparr>h_now_ms := t\<rparr>, t)" "h_now_ms h0 \<le> t" "now0 \<le> t"
    using observe_fields [of h0 now0] by (metis prod.collapse)
  show thesis
  proof (cases "h_connected h0 \<and> \<not> h_ota_active h0 \<and> h_probe_deadline_ms h0 \<le> t")
    case True
    with t assms show thesis
      by (intro that(2) [of t "if h_probe_admitted h0 then MQTT_HEALTH_FAILURE_ACK_TIMEOUT
            else MQTT_HEALTH_FAILURE_ADMISSION_TIMEOUT"])
        (auto simp: advance_def split: if_splits)
  next
    case False
    with t assms show thesis
      by (intro that(1) [of t]) (auto simp: advance_def split: if_splits)
  qed
qed

lemma health_ok_advance:
  assumes "health_ok h0" and "advance h0 now0 = (h, now)"
  shows "health_ok h" and "h_now_ms h = now" and "now0 \<le> now" and "h_now_ms h0 \<le> now"
    and "h_config h = h_config h0" and "h_generation h = h_generation h0"
    and "h_sequence h = h_sequence h0"
    and "h_probe_pending h \<Longrightarrow> h_pending_token h = h_pending_token h0 \<and> h_probe_pending h0 \<and>
      h_next_probe_due_ms h = h_next_probe_due_ms h0"
    and "h_probe_pending h \<Longrightarrow> now < h_probe_deadline_ms h"
proof -
  have "health_ok h \<and> h_now_ms h = now \<and> now0 \<le> now \<and> h_now_ms h0 \<le> now \<and> h_config h = h_config h0
    \<and> h_generation h = h_generation h0 \<and> h_sequence h = h_sequence h0 \<and>
    (h_probe_pending h \<longrightarrow> h_pending_token h = h_pending_token h0 \<and> h_probe_pending h0 \<and>
      h_next_probe_due_ms h = h_next_probe_due_ms h0 \<and> now < h_probe_deadline_ms h)"
    using assms(2)
  proof (cases rule: advance_cases)
    case (1 t)
    then show ?thesis using health_ok_time [OF assms(1) 1(1)] assms(1) by (auto simp: health_ok_def)
  next
    case (2 t r)
    then show ?thesis
      using health_ok_fail [OF health_ok_time [OF assms(1) 2(1)], of t r] by (auto simp: health_fields)
  qed
  then show "health_ok h" "h_now_ms h = now" "now0 \<le> now" "h_now_ms h0 \<le> now"
    "h_config h = h_config h0" "h_generation h = h_generation h0" "h_sequence h = h_sequence h0"
    "h_probe_pending h \<Longrightarrow> h_pending_token h = h_pending_token h0 \<and> h_probe_pending h0 \<and>
      h_next_probe_due_ms h = h_next_probe_due_ms h0"
    "h_probe_pending h \<Longrightarrow> now < h_probe_deadline_ms h" by simp_all
qed

lemma health_ok_connected:
  assumes "health_ok h" shows "health_ok (mqtt_health_on_connected h now)"
proof -
  obtain t where t: "observe_time h now = (h\<lparr>h_now_ms := t\<rparr>, t)" "h_now_ms h \<le> t"
    using observe_fields [of h now] by (metis prod.collapse)
  show ?thesis
    using assms t by (auto simp: mqtt_health_on_connected_def health_ok_def health_fields)
qed

lemma health_ok_disconnected:
  assumes "health_ok h" shows "health_ok (mqtt_health_on_disconnected h now)"
proof -
  obtain t where t: "observe_time h now = (h\<lparr>h_now_ms := t\<rparr>, t)" "h_now_ms h \<le> t"
    using observe_fields [of h now] by (metis prod.collapse)
  show ?thesis
    using assms t by (auto simp: mqtt_health_on_disconnected_def health_ok_def health_fields)
qed

lemma health_ok_poll: "health_ok h \<Longrightarrow> health_ok (fst (mqtt_health_poll h now))"
  using health_ok_advance(1) by (auto simp: mqtt_health_poll_def split: prod.splits)

lemma health_ok_begin:
  assumes "health_ok h0" shows "health_ok (fst (mqtt_health_begin_probe h0 now0))"
proof -
  obtain h now where a: "advance h0 now0 = (h, now)" by fastforce
  note ok = health_ok_advance(1,2) [OF assms a]
  show ?thesis
  proof (cases "\<not> h_connected h \<or> h_ota_active h \<or> h_probe_pending h \<or> now < h_next_probe_due_ms h \<or>
         now \<ge> h_probe_deadline_ms h \<or> h_sequence h = uint64_max")
    case True
    then show ?thesis using ok by (simp add: mqtt_health_begin_probe_def a)
  next
    case False
    then show ?thesis using ok
      by (simp add: mqtt_health_begin_probe_def a Let_def health_ok_def proof_limit_def not_less)
  qed
qed

lemma health_ok_admitted:
  assumes "health_ok h0" shows "health_ok (fst (mqtt_health_probe_admitted h0 token now0))"
proof -
  obtain h now where a: "advance h0 now0 = (h, now)" by fastforce
  note ok = health_ok_advance(1) [OF assms a]
  then show ?thesis
    by (auto simp: mqtt_health_probe_admitted_def a Let_def health_ok_def proof_limit_def matches_def)
qed

text \<open>The window planned by an acknowledgement ends within interval plus deadline of it.\<close>

lemma ack_limit:
  assumes "due \<le> now" and "c = h_config h" and "due = h_next_probe_due_ms h"
  shows "unat (h_probe_deadline_ms (schedule_next h now))
    \<le> unat now + unat (cf_probe_interval_ms c) + unat (cf_probe_deadline_ms c)"
  using assms by (auto simp: schedule_next_def schedule_def Let_def unat_add_saturated word_le_nat_alt)

lemma schedule_next_fields [simp]:
  "h_config (schedule_next h now) = h_config h" "h_now_ms (schedule_next h now) = h_now_ms h"
  "h_last_ack_ms (schedule_next h now) = h_last_ack_ms h"
  "h_worker_checkpoint_ms (schedule_next h now) = h_worker_checkpoint_ms h"
  "h_proof_valid (schedule_next h now) = h_proof_valid h"
  "h_connected (schedule_next h now) = h_connected h"
  "h_ota_active (schedule_next h now) = h_ota_active h"
  "h_probe_pending (schedule_next h now) = h_probe_pending h"
  "h_probe_admitted (schedule_next h now) = h_probe_admitted h"
  "h_generation (schedule_next h now) = h_generation h"
  "h_sequence (schedule_next h now) = h_sequence h"
  "h_failure (schedule_next h now) = h_failure h"
  "h_pending_token (schedule_next h now) = h_pending_token h"
  by (simp_all add: schedule_next_def schedule_def Let_def)

lemma clear_pending_fields [simp]:
  "h_config (clear_pending h) = h_config h" "h_now_ms (clear_pending h) = h_now_ms h"
  "h_last_ack_ms (clear_pending h) = h_last_ack_ms h"
  "h_worker_checkpoint_ms (clear_pending h) = h_worker_checkpoint_ms h"
  "h_proof_valid (clear_pending h) = h_proof_valid h"
  "h_connected (clear_pending h) = h_connected h"
  "h_ota_active (clear_pending h) = h_ota_active h"
  "\<not> h_probe_pending (clear_pending h)" "\<not> h_probe_admitted (clear_pending h)"
  "h_generation (clear_pending h) = h_generation h" "h_sequence (clear_pending h) = h_sequence h"
  "h_next_probe_due_ms (clear_pending h) = h_next_probe_due_ms h"
  "h_failure (clear_pending h) = h_failure h"
  by (simp_all add: clear_pending_def)

lemma health_ok_ack:
  assumes "health_ok h0" shows "health_ok (fst (mqtt_health_probe_ack h0 token now0))"
proof -
  obtain h now where a: "advance h0 now0 = (h, now)" by fastforce
  note adv = health_ok_advance [OF assms a]
  show ?thesis
  proof (cases "matches h token \<and> h_probe_admitted h")
    case False
    then show ?thesis using adv(1) by (auto simp: mqtt_health_probe_ack_def a)
  next
    case True
    let ?h = "clear_pending (h\<lparr>h_last_ack_ms := now, h_proof_valid := True,
      h_failure := MQTT_HEALTH_FAILURE_NONE\<rparr>)"
    have up: "h_probe_pending h" "h_connected h" "\<not> h_ota_active h" using True by (auto simp: matches_def)
    then have due: "h_next_probe_due_ms h \<le> now" using adv(1,2) by (simp add: health_ok_def)
    have "h_config h = h_config ?h" "h_next_probe_due_ms h = h_next_probe_due_ms ?h" by simp_all
    from ack_limit [OF due this]
    have lim: "unat (h_probe_deadline_ms (schedule_next ?h now)) \<le> proof_limit (schedule_next ?h now)"
      unfolding proof_limit_def by simp
    define h' where "h' = schedule_next ?h now"
    have "h_config h' = h_config h" "h_last_ack_ms h' = now" "h_now_ms h' = h_now_ms h"
      "h_worker_checkpoint_ms h' = h_worker_checkpoint_ms h" "h_connected h' = h_connected h"
      "h_ota_active h' = h_ota_active h" "\<not> h_probe_pending h'" "\<not> h_probe_admitted h'"
      by (simp_all add: h'_def)
    then have "health_ok h'"
      using adv(1,2) up lim [folded h'_def] by (simp add: health_ok_def)
    moreover have "fst (mqtt_health_probe_ack h0 token now0) = h'"
      using True by (simp add: mqtt_health_probe_ack_def a h'_def)
    ultimately show ?thesis by simp
  qed
qed

lemma health_ok_failed:
  assumes "health_ok h0" shows "health_ok (fst (mqtt_health_probe_failed h0 token now0))"
proof -
  obtain h now where a: "advance h0 now0 = (h, now)" by fastforce
  note ok = health_ok_advance(1) [OF assms a]
  then show ?thesis using health_ok_fail by (simp add: mqtt_health_probe_failed_def a)
qed

lemma health_ok_timed:
  assumes "health_ok h"
  shows "health_ok (mqtt_health_on_event_loss h now)" "health_ok (mqtt_health_set_ota_active h now active)"
    "health_ok (mqtt_health_worker_begin h now)" "health_ok (mqtt_health_worker_checkpoint h now)"
    "health_ok (mqtt_health_worker_end h now)"
proof -
  obtain t where t: "observe_time h now = (h\<lparr>h_now_ms := t\<rparr>, t)" "h_now_ms h \<le> t"
    using observe_fields [of h now] by (metis prod.collapse)
  note ok = health_ok_time [OF assms t(2)]
  show "health_ok (mqtt_health_on_event_loss h now)" "health_ok (mqtt_health_set_ota_active h now active)"
    using ok t by (auto simp: mqtt_health_on_event_loss_def mqtt_health_set_ota_active_def
        health_ok_def health_fields)
  show "health_ok (mqtt_health_worker_begin h now)" "health_ok (mqtt_health_worker_checkpoint h now)"
    "health_ok (mqtt_health_worker_end h now)"
    using ok t by (auto simp: mqtt_health_worker_begin_def mqtt_health_worker_checkpoint_def
        mqtt_health_worker_end_def health_ok_def proof_limit_def)
qed

lemma health_ok_step: "health_ok h \<Longrightarrow> health_ok (health_step h e)"
  by (cases e) (simp_all add: health_ok_connected health_ok_disconnected health_ok_poll health_ok_begin
      health_ok_admitted health_ok_ack health_ok_failed health_ok_timed)

lemma health_ok_init: "mqtt_health_init now config = (h, True) \<Longrightarrow> health_ok h"
  by (auto simp: mqtt_health_init_def Let_def health_ok_def config_ok_def zero_health_def
      word_gt_0 not_less split: if_splits option.splits)

section \<open>Probe receipts\<close>

definition h_live :: "mqtt_health \<Rightarrow> u64 set" where
  "h_live h = (if h_probe_pending h then {tk_sequence (h_pending_token h)} else {})"

lemma advance_live:
  assumes "health_ok h0" and "advance h0 now0 = (h, now)"
  shows "h_live h \<subseteq> h_live h0" and "h_sequence h = h_sequence h0"
  using health_ok_advance(7,8) [OF assms] by (auto simp: h_live_def)

lemma begin_live:
  assumes "health_ok h0"
  shows "h_sequence h0 \<le> h_sequence (fst (mqtt_health_begin_probe h0 now0))"
    and "t \<in> h_live (fst (mqtt_health_begin_probe h0 now0)) \<Longrightarrow> t \<in> h_live h0 \<or> h_sequence h0 < t"
proof -
  obtain h now where a: "advance h0 now0 = (h, now)" by fastforce
  note adv = advance_live [OF assms a]
  have "h_sequence h \<noteq> uint64_max \<Longrightarrow> h_sequence h < h_sequence h + 1" by (rule less_inc)
  then show "h_sequence h0 \<le> h_sequence (fst (mqtt_health_begin_probe h0 now0))"
    "t \<in> h_live (fst (mqtt_health_begin_probe h0 now0)) \<Longrightarrow> t \<in> h_live h0 \<or> h_sequence h0 < t"
    using adv by (auto simp: mqtt_health_begin_probe_def a Let_def h_live_def split: if_splits)
qed

lemma live_step:
  assumes "health_ok h"
  shows "h_sequence h \<le> h_sequence (health_step h e) \<and>
    (\<forall>t \<in> h_live (health_step h e). t \<in> h_live h \<or> h_sequence h < t)"
proof -
  define ha na where "ha n = fst (advance h n)" and "na n = snd (advance h n)" for n
  then have a: "advance h n = (ha n, na n)" for n by simp
  note adv = advance_live [OF assms a]
  define ho no where "ho n = fst (observe_time h n)" and "no n = snd (observe_time h n)" for n
  then have o: "observe_time h n = (ho n, no n)" for n by simp
  have obs: "h_probe_pending (ho n) = h_probe_pending h" "h_pending_token (ho n) = h_pending_token h"
    "h_sequence (ho n) = h_sequence h" for n
    using observe_fields [OF o, of n] by auto
  have gone: "\<not> h_probe_pending h' \<Longrightarrow> h_live h' = {}" for h' by (simp add: h_live_def)
  show ?thesis
  proof (cases e)
    case (HBegin now)
    then show ?thesis using begin_live [OF assms] by auto
  next
    case (HAdmitted token now)
    have "h_live (ha now\<lparr>h_probe_admitted := True\<rparr>) = h_live (ha now)" by (simp add: h_live_def)
    then show ?thesis using HAdmitted adv by (auto simp: mqtt_health_probe_admitted_def a Let_def)
  next
    case (HPoll now)
    then show ?thesis using adv by (auto simp: mqtt_health_poll_def a)
  next
    case (HAck token now)
    then show ?thesis using adv by (auto simp: mqtt_health_probe_ack_def a gone)
  next
    case (HFailed token now)
    then show ?thesis using adv by (auto simp: mqtt_health_probe_failed_def a gone fail_window_def)
  qed (use obs in \<open>auto simp: mqtt_health_on_connected_def mqtt_health_on_disconnected_def
      mqtt_health_on_event_loss_def mqtt_health_set_ota_active_def mqtt_health_worker_begin_def
      mqtt_health_worker_checkpoint_def mqtt_health_worker_end_def o h_live_def schedule_def Let_def\<close>)
qed

interpretation mh: receipts health_step health_ok h_live h_sequence
  by unfold_locales (use health_ok_step live_step in blast)+

section \<open>Acknowledgements behind a proof\<close>

definition acked_in :: "health_event set \<Rightarrow> mqtt_health \<Rightarrow> bool" where
  "acked_in H h \<longleftrightarrow> (h_proof_valid h \<longrightarrow>
     (\<exists>seq t. HAck \<lparr>tk_generation = h_generation h, tk_sequence = seq\<rparr> t \<in> H \<and> t \<le> h_last_ack_ms h))"

lemma acked_advance:
  assumes "acked_in H h0" and "advance h0 now0 = (h, now)" shows "acked_in H h"
  using assms(2)
  by (cases rule: advance_cases) (use assms(1) in \<open>auto simp: acked_in_def fail_window_def\<close>)

lemma acked_observe: "acked_in H h \<Longrightarrow> acked_in H (fst (observe_time h now))"
  by (simp add: observe_time_def Let_def acked_in_def)

lemma acked_step:
  assumes "health_ok h0" and "acked_in H h0" and "e \<in> H"
  shows "acked_in H (health_step h0 e)"
proof -
  define ha na where "ha n = fst (advance h0 n)" and "na n = snd (advance h0 n)" for n
  then have a: "advance h0 n = (ha n, na n)" for n by simp
  note adv = acked_advance [OF assms(2) a]
  define ho no where "ho n = fst (observe_time h0 n)" and "no n = snd (observe_time h0 n)" for n
  then have o: "observe_time h0 n = (ho n, no n)" for n by simp
  have obs: "acked_in H (ho n)" for n using acked_observe [OF assms(2), of n] o by simp
  show ?thesis
  proof (cases e)
    case (HAck token now)
    show ?thesis
    proof (cases "matches (ha now) token \<and> h_probe_admitted (ha now)")
      case True
      then have pend: "h_probe_pending (ha now)"
        and tok: "tk_generation token = tk_generation (h_pending_token (ha now))"
        by (auto simp: matches_def)
      have "tk_generation (h_pending_token (ha now)) = h_generation (ha now)"
        using health_ok_advance(1) [OF assms(1) a, of now] pend by (simp add: health_ok_def)
      with tok have "token = \<lparr>tk_generation = h_generation (ha now), tk_sequence = tk_sequence token\<rparr>"
        by simp
      moreover have "now \<le> na now" using health_ok_advance(3) [OF assms(1) a] .
      ultimately show ?thesis
        using True HAck assms(3) by (simp add: mqtt_health_probe_ack_def a acked_in_def) metis
    next
      case False
      then show ?thesis using HAck adv by (auto simp: mqtt_health_probe_ack_def a)
    qed
  next
    case (HBegin now)
    then show ?thesis using adv [of now]
      by (auto simp: mqtt_health_begin_probe_def a Let_def acked_in_def)
  next
    case (HAdmitted token now)
    then show ?thesis using adv [of now]
      by (auto simp: mqtt_health_probe_admitted_def a Let_def acked_in_def)
  next
    case (HPoll now)
    then show ?thesis using adv by (auto simp: mqtt_health_poll_def a)
  next
    case (HFailed token now)
    then show ?thesis using adv by (auto simp: mqtt_health_probe_failed_def a acked_in_def fail_window_def)
  qed (use obs in \<open>auto simp: mqtt_health_on_connected_def mqtt_health_on_disconnected_def
      mqtt_health_on_event_loss_def mqtt_health_set_ota_active_def mqtt_health_worker_begin_def
      mqtt_health_worker_checkpoint_def mqtt_health_worker_end_def o acked_in_def schedule_def Let_def\<close>)
qed

lemma acked_run:
  "health_ok h \<Longrightarrow> acked_in H h \<Longrightarrow> set es \<subseteq> H \<Longrightarrow> acked_in H (foldl health_step h es)"
  by (induction es arbitrary: h) (simp_all add: acked_step health_ok_step)

section \<open>Spacing of probes and detection of silence\<close>

text \<open>Events that restart the schedule: a new connection and a change of OTA mode.\<close>

fun restarts :: "health_event \<Rightarrow> bool" where
  "restarts (HConnected _) = True"
| "restarts (HSetOta _ _) = True"
| "restarts _ = False"

definition spaced :: "u64 \<Rightarrow> u64 \<Rightarrow> mqtt_health \<Rightarrow> bool" where
  "spaced due interval h \<longleftrightarrow> health_ok h \<and> cf_probe_interval_ms (h_config h) = interval \<and>
     (h_connected h \<longrightarrow> (h_probe_pending h \<and> h_next_probe_due_ms h = due) \<or>
        add_saturated due interval \<le> h_next_probe_due_ms h)"

lemma schedule_next_due:
  "h_next_probe_due_ms (schedule_next h now) =
     max now (add_saturated (h_next_probe_due_ms h) (cf_probe_interval_ms (h_config h)))"
  by (auto simp: schedule_next_def schedule_def Let_def max_def)

lemma schedule_next_spaced:
  assumes "h_next_probe_due_ms h = due \<or> add_saturated due interval \<le> h_next_probe_due_ms h"
    and "cf_probe_interval_ms (h_config h) = interval"
  shows "add_saturated due interval \<le> h_next_probe_due_ms (schedule_next h now)"
  using assms add_saturated_ge [of "h_next_probe_due_ms h" interval]
  unfolding schedule_next_due by (metis max.coboundedI2 order_trans order_refl)

lemma spaced_fail:
  assumes "spaced due interval h"
  shows "spaced due interval (fail_window h now r)"
proof -
  let ?h = "clear_pending (h\<lparr>h_proof_valid := False, h_failure := r\<rparr>)"
  have "h_connected h \<Longrightarrow> add_saturated due interval \<le> h_next_probe_due_ms (schedule_next ?h now)"
    using assms by (intro schedule_next_spaced) (auto simp: spaced_def)
  then show ?thesis
    using assms health_ok_fail [of h now r] by (simp add: spaced_def fail_window_def)
qed

lemma spaced_time: "spaced due interval h \<Longrightarrow> h_now_ms h \<le> t \<Longrightarrow> spaced due interval (h\<lparr>h_now_ms := t\<rparr>)"
  by (auto simp: spaced_def health_ok_time)

lemma spaced_advance:
  assumes "spaced due interval h0" and "advance h0 now0 = (h, now)"
  shows "spaced due interval h"
  using assms(2)
  by (cases rule: advance_cases) (use assms(1) spaced_time spaced_fail in blast)+

lemma spaced_step:
  assumes "spaced due interval h0" and "\<not> restarts e"
  shows "spaced due interval (health_step h0 e)"
proof -
  have ok0: "health_ok h0" using assms(1) by (simp add: spaced_def)
  note ok = health_ok_step [OF ok0, of e]
  define ha na where "ha n = fst (advance h0 n)" and "na n = snd (advance h0 n)" for n
  then have a: "advance h0 n = (ha n, na n)" for n by simp
  note adv = spaced_advance [OF assms(1) a]
  define ho no where "ho n = fst (observe_time h0 n)" and "no n = snd (observe_time h0 n)" for n
  then have o: "observe_time h0 n = (ho n, no n)" for n by simp
  have obs: "spaced due interval (ho n)" for n
    using observe_fields [OF o, of n] spaced_time [OF assms(1)] by auto
  show ?thesis
  proof (cases e)
    case (HAck token now)
    show ?thesis
    proof (cases "matches (ha now) token \<and> h_probe_admitted (ha now)")
      case True
      let ?h = "clear_pending (ha now\<lparr>h_last_ack_ms := na now, h_proof_valid := True,
        h_failure := MQTT_HEALTH_FAILURE_NONE\<rparr>)"
      have "h_connected (ha now)" using True by (simp add: matches_def)
      then have "add_saturated due interval \<le> h_next_probe_due_ms (schedule_next ?h (na now))"
        using adv [of now] by (intro schedule_next_spaced) (auto simp: spaced_def)
      then show ?thesis
        using ok adv [of now] True HAck by (simp add: spaced_def mqtt_health_probe_ack_def a)
    next
      case False
      then show ?thesis using HAck adv by (auto simp: mqtt_health_probe_ack_def a)
    qed
  next
    case (HBegin now)
    then show ?thesis using adv [of now] ok
      by (auto simp: mqtt_health_begin_probe_def a Let_def spaced_def)
  next
    case (HAdmitted token now)
    then show ?thesis using adv [of now] ok
      by (auto simp: mqtt_health_probe_admitted_def a Let_def spaced_def)
  next
    case (HPoll now)
    then show ?thesis using adv by (auto simp: mqtt_health_poll_def a)
  next
    case (HFailed token now)
    then show ?thesis using adv spaced_fail by (auto simp: mqtt_health_probe_failed_def a)
  next
    case (HEventLoss now)
    let ?h = "clear_pending (ho now\<lparr>h_proof_valid := False\<rparr>)\<lparr>h_failure := MQTT_HEALTH_FAILURE_EVENT_LOSS\<rparr>"
    have "h_connected (ho now) \<Longrightarrow> add_saturated due interval \<le> h_next_probe_due_ms (schedule_next ?h (no now))"
      using obs [of now] by (intro schedule_next_spaced) (auto simp: spaced_def)
    moreover have "h_connected (ho now) \<Longrightarrow> h_ota_active (ho now) \<Longrightarrow> \<not> h_probe_pending (ho now)"
      using obs [of now] by (auto simp: spaced_def health_ok_def)
    ultimately show ?thesis
      using HEventLoss obs [of now] ok
      by (auto simp: mqtt_health_on_event_loss_def o Let_def spaced_def)
  qed (use obs ok assms(2) in \<open>auto simp: mqtt_health_on_disconnected_def mqtt_health_worker_begin_def
      mqtt_health_worker_checkpoint_def mqtt_health_worker_end_def o spaced_def\<close>)
qed

lemma spaced_run:
  "spaced due interval h \<Longrightarrow> \<forall>e \<in> set es. \<not> restarts e \<Longrightarrow> spaced due interval (foldl health_step h es)"
  by (induction es arbitrary: h) (simp_all add: spaced_step)

lemma begin_success:
  assumes "mqtt_health_begin_probe h0 now0 = (h', Some token)"
  obtains h now where "advance h0 now0 = (h, now)" and "h_connected h" and "\<not> h_ota_active h"
    and "\<not> h_probe_pending h" and "h_next_probe_due_ms h \<le> now" and "now < h_probe_deadline_ms h"
    and "h_sequence h \<noteq> uint64_max"
    and "token = \<lparr>tk_generation = h_generation h, tk_sequence = h_sequence h + 1\<rparr>"
    and "h' = h\<lparr>h_sequence := h_sequence h + 1, h_pending_token := token,
              h_probe_pending := True, h_probe_admitted := False\<rparr>"
proof -
  obtain h now where a: "advance h0 now0 = (h, now)" by fastforce
  with assms show thesis
    by (intro that [of h now]) (auto simp: mqtt_health_begin_probe_def Let_def not_less not_le split: if_splits)
qed

text \<open>A connection whose broker stays silent: no acknowledgement and no restart.\<close>

fun silent :: "health_event \<Rightarrow> bool" where
  "silent (HConnected _) = False"
| "silent (HDisconnected _) = False"
| "silent (HSetOta _ _) = False"
| "silent (HAck _ _) = False"
| "silent _ = True"

definition unheard :: "u64 \<Rightarrow> mqtt_health \<Rightarrow> bool" where
  "unheard deadline h \<longleftrightarrow> h_connected h \<and> \<not> h_ota_active h \<and> \<not> h_proof_valid h \<and>
     (h_failure h \<noteq> MQTT_HEALTH_FAILURE_NONE \<or> h_probe_deadline_ms h = deadline)"

lemma unheard_advance:
  assumes "unheard deadline h0" and "advance h0 now0 = (h, now)"
  shows "unheard deadline h"
  using assms(2)
  by (cases rule: advance_cases) (use assms(1) in \<open>auto simp: unheard_def fail_window_def\<close>)

lemma unheard_step:
  assumes "unheard deadline h0" and "silent e"
  shows "unheard deadline (health_step h0 e)"
proof -
  define ha na where "ha n = fst (advance h0 n)" and "na n = snd (advance h0 n)" for n
  then have a: "advance h0 n = (ha n, na n)" for n by simp
  note adv = unheard_advance [OF assms(1) a]
  define ho no where "ho n = fst (observe_time h0 n)" and "no n = snd (observe_time h0 n)" for n
  then have o: "observe_time h0 n = (ho n, no n)" for n by simp
  have obs: "unheard deadline (ho n)" for n
    using observe_fields [OF o, of n] assms(1) by (auto simp: unheard_def)
  show ?thesis
    using assms(2) adv obs
    by (cases e) (auto simp: mqtt_health_poll_def mqtt_health_begin_probe_def
        mqtt_health_probe_admitted_def mqtt_health_probe_failed_def mqtt_health_on_event_loss_def
        mqtt_health_worker_begin_def mqtt_health_worker_checkpoint_def mqtt_health_worker_end_def
        a o Let_def unheard_def fail_window_def)
qed

lemma unheard_run:
  "unheard deadline h \<Longrightarrow> \<forall>e \<in> set es. silent e \<Longrightarrow> unheard deadline (foldl health_step h es)"
  by (induction es arbitrary: h) (simp_all add: unheard_step)

section \<open>Properties\<close>

text \<open>
  C31. A proof reported as fresh is genuine and recent: the monitor is connected, an
  acknowledgement with a probe token of the current connection was received in the run, and
  the poll happens less than one probe interval plus one deadline after it.
\<close>

theorem proof_fresh_bounded:
  assumes "mqtt_health_init t0 config = (h0, True)"
    and "mqtt_health_poll (foldl health_step h0 es) now = (h, snap)" and "sn_proof_fresh snap"
  shows "unat (h_now_ms h) < unat (sn_last_ack_ms snap) + unat (cf_probe_interval_ms (h_config h))
      + unat (cf_probe_deadline_ms (h_config h)) \<and>
    (\<exists>seq t. HAck \<lparr>tk_generation = sn_generation snap, tk_sequence = seq\<rparr> t \<in> set es \<and>
       t \<le> sn_last_ack_ms snap)"
proof -
  let ?h = "foldl health_step h0 es"
  have ok0: "health_ok h0" by (rule health_ok_init [OF assms(1)])
  have ok: "health_ok ?h" by (rule mh.good_run [OF ok0])
  have "acked_in (set es) ?h"
    by (rule acked_run [OF ok0]) (use assms(1) in \<open>auto simp: acked_in_def mqtt_health_init_def
        zero_health_def Let_def split: if_splits\<close>)
  obtain h1 n where a: "advance ?h now = (h1, n)" by fastforce
  have snap: "h = h1" "sn_last_ack_ms snap = h_last_ack_ms h" "sn_generation snap = h_generation h"
    "h_proof_valid h" "h_connected h" "\<not> h_ota_active h"
    using assms(2,3) by (auto simp: mqtt_health_poll_def a)
  note adv = health_ok_advance [OF ok a]
  have "acked_in (set es) h" using acked_advance [OF \<open>acked_in (set es) ?h\<close> a] snap(1) by simp
  moreover have "n < h_probe_deadline_ms h"
    using a by (cases rule: advance_cases) (use snap in \<open>auto simp: fail_window_def\<close>)
  moreover have "unat (h_probe_deadline_ms h) \<le> proof_limit h"
    using adv(1) snap by (simp add: health_ok_def)
  ultimately show ?thesis
    using adv(2) snap by (simp add: acked_in_def word_less_nat_alt proof_limit_def)
qed

definition sample_health :: "health_event list" where
  "sample_health = [HConnected 1000, HBegin 1000, HAdmitted \<lparr>tk_generation = 1, tk_sequence = 1\<rparr> 1100,
     HAck \<lparr>tk_generation = 1, tk_sequence = 1\<rparr> 2000]"

theorem proof_fresh_bounded_witness:
  "let (h, snap) = mqtt_health_poll (foldl health_step (fst (mqtt_health_init 0 None)) sample_health) 90000
   in sn_proof_fresh snap \<and> unat (h_now_ms h) < unat (sn_last_ack_ms snap) + 180000"
proof -
  let ?h0 = "fst (mqtt_health_init 0 None)"
  obtain h snap where p: "mqtt_health_poll (foldl health_step ?h0 sample_health) 90000 = (h, snap)"
    by fastforce
  have init: "mqtt_health_init 0 None = (?h0, True)" by code_simp
  have "sn_proof_fresh (snd (mqtt_health_poll (foldl health_step ?h0 sample_health) 90000))" by code_simp
  then have f: "sn_proof_fresh snap" using p by simp
  have "h_config (fst (mqtt_health_poll (foldl health_step ?h0 sample_health) 90000)) =
      mqtt_health_default_config" by code_simp
  then have "h_config h = mqtt_health_default_config" using p by simp
  with proof_fresh_bounded [OF init p f] f p show ?thesis
    by (simp add: mqtt_health_default_config_def)
qed

text \<open>
  A probe is acknowledged at most once and never late: a successful acknowledgement
  arrives before the window's deadline with the probe admitted, and from then on the same
  token is refused, whatever happens later.
\<close>

theorem ack_once_in_time:
  assumes "health_ok h0" and "mqtt_health_probe_ack h0 token now0 = (h, True)"
  shows "now0 < h_probe_deadline_ms h0 \<and> h_probe_admitted h0 \<and>
    snd (mqtt_health_probe_ack (foldl health_step h es) token now1) = False"
proof -
  obtain ha n where a: "advance h0 now0 = (ha, n)" by fastforce
  note adv = health_ok_advance [OF assms(1) a]
  have m: "matches ha token" "h_probe_admitted ha"
    and h: "h = schedule_next (clear_pending (ha\<lparr>h_last_ack_ms := n, h_proof_valid := True,
              h_failure := MQTT_HEALTH_FAILURE_NONE\<rparr>)) n"
    using assms(2) by (auto simp: mqtt_health_probe_ack_def a split: if_splits)
  then have pend: "h_probe_pending ha" "tk_sequence token = tk_sequence (h_pending_token ha)"
    by (auto simp: matches_def)
  have same: "h_probe_deadline_ms ha = h_probe_deadline_ms h0 \<and> h_probe_admitted h0"
    using a by (cases rule: advance_cases) (use pend(1) m(2) in \<open>auto simp: fail_window_def\<close>)
  have time: "now0 < h_probe_deadline_ms h0"
    using adv(3) adv(9) [OF pend(1)] same by (metis order_le_less_trans)
  have ok: "health_ok h" using health_ok_ack [OF assms(1), of token now0] assms(2) by simp
  let ?h1 = "foldl health_step h es"
  have "tk_sequence token \<le> h_sequence h"
    using adv(1) pend by (auto simp: h health_ok_def)
  moreover have "tk_sequence token \<notin> h_live h" by (simp add: h h_live_def)
  ultimately have "tk_sequence token \<notin> h_live ?h1" by (intro mh.retired_run ok)
  then have no: "\<not> (h_probe_pending ?h1 \<and> tk_sequence token = tk_sequence (h_pending_token ?h1))"
    by (auto simp: h_live_def)
  obtain hb n1 where b: "advance ?h1 now1 = (hb, n1)" by fastforce
  have "\<not> matches hb token"
    using health_ok_advance(8) [OF mh.good_run [OF ok] b] no by (auto simp: matches_def)
  then show ?thesis using same time by (simp add: mqtt_health_probe_ack_def b)
qed

theorem ack_once_in_time_witness:
  "let h = foldl health_step (fst (mqtt_health_init 0 None)) (butlast sample_health);
       token = \<lparr>tk_generation = 1, tk_sequence = 1\<rparr> in
   snd (mqtt_health_probe_ack h token 2000) \<and>
   \<not> snd (mqtt_health_probe_ack (health_step h (HAck token 2000)) token 2001)"
proof -
  let ?h = "foldl health_step (fst (mqtt_health_init 0 None)) (butlast sample_health)"
  let ?t = "\<lparr>tk_generation = 1, tk_sequence = 1\<rparr> :: mqtt_health_token"
  have init: "mqtt_health_init 0 None = (fst (mqtt_health_init 0 None), True)" by code_simp
  have ok: "health_ok ?h" by (rule mh.good_run [OF health_ok_init [OF init]])
  have snd: "snd (mqtt_health_probe_ack ?h ?t 2000)" by code_simp
  then have ack: "mqtt_health_probe_ack ?h ?t 2000 = (health_step ?h (HAck ?t 2000), True)"
    by (metis health_step.simps(6) prod.collapse)
  from ack_once_in_time [OF ok ack, of "[]" 2001] snd show ?thesis
    unfolding Let_def foldl.simps by blast
qed

text \<open>
  No catch-up burst: within one connection and OTA mode, after a probe of the window
  that was due at \<open>d\<close>, the next probe starts no earlier than \<open>d\<close> plus the probe interval,
  however often the monitor is polled or probes fail in between.
\<close>

theorem probes_are_spaced:
  assumes "health_ok h0" and "mqtt_health_begin_probe h0 now0 = (h, Some token)"
    and "\<forall>e \<in> set es. \<not> restarts e"
    and "mqtt_health_begin_probe (foldl health_step h es) now1 = (h', Some token')"
  shows "add_saturated (h_next_probe_due_ms h) (cf_probe_interval_ms (h_config h)) \<le> h_now_ms h'"
proof -
  have ok: "health_ok h" using health_ok_begin [OF assms(1), of now0] assms(2) by simp
  have "h_probe_pending h" using assms(2) by (elim begin_success) simp
  then have "spaced (h_next_probe_due_ms h) (cf_probe_interval_ms (h_config h)) h"
    using ok by (simp add: spaced_def)
  from spaced_run [OF this assms(3)]
  have sp: "spaced (h_next_probe_due_ms h) (cf_probe_interval_ms (h_config h)) (foldl health_step h es)" .
  from assms(4) obtain h1 n where b: "advance (foldl health_step h es) now1 = (h1, n)"
    "h_connected h1" "\<not> h_probe_pending h1" "h_next_probe_due_ms h1 \<le> n" "h_now_ms h' = h_now_ms h1"
    by (elim begin_success) auto
  have "h_now_ms h1 = n" using health_ok_advance(2) [OF mh.good_run [OF ok] b(1)] .
  moreover have "add_saturated (h_next_probe_due_ms h) (cf_probe_interval_ms (h_config h)) \<le> h_next_probe_due_ms h1"
    using spaced_advance [OF sp b(1)] b(2,3) by (auto simp: spaced_def)
  ultimately show ?thesis using b(4,5) by simp
qed

theorem probes_are_spaced_witness:
  "let h = foldl health_step (fst (mqtt_health_init 0 None)) (take 2 sample_health) in
   h_next_probe_due_ms h = 1000 \<and>
   121000 \<le> h_now_ms (fst (mqtt_health_begin_probe (foldl health_step h (drop 2 sample_health)) 121500))"
proof -
  let ?i = "foldl health_step (fst (mqtt_health_init 0 None)) (take 1 sample_health)"
  let ?h = "fst (mqtt_health_begin_probe ?i 1000)"
  let ?es = "drop 2 sample_health"
  have init: "mqtt_health_init 0 None = (fst (mqtt_health_init 0 None), True)" by code_simp
  have ok: "health_ok ?i" by (rule mh.good_run [OF health_ok_init [OF init]])
  have one: "mqtt_health_begin_probe ?i 1000 = (?h, Some \<lparr>tk_generation = 1, tk_sequence = 1\<rparr>)"
    by code_simp
  have es: "\<forall>e \<in> set ?es. \<not> restarts e" by (simp add: sample_health_def)
  have two: "mqtt_health_begin_probe (foldl health_step ?h ?es) 121500 =
      (fst (mqtt_health_begin_probe (foldl health_step ?h ?es) 121500),
       Some \<lparr>tk_generation = 1, tk_sequence = 2\<rparr>)" by code_simp
  have "h_next_probe_due_ms ?h = 1000" "add_saturated 1000 (cf_probe_interval_ms (h_config ?h)) = 121000"
    by code_simp+
  with probes_are_spaced [OF ok one es two] show ?thesis
    by (simp add: sample_health_def Let_def)
qed

text \<open>
  A silent broker is noticed: after a connection is made, if no acknowledgement, no
  disconnection and no OTA change follows, then every poll at or after the first window's
  deadline reports the connection degraded and no fresh proof.
\<close>

theorem silence_is_detected:
  assumes "\<not> h_ota_active h0" and "h = mqtt_health_on_connected h0 now0" and "\<forall>e \<in> set es. silent e"
    and "h_probe_deadline_ms h \<le> now"
  shows "let snap = snd (mqtt_health_poll (foldl health_step h es) now) in
    sn_degraded snap \<and> \<not> sn_proof_fresh snap"
proof -
  obtain t where "observe_time h0 now0 = (h0\<lparr>h_now_ms := t\<rparr>, t)"
    using observe_fields [of h0 now0] by (metis prod.collapse)
  then have "unheard (h_probe_deadline_ms h) h"
    using assms(1,2) by (auto simp: mqtt_health_on_connected_def unheard_def schedule_def clear_pending_def)
  from unheard_run [OF this assms(3)]
  have u: "unheard (h_probe_deadline_ms h) (foldl health_step h es)" .
  obtain h1 n where a: "advance (foldl health_step h es) now = (h1, n)" by fastforce
  note u1 = unheard_advance [OF u a]
  have "h_failure h1 \<noteq> MQTT_HEALTH_FAILURE_NONE"
    using a
  proof (cases rule: advance_cases)
    case (1 t)
    then show ?thesis using u1 assms(4) by (auto simp: unheard_def)
  next
    case (2 t r)
    then show ?thesis by (simp add: fail_window_def)
  qed
  then show ?thesis using u1 by (simp add: mqtt_health_poll_def a Let_def unheard_def)
qed

theorem silence_is_detected_witness:
  "sn_degraded (snd (mqtt_health_poll (foldl health_step
     (mqtt_health_on_connected (fst (mqtt_health_init 0 None)) 1000) [HBegin 1500, HPoll 30000]) 61000))"
proof -
  let ?h0 = "fst (mqtt_health_init 0 None)"
  have "\<not> h_ota_active ?h0" "h_probe_deadline_ms (mqtt_health_on_connected ?h0 1000) \<le> 61000"
    by code_simp+
  from silence_is_detected [OF this(1) refl _ this(2), of "[HBegin 1500, HPoll 30000]"]
  show ?thesis by (simp add: Let_def)
qed

end
