(* ===== verification/At_Text.thy ===== *)
theory At_Text
  imports Prelude
begin

text \<open>
  Text of AT command responses: the span helpers and the response classifier of
  \<open>modem_radio_policy.c\<close>.  A span (pointer and length) is the character list it denotes;
  a loop \<open>while (next_line(...))\<close> is a recursion over the complete lines of the text, which
  \<open>split_lines\<close> delivers with the unfinished rest.  The callback \<open>modem_radio_at_fn\<close> is a
  parameter of the functions that use it: it gets the context, the command, the scratch
  buffer and the timeout, and returns the new context, its verdict and the buffer.
\<close>

section \<open>Spans\<close>

abbreviation LF :: char where "LF \<equiv> CHR 0x0A"
abbreviation CR :: char where "CR \<equiv> CHR 0x0D"
abbreviation TAB :: char where "TAB \<equiv> CHR 0x09"
abbreviation NUL :: char where "NUL \<equiv> CHR 0x00"

definition horizontal_space :: "char \<Rightarrow> bool" where
  "horizontal_space c \<longleftrightarrow> c = CHR '' '' \<or> c = TAB \<or> c = CR"

definition trim :: "string \<Rightarrow> string" where
  "trim text = rev (dropWhile horizontal_space (rev (dropWhile horizontal_space text)))"

definition starts_with :: "string \<Rightarrow> string \<Rightarrow> bool" where
  "starts_with text literal \<longleftrightarrow> length text \<ge> length literal \<and> take (length literal) text = literal"

definition next_line :: "string \<Rightarrow> (string \<times> string) option" where
  "next_line remaining =
     (if LF \<in> set remaining
      then Some (trim (takeWhile (\<lambda>c. c \<noteq> LF) remaining), tl (dropWhile (\<lambda>c. c \<noteq> LF) remaining))
      else None)"

lemma next_line_shorter: "next_line s = Some (l, r) \<Longrightarrow> length r < length s"
proof -
  assume a: "next_line s = Some (l, r)"
  then have mem: "LF \<in> set s" and r: "r = tl (dropWhile (\<lambda>c. c \<noteq> LF) s)"
    by (auto simp: next_line_def split: if_splits)
  from mem have "dropWhile (\<lambda>c. c \<noteq> LF) s \<noteq> []" by auto
  moreover have "length (dropWhile (\<lambda>c. c \<noteq> LF) s) \<le> length s" by (rule length_dropWhile_le)
  ultimately show ?thesis unfolding r by (cases "dropWhile (\<lambda>c. c \<noteq> LF) s") auto
qed

function split_lines :: "string \<Rightarrow> string list \<times> string" where
  "split_lines s = (case next_line s of None \<Rightarrow> ([], s)
     | Some (l, r) \<Rightarrow> (case split_lines r of (ls, e) \<Rightarrow> (l # ls, e)))"
  by pat_completeness auto
termination
  by (relation "measure length") (auto dest: next_line_shorter)

declare split_lines.simps [simp del]

section \<open>Response classification\<close>

definition MODEM_RADIO_RESPONSE_CAPACITY :: nat where [simp]: "MODEM_RADIO_RESPONSE_CAPACITY = 512"

datatype modem_radio_response_status_t =
  MODEM_RADIO_RESPONSE_WAIT | MODEM_RADIO_RESPONSE_OK | MODEM_RADIO_RESPONSE_ERROR

definition bad_char :: "char \<Rightarrow> bool" where
  "bad_char c \<longleftrightarrow> ((of_char c :: int) < 0x20 \<and> c \<noteq> CR \<and> c \<noteq> LF \<and> c \<noteq> TAB) \<or> (of_char c :: int) > 0x7e"

definition error_line :: "string \<Rightarrow> bool" where
  "error_line line \<longleftrightarrow> line = ''ERROR'' \<or> starts_with line ''+CME ERROR:'' \<or>
     starts_with line ''+CMS ERROR:'' \<or> line = ''NO CARRIER'' \<or> line = ''NO ANSWER'' \<or> line = ''BUSY''"

fun status_lines :: "string list \<Rightarrow> bool \<Rightarrow> modem_radio_response_status_t" where
  "status_lines [] ok = (if ok then MODEM_RADIO_RESPONSE_OK else MODEM_RADIO_RESPONSE_WAIT)"
| "status_lines (line # lines) ok =
     (if error_line line then MODEM_RADIO_RESPONSE_ERROR
      else if line = ''OK'' then
        (if ok then MODEM_RADIO_RESPONSE_ERROR else status_lines lines True)
      else status_lines lines ok)"

definition modem_radio_response_status :: "string \<Rightarrow> modem_radio_response_status_t" where
  "modem_radio_response_status response =
     (if length response \<ge> MODEM_RADIO_RESPONSE_CAPACITY then MODEM_RADIO_RESPONSE_ERROR
      else if response = [] then MODEM_RADIO_RESPONSE_WAIT
      else if list_ex bad_char response then MODEM_RADIO_RESPONSE_ERROR
      else status_lines (fst (split_lines response)) False)"

section \<open>Fields\<close>

text \<open>The three results of \<open>named_value\<close>: 0 for another line, -1 malformed, 1 with the value.\<close>

datatype field_match = OtherLine | MalformedKey | FieldValue string

definition named_value :: "string \<Rightarrow> string \<Rightarrow> field_match" where
  "named_value line key =
     (if \<not> starts_with line key then OtherLine
      else let rest = drop (length key) line in
        if rest \<noteq> [] \<and> hd rest \<noteq> CHR '':'' \<and> \<not> horizontal_space (hd rest) then OtherLine
        else let rest = trim rest in
          if rest = [] \<or> hd rest \<noteq> CHR '':'' then MalformedKey
          else FieldValue (trim (tl rest)))"

definition UINT_MAX :: int where [simp]: "UINT_MAX = 4294967295"

definition is_digit :: "char \<Rightarrow> bool" where
  "is_digit c \<longleftrightarrow> of_char c \<ge> (48 :: int) \<and> of_char c \<le> (57 :: int)"

definition digit :: "char \<Rightarrow> int" where
  "digit c = of_char c - 48"

fun digit_loop :: "int \<Rightarrow> string \<Rightarrow> (int \<times> string) option" where
  "digit_loop value [] = Some (value, [])"
| "digit_loop value (c # cs) =
     (if is_digit c then
        if value > (UINT_MAX - digit c) div 10 then None
        else digit_loop (value * 10 + digit c) cs
      else Some (value, c # cs))"

definition take_unsigned :: "string \<Rightarrow> (int \<times> string) option" where
  "take_unsigned text = (let t = trim text in
     if t = [] \<or> \<not> is_digit (hd t) then None
     else map_option (\<lambda>(v, r). (v, trim r)) (digit_loop 0 t))"

section \<open>Facts about text\<close>

lemma trim_length: "length (trim s) \<le> length s"
proof -
  have "length (trim s) \<le> length (rev (dropWhile horizontal_space s))"
    unfolding trim_def length_rev by (metis length_dropWhile_le length_rev)
  also have "\<dots> \<le> length s" by (simp add: length_dropWhile_le)
  finally show ?thesis .
qed

lemma dropWhile_none: "(\<And>x. x \<in> set xs \<Longrightarrow> \<not> P x) \<Longrightarrow> dropWhile P xs = xs"
  by (cases xs) auto

lemma trim_id: "(\<And>c. c \<in> set s \<Longrightarrow> \<not> horizontal_space c) \<Longrightarrow> trim s = s"
  using dropWhile_none [of s horizontal_space] dropWhile_none [of "rev s" horizontal_space]
  by (simp add: trim_def)

text \<open>The decimal value of a digit string.\<close>

definition dec_value :: "string \<Rightarrow> int" where
  "dec_value ds = foldl (\<lambda>v c. v * 10 + digit c) 0 ds"

lemma foldl_dec_mono:
  "0 \<le> v \<Longrightarrow> list_all is_digit ds \<Longrightarrow> v \<le> foldl (\<lambda>v c. v * 10 + digit c) v ds"
proof (induction ds arbitrary: v)
  case (Cons c ds)
  then have "0 \<le> digit c" by (simp add: is_digit_def digit_def)
  with Cons.IH [of "v * 10 + digit c"] Cons.prems show ?case by simp
qed simp

lemma digit_loop_spec:
  assumes "0 \<le> v" and "v \<le> UINT_MAX"
  shows "digit_loop v s =
    (let w = foldl (\<lambda>v c. v * 10 + digit c) v (takeWhile is_digit s) in
     if w \<le> UINT_MAX then Some (w, dropWhile is_digit s) else None)"
  using assms
proof (induction s arbitrary: v)
  case Nil
  then show ?case by simp
next
  case (Cons c s)
  show ?case
  proof (cases "is_digit c")
    case False
    then show ?thesis using Cons.prems by simp
  next
    case True
    then have d: "0 \<le> digit c" "digit c \<le> 9" unfolding is_digit_def digit_def by linarith+
    have pos: "0 \<le> v * 10 + digit c" using d(1) Cons.prems(1) by simp
    have all: "list_all is_digit (takeWhile is_digit s)" by (auto simp: list_all_iff dest: set_takeWhileD)
    show ?thesis
    proof (cases "v * 10 + digit c \<le> UINT_MAX")
      case le: True
      then have "v \<le> (UINT_MAX - digit c) div 10" by simp
      then have "\<not> v > (UINT_MAX - digit c) div 10" by simp
      with True Cons.IH [OF pos le] show ?thesis by (simp add: Let_def)
    next
      case False
      then have "v > (UINT_MAX - digit c) div 10" using d by simp
      moreover have "\<not> foldl (\<lambda>v c. v * 10 + digit c) (v * 10 + digit c) (takeWhile is_digit s) \<le> UINT_MAX"
        using False foldl_dec_mono [OF pos all] by linarith
      ultimately show ?thesis using True by (simp add: Let_def)
    qed
  qed
qed

lemma take_unsigned_spec:
  "take_unsigned text =
    (let ds = takeWhile is_digit (trim text) in
     if ds \<noteq> [] \<and> dec_value ds \<le> UINT_MAX
     then Some (dec_value ds, trim (dropWhile is_digit (trim text))) else None)"
proof (cases "trim text")
  case Nil
  then show ?thesis by (simp add: take_unsigned_def)
next
  case (Cons c cs)
  have "0 \<le> UINT_MAX" by simp
  with Cons show ?thesis
    using digit_loop_spec [of 0 "c # cs"]
    by (simp add: take_unsigned_def dec_value_def Let_def del: digit_loop.simps UINT_MAX_def)
qed

lemma take_unsigned_shorter:
  assumes "take_unsigned s = Some (v, r)"
  shows "length r < length s"
proof -
  let ?t = "trim s"
  have ds: "takeWhile is_digit ?t \<noteq> []" and r: "r = trim (dropWhile is_digit ?t)"
    using assms by (auto simp: take_unsigned_spec Let_def split: if_splits)
  have "length (dropWhile is_digit ?t) < length ?t"
    using ds by (cases ?t) (auto simp: length_dropWhile_le less_Suc_eq_le split: if_splits)
  then show ?thesis
    unfolding r using trim_length [of "dropWhile is_digit ?t"] trim_length [of s] by linarith
qed

end
