(* ===== verification/Radio_Policy.thy ===== *)
theory Radio_Policy
  imports At_Text
begin

text \<open>
  The radio policy of \<open>modem_radio_policy.c\<close>: read back the three network settings of the
  modem, correct them with the radio off, and never let the radio on unless they were read
  back as LTE-only, CAT-M, bands 3 and 20.

  The AT callback is the parameter \<open>at\<close>, called with the caller's context; every function
  returns the new context.  The properties instantiate the context with a log of the
  exchanges and hold for every callback.
\<close>

section \<open>Exchanges\<close>

type_synonym 'c at_fn = "'c \<Rightarrow> string \<Rightarrow> string \<Rightarrow> nat \<Rightarrow> 'c \<times> bool \<times> string"

definition RADIO_AT_TIMEOUT_MS :: nat where "RADIO_AT_TIMEOUT_MS = 3000"
definition RADIO_CFUN_TIMEOUT_MS :: nat where "RADIO_CFUN_TIMEOUT_MS = 10000"

text \<open>
  The buffer is filled with \<open>0xa5\<close> before the call; a reply without a NUL inside the buffer
  or without a terminal OK is no reply.
\<close>

definition response_text :: "string \<Rightarrow> string option" where
  "response_text buffer =
     (let text = takeWhile (\<lambda>c. c \<noteq> NUL) (take MODEM_RADIO_RESPONSE_CAPACITY buffer) in
      if NUL \<notin> set (take MODEM_RADIO_RESPONSE_CAPACITY buffer) then None
      else if modem_radio_response_status text = MODEM_RADIO_RESPONSE_OK then Some text else None)"

definition exchange :: "'c at_fn \<Rightarrow> 'c \<Rightarrow> string \<Rightarrow> nat \<Rightarrow> 'c \<times> string option" where
  "exchange at ctx command timeout_ms =
     (case at ctx command (replicate MODEM_RADIO_RESPONSE_CAPACITY (CHR 0xA5)) timeout_ms of
        (ctx', ok, buffer) \<Rightarrow> (ctx', if ok then response_text buffer else None))"

definition command_ok :: "'c at_fn \<Rightarrow> 'c \<Rightarrow> string \<Rightarrow> nat \<Rightarrow> 'c \<times> bool" where
  "command_ok at ctx command timeout_ms =
     (case exchange at ctx command timeout_ms of (ctx', r) \<Rightarrow> (ctx', r \<noteq> None))"

section \<open>Reading back settings\<close>

fun scalar_lines :: "string \<Rightarrow> string list \<Rightarrow> bool \<Rightarrow> int option \<Rightarrow> int option" where
  "scalar_lines key [] terminal found = found"
| "scalar_lines key (line # lines) terminal found =
     (let terminal' = (terminal \<or> line = ''OK'') in
      case named_value line key of
        MalformedKey \<Rightarrow> None
      | OtherLine \<Rightarrow> scalar_lines key lines terminal' found
      | FieldValue text \<Rightarrow>
          if terminal' \<or> found \<noteq> None then None
          else (case take_unsigned text of
                  None \<Rightarrow> None
                | Some (v, rest) \<Rightarrow>
                    if rest \<noteq> [] then None else scalar_lines key lines terminal' (Some v)))"

definition parse_scalar :: "string \<Rightarrow> string \<Rightarrow> int option" where
  "parse_scalar key response = scalar_lines key (fst (split_lines response)) False None"

definition read_scalar :: "'c at_fn \<Rightarrow> 'c \<Rightarrow> string \<Rightarrow> string \<Rightarrow> 'c \<times> int option" where
  "read_scalar at ctx command key =
     (case exchange at ctx command
        (if key = ''+CFUN'' then RADIO_CFUN_TIMEOUT_MS else RADIO_AT_TIMEOUT_MS) of
        (ctx', r) \<Rightarrow> (ctx', Option.bind r (parse_scalar key)))"

text \<open>The inner loop over the band numbers, with the bitmap \<open>seen\<close> of 32 bytes.\<close>

function band_loop :: "string \<Rightarrow> nat \<Rightarrow> u8 list \<Rightarrow> (nat \<times> u8 list) option" where
  "band_loop text band_count seen =
     (case take_unsigned text of
        None \<Rightarrow> None
      | Some (band, text1) \<Rightarrow>
          if band = 0 \<or> band > 255 then None
          else let mask = push_bit (nat (band mod 8)) 1 :: u8; cell = nat (band div 8) in
            if seen ! cell AND mask \<noteq> 0 then None
            else let seen' = seen[cell := seen ! cell OR mask];
                     count' = band_count + 1 in
              if text1 = [] then Some (count', seen')
              else if hd text1 \<noteq> CHR '','' then None
              else band_loop (tl text1) count' seen')"
  by pat_completeness auto
termination
proof (relation "measure (\<lambda>(t, _, _). length t)", goal_cases)
  case 1
  show ?case by simp
next
  case (2 t n seen p band t1 mask cell seen' n')
  then have "length t1 < length t" by (auto dest: take_unsigned_shorter)
  then show ?case by simp
qed

declare band_loop.simps [simp del]

datatype settings_result = SETTINGS_INVALID | SETTINGS_MISMATCH | SETTINGS_MATCH

fun bands_lines :: "string list \<Rightarrow> bool \<Rightarrow> bool option \<Rightarrow> settings_result" where
  "bands_lines [] terminal found =
     (case found of None \<Rightarrow> SETTINGS_INVALID
      | Some matches \<Rightarrow> if matches then SETTINGS_MATCH else SETTINGS_MISMATCH)"
| "bands_lines (line # lines) terminal found =
     (let terminal' = (terminal \<or> line = ''OK'') in
      case named_value line ''+CBANDCFG'' of
        MalformedKey \<Rightarrow> SETTINGS_INVALID
      | OtherLine \<Rightarrow> bands_lines lines terminal' found
      | FieldValue text \<Rightarrow>
          if starts_with text ''\"NB-IOT\"'' then bands_lines lines terminal' found
          else if \<not> starts_with text ''\"CAT-M\"'' \<or> found \<noteq> None \<or> terminal' then SETTINGS_INVALID
          else let text1 = trim (drop 7 text) in
            if text1 = [] \<or> hd text1 \<noteq> CHR '','' then SETTINGS_INVALID
            else (case band_loop (tl text1) 0 (replicate 32 0) of
                    None \<Rightarrow> SETTINGS_INVALID
                  | Some (band_count, seen) \<Rightarrow>
                      bands_lines lines terminal' (Some (band_count = 2 \<and>
                        (seen ! (3 div 8) AND push_bit (3 mod 8) 1) \<noteq> 0 \<and>
                        (seen ! (20 div 8) AND push_bit (20 mod 8) 1) \<noteq> 0))))"

definition parse_bands :: "string \<Rightarrow> settings_result" where
  "parse_bands response = bands_lines (fst (split_lines response)) False None"

definition read_bands :: "'c at_fn \<Rightarrow> 'c \<Rightarrow> 'c \<times> settings_result" where
  "read_bands at ctx =
     (case exchange at ctx ''AT+CBANDCFG?'' RADIO_AT_TIMEOUT_MS of
        (ctx', None) \<Rightarrow> (ctx', SETTINGS_INVALID)
      | (ctx', Some response) \<Rightarrow> (ctx', parse_bands response))"

definition read_settings :: "'c at_fn \<Rightarrow> 'c \<Rightarrow> 'c \<times> settings_result" where
  "read_settings at ctx =
     (case read_scalar at ctx ''AT+CNMP?'' ''+CNMP'' of
        (ctx1, None) \<Rightarrow> (ctx1, SETTINGS_INVALID)
      | (ctx1, Some network) \<Rightarrow>
          (case read_scalar at ctx1 ''AT+CMNB?'' ''+CMNB'' of
             (ctx2, None) \<Rightarrow> (ctx2, SETTINGS_INVALID)
           | (ctx2, Some preference) \<Rightarrow>
               (case read_bands at ctx2 of
                  (ctx3, bands) \<Rightarrow>
                    (ctx3, if bands = SETTINGS_INVALID then SETTINGS_INVALID
                           else if network = 38 \<and> preference = 1 \<and> bands = SETTINGS_MATCH
                           then SETTINGS_MATCH else SETTINGS_MISMATCH))))"

section \<open>The policy\<close>

definition fail_closed :: "'c at_fn \<Rightarrow> 'c \<Rightarrow> 'c \<times> bool" where
  "fail_closed at ctx = (fst (command_ok at ctx ''AT+CFUN=4'' RADIO_CFUN_TIMEOUT_MS), False)"

text \<open>The corrective sequence of \<open>modem_radio_prepare\<close>: each step runs only if the previous succeeded.\<close>

definition radio_reconfigure :: "'c at_fn \<Rightarrow> 'c \<Rightarrow> 'c \<times> bool" where
  "radio_reconfigure at ctx =
     (case command_ok at ctx ''AT+CFUN=4'' RADIO_CFUN_TIMEOUT_MS of
        (c1, False) \<Rightarrow> (c1, False)
      | (c1, True) \<Rightarrow>
     (case read_scalar at c1 ''AT+CFUN?'' ''+CFUN'' of
        (c2, functionality) \<Rightarrow> if functionality \<noteq> Some 4 then (c2, False) else
     (case command_ok at c2 ''AT+CNMP=38'' RADIO_AT_TIMEOUT_MS of
        (c3, False) \<Rightarrow> (c3, False)
      | (c3, True) \<Rightarrow>
     (case command_ok at c3 ''AT+CMNB=1'' RADIO_AT_TIMEOUT_MS of
        (c4, False) \<Rightarrow> (c4, False)
      | (c4, True) \<Rightarrow>
     (case command_ok at c4 ''AT+CBANDCFG=\"CAT-M\",3,20'' RADIO_AT_TIMEOUT_MS of
        (c5, False) \<Rightarrow> (c5, False)
      | (c5, True) \<Rightarrow>
     (case read_settings at c5 of
        (c6, r) \<Rightarrow> (c6, r = SETTINGS_MATCH)))))))"

definition modem_radio_prepare :: "'c at_fn \<Rightarrow> 'c \<Rightarrow> 'c \<times> bool" where
  "modem_radio_prepare at ctx =
     (case read_settings at ctx of
        (c1, SETTINGS_MATCH) \<Rightarrow> (c1, True)
      | (c1, SETTINGS_INVALID) \<Rightarrow> fail_closed at c1
      | (c1, SETTINGS_MISMATCH) \<Rightarrow>
          (case radio_reconfigure at c1 of
             (c2, ok) \<Rightarrow> if ok then (c2, True) else fail_closed at c2))"

definition modem_radio_resume :: "'c at_fn \<Rightarrow> 'c \<Rightarrow> 'c \<times> bool" where
  "modem_radio_resume at ctx =
     (case read_settings at ctx of (c1, settings) \<Rightarrow>
        if settings \<noteq> SETTINGS_MATCH then fail_closed at c1
        else (case read_scalar at c1 ''AT+CFUN?'' ''+CFUN'' of
          (c2, None) \<Rightarrow> fail_closed at c2
        | (c2, Some functionality) \<Rightarrow>
            if functionality = 1 then (c2, True)
            else if functionality \<noteq> 4 then fail_closed at c2
            else (case command_ok at c2 ''AT+CFUN=1'' RADIO_CFUN_TIMEOUT_MS of
              (c3, False) \<Rightarrow> fail_closed at c3
            | (c3, True) \<Rightarrow>
                (case read_scalar at c3 ''AT+CFUN?'' ''+CFUN'' of
                   (c4, functionality') \<Rightarrow>
                     if functionality' = Some 1 then (c4, True) else fail_closed at c4))))"

section \<open>Exchange logs\<close>

text \<open>
  A callback that also records every command with the reply the policy saw (None when the
  exchange failed).  It behaves like the callback it wraps.
\<close>

type_synonym at_log = "(string \<times> string option) list"

definition logged :: "'c at_fn \<Rightarrow> ('c \<times> at_log) at_fn" where
  "logged at ctx command buffer timeout_ms =
     (case at (fst ctx) command buffer timeout_ms of (c', ok, b) \<Rightarrow>
        ((c', snd ctx @ [(command, if ok then response_text b else None)]), ok, b))"

lemma exchange_logged:
  "exchange (logged at) (c, l) cmd t =
     (case exchange at c cmd t of (c', r) \<Rightarrow> ((c', l @ [(cmd, r)]), r))"
  by (simp add: exchange_def logged_def split: prod.splits)

lemma exchange_logged_ex:
  obtains c' r where "exchange (logged at) (c, l) cmd t = ((c', l @ [(cmd, r)]), r)"
  by (cases "exchange at c cmd t") (simp add: exchange_logged)

lemma command_logged_ex:
  obtains c' r where "command_ok (logged at) (c, l) cmd t = ((c', l @ [(cmd, r)]), r \<noteq> None)"
  by (rule exchange_logged_ex [of at c l cmd t]) (simp add: command_ok_def)

lemma scalar_logged_ex:
  obtains c' r where "read_scalar (logged at) (c, l) cmd key =
    ((c', l @ [(cmd, r)]), Option.bind r (parse_scalar key))"
  by (rule exchange_logged_ex [of at c l cmd "if key = ''+CFUN'' then RADIO_CFUN_TIMEOUT_MS else RADIO_AT_TIMEOUT_MS"])
    (simp add: read_scalar_def)

lemma bands_logged_ex:
  obtains c' r where "read_bands (logged at) (c, l) =
    ((c', l @ [(''AT+CBANDCFG?'', r)]), case r of None \<Rightarrow> SETTINGS_INVALID | Some s \<Rightarrow> parse_bands s)"
proof -
  obtain c' r where "exchange (logged at) (c, l) ''AT+CBANDCFG?'' RADIO_AT_TIMEOUT_MS =
      ((c', l @ [(''AT+CBANDCFG?'', r)]), r)" by (rule exchange_logged_ex)
  then show thesis by (intro that [of c' r]) (simp add: read_bands_def split: option.splits)
qed

text \<open>The three readbacks that count as a verified configuration.\<close>

definition settings_ok :: "at_log \<Rightarrow> bool" where
  "settings_ok es \<longleftrightarrow> (\<exists>r1 r2 r3.
     es = [(''AT+CNMP?'', Some r1), (''AT+CMNB?'', Some r2), (''AT+CBANDCFG?'', Some r3)] \<and>
     parse_scalar ''+CNMP'' r1 = Some 38 \<and> parse_scalar ''+CMNB'' r2 = Some 1 \<and>
     parse_bands r3 = SETTINGS_MATCH)"

definition queries :: "string set" where
  "queries = {''AT+CNMP?'', ''AT+CMNB?'', ''AT+CBANDCFG?''}"

lemma settings_logged_ex:
  obtains c' es res where "read_settings (logged at) (c, l) = ((c', l @ es), res)"
    and "fst ` set es \<subseteq> queries" and "res = SETTINGS_MATCH \<longleftrightarrow> settings_ok es"
proof -
  obtain c1 r1 where 1: "read_scalar (logged at) (c, l) ''AT+CNMP?'' ''+CNMP'' =
      ((c1, l @ [(''AT+CNMP?'', r1)]), Option.bind r1 (parse_scalar ''+CNMP''))"
    by (rule scalar_logged_ex)
  obtain c2 r2 where 2: "read_scalar (logged at) (c1, l @ [(''AT+CNMP?'', r1)]) ''AT+CMNB?'' ''+CMNB'' =
      ((c2, (l @ [(''AT+CNMP?'', r1)]) @ [(''AT+CMNB?'', r2)]), Option.bind r2 (parse_scalar ''+CMNB''))"
    by (rule scalar_logged_ex)
  obtain c3 r3 where 3: "read_bands (logged at) (c2, (l @ [(''AT+CNMP?'', r1)]) @ [(''AT+CMNB?'', r2)]) =
      ((c3, ((l @ [(''AT+CNMP?'', r1)]) @ [(''AT+CMNB?'', r2)]) @ [(''AT+CBANDCFG?'', r3)]),
       case r3 of None \<Rightarrow> SETTINGS_INVALID | Some s \<Rightarrow> parse_bands s)"
    by (rule bands_logged_ex)
  let ?v1 = "Option.bind r1 (parse_scalar ''+CNMP'')"
  let ?v2 = "Option.bind r2 (parse_scalar ''+CMNB'')"
  let ?b = "case r3 of None \<Rightarrow> SETTINGS_INVALID | Some s \<Rightarrow> parse_bands s"
  let ?e1 = "(''AT+CNMP?'', r1)" and ?e2 = "(''AT+CMNB?'', r2)" and ?e3 = "(''AT+CBANDCFG?'', r3)"
  consider "?v1 = None" | v where "?v1 = Some v" "?v2 = None" | v w where "?v1 = Some v" "?v2 = Some w"
    by (metis not_None_eq)
  then show thesis
  proof cases
    case 1
    with \<open>read_scalar (logged at) (c, l) ''AT+CNMP?'' ''+CNMP'' = _\<close>
    show thesis by (intro that [of c1 "[?e1]" SETTINGS_INVALID])
        (simp_all add: read_settings_def queries_def settings_ok_def)
  next
    case (2 v)
    with 1 \<open>read_scalar (logged at) (c1, _) ''AT+CMNB?'' ''+CMNB'' = _\<close>
    show thesis by (intro that [of c2 "[?e1, ?e2]" SETTINGS_INVALID])
        (simp_all add: read_settings_def queries_def settings_ok_def)
  next
    case vw: (3 v w)
    define res where "res = (if ?b = SETTINGS_INVALID then SETTINGS_INVALID
       else if v = 38 \<and> w = 1 \<and> ?b = SETTINGS_MATCH then SETTINGS_MATCH else SETTINGS_MISMATCH)"
    have "read_settings (logged at) (c, l) = ((c3, l @ [?e1, ?e2, ?e3]), res)"
      using 1 2 3 vw by (simp add: read_settings_def res_def)
    moreover have "res = SETTINGS_MATCH \<longleftrightarrow> settings_ok [?e1, ?e2, ?e3]"
      using vw by (cases r1; cases r2; cases r3) (auto simp: settings_ok_def res_def)
    ultimately show thesis by (intro that [of c3 "[?e1, ?e2, ?e3]" res]) (auto simp: queries_def)
  qed
qed

lemma fail_closed_logged:
  obtains c' r where "fail_closed (logged at) (c, l) = ((c', l @ [(''AT+CFUN=4'', r)]), False)"
  by (rule command_logged_ex [of at c l "''AT+CFUN=4''" RADIO_CFUN_TIMEOUT_MS]) (simp add: fail_closed_def)

definition corrections :: "string set" where
  "corrections = {''AT+CFUN=4'', ''AT+CFUN?'', ''AT+CNMP=38'', ''AT+CMNB=1'',
     ''AT+CBANDCFG=\"CAT-M\",3,20''}"

text \<open>The corrective sequence only uses its own commands and the queries, and ends in a readback.\<close>

lemma reconfigure_logged:
  obtains c' es ok where "radio_reconfigure (logged at) (c, l) = ((c', l @ es), ok)"
    and "fst ` set es \<subseteq> corrections \<union> queries"
    and "ok \<longrightarrow> (\<exists>pre s. es = pre @ s \<and> settings_ok s)"
proof -
  let ?e1 = "\<lambda>r. (''AT+CFUN=4'', r)" and ?e2 = "\<lambda>r. (''AT+CFUN?'', r)" and ?e3 = "\<lambda>r. (''AT+CNMP=38'', r)"
    and ?e4 = "\<lambda>r. (''AT+CMNB=1'', r)" and ?e5 = "\<lambda>r. (''AT+CBANDCFG=\"CAT-M\",3,20'', r)"
  obtain c1 r1 where 1: "command_ok (logged at) (c, l) ''AT+CFUN=4'' RADIO_CFUN_TIMEOUT_MS =
      ((c1, l @ [?e1 r1]), r1 \<noteq> None)" by (rule command_logged_ex)
  obtain c2 r2 where 2: "read_scalar (logged at) (c1, l @ [?e1 r1]) ''AT+CFUN?'' ''+CFUN'' =
      ((c2, (l @ [?e1 r1]) @ [?e2 r2]), Option.bind r2 (parse_scalar ''+CFUN''))"
    by (rule scalar_logged_ex)
  obtain c3 r3 where 3: "command_ok (logged at) (c2, (l @ [?e1 r1]) @ [?e2 r2]) ''AT+CNMP=38'' RADIO_AT_TIMEOUT_MS =
      ((c3, ((l @ [?e1 r1]) @ [?e2 r2]) @ [?e3 r3]), r3 \<noteq> None)" by (rule command_logged_ex)
  obtain c4 r4 where 4: "command_ok (logged at) (c3, ((l @ [?e1 r1]) @ [?e2 r2]) @ [?e3 r3]) ''AT+CMNB=1'' RADIO_AT_TIMEOUT_MS =
      ((c4, (((l @ [?e1 r1]) @ [?e2 r2]) @ [?e3 r3]) @ [?e4 r4]), r4 \<noteq> None)" by (rule command_logged_ex)
  obtain c5 r5 where 5: "command_ok (logged at) (c4, (((l @ [?e1 r1]) @ [?e2 r2]) @ [?e3 r3]) @ [?e4 r4])
        ''AT+CBANDCFG=\"CAT-M\",3,20'' RADIO_AT_TIMEOUT_MS =
      ((c5, ((((l @ [?e1 r1]) @ [?e2 r2]) @ [?e3 r3]) @ [?e4 r4]) @ [?e5 r5]), r5 \<noteq> None)"
    by (rule command_logged_ex)
  obtain c6 es res where 6: "read_settings (logged at)
        (c5, ((((l @ [?e1 r1]) @ [?e2 r2]) @ [?e3 r3]) @ [?e4 r4]) @ [?e5 r5]) =
      ((c6, (((((l @ [?e1 r1]) @ [?e2 r2]) @ [?e3 r3]) @ [?e4 r4]) @ [?e5 r5]) @ es), res)"
    and q: "fst ` set es \<subseteq> queries" "res = SETTINGS_MATCH \<longleftrightarrow> settings_ok es"
    by (rule settings_logged_ex)
  note steps = 1 2 3 4 5 6
  show thesis
  proof (cases "r1 = None")
    case True
    with 1 show thesis by (intro that [of c1 "[?e1 r1]" False]) (simp_all add: radio_reconfigure_def corrections_def)
  next
    case s1: False
    show thesis
    proof (cases "Option.bind r2 (parse_scalar ''+CFUN'') = Some 4")
      case False
      with 1 2 s1 show thesis
        by (intro that [of c2 "[?e1 r1, ?e2 r2]" False]) (auto simp: radio_reconfigure_def corrections_def)
    next
      case s2: True
      show thesis
      proof (cases "r3 = None")
        case True
        with 1 2 3 s1 s2 show thesis
          by (intro that [of c3 "[?e1 r1, ?e2 r2, ?e3 r3]" False]) (auto simp: radio_reconfigure_def corrections_def)
      next
        case s3: False
        show thesis
        proof (cases "r4 = None")
          case True
          with 1 2 3 4 s1 s2 s3 show thesis
            by (intro that [of c4 "[?e1 r1, ?e2 r2, ?e3 r3, ?e4 r4]" False])
              (auto simp: radio_reconfigure_def corrections_def)
        next
          case s4: False
          show thesis
          proof (cases "r5 = None")
            case True
            with 1 2 3 4 5 s1 s2 s3 s4 show thesis
              by (intro that [of c5 "[?e1 r1, ?e2 r2, ?e3 r3, ?e4 r4, ?e5 r5]" False])
                (auto simp: radio_reconfigure_def corrections_def)
          next
            case s5: False
            have "radio_reconfigure (logged at) (c, l) =
                ((c6, l @ [?e1 r1, ?e2 r2, ?e3 r3, ?e4 r4, ?e5 r5] @ es), res = SETTINGS_MATCH)"
              using steps s1 s2 s3 s4 s5 by (simp add: radio_reconfigure_def)
            moreover have "res = SETTINGS_MATCH \<longrightarrow> (\<exists>pre s.
                [?e1 r1, ?e2 r2, ?e3 r3, ?e4 r4, ?e5 r5] @ es = pre @ s \<and> settings_ok s)"
              using q(2) by blast
            ultimately show thesis
              by (intro that) (use q(1) in \<open>auto simp: corrections_def\<close>)
          qed
        qed
      qed
    qed
  qed
qed

lemma fail_closed_false: "snd (fail_closed at c) = False"
  by (simp add: fail_closed_def)

lemma prepare_failure:
  assumes "modem_radio_prepare at c = (c', False)"
  shows "\<exists>s. fail_closed at s = (c', False)"
proof -
  obtain c1 res where s: "read_settings at c = (c1, res)" by fastforce
  obtain c2 ok where r: "radio_reconfigure at c1 = (c2, ok)" by fastforce
  show ?thesis
    using assms by (cases res; cases ok) (auto simp: modem_radio_prepare_def s r)
qed

lemma resume_failure:
  assumes "modem_radio_resume at c = (c', False)"
  shows "\<exists>s. fail_closed at s = (c', False)"
proof -
  obtain c1 res where s: "read_settings at c = (c1, res)" by fastforce
  obtain c2 f where r: "read_scalar at c1 ''AT+CFUN?'' ''+CFUN'' = (c2, f)" by fastforce
  obtain c3 ok where k: "command_ok at c2 ''AT+CFUN=1'' RADIO_CFUN_TIMEOUT_MS = (c3, ok)" by fastforce
  obtain c4 f' where r': "read_scalar at c3 ''AT+CFUN?'' ''+CFUN'' = (c4, f')" by fastforce
  show ?thesis
    using assms
    by (cases f; cases ok) (auto simp: modem_radio_resume_def s r k r' split: if_splits)
qed

section \<open>Properties\<close>

text \<open>
  C19. Fail closed: whenever \<open>modem_radio_prepare\<close> or \<open>modem_radio_resume\<close> reports failure,
  whatever the modem answered, the last command sent was the radio-off command AT+CFUN=4.
\<close>

theorem radio_fails_closed:
  assumes "policy = modem_radio_prepare \<or> policy = modem_radio_resume"
    and "policy (logged at) (c, []) = ((c', log), False)"
  shows "log \<noteq> [] \<and> fst (last log) = ''AT+CFUN=4''"
proof -
  have fc: "log \<noteq> [] \<and> fst (last log) = ''AT+CFUN=4''" if "fail_closed (logged at) s = ((c', log), False)" for s
  proof -
    obtain c'' r where "fail_closed (logged at) (fst s, snd s) = ((c'', snd s @ [(''AT+CFUN=4'', r)]), False)"
      by (rule fail_closed_logged)
    with that show ?thesis by auto
  qed
  have "\<exists>s. fail_closed (logged at) s = ((c', log), False)"
    using assms prepare_failure resume_failure by metis
  then show ?thesis using fc by blast
qed

theorem radio_fails_closed_witness:
  "modem_radio_prepare (logged (\<lambda>c cmd buf t. (c, False, buf))) ((), []) =
     (((), [(''AT+CNMP?'', None), (''AT+CFUN=4'', None)]), False)"
proof -
  have run: "modem_radio_prepare (logged (\<lambda>c cmd buf t. (c, False, buf))) ((), []) =
     (((), [(''AT+CNMP?'', None), (''AT+CFUN=4'', None)]), False)"
    by (simp add: modem_radio_prepare_def read_settings_def read_scalar_def exchange_def logged_def
        fail_closed_def command_ok_def)
  from radio_fails_closed [of modem_radio_prepare, OF _ run] show ?thesis using run by blast
qed

text \<open>
  \<open>modem_radio_prepare\<close> never sends the radio-on command AT+CFUN=1, and it reports
  success only if its last three exchanges read back LTE-only mode (CNMP 38), CAT-M
  (CMNB 1) and exactly the bands 3 and 20.
\<close>

theorem prepare_verified:
  assumes "modem_radio_prepare (logged at) (c, []) = ((c', log), ok)"
  shows "''AT+CFUN=1'' \<notin> fst ` set log \<and> (ok \<longrightarrow> (\<exists>pre s. log = pre @ s \<and> settings_ok s))"
proof -
  obtain c1 es res where s: "read_settings (logged at) (c, []) = ((c1, [] @ es), res)"
    "fst ` set es \<subseteq> queries" "res = SETTINGS_MATCH \<longleftrightarrow> settings_ok es"
    by (rule settings_logged_ex)
  obtain c2 es2 ok2 where r: "radio_reconfigure (logged at) (c1, es) = ((c2, es @ es2), ok2)"
    "fst ` set es2 \<subseteq> corrections \<union> queries" "ok2 \<longrightarrow> (\<exists>pre s. es2 = pre @ s \<and> settings_ok s)"
    by (rule reconfigure_logged)
  obtain c3 r3 where f: "fail_closed (logged at) (c1, es) = ((c3, es @ [(''AT+CFUN=4'', r3)]), False)"
    by (rule fail_closed_logged)
  obtain c4 r4 where g: "fail_closed (logged at) (c2, es @ es2) =
      ((c4, (es @ es2) @ [(''AT+CFUN=4'', r4)]), False)"
    by (rule fail_closed_logged)
  have off: "''AT+CFUN=4'' \<in> corrections" by (simp add: corrections_def)
  have "log = es \<or> log = es @ [(''AT+CFUN=4'', r3)] \<or> log = es @ es2 \<or>
      log = (es @ es2) @ [(''AT+CFUN=4'', r4)]"
    using assms s(1) r(1) f g
    by (auto simp: modem_radio_prepare_def split: settings_result.splits if_splits)
  then have "fst ` set log \<subseteq> queries \<union> corrections"
    by (elim disjE) (use s(2) r(2) off in \<open>auto simp: image_Un simp del: image_subset_iff\<close>)
  then have "''AT+CFUN=1'' \<notin> fst ` set log" by (auto simp: queries_def corrections_def)
  moreover have "\<exists>pre s. log = pre @ s \<and> settings_ok s" if ok
  proof (cases res)
    case SETTINGS_MATCH
    then show ?thesis using assms s by (auto simp: modem_radio_prepare_def)
  next
    case SETTINGS_INVALID
    then show ?thesis using assms s f that by (auto simp: modem_radio_prepare_def)
  next
    case SETTINGS_MISMATCH
    then have "ok2 \<and> log = es @ es2"
      using assms s(1) r(1) g that by (auto simp: modem_radio_prepare_def split: if_splits)
    then show ?thesis using r(3) by (metis append.assoc)
  qed
  ultimately show ?thesis by blast
qed

definition canned :: "(string \<times> string) list \<Rightarrow> unit at_fn" where
  "canned replies ctx command buffer timeout_ms =
     (case map_of replies command of None \<Rightarrow> ((), False, buffer)
      | Some r \<Rightarrow> ((), True, r @ [NUL]))"

definition good_modem :: "(string \<times> string) list" where
  "good_modem = [(''AT+CNMP?'', ''+CNMP: 38'' @ [CR, LF, CR, LF] @ ''OK'' @ [CR, LF]),
     (''AT+CMNB?'', ''+CMNB: 1'' @ [CR, LF] @ ''OK'' @ [CR, LF]),
     (''AT+CBANDCFG?'', ''+CBANDCFG: \"CAT-M\",20,3'' @ [CR, LF] @ ''OK'' @ [CR, LF]),
     (''AT+CFUN?'', ''+CFUN: 1'' @ [CR, LF] @ ''OK'' @ [CR, LF])]"

theorem prepare_verified_witness:
  "snd (modem_radio_prepare (logged (canned good_modem)) ((), [])) \<and>
   (\<exists>pre s. snd (fst (modem_radio_prepare (logged (canned good_modem)) ((), []))) = pre @ s \<and> settings_ok s)"
proof -
  obtain l ok where r: "modem_radio_prepare (logged (canned good_modem)) ((), []) = (((), l), ok)"
    by (metis old.unit.exhaust prod.exhaust_sel)
  have "snd (modem_radio_prepare (logged (canned good_modem)) ((), []))" by code_simp
  with prepare_verified [OF r] r show ?thesis by simp
qed

text \<open>
  \<open>modem_radio_resume\<close> sends AT+CFUN=1 only directly after the three settings were read
  back correctly and AT+CFUN? answered 4, and it reports success only after such a readback
  and a final AT+CFUN? that answered 1.
\<close>

theorem resume_verified:
  assumes "modem_radio_resume (logged at) (c, []) = ((c', log), ok)"
  shows "(\<forall>pre r post. log = pre @ (''AT+CFUN=1'', r) # post \<longrightarrow>
      (\<exists>s q. pre = s @ [(''AT+CFUN?'', Some q)] \<and> settings_ok s \<and> parse_scalar ''+CFUN'' q = Some 4)) \<and>
    (ok \<longrightarrow> (\<exists>s mid q. log = s @ mid @ [(''AT+CFUN?'', Some q)] \<and> settings_ok s \<and>
      parse_scalar ''+CFUN'' q = Some 1))"
proof -
  obtain c1 es res where s: "read_settings (logged at) (c, []) = ((c1, [] @ es), res)"
    "fst ` set es \<subseteq> queries" "res = SETTINGS_MATCH \<longleftrightarrow> settings_ok es"
    by (rule settings_logged_ex)
  let ?q = "\<lambda>r. (''AT+CFUN?'', r)" and ?on = "\<lambda>r. (''AT+CFUN=1'', r)" and ?off = "\<lambda>r. (''AT+CFUN=4'', r)"
  obtain c2 r2 where r2: "read_scalar (logged at) (c1, es) ''AT+CFUN?'' ''+CFUN'' =
      ((c2, es @ [?q r2]), Option.bind r2 (parse_scalar ''+CFUN''))" by (rule scalar_logged_ex)
  obtain c3 r3 where r3: "command_ok (logged at) (c2, es @ [?q r2]) ''AT+CFUN=1'' RADIO_CFUN_TIMEOUT_MS =
      ((c3, (es @ [?q r2]) @ [?on r3]), r3 \<noteq> None)" by (rule command_logged_ex)
  obtain c4 r4 where r4: "read_scalar (logged at) (c3, (es @ [?q r2]) @ [?on r3]) ''AT+CFUN?'' ''+CFUN'' =
      ((c4, ((es @ [?q r2]) @ [?on r3]) @ [?q r4]), Option.bind r4 (parse_scalar ''+CFUN''))"
    by (rule scalar_logged_ex)
  have off: "\<exists>c' r. fail_closed (logged at) (c, l) = ((c', l @ [?off r]), False)" for c l
    by (rule fail_closed_logged [of at c l]) blast
  obtain f1 o1 f2 o2 f3 o3 f4 o4 where o:
      "fail_closed (logged at) (c1, es) = ((f1, es @ [?off o1]), False)"
      "fail_closed (logged at) (c2, es @ [?q r2]) = ((f2, (es @ [?q r2]) @ [?off o2]), False)"
      "fail_closed (logged at) (c3, (es @ [?q r2]) @ [?on r3]) = ((f3, ((es @ [?q r2]) @ [?on r3]) @ [?off o3]), False)"
      "fail_closed (logged at) (c4, ((es @ [?q r2]) @ [?on r3]) @ [?q r4]) =
         ((f4, (((es @ [?q r2]) @ [?on r3]) @ [?q r4]) @ [?off o4]), False)"
    using off by metis
  have on_none: "(''AT+CFUN=1'', x) \<notin> set es" for x
    using s(2) by (auto simp: queries_def)
  consider (quiet) "log = es @ [?off o1]" "\<not> ok" | (quiet2) "log = es @ [?q r2, ?off o2]" "\<not> ok"
    | (already) q where "log = es @ [?q r2]" "settings_ok es" "r2 = Some q" "parse_scalar ''+CFUN'' q = Some 1"
    | (fail_on) q where "log = es @ [?q r2, ?on r3, ?off o3]" "\<not> ok" "settings_ok es" "r2 = Some q"
        "parse_scalar ''+CFUN'' q = Some 4"
    | (fail_check) q where "log = es @ [?q r2, ?on r3, ?q r4, ?off o4]" "\<not> ok" "settings_ok es" "r2 = Some q"
        "parse_scalar ''+CFUN'' q = Some 4"
    | (on) q q' where "log = es @ [?q r2, ?on r3, ?q r4]" "settings_ok es" "r2 = Some q"
        "parse_scalar ''+CFUN'' q = Some 4" "r4 = Some q'" "parse_scalar ''+CFUN'' q' = Some 1"
  proof (cases "settings_ok es")
    case False
    then show thesis using assms s o(1) quiet by (simp add: modem_radio_resume_def)
  next
    case ok1: True
    then have res: "res = SETTINGS_MATCH" using s(3) by simp
    note run = assms [unfolded modem_radio_resume_def, unfolded s(1), simplified res, simplified]
    show thesis
    proof (cases "Option.bind r2 (parse_scalar ''+CFUN'')")
      case None
      with run r2 o(2) show thesis by (intro quiet2) simp_all
    next
      case (Some f)
      then obtain q where q: "r2 = Some q" "parse_scalar ''+CFUN'' q = Some f"
        by (auto simp: bind_eq_Some_conv)
      consider "f = 1" | "f \<noteq> 1" "f \<noteq> 4" | "f = 4" by blast
      then show thesis
      proof cases
        case 1
        with run r2 Some q ok1 show thesis by (intro already [of q]) simp_all
      next
        case 2
        with run r2 Some o(2) show thesis by (intro quiet2) simp_all
      next
        case 3
        show thesis
        proof (cases "r3 = None")
          case True
          with run r2 Some 3 r3 o(3) q ok1 show thesis by (intro fail_on [of q]) simp_all
        next
          case False
          show thesis
          proof (cases "Option.bind r4 (parse_scalar ''+CFUN'') = Some 1")
            case True
            then obtain q' where "r4 = Some q'" "parse_scalar ''+CFUN'' q' = Some 1"
              by (auto simp: bind_eq_Some_conv)
            with run r2 Some 3 r3 False r4 True q ok1 show thesis by (intro on [of q q']) simp_all
          next
            case f4: False
            with run r2 Some 3 r3 False r4 o(4) q ok1 show thesis by (intro fail_check [of q]) simp_all
          qed
        qed
      qed
    qed
  qed
  note cases = this
  have sp: "\<exists>m. pre = es @ m \<and> rest = m @ (''AT+CFUN=1'', r) # post"
    if "es @ rest = pre @ (''AT+CFUN=1'', r) # post" for rest pre r post
    using that on_none [of r] by (auto simp: append_eq_append_conv2 append_eq_Cons_conv)
  have one: "(\<forall>pre r post. log = pre @ (''AT+CFUN=1'', r) # post \<longrightarrow>
      (\<exists>q. pre = es @ [(''AT+CFUN?'', Some q)] \<and> settings_ok es \<and> parse_scalar ''+CFUN'' q = Some 4))"
    using cases by cases (auto dest!: sp simp: Cons_eq_append_conv)
  moreover have "ok \<longrightarrow> (\<exists>mid q. log = es @ mid @ [(''AT+CFUN?'', Some q)] \<and> settings_ok es \<and>
      parse_scalar ''+CFUN'' q = Some 1)"
    using cases by cases auto
  ultimately show ?thesis by blast
qed

theorem resume_verified_witness:
  "\<exists>s mid q. snd (fst (modem_radio_resume (logged (canned good_modem)) ((), []))) =
     s @ mid @ [(''AT+CFUN?'', Some q)] \<and> settings_ok s \<and> parse_scalar ''+CFUN'' q = Some 1"
proof -
  obtain l ok where r: "modem_radio_resume (logged (canned good_modem)) ((), []) = (((), l), ok)"
    by (metis old.unit.exhaust prod.exhaust_sel)
  have "snd (modem_radio_resume (logged (canned good_modem)) ((), []))" by code_simp
  with resume_verified [OF r] r show ?thesis by simp
qed

section \<open>The band list\<close>

text \<open>The reference reading of a band list: numbers separated by commas.\<close>

function band_list :: "string \<Rightarrow> int list option" where
  "band_list s = (case take_unsigned s of
     None \<Rightarrow> None
   | Some (band, r) \<Rightarrow>
       if r = [] then Some [band]
       else if hd r \<noteq> CHR '','' then None
       else map_option (\<lambda>bs. band # bs) (band_list (tl r)))"
  by pat_completeness auto
termination
proof (relation "measure length", goal_cases)
  case (2 s p band r)
  then have "length r < length s" by (auto dest: take_unsigned_shorter)
  then show ?case by simp
qed simp

declare band_list.simps [simp del]

text \<open>A bitmap of 32 bytes denotes a set of bands.\<close>

definition marked :: "u8 list \<Rightarrow> int \<Rightarrow> bool" where
  "marked seen b \<longleftrightarrow> bit (seen ! nat (b div 8)) (nat (b mod 8))"

lemma marked_and: "0 \<le> b \<Longrightarrow> (seen ! nat (b div 8) AND push_bit (nat (b mod 8)) 1 \<noteq> 0) = marked seen b"
  by (simp add: marked_def bit_iff_and_push_bit_not_eq_0)

lemma marked_set:
  assumes "length seen = 32" and "0 \<le> a" and "a \<le> 255" and "0 \<le> b" and "b \<le> 255"
  shows "marked (seen[nat (a div 8) := seen ! nat (a div 8) OR push_bit (nat (a mod 8)) 1]) b =
    (b = a \<or> marked seen b)"
proof -
  have a8: "nat (a div 8) < 32" using assms(2,3) by linarith
  show ?thesis
  proof (cases "nat (b div 8) = nat (a div 8)")
    case False
    then have "b \<noteq> a" by blast
    with False show ?thesis by (simp add: marked_def)
  next
    case True
    then have div: "b div 8 = a div 8" using assms by (simp add: nat_eq_iff2 pos_imp_zdiv_nonneg_iff)
    have "(nat (b mod 8) = nat (a mod 8)) = (b mod 8 = a mod 8)"
      by (auto simp: nat_eq_iff2)
    also have "\<dots> = (b = a)" using div by (metis mult_div_mod_eq)
    finally have "bit (push_bit (nat (a mod 8)) (1 :: u8)) (nat (b mod 8)) = (b = a)"
      by (auto simp: bit_exp_iff nat_less_iff)
    with True a8 assms(1) show ?thesis
      by (auto simp: marked_def bit_or_iff)
  qed
qed

lemma band_loop_spec:
  assumes "length seen = 32"
  shows "case band_loop s n seen of
      None \<Rightarrow> \<not> (\<exists>bs. band_list s = Some bs \<and> distinct bs \<and>
        (\<forall>b \<in> set bs. 1 \<le> b \<and> b \<le> 255 \<and> \<not> marked seen b))
    | Some (n', seen') \<Rightarrow> length seen' = 32 \<and> (\<exists>bs. band_list s = Some bs \<and> distinct bs \<and>
        (\<forall>b \<in> set bs. 1 \<le> b \<and> b \<le> 255 \<and> \<not> marked seen b) \<and> n' = n + length bs \<and>
        (\<forall>b. 0 \<le> b \<and> b \<le> 255 \<longrightarrow> marked seen' b = (b \<in> set bs \<or> marked seen b)))"
  using assms
proof (induction s n seen rule: band_loop.induct)
  case (1 s n seen)
  show ?case
  proof (cases "take_unsigned s")
    case None
    then show ?thesis by (simp add: band_loop.simps [of s] band_list.simps [of s])
  next
    case (Some p)
    obtain band r where p: "p = (band, r)" by (cases p)
    have pos: "0 \<le> band"
    proof -
      have "0 \<le> dec_value ds" if "list_all is_digit ds" for ds
        using foldl_dec_mono [of 0 ds] that by (simp add: dec_value_def)
      moreover have "list_all is_digit (takeWhile is_digit t)" for t
        by (auto simp: list_all_iff dest: set_takeWhileD)
      ultimately show ?thesis
        using Some p by (auto simp: take_unsigned_spec Let_def split: if_splits)
    qed
    show ?thesis
    proof (cases "band = 0 \<or> band > 255 \<or> marked seen band")
      case True
      have "band \<in> set bs" if "band_list s = Some bs" for bs
        using that Some p by (subst (asm) band_list.simps) (auto split: if_splits)
      with True have "\<not> (\<exists>bs. band_list s = Some bs \<and> distinct bs \<and>
        (\<forall>b \<in> set bs. 1 \<le> b \<and> b \<le> 255 \<and> \<not> marked seen b))" by force
      moreover have "band_loop s n seen = None"
        using True Some p pos marked_and [of band seen]
        by (subst band_loop.simps) (auto simp: Let_def)
      ultimately show ?thesis by simp
    next
      case False
      let ?cell = "nat (band div 8)" and ?mask = "push_bit (nat (band mod 8)) 1 :: u8"
      let ?seen = "seen[?cell := seen ! ?cell OR ?mask]"
      have mk: "0 \<le> b \<Longrightarrow> b \<le> 255 \<Longrightarrow> marked ?seen b = (b = band \<or> marked seen b)" for b
        using marked_set [OF 1(2) pos] False by auto
      have loop: "band_loop s n seen = (if r = [] then Some (n + 1, ?seen)
          else if hd r \<noteq> CHR '','' then None else band_loop (tl r) (n + 1) ?seen)"
        using False Some p pos marked_and [of band seen]
        by (subst band_loop.simps) (simp add: Let_def)
      have lst: "band_list s = (if r = [] then Some [band] else if hd r \<noteq> CHR '','' then None
          else map_option (\<lambda>bs. band # bs) (band_list (tl r)))"
        using Some p by (subst band_list.simps) simp
      consider "r = []" | "r \<noteq> []" "hd r \<noteq> CHR '',''" | "r \<noteq> []" "hd r = CHR '',''" by blast
      then show ?thesis
      proof cases
        case 1
        then show ?thesis using loop lst False pos mk \<open>length seen = 32\<close> by auto
      next
        case 2
        then show ?thesis using loop lst by simp
      next
        case 3
        have IH: "case band_loop (tl r) (n + 1) ?seen of
            None \<Rightarrow> \<not> (\<exists>bs. band_list (tl r) = Some bs \<and> distinct bs \<and>
              (\<forall>b \<in> set bs. 1 \<le> b \<and> b \<le> 255 \<and> \<not> marked ?seen b))
          | Some (n', seen') \<Rightarrow> length seen' = 32 \<and> (\<exists>bs. band_list (tl r) = Some bs \<and> distinct bs \<and>
              (\<forall>b \<in> set bs. 1 \<le> b \<and> b \<le> 255 \<and> \<not> marked ?seen b) \<and> n' = n + 1 + length bs \<and>
              (\<forall>b. 0 \<le> b \<and> b \<le> 255 \<longrightarrow> marked seen' b = (b \<in> set bs \<or> marked ?seen b)))"
          using 3 Some p False pos marked_and [of band seen] 1(2)
          by (intro 1(1) [OF Some p [symmetric] _ refl refl _ refl refl]) auto
        have mk2: "(\<forall>b \<in> set bs. 1 \<le> b \<and> b \<le> 255 \<and> \<not> marked ?seen b) =
            (band \<notin> set bs \<and> (\<forall>b \<in> set bs. 1 \<le> b \<and> b \<le> 255 \<and> \<not> marked seen b))" for bs
        proof -
          have "(1 \<le> b \<and> b \<le> 255 \<and> \<not> marked ?seen b) = (b \<noteq> band \<and> 1 \<le> b \<and> b \<le> 255 \<and> \<not> marked seen b)" for b
            using mk [of b] by auto
          then show ?thesis by auto
        qed
        show ?thesis
          using IH loop lst 3 mk2 mk False pos
          by (auto split: option.splits)
      qed
    qed
  qed
qed

lemma marked_zero: "0 \<le> b \<Longrightarrow> b \<le> 255 \<Longrightarrow> \<not> marked (replicate 32 0) b"
proof -
  assume "0 \<le> b" "b \<le> 255"
  then have "nat (b div 8) < 32" by linarith
  then show ?thesis by (simp add: marked_def)
qed

lemma two_elements:
  assumes "distinct bs" and "length bs = 2" and "a \<in> set bs" and "b \<in> set bs" and "a \<noteq> b"
  shows "bs = [a, b] \<or> bs = [b, a]"
proof -
  obtain x y where "bs = [x, y]"
    using assms(2) by (auto simp: numeral_2_eq_2 length_Suc_conv)
  then show ?thesis using assms by auto
qed

text \<open>
  The bitmap test of the band readback is exact: it accepts a band list if and only if
  the list, read as numbers separated by commas, consists of the bands 3 and 20 in either
  order and nothing else; repeated, missing, extra or out-of-range bands are all refused.
\<close>

theorem bands_exact:
  "(case band_loop s 0 (replicate 32 0) of
      None \<Rightarrow> False
    | Some (band_count, seen) \<Rightarrow> band_count = 2 \<and>
        (seen ! (3 div 8) AND push_bit (3 mod 8) 1) \<noteq> 0 \<and>
        (seen ! (20 div 8) AND push_bit (20 mod 8) 1) \<noteq> 0) =
   (band_list s = Some [3, 20] \<or> band_list s = Some [20, 3])"
proof -
  have m3: "(seen ! (3 div 8) AND push_bit (3 mod 8) 1 \<noteq> 0) = marked seen 3" for seen
    using marked_and [of 3 seen] by simp
  have m20: "(seen ! (20 div 8) AND push_bit (20 mod 8) 1 \<noteq> 0) = marked seen 20" for seen
    using marked_and [of 20 seen] by simp
  have spec: "case band_loop s 0 (replicate 32 0) of
      None \<Rightarrow> \<not> (\<exists>bs. band_list s = Some bs \<and> distinct bs \<and> (\<forall>b \<in> set bs. 1 \<le> b \<and> b \<le> 255))
    | Some (n', seen') \<Rightarrow> (\<exists>bs. band_list s = Some bs \<and> distinct bs \<and> n' = length bs \<and>
        (\<forall>b. 0 \<le> b \<and> b \<le> 255 \<longrightarrow> marked seen' b = (b \<in> set bs)))"
    using band_loop_spec [of "replicate 32 0" s 0] marked_zero
    by (fastforce split: option.splits)
  show ?thesis
  proof (cases "band_loop s 0 (replicate 32 0)")
    case None
    with spec show ?thesis by auto
  next
    case (Some p)
    obtain n seen where p: "p = (n, seen)" by (cases p)
    obtain bs where bs: "band_list s = Some bs" "distinct bs" "n = length bs"
      "\<forall>b. 0 \<le> b \<and> b \<le> 255 \<longrightarrow> marked seen b = (b \<in> set bs)"
      using spec Some p by auto
    have "marked seen 3 = (3 \<in> set bs)" "marked seen 20 = (20 \<in> set bs)" using bs(4) by simp_all
    then have "(case band_loop s 0 (replicate 32 0) of
        None \<Rightarrow> False
      | Some (band_count, seen) \<Rightarrow> band_count = 2 \<and>
          (seen ! (3 div 8) AND push_bit (3 mod 8) 1) \<noteq> 0 \<and>
          (seen ! (20 div 8) AND push_bit (20 mod 8) 1) \<noteq> 0) =
        (length bs = 2 \<and> 3 \<in> set bs \<and> 20 \<in> set bs)"
      unfolding Some p m3 m20 by (simp add: bs(3))
    moreover have "(length bs = 2 \<and> 3 \<in> set bs \<and> 20 \<in> set bs) = (bs = [3, 20] \<or> bs = [20, 3])"
      using two_elements [OF bs(2), of 3 20] by auto
    ultimately show ?thesis by (simp only: bs(1) option.inject)
  qed
qed

end
