(* ===== verification/Awake_Policy.thy ===== *)
theory Awake_Policy
  imports Radio_Policy
begin

text \<open>
  The awake policy of \<open>modem_awake_policy.c\<close>: slow clock, power saving mode and eDRX must be
  off before the link is used.  Its text helpers (\<open>trim\<close>, \<open>next_line\<close>, \<open>named_value\<close>,
  \<open>take_unsigned\<close>, \<open>exchange\<close>, \<open>command_ok\<close>) are copies of those of the radio policy and are
  the same definitions here; \<open>fail_closed\<close> is its copy too (same command, same timeout).
\<close>

section \<open>Fields\<close>

definition AWAKE_AT_TIMEOUT_MS :: nat where "AWAKE_AT_TIMEOUT_MS = 3000"
definition AWAKE_CFUN_TIMEOUT_MS :: nat where "AWAKE_CFUN_TIMEOUT_MS = 10000"

record awake_config =
  slow_clock :: int
  psm :: int
  edrx :: int

datatype tail_kind = TAIL_NONE | TAIL_PSM_REQUEST | TAIL_PSM_ACTIVE | TAIL_EDRX_ACTIVE

definition unrelated_fragment :: "string \<Rightarrow> string \<Rightarrow> bool" where
  "unrelated_fragment remaining0 key = (let remaining = trim remaining0 in
     if remaining = [] then True
     else if length remaining < length key then remaining \<noteq> take (length remaining) key
     else named_value remaining key = OtherLine)"

definition take_comma :: "string \<Rightarrow> string option" where
  "take_comma s = (let t = trim s in
     if t = [] \<or> hd t \<noteq> CHR '','' then None else Some (trim (tl t)))"

definition binary_string :: "string \<Rightarrow> nat \<Rightarrow> bool" where
  "binary_string s bits \<longleftrightarrow> length s = bits + 2 \<and> hd s = CHR ''\"'' \<and> last s = CHR ''\"'' \<and>
     list_all (\<lambda>i. s ! i = CHR ''0'' \<or> s ! i = CHR ''1'') [1..<bits + 1]"

lemma take_comma_shorter: "take_comma s = Some r \<Longrightarrow> length r < length s"
proof -
  assume a: "take_comma s = Some r"
  then have ne: "trim s \<noteq> []" and r: "r = trim (tl (trim s))"
    by (auto simp: take_comma_def Let_def split: if_splits)
  have "length r \<le> length (tl (trim s))" unfolding r by (rule trim_length)
  also have "\<dots> < length (trim s)" using ne by simp
  also have "\<dots> \<le> length s" by (rule trim_length)
  finally show ?thesis .
qed

definition tail_field_ok :: "tail_kind \<Rightarrow> string \<Rightarrow> bool" where
  "tail_field_ok kind field =
     (if kind = TAIL_PSM_ACTIVE then
        (case take_unsigned field of None \<Rightarrow> False | Some (_, rest) \<Rightarrow> rest = [])
      else binary_string field (if kind = TAIL_PSM_REQUEST then 8 else 4))"

function tail_loop :: "tail_kind \<Rightarrow> nat \<Rightarrow> nat \<Rightarrow> string \<Rightarrow> bool" where
  "tail_loop kind limit n s =
     (if s = [] then True
      else if n + 1 > limit then False
      else (case take_comma s of
          None \<Rightarrow> False
        | Some t \<Rightarrow>
            let field = trim (takeWhile (\<lambda>c. c \<noteq> CHR '','') t) in
            if field \<noteq> [] \<and> \<not> tail_field_ok kind field then False
            else tail_loop kind limit (n + 1) (dropWhile (\<lambda>c. c \<noteq> CHR '','') t)))"
  by pat_completeness auto
termination
proof (relation "measure (\<lambda>(_, _, _, s). length s)", goal_cases)
  case (2 kind limit n s t f)
  then have "length t < length s" by (simp add: take_comma_shorter)
  moreover have "length (dropWhile (\<lambda>c. c \<noteq> CHR '','') t) \<le> length t" by (rule length_dropWhile_le)
  ultimately show ?case by simp
qed simp

declare tail_loop.simps [simp del]

definition optional_tail :: "string \<Rightarrow> tail_kind \<Rightarrow> bool" where
  "optional_tail s kind =
     (if kind = TAIL_NONE then s = []
      else tail_loop kind (case kind of TAIL_PSM_REQUEST \<Rightarrow> 4 | TAIL_PSM_ACTIVE \<Rightarrow> 5 | _ \<Rightarrow> 3) 0 s)"

section \<open>Readbacks\<close>

fun mode_lines :: "string \<Rightarrow> tail_kind \<Rightarrow> string list \<Rightarrow> bool \<Rightarrow> int option \<Rightarrow> int option option" where
  "mode_lines key tail [] terminal found = Some found"
| "mode_lines key tail (line # lines) terminal found =
     (let terminal' = (terminal \<or> line = ''OK'') in
      case named_value line key of
        MalformedKey \<Rightarrow> None
      | OtherLine \<Rightarrow> mode_lines key tail lines terminal' found
      | FieldValue v \<Rightarrow>
          if terminal' \<or> found \<noteq> None then None
          else (case take_unsigned v of
                  None \<Rightarrow> None
                | Some (mode, rest) \<Rightarrow>
                    if \<not> optional_tail rest tail then None
                    else mode_lines key tail lines terminal' (Some mode)))"

definition parse_mode :: "string \<Rightarrow> tail_kind \<Rightarrow> string \<Rightarrow> int option" where
  "parse_mode key tail response =
     (case split_lines response of (lines, remaining) \<Rightarrow>
        case mode_lines key tail lines False None of
          Some (Some mode) \<Rightarrow> if unrelated_fragment remaining key then Some mode else None
        | _ \<Rightarrow> None)"

definition read_mode :: "'c at_fn \<Rightarrow> 'c \<Rightarrow> string \<Rightarrow> string \<Rightarrow> tail_kind \<Rightarrow> nat \<Rightarrow> 'c \<times> int option" where
  "read_mode at ctx command key tail timeout =
     (case exchange at ctx command timeout of
        (ctx', r) \<Rightarrow> (ctx', Option.bind r (parse_mode key tail)))"

definition edrx_fields :: "string \<Rightarrow> int option" where
  "edrx_fields v0 =
     Option.bind (take_comma v0) (\<lambda>v1.
     Option.bind (take_unsigned v1) (\<lambda>(enabled, v2). if enabled > 1 then None else
     Option.bind (take_comma v2) (\<lambda>v3.
     Option.bind (take_unsigned v3) (\<lambda>(ptw, v4). if ptw > 15 then None else
     Option.bind (take_comma v4) (\<lambda>v5.
     Option.bind (take_unsigned v5) (\<lambda>(cycle, v6).
       if cycle > 15 \<or> v6 \<noteq> [] then None else Some enabled))))))"

fun edrx_lines :: "string list \<Rightarrow> bool \<Rightarrow> int option \<Rightarrow> int option option" where
  "edrx_lines [] terminal found = Some found"
| "edrx_lines (line # lines) terminal found =
     (let terminal' = (terminal \<or> line = ''OK'') in
      case named_value line ''+CEDRX'' of
        MalformedKey \<Rightarrow> None
      | OtherLine \<Rightarrow> edrx_lines lines terminal' found
      | FieldValue v \<Rightarrow>
          (case take_unsigned v of
             None \<Rightarrow> None
           | Some (mode, v1) \<Rightarrow>
               if mode = 2 then edrx_lines lines terminal' found
               else if mode \<noteq> 3 \<or> terminal' \<or> found \<noteq> None then None
               else (case edrx_fields v1 of
                       None \<Rightarrow> None
                     | Some enabled \<Rightarrow> edrx_lines lines terminal' (Some enabled))))"

definition parse_edrx :: "string \<Rightarrow> int option" where
  "parse_edrx response =
     (case split_lines response of (lines, remaining) \<Rightarrow>
        case edrx_lines lines False None of
          Some (Some enabled) \<Rightarrow> if unrelated_fragment remaining ''+CEDRX'' then Some enabled else None
        | _ \<Rightarrow> None)"

definition read_edrx :: "'c at_fn \<Rightarrow> 'c \<Rightarrow> 'c \<times> int option" where
  "read_edrx at ctx =
     (case exchange at ctx ''AT+CEDRX?'' AWAKE_AT_TIMEOUT_MS of
        (ctx', r) \<Rightarrow> (ctx', Option.bind r parse_edrx))"

definition read_config :: "'c at_fn \<Rightarrow> 'c \<Rightarrow> 'c \<times> awake_config option" where
  "read_config at ctx =
     (case read_mode at ctx ''AT+CSCLK?'' ''+CSCLK'' TAIL_NONE AWAKE_AT_TIMEOUT_MS of
        (c1, None) \<Rightarrow> (c1, None)
      | (c1, Some sc) \<Rightarrow> if \<not> sc \<le> 1 then (c1, None) else
     (case read_mode at c1 ''AT+CPSMS?'' ''+CPSMS'' TAIL_PSM_REQUEST AWAKE_AT_TIMEOUT_MS of
        (c2, None) \<Rightarrow> (c2, None)
      | (c2, Some ps) \<Rightarrow> if \<not> ps \<le> 1 then (c2, None) else
     (case read_edrx at c2 of
        (c3, None) \<Rightarrow> (c3, None)
      | (c3, Some ed) \<Rightarrow> (c3, Some \<lparr>slow_clock = sc, psm = ps, edrx = ed\<rparr>))))"

definition all_off :: "awake_config \<Rightarrow> bool" where
  "all_off config \<longleftrightarrow> slow_clock config = 0 \<and> psm config = 0 \<and> edrx config = 0"

section \<open>The policy\<close>

definition modem_awake_verify_config :: "'c at_fn \<Rightarrow> 'c \<Rightarrow> 'c \<times> bool" where
  "modem_awake_verify_config at ctx =
     (case read_config at ctx of
        (c1, None) \<Rightarrow> (c1, False)
      | (c1, Some config) \<Rightarrow> (c1, all_off config))"

definition off_if :: "bool \<Rightarrow> 'c at_fn \<Rightarrow> 'c \<Rightarrow> string \<Rightarrow> 'c \<times> bool" where
  "off_if needed at ctx command =
     (if needed then command_ok at ctx command AWAKE_AT_TIMEOUT_MS else (ctx, True))"

definition awake_correct :: "'c at_fn \<Rightarrow> 'c \<Rightarrow> awake_config \<Rightarrow> 'c \<times> bool" where
  "awake_correct at ctx config =
     (case off_if (slow_clock config \<noteq> 0) at ctx ''AT+CSCLK=0'' of
        (c1, False) \<Rightarrow> (c1, False)
      | (c1, True) \<Rightarrow>
     (case off_if (psm config \<noteq> 0) at c1 ''AT+CPSMS=0'' of
        (c2, False) \<Rightarrow> (c2, False)
      | (c2, True) \<Rightarrow>
     (case off_if (edrx config \<noteq> 0) at c2 ''AT+CEDRXS=0,4,\"0000\"'' of
        (c3, False) \<Rightarrow> (c3, False)
      | (c3, True) \<Rightarrow> modem_awake_verify_config at c3)))"

definition awake_radio_off :: "'c at_fn \<Rightarrow> 'c \<Rightarrow> awake_config \<Rightarrow> 'c \<times> bool" where
  "awake_radio_off at ctx config =
     (if psm config \<noteq> 0 \<or> edrx config \<noteq> 0 then
        (case command_ok at ctx ''AT+CFUN=4'' AWAKE_CFUN_TIMEOUT_MS of
           (c1, False) \<Rightarrow> (c1, False)
         | (c1, True) \<Rightarrow>
             (case read_mode at c1 ''AT+CFUN?'' ''+CFUN'' TAIL_NONE AWAKE_CFUN_TIMEOUT_MS of
                (c2, functionality) \<Rightarrow> (c2, functionality = Some 4)))
      else (ctx, True))"

definition modem_awake_prepare :: "'c at_fn \<Rightarrow> 'c \<Rightarrow> 'c \<times> bool" where
  "modem_awake_prepare at ctx =
     (case read_config at ctx of
        (c1, None) \<Rightarrow> fail_closed at c1
      | (c1, Some config) \<Rightarrow>
          if all_off config then (c1, True)
          else (case awake_radio_off at c1 config of
                  (c2, False) \<Rightarrow> fail_closed at c2
                | (c2, True) \<Rightarrow>
                    (case awake_correct at c2 config of
                       (c3, False) \<Rightarrow> fail_closed at c3
                     | (c3, True) \<Rightarrow> (c3, True))))"

definition modem_awake_verify_active :: "'c at_fn \<Rightarrow> 'c \<Rightarrow> 'c \<times> bool" where
  "modem_awake_verify_active at ctx =
     (case read_mode at ctx ''AT+CPSMRDP'' ''+CPSMRDP'' TAIL_PSM_ACTIVE AWAKE_AT_TIMEOUT_MS of
        (c1, p) \<Rightarrow> if p \<noteq> Some 0 then (c1, False) else
     (case read_mode at c1 ''AT+CEDRXRDP'' ''+CEDRXRDP'' TAIL_EDRX_ACTIVE AWAKE_AT_TIMEOUT_MS of
        (c2, e) \<Rightarrow> (c2, e = Some 0)))"

section \<open>Logs\<close>

definition config_ok_log :: "at_log \<Rightarrow> bool" where
  "config_ok_log es \<longleftrightarrow> (\<exists>r1 r2 r3.
     es = [(''AT+CSCLK?'', Some r1), (''AT+CPSMS?'', Some r2), (''AT+CEDRX?'', Some r3)] \<and>
     parse_mode ''+CSCLK'' TAIL_NONE r1 = Some 0 \<and> parse_mode ''+CPSMS'' TAIL_PSM_REQUEST r2 = Some 0 \<and>
     parse_edrx r3 = Some 0)"

lemma mode_logged_ex:
  obtains c' r where "read_mode (logged at) (c, l) cmd key tail t =
    ((c', l @ [(cmd, r)]), Option.bind r (parse_mode key tail))"
  by (rule exchange_logged_ex [of at c l cmd t]) (simp add: read_mode_def)

lemma edrx_logged_ex:
  obtains c' r where "read_edrx (logged at) (c, l) = ((c', l @ [(''AT+CEDRX?'', r)]), Option.bind r parse_edrx)"
  by (rule exchange_logged_ex [of at c l "''AT+CEDRX?''" AWAKE_AT_TIMEOUT_MS]) (simp add: read_edrx_def)

lemma config_logged_ex:
  obtains c' es res where "read_config (logged at) (c, l) = ((c', l @ es), res)"
    and "fst ` set es \<subseteq> {''AT+CSCLK?'', ''AT+CPSMS?'', ''AT+CEDRX?''}"
    and "(\<exists>config. res = Some config \<and> all_off config) \<longrightarrow> config_ok_log es"
proof -
  let ?e1 = "\<lambda>r. (''AT+CSCLK?'', r)" and ?e2 = "\<lambda>r. (''AT+CPSMS?'', r)" and ?e3 = "\<lambda>r. (''AT+CEDRX?'', r)"
  obtain c1 r1 where 1: "read_mode (logged at) (c, l) ''AT+CSCLK?'' ''+CSCLK'' TAIL_NONE AWAKE_AT_TIMEOUT_MS =
      ((c1, l @ [?e1 r1]), Option.bind r1 (parse_mode ''+CSCLK'' TAIL_NONE))" by (rule mode_logged_ex)
  obtain c2 r2 where 2: "read_mode (logged at) (c1, l @ [?e1 r1]) ''AT+CPSMS?'' ''+CPSMS'' TAIL_PSM_REQUEST AWAKE_AT_TIMEOUT_MS =
      ((c2, (l @ [?e1 r1]) @ [?e2 r2]), Option.bind r2 (parse_mode ''+CPSMS'' TAIL_PSM_REQUEST))"
    by (rule mode_logged_ex)
  obtain c3 r3 where 3: "read_edrx (logged at) (c2, (l @ [?e1 r1]) @ [?e2 r2]) =
      ((c3, ((l @ [?e1 r1]) @ [?e2 r2]) @ [?e3 r3]), Option.bind r3 parse_edrx)" by (rule edrx_logged_ex)
  let ?v1 = "Option.bind r1 (parse_mode ''+CSCLK'' TAIL_NONE)"
  let ?v2 = "Option.bind r2 (parse_mode ''+CPSMS'' TAIL_PSM_REQUEST)"
  let ?v3 = "Option.bind r3 parse_edrx"
  consider (a) "?v1 = None \<or> (\<exists>v. ?v1 = Some v \<and> \<not> v \<le> 1)"
    | (b) v where "?v1 = Some v" "v \<le> 1" "?v2 = None \<or> (\<exists>w. ?v2 = Some w \<and> \<not> w \<le> 1)"
    | (c) v w where "?v1 = Some v" "v \<le> 1" "?v2 = Some w" "w \<le> 1" "?v3 = None"
    | (d) v w x where "?v1 = Some v" "v \<le> 1" "?v2 = Some w" "w \<le> 1" "?v3 = Some x"
    by (metis not_None_eq)
  then show thesis
  proof cases
    case a
    with 1 have "read_config (logged at) (c, l) = ((c1, l @ [?e1 r1]), None)"
      by (auto simp: read_config_def)
    then show thesis by (rule that) simp_all
  next
    case b
    with 1 2 have "read_config (logged at) (c, l) = ((c2, l @ [?e1 r1, ?e2 r2]), None)"
      by (auto simp: read_config_def)
    then show thesis by (rule that) simp_all
  next
    case c
    with 1 2 3 have "read_config (logged at) (c, l) = ((c3, l @ [?e1 r1, ?e2 r2, ?e3 r3]), None)"
      by (auto simp: read_config_def)
    then show thesis by (rule that) simp_all
  next
    case d
    with 1 2 3 have "read_config (logged at) (c, l) =
        ((c3, l @ [?e1 r1, ?e2 r2, ?e3 r3]), Some \<lparr>slow_clock = v, psm = w, edrx = x\<rparr>)"
      by (auto simp: read_config_def)
    then show thesis
      by (rule that) (use d in \<open>auto simp: all_off_def config_ok_log_def bind_eq_Some_conv\<close>)
  qed
qed

lemma off_if_logged:
  obtains c' es ok where "off_if needed (logged at) (c, l) cmd = ((c', l @ es), ok)"
    and "fst ` set es \<subseteq> {cmd}"
proof (cases needed)
  case True
  obtain c' r where "command_ok (logged at) (c, l) cmd AWAKE_AT_TIMEOUT_MS = ((c', l @ [(cmd, r)]), r \<noteq> None)"
    by (rule command_logged_ex)
  with True show thesis by (intro that [of c' "[(cmd, r)]" "r \<noteq> None"]) (simp_all add: off_if_def)
next
  case False
  then show thesis by (intro that [of c "[]" True]) (simp_all add: off_if_def)
qed

lemma verify_logged:
  obtains c' es ok where "modem_awake_verify_config (logged at) (c, l) = ((c', l @ es), ok)"
    and "fst ` set es \<subseteq> {''AT+CSCLK?'', ''AT+CPSMS?'', ''AT+CEDRX?''}"
    and "ok \<longrightarrow> config_ok_log es"
proof -
  obtain c' es res where r: "read_config (logged at) (c, l) = ((c', l @ es), res)"
    "fst ` set es \<subseteq> {''AT+CSCLK?'', ''AT+CPSMS?'', ''AT+CEDRX?''}"
    "(\<exists>config. res = Some config \<and> all_off config) \<longrightarrow> config_ok_log es"
    by (rule config_logged_ex)
  show thesis
  proof (cases res)
    case None
    with r show thesis by (intro that [of c' es False]) (simp_all add: modem_awake_verify_config_def)
  next
    case (Some config)
    with r show thesis
      by (intro that [of c' es "all_off config"]) (simp_all add: modem_awake_verify_config_def)
  qed
qed

definition awake_commands :: "string set" where
  "awake_commands = {''AT+CSCLK?'', ''AT+CPSMS?'', ''AT+CEDRX?'', ''AT+CSCLK=0'', ''AT+CPSMS=0'',
     ''AT+CEDRXS=0,4,\"0000\"'', ''AT+CFUN=4'', ''AT+CFUN?''}"

lemma correct_logged:
  obtains c' es ok where "awake_correct (logged at) (c, l) config = ((c', l @ es), ok)"
    and "fst ` set es \<subseteq> awake_commands"
    and "ok \<longrightarrow> (\<exists>pre s. es = pre @ s \<and> config_ok_log s)"
proof -
  obtain c1 e1 ok1 where 1: "off_if (slow_clock config \<noteq> 0) (logged at) (c, l) ''AT+CSCLK=0'' = ((c1, l @ e1), ok1)"
    and f1: "fst ` set e1 \<subseteq> {''AT+CSCLK=0''}" by (rule off_if_logged)
  obtain c2 e2 ok2 where 2: "off_if (psm config \<noteq> 0) (logged at) (c1, l @ e1) ''AT+CPSMS=0'' =
      ((c2, (l @ e1) @ e2), ok2)"
    and f2: "fst ` set e2 \<subseteq> {''AT+CPSMS=0''}" by (rule off_if_logged)
  obtain c3 e3 ok3 where 3: "off_if (edrx config \<noteq> 0) (logged at) (c2, (l @ e1) @ e2) ''AT+CEDRXS=0,4,\"0000\"'' =
      ((c3, ((l @ e1) @ e2) @ e3), ok3)"
    and f3: "fst ` set e3 \<subseteq> {''AT+CEDRXS=0,4,\"0000\"''}" by (rule off_if_logged)
  obtain c4 e4 ok4 where 4: "modem_awake_verify_config (logged at) (c3, ((l @ e1) @ e2) @ e3) =
      ((c4, (((l @ e1) @ e2) @ e3) @ e4), ok4)"
    and f4: "fst ` set e4 \<subseteq> {''AT+CSCLK?'', ''AT+CPSMS?'', ''AT+CEDRX?''}" "ok4 \<longrightarrow> config_ok_log e4"
    by (rule verify_logged)
  have sub: "fst ` set e1 \<subseteq> awake_commands" "fst ` set e2 \<subseteq> awake_commands"
    "fst ` set e3 \<subseteq> awake_commands" "fst ` set e4 \<subseteq> awake_commands"
    by (rule order_trans [OF f1] order_trans [OF f2] order_trans [OF f3] order_trans [OF f4(1)],
        simp add: awake_commands_def)+
  show thesis
  proof (cases ok1)
    case False
    with 1 sub show thesis by (intro that [of c1 e1 False]) (simp_all add: awake_correct_def)
  next
    case k1: True
    show thesis
    proof (cases ok2)
      case False
      with 1 2 k1 sub show thesis
        by (intro that [of c2 "e1 @ e2" False]) (simp_all add: awake_correct_def image_Un)
    next
      case k2: True
      show thesis
      proof (cases ok3)
        case False
        with 1 2 3 k1 k2 sub show thesis
          by (intro that [of c3 "e1 @ e2 @ e3" False]) (simp_all add: awake_correct_def image_Un)
      next
        case k3: True
        have "awake_correct (logged at) (c, l) config = ((c4, l @ (e1 @ e2 @ e3) @ e4), ok4)"
          using 1 2 3 4 k1 k2 k3 by (simp add: awake_correct_def)
        moreover have "ok4 \<longrightarrow> (\<exists>pre s. (e1 @ e2 @ e3) @ e4 = pre @ s \<and> config_ok_log s)"
          using f4(2) by blast
        ultimately show thesis by (intro that) (use sub in \<open>simp_all add: image_Un\<close>)
      qed
    qed
  qed
qed

lemma radio_off_logged:
  obtains c' es ok where "awake_radio_off (logged at) (c, l) config = ((c', l @ es), ok)"
    and "fst ` set es \<subseteq> awake_commands"
proof (cases "psm config \<noteq> 0 \<or> edrx config \<noteq> 0")
  case False
  then show thesis by (intro that [of c "[]" True]) (simp_all add: awake_radio_off_def)
next
  case True
  obtain c1 r1 where 1: "command_ok (logged at) (c, l) ''AT+CFUN=4'' AWAKE_CFUN_TIMEOUT_MS =
      ((c1, l @ [(''AT+CFUN=4'', r1)]), r1 \<noteq> None)" by (rule command_logged_ex)
  obtain c2 r2 where 2: "read_mode (logged at) (c1, l @ [(''AT+CFUN=4'', r1)]) ''AT+CFUN?'' ''+CFUN'' TAIL_NONE
        AWAKE_CFUN_TIMEOUT_MS =
      ((c2, (l @ [(''AT+CFUN=4'', r1)]) @ [(''AT+CFUN?'', r2)]), Option.bind r2 (parse_mode ''+CFUN'' TAIL_NONE))"
    by (rule mode_logged_ex)
  show thesis
  proof (cases "r1 = None")
    case none: True
    with True 1 show thesis
      by (intro that [of c1 "[(''AT+CFUN=4'', r1)]" False]) (simp_all add: awake_radio_off_def awake_commands_def)
  next
    case False
    with True 1 2 show thesis
      by (intro that [of c2 "[(''AT+CFUN=4'', r1), (''AT+CFUN?'', r2)]"
            "Option.bind r2 (parse_mode ''+CFUN'' TAIL_NONE) = Some 4"])
        (simp_all add: awake_radio_off_def awake_commands_def)
  qed
qed

section \<open>Properties\<close>

text \<open>
  \<open>modem_awake_prepare\<close> never turns the radio on; it reports success only if its last
  three exchanges read back slow clock, PSM and eDRX as off; and when it reports failure, the
  last command sent was the radio-off command AT+CFUN=4.
\<close>

theorem awake_prepare_verified:
  assumes "modem_awake_prepare (logged at) (c, []) = ((c', log), ok)"
  shows "''AT+CFUN=1'' \<notin> fst ` set log \<and>
    (ok \<longrightarrow> (\<exists>pre s. log = pre @ s \<and> config_ok_log s)) \<and>
    (\<not> ok \<longrightarrow> log \<noteq> [] \<and> fst (last log) = ''AT+CFUN=4'')"
proof -
  obtain c1 es res where 1: "read_config (logged at) (c, []) = ((c1, [] @ es), res)"
    and f1: "fst ` set es \<subseteq> {''AT+CSCLK?'', ''AT+CPSMS?'', ''AT+CEDRX?''}"
      "(\<exists>config. res = Some config \<and> all_off config) \<longrightarrow> config_ok_log es"
    by (rule config_logged_ex)
  have sub1: "fst ` set es \<subseteq> awake_commands"
    by (rule order_trans [OF f1(1)]) (simp add: awake_commands_def)
  have off: "\<exists>c' r. fail_closed (logged at) (c, l) = ((c', l @ [(''AT+CFUN=4'', r)]), False)" for c l
    by (rule fail_closed_logged [of at c l]) blast
  have on: "''AT+CFUN=1'' \<notin> awake_commands" "''AT+CFUN=4'' \<in> awake_commands"
    by (simp_all add: awake_commands_def)
  have core: "\<exists>x. fst ` set x \<subseteq> awake_commands \<and> ((\<exists>r. log = x @ [(''AT+CFUN=4'', r)]) \<and> \<not> ok \<or>
      log = x \<and> ok \<and> (\<exists>pre s. x = pre @ s \<and> config_ok_log s))"
  proof (cases res)
    case None
    obtain c2 r2 where "fail_closed (logged at) (c1, es) = ((c2, es @ [(''AT+CFUN=4'', r2)]), False)"
      using off by blast
    then show ?thesis using assms 1 None sub1
      by (intro exI [of _ es]) (auto simp: modem_awake_prepare_def)
  next
    case (Some config)
    show ?thesis
    proof (cases "all_off config")
      case True
      then show ?thesis using assms 1 Some sub1 f1(2)
        by (intro exI [of _ es]) (auto simp: modem_awake_prepare_def)
    next
      case False
      obtain c2 e2 ok2 where 2: "awake_radio_off (logged at) (c1, es) config = ((c2, es @ e2), ok2)"
        and f2: "fst ` set e2 \<subseteq> awake_commands" by (rule radio_off_logged)
      obtain c3 e3 ok3 where 3: "awake_correct (logged at) (c2, es @ e2) config = ((c3, (es @ e2) @ e3), ok3)"
        and f3: "fst ` set e3 \<subseteq> awake_commands" "ok3 \<longrightarrow> (\<exists>pre s. e3 = pre @ s \<and> config_ok_log s)"
        by (rule correct_logged)
      obtain c4 r4 c5 r5 where o:
          "fail_closed (logged at) (c2, es @ e2) = ((c4, (es @ e2) @ [(''AT+CFUN=4'', r4)]), False)"
          "fail_closed (logged at) (c3, (es @ e2) @ e3) = ((c5, ((es @ e2) @ e3) @ [(''AT+CFUN=4'', r5)]), False)"
        using off by metis
      show ?thesis
      proof (cases ok2)
        case no: False
        with assms 1 Some False 2 o(1) sub1 f2 show ?thesis
          by (intro exI [of _ "es @ e2"]) (auto simp: modem_awake_prepare_def image_Un simp del: image_subset_iff)
      next
        case yes: True
        have all: "fst ` set ((es @ e2) @ e3) \<subseteq> awake_commands"
          using sub1 f2 f3(1) by (simp add: image_Un)
        show ?thesis
        proof (cases ok3)
          case True
          then obtain pre s where "e3 = pre @ s" "config_ok_log s" using f3(2) by blast
          then have "\<exists>pre s. (es @ e2) @ e3 = pre @ s \<and> config_ok_log s" by (metis append.assoc)
          moreover have "log = (es @ e2) @ e3" "ok"
            using assms 1 Some False 2 3 yes True by (simp_all add: modem_awake_prepare_def)
          ultimately show ?thesis using all by blast
        next
          case no: False
          have "log = ((es @ e2) @ e3) @ [(''AT+CFUN=4'', r5)]" "\<not> ok"
            using assms 1 Some False 2 3 yes no o(2) by (simp_all add: modem_awake_prepare_def)
          then show ?thesis using all by auto
        qed
      qed
    qed
  qed
  then consider (failed) x r where "fst ` set x \<subseteq> awake_commands" "log = x @ [(''AT+CFUN=4'', r)]" "\<not> ok"
    | (success) "fst ` set log \<subseteq> awake_commands" "ok" "\<exists>pre s. log = pre @ s \<and> config_ok_log s"
    by blast
  then show ?thesis
  proof cases
    case failed
    then have "fst ` set log \<subseteq> awake_commands" using on(2) by (simp add: image_Un)
    with on(1) failed show ?thesis by auto
  next
    case success
    with on(1) show ?thesis by blast
  qed
qed

definition sleepy_free_modem :: "(string \<times> string) list" where
  "sleepy_free_modem = [(''AT+CSCLK?'', ''+CSCLK: 0'' @ [CR, LF] @ ''OK'' @ [CR, LF]),
     (''AT+CPSMS?'', ''+CPSMS: 0,,,\"01100000\",\"00000000\"'' @ [CR, LF] @ ''OK'' @ [CR, LF]),
     (''AT+CEDRX?'', ''+CEDRX: 3,0,0,2'' @ [CR, LF] @ ''OK'' @ [CR, LF])]"

theorem awake_prepare_verified_witness:
  "\<exists>pre s. snd (fst (modem_awake_prepare (logged (canned sleepy_free_modem)) ((), []))) = pre @ s \<and> config_ok_log s"
proof -
  obtain l ok where r: "modem_awake_prepare (logged (canned sleepy_free_modem)) ((), []) = (((), l), ok)"
    by (metis old.unit.exhaust prod.exhaust_sel)
  have "snd (modem_awake_prepare (logged (canned sleepy_free_modem)) ((), []))" by code_simp
  with awake_prepare_verified [OF r] r show ?thesis by simp
qed

end
