(* ===== verification/Modem_Recovery.thy ===== *)
theory Modem_Recovery
  imports At_Text
begin

text \<open>
  The registration grace of \<open>modem_recovery.c\<close>: the strict reading of a CEREG answer, and the
  state machine that grants one period of 90 seconds per backend outage when the modem is seen
  to return to the network.  A C string is the list of its characters before the NUL; a
  pointer into it is the suffix it points to, and reading at the end of it gives NUL.
\<close>

section \<open>The CEREG answer\<close>

definition at_char :: "string \<Rightarrow> char" where
  "at_char p = (case p of [] \<Rightarrow> NUL | c # _ \<Rightarrow> c)"

definition skip_space :: "string \<Rightarrow> string" where
  "skip_space p = dropWhile (\<lambda>c. c = CHR '' '' \<or> c = TAB) p"

fun field_digits :: "int \<Rightarrow> int \<Rightarrow> string \<Rightarrow> (int \<times> string) option" where
  "field_digits maximum n [] = Some (n, [])"
| "field_digits maximum n (c # cs) =
     (if is_digit c then
        if n * 10 + digit c > maximum then None
        else field_digits maximum (n * 10 + digit c) cs
      else Some (n, c # cs))"

definition field :: "string \<Rightarrow> int \<Rightarrow> (int \<times> string) option" where
  "field p maximum = (let p = skip_space p in
     if \<not> is_digit (at_char p) then None
     else map_option (\<lambda>(n, p). (n, skip_space p)) (field_digits maximum 0 p))"

text \<open>The two numeric fields behind the key: mode and status, and what may follow them.\<close>

definition cereg_fields :: "string \<Rightarrow> int option" where
  "cereg_fields p =
     (case field p 5 of
        None \<Rightarrow> None
      | Some (mode, p) \<Rightarrow>
          if at_char p \<noteq> CHR '','' then None
          else (case field (tl p) 10 of
                  None \<Rightarrow> None
                | Some (status, p) \<Rightarrow>
                    if at_char p \<noteq> CHR '','' \<and> at_char p \<noteq> CR \<and> at_char p \<noteq> LF then None
                    else Some status))"

function cereg_lines :: "string \<Rightarrow> int option \<Rightarrow> int option" where
  "cereg_lines line found =
     (if LF \<notin> set line then found
      else let p = skip_space line; rest = tl (dropWhile (\<lambda>c. c \<noteq> LF) line) in
        if take 7 p = ''+CEREG:'' then
          if found \<noteq> None then None
          else (case cereg_fields (drop 7 p) of
                  None \<Rightarrow> None
                | Some status \<Rightarrow> cereg_lines rest (Some status))
        else cereg_lines rest found)"
  by pat_completeness auto
termination
proof (relation "measure (\<lambda>(l, _). length l)", goal_cases)
  case 1
  show ?case by simp
next
  case (2 line found p rest st)
  then show ?case using next_line_shorter [of line] by (simp add: next_line_def)
next
  case (3 line found p rest)
  then show ?case using next_line_shorter [of line] by (simp add: next_line_def)
qed

declare cereg_lines.simps [simp del]

definition modem_recovery_parse_cereg :: "string \<Rightarrow> bool option" where
  "modem_recovery_parse_cereg reply =
     (if modem_radio_response_status reply \<noteq> MODEM_RADIO_RESPONSE_OK then None
      else map_option (\<lambda>status. status = 1 \<or> status = 5) (cereg_lines reply None))"

section \<open>The grace machine\<close>

definition MODEM_RECOVERY_REG_GRACE_S :: u32 where "MODEM_RECOVERY_REG_GRACE_S = 90"

record modem_recovery_t =
  registration_known :: bool
  registered :: bool
  grace_used :: bool
  grace_started_s :: u32

definition modem_recovery_init :: modem_recovery_t where
  "modem_recovery_init = \<lparr>registration_known = False, registered = False,
     grace_used = False, grace_started_s = 0\<rparr>"

definition modem_recovery_observe_registration ::
  "modem_recovery_t \<Rightarrow> string \<Rightarrow> u32 \<Rightarrow> modem_recovery_t \<times> bool" where
  "modem_recovery_observe_registration state reply now_s =
     (case modem_recovery_parse_cereg reply of
        None \<Rightarrow> (state, False)
      | Some r \<Rightarrow>
          let returned = (registration_known state \<and> \<not> registered state \<and> r);
              state = state\<lparr>registration_known := True, registered := r\<rparr> in
          if \<not> returned \<or> grace_used state then (state, False)
          else (state\<lparr>grace_used := True, grace_started_s := now_s\<rparr>, True))"

definition modem_recovery_grace_active :: "modem_recovery_t \<Rightarrow> u32 \<Rightarrow> bool" where
  "modem_recovery_grace_active state now_s \<longleftrightarrow>
     grace_used state \<and> now_s - grace_started_s state < MODEM_RECOVERY_REG_GRACE_S"

definition modem_recovery_backend_healthy :: "modem_recovery_t \<Rightarrow> modem_recovery_t" where
  "modem_recovery_backend_healthy state = state\<lparr>grace_used := False, grace_started_s := 0\<rparr>"

section \<open>Histories\<close>

datatype recovery_event = Observe string u32 | Healthy

fun recovery_step :: "modem_recovery_t \<Rightarrow> recovery_event \<Rightarrow> modem_recovery_t" where
  "recovery_step s (Observe reply now) = fst (modem_recovery_observe_registration s reply now)"
| "recovery_step s Healthy = modem_recovery_backend_healthy s"

definition recovery_run :: "recovery_event list \<Rightarrow> modem_recovery_t" where
  "recovery_run es = foldl recovery_step modem_recovery_init es"

text \<open>The last registration state the history confirms, read from the newest event back.\<close>

fun last_confirmed :: "recovery_event list \<Rightarrow> bool option" where
  "last_confirmed [] = None"
| "last_confirmed (Healthy # es) = last_confirmed es"
| "last_confirmed (Observe reply now # es) =
     (case modem_recovery_parse_cereg reply of None \<Rightarrow> last_confirmed es | Some r \<Rightarrow> Some r)"

text \<open>
  The grants of the current outage: the times of the confirmed returns to the network since
  the backend was last healthy, oldest first.
\<close>

fun returns :: "recovery_event list \<Rightarrow> u32 list" where
  "returns [] = []"
| "returns (Healthy # es) = []"
| "returns (Observe reply now # es) =
     returns es @ (if last_confirmed es = Some False \<and> modem_recovery_parse_cereg reply = Some True
                   then [now] else [])"

lemma recovery_run_snoc: "recovery_run (es @ [e]) = recovery_step (recovery_run es) e"
  by (simp add: recovery_run_def)

lemma recovery_history:
  "(if registration_known (recovery_run es) then Some (registered (recovery_run es)) else None) =
     last_confirmed (rev es) \<and>
   grace_used (recovery_run es) = (returns (rev es) \<noteq> []) \<and>
   (returns (rev es) \<noteq> [] \<longrightarrow> grace_started_s (recovery_run es) = hd (returns (rev es)))"
proof (induction es rule: rev_induct)
  case Nil
  then show ?case by (simp add: recovery_run_def modem_recovery_init_def)
next
  case (snoc e es)
  show ?case
  proof (cases e)
    case Healthy
    with snoc show ?thesis
      by (auto simp: recovery_run_snoc modem_recovery_backend_healthy_def split: if_splits)
  next
    case (Observe reply now)
    with snoc show ?thesis
      by (cases "modem_recovery_parse_cereg reply")
        (auto simp: recovery_run_snoc modem_recovery_observe_registration_def Let_def split: if_splits)
  qed
qed

text \<open>
  The grace period is active exactly when the current backend outage has a confirmed
  return to the network (an answer reading registered whose last readable predecessor read
  unregistered) and the first such return is less than 90 seconds old on the wrapping 32-bit
  clock: later returns and repeated answers never renew it, and unreadable answers count for
  nothing.
\<close>

theorem grace_once_per_outage:
  "modem_recovery_grace_active (recovery_run es) now =
    (case returns (rev es) of [] \<Rightarrow> False | t # _ \<Rightarrow> unat (now - t) < 90)"
proof -
  have "now - t < 90 \<longleftrightarrow> unat (now - t) < 90" for t :: u32
    by (simp add: word_less_nat_alt)
  then show ?thesis
    using recovery_history [of es]
    by (cases "returns (rev es)")
      (auto simp: modem_recovery_grace_active_def MODEM_RECOVERY_REG_GRACE_S_def)
qed

end
