(* ===== verification/Ch32_I2c.thy ===== *)
theory Ch32_I2c
  imports Prelude
begin

text \<open>
  The bit-banged I2C master of the power controller (\<open>i2c_lib.c\<close>).  The two open-drain lines
  are operated by four GPIO sequences and read by one; a run of the master is the list of line
  operations it performs, and the level it reads on SDA is a parameter \<open>pin\<close>, a function of
  that list.  A bus with register devices, seen from the other end of the two wires, is a
  reference decoder of the same list, independent of the master: it detects start and stop
  conditions, samples SDA on rising clock edges and shifts register contents out.
\<close>

section \<open>The master\<close>

datatype line_op = SDA_HIGH | SDA_LOW | SCL_HIGH | SCL_LOW | Delay_Us nat

type_synonym trace = "line_op list"
type_synonym sda_pin = "trace \<Rightarrow> bool"

definition I2C_SDA_HIGH :: trace where "I2C_SDA_HIGH = [SDA_HIGH]"
definition I2C_SDA_LOW :: trace where "I2C_SDA_LOW = [SDA_LOW]"
definition I2C_SCL_HIGH :: trace where "I2C_SCL_HIGH = [Delay_Us 10, SCL_HIGH]"
definition I2C_SCL_LOW :: trace where "I2C_SCL_LOW = [Delay_Us 10, SCL_LOW]"

definition I2C_CLOCKOUT :: trace where "I2C_CLOCKOUT = I2C_SCL_HIGH @ I2C_SCL_LOW"

text \<open>\<open>I2C_init\<close>: nine clock pulses release a stuck device, then a stop condition.\<close>

definition I2C_init :: trace where
  "I2C_init = I2C_SDA_HIGH @ concat (replicate 9 (I2C_SCL_HIGH @ I2C_SCL_LOW)) @
     I2C_SDA_LOW @ [Delay_Us 5] @ I2C_SCL_HIGH @ [Delay_Us 5] @ I2C_SDA_HIGH @ [Delay_Us 10]"

fun write_bits :: "nat \<Rightarrow> u8 \<Rightarrow> trace" where
  "write_bits 0 data = []"
| "write_bits (Suc i) data =
     (if data AND 0x80 \<noteq> 0 then I2C_SDA_HIGH else I2C_SDA_LOW) @ I2C_CLOCKOUT @
     write_bits i (push_bit 1 data)"

definition I2C_write :: "u8 \<Rightarrow> trace" where
  "I2C_write data = write_bits 8 data @ I2C_SDA_HIGH @ I2C_CLOCKOUT"

definition I2C_start :: "u8 \<Rightarrow> trace" where
  "I2C_start addr = I2C_SDA_HIGH @ I2C_SCL_HIGH @ [Delay_Us 5] @ I2C_SDA_LOW @ [Delay_Us 5] @
     I2C_SCL_LOW @ I2C_write addr"

definition I2C_stop :: trace where
  "I2C_stop = I2C_SDA_LOW @ I2C_SCL_HIGH @ I2C_SDA_HIGH"

definition I2C_write_reg :: "trace \<Rightarrow> u8 \<Rightarrow> u8 \<Rightarrow> u8 \<Rightarrow> trace" where
  "I2C_write_reg tr addr reg dat =
     tr @ I2C_start (push_bit 1 addr) @ I2C_write reg @ I2C_write dat @ I2C_stop"

fun read_bits :: "sda_pin \<Rightarrow> nat \<Rightarrow> u8 \<Rightarrow> trace \<Rightarrow> trace \<times> u8" where
  "read_bits pin 0 data tr = (tr, data)"
| "read_bits pin (Suc i) data tr =
     (let tr1 = tr @ I2C_SCL_HIGH @ [Delay_Us 5];
          data1 = (if pin tr1 then push_bit 1 data OR 1 else push_bit 1 data) in
      read_bits pin i data1 (tr1 @ I2C_SCL_LOW))"

definition I2C_read :: "sda_pin \<Rightarrow> trace \<Rightarrow> bool \<Rightarrow> trace \<times> u8" where
  "I2C_read pin tr ack =
     (case read_bits pin 8 0 (tr @ I2C_SDA_HIGH) of (tr1, data) \<Rightarrow>
        (tr1 @ (if ack then I2C_SDA_LOW else I2C_SDA_HIGH) @ I2C_CLOCKOUT @ I2C_SDA_HIGH, data))"

definition I2C_read_reg :: "sda_pin \<Rightarrow> trace \<Rightarrow> u8 \<Rightarrow> u8 \<Rightarrow> trace \<times> u8" where
  "I2C_read_reg pin tr addr reg =
     (case I2C_read pin (tr @ I2C_start (push_bit 1 addr) @ I2C_write reg @ [Delay_Us 50] @
              I2C_start (push_bit 1 addr OR 1)) False of
        (tr1, data) \<Rightarrow> (tr1 @ I2C_stop, data))"

text \<open>
  The loop of \<open>I2C_read_regs\<close>: \<open>i\<close> counts down from \<open>len\<close>; every byte but the last is
  acknowledged.
\<close>

fun read_regs_loop :: "sda_pin \<Rightarrow> nat \<Rightarrow> trace \<Rightarrow> trace \<times> bytes" where
  "read_regs_loop pin 0 tr = (tr, [])"
| "read_regs_loop pin (Suc n) tr =
     (case I2C_read pin tr (n > 0) of (tr1, b) \<Rightarrow>
        (case read_regs_loop pin n tr1 of (tr2, bs) \<Rightarrow> (tr2, b # bs)))"

definition I2C_read_regs :: "sda_pin \<Rightarrow> trace \<Rightarrow> u8 \<Rightarrow> u8 \<Rightarrow> nat \<Rightarrow> trace \<times> bytes" where
  "I2C_read_regs pin tr addr reg len =
     (case read_regs_loop pin len (tr @ I2C_start (push_bit 1 addr) @ I2C_write reg @ [Delay_Us 50] @
              I2C_start (push_bit 1 addr OR 1)) of
        (tr1, buf) \<Rightarrow> (tr1 @ I2C_stop, buf))"

definition I2C_read_reg16 :: "sda_pin \<Rightarrow> trace \<Rightarrow> u8 \<Rightarrow> u8 \<Rightarrow> trace \<times> u16" where
  "I2C_read_reg16 pin tr addr reg =
     (case I2C_read pin (tr @ I2C_start (push_bit 1 addr) @ I2C_write reg @ [Delay_Us 50] @
              I2C_start (push_bit 1 addr OR 1)) True of
        (tr1, lsb) \<Rightarrow>
          (case I2C_read pin tr1 False of
             (tr2, msb) \<Rightarrow> (tr2 @ I2C_stop, push_bit 8 (ucast msb) OR ucast lsb)))"

section \<open>The register devices at the other end\<close>

text \<open>
  Bits are sampled most significant first; the ninth is the acknowledge.  A register device
  has a register pointer that the first written byte sets and that advances after every
  transferred byte.
\<close>

datatype phase =
    Idle
  | Addr "bool list"
  | RegSel u8 "bool list"
  | Recv u8 u8 "bool list"
  | Send u8 u8 "bool list"

type_synonym devices = "u8 \<Rightarrow> (u8 \<Rightarrow> u8) option"

record bus =
  scl :: bool
  sda :: bool
  phase :: phase
  pointer :: "u8 \<Rightarrow> u8"
  devs :: devices

definition byte_of :: "bool list \<Rightarrow> u8" where
  "byte_of bs = foldl (\<lambda>v b. push_bit 1 v OR (if b then 1 else 0)) 0 (take 8 bs)"

definition sample :: "bool \<Rightarrow> phase \<Rightarrow> phase" where
  "sample b p = (case p of
     Idle \<Rightarrow> Idle
   | Addr bs \<Rightarrow> Addr (bs @ [b])
   | RegSel a bs \<Rightarrow> RegSel a (bs @ [b])
   | Recv a r bs \<Rightarrow> Recv a r (bs @ [b])
   | Send a r bs \<Rightarrow> Send a r (bs @ [b]))"

definition addressed :: "bus \<Rightarrow> u8 \<Rightarrow> phase" where
  "addressed s b = (let a = drop_bit 1 b in
     if devs s a = None then Idle
     else if b AND 1 = 0 then RegSel a [] else Send a (pointer s a) [])"

text \<open>What the falling edge after the ninth bit does.\<close>

definition byte_done :: "bus \<Rightarrow> bus" where
  "byte_done s = (case phase s of
     Idle \<Rightarrow> s
   | Addr bs \<Rightarrow> if length bs < 9 then s else s\<lparr>phase := addressed s (byte_of bs)\<rparr>
   | RegSel a bs \<Rightarrow> if length bs < 9 then s
       else s\<lparr>pointer := (pointer s)(a := byte_of bs), phase := Recv a (byte_of bs) []\<rparr>
   | Recv a r bs \<Rightarrow> if length bs < 9 then s
       else s\<lparr>devs := (devs s)(a := map_option (\<lambda>f. f(r := byte_of bs)) (devs s a)),
              pointer := (pointer s)(a := r + 1), phase := Recv a (r + 1) []\<rparr>
   | Send a r bs \<Rightarrow> if length bs < 9 then s
       else s\<lparr>pointer := (pointer s)(a := r + 1),
              phase := (if bs ! 8 then Idle else Send a (r + 1) [])\<rparr>)"

fun bus_step :: "bus \<Rightarrow> line_op \<Rightarrow> bus" where
  "bus_step s SDA_HIGH =
     (if scl s \<and> \<not> sda s then s\<lparr>sda := True, phase := Idle\<rparr> else s\<lparr>sda := True\<rparr>)"
| "bus_step s SDA_LOW =
     (if scl s \<and> sda s then s\<lparr>sda := False, phase := Addr []\<rparr> else s\<lparr>sda := False\<rparr>)"
| "bus_step s SCL_HIGH =
     (if scl s then s else s\<lparr>scl := True, phase := sample (sda s) (phase s)\<rparr>)"
| "bus_step s SCL_LOW = (if scl s then byte_done (s\<lparr>scl := False\<rparr>) else s)"
| "bus_step s (Delay_Us n) = s"

definition bus_run :: "bus \<Rightarrow> trace \<Rightarrow> bus" where
  "bus_run s tr = foldl bus_step s tr"

text \<open>
  The level the master reads: a sending device drives the bit it is shifting, otherwise the
  pull-up keeps the line high unless the master pulls it down.
\<close>

definition sda_level :: "bus \<Rightarrow> bool" where
  "sda_level s = (sda s \<and> (case phase s of
     Send a r bs \<Rightarrow> scl s \<and> bs \<noteq> [] \<and> length bs \<le> 8 \<longrightarrow>
       (case devs s a of None \<Rightarrow> True | Some f \<Rightarrow> bit (f r) (8 - length bs))
   | _ \<Rightarrow> True))"

definition bus_pin :: "bus \<Rightarrow> sda_pin" where
  "bus_pin s tr = sda_level (bus_run s tr)"

definition ready :: "bus \<Rightarrow> bool" where
  "ready s \<longleftrightarrow> scl s \<and> sda s \<and> phase s = Idle"

lemma bus_run_append: "bus_run s (x @ y) = bus_run (bus_run s x) y"
  by (simp add: bus_run_def)

lemma bus_run_Nil: "bus_run s [] = s"
  by (simp add: bus_run_def)

lemma bus_run_Cons: "bus_run s (x # y) = bus_run (bus_step s x) y"
  by (simp add: bus_run_def)

lemmas line_defs = I2C_SDA_HIGH_def I2C_SDA_LOW_def I2C_SCL_HIGH_def I2C_SCL_LOW_def I2C_CLOCKOUT_def

text \<open>One bit clocked out while the clock is low.\<close>

definition put_bit :: "bool \<Rightarrow> trace" where
  "put_bit b = (if b then I2C_SDA_HIGH else I2C_SDA_LOW) @ I2C_CLOCKOUT"

lemma run_put_bit:
  "\<not> scl s \<Longrightarrow> bus_run s (put_bit b) = byte_done (s\<lparr>sda := b, phase := sample b (phase s)\<rparr>)"
  by (simp add: put_bit_def line_defs bus_run_Nil bus_run_Cons) (cases s; simp)


section \<open>Bytes on the wire\<close>

text \<open>The phases that collect bits behave alike until the ninth.\<close>

definition collects :: "(bool list \<Rightarrow> phase) \<Rightarrow> bool" where
  "collects c \<longleftrightarrow> c = Addr \<or> (\<exists>a. c = RegSel a) \<or> (\<exists>a r. c = Recv a r) \<or> (\<exists>a r. c = Send a r)"

lemma collectsI [simp]: "collects Addr" "collects (RegSel a)" "collects (Recv a r)" "collects (Send a r)"
  by (auto simp: collects_def)

lemma collects_sample: "collects c \<Longrightarrow> sample b (c xs) = c (xs @ [b])"
  by (auto simp: collects_def sample_def)

lemma collects_wait: "collects c \<Longrightarrow> phase s = c xs \<Longrightarrow> length xs < 9 \<Longrightarrow> byte_done s = s"
  by (auto simp: collects_def byte_done_def)

lemma run_bits:
  assumes "collects c" and "\<not> scl s" and "phase s = c xs" and "length xs + length bs \<le> 8"
  shows "bus_run s (concat (map put_bit bs)) =
    s\<lparr>sda := (if bs = [] then sda s else last bs), phase := c (xs @ bs)\<rparr>"
  using assms(2-4)
proof (induction bs arbitrary: s xs)
  case Nil
  then show ?case by (simp add: bus_run_Nil)
next
  case (Cons b bs)
  let ?s = "s\<lparr>sda := b, phase := c (xs @ [b])\<rparr>"
  have "bus_run s (put_bit b) = ?s"
    using Cons.prems collects_wait [OF assms(1), of ?s "xs @ [b]"]
    by (simp add: run_put_bit collects_sample [OF assms(1)])
  then show ?case
    using Cons.IH [of ?s "xs @ [b]"] Cons.prems by (simp add: bus_run_append)
qed

definition bits :: "u8 \<Rightarrow> bool list" where
  "bits d = map (bit d) [7, 6, 5, 4, 3, 2, 1, 0]"

lemma bits_length [simp]: "length (bits d) = 8"
  by (simp add: bits_def)

lemma and_0x80: "(x AND 0x80 \<noteq> 0) = bit (x :: u8) 7"
  using bit_iff_and_push_bit_not_eq_0 [of x 7] by (simp add: push_bit_of_1)

lemma write_bits_put:
  "i \<le> 8 \<Longrightarrow> write_bits i (push_bit (8 - i) d) = concat (map put_bit (drop (8 - i) (bits d)))"
proof (induction i)
  case 0
  then show ?case by simp
next
  case (Suc i)
  have "drop (8 - Suc i) (bits d) = bit d i # drop (8 - i) (bits d)"
    using Suc.prems Cons_nth_drop_Suc [of "8 - Suc i" "bits d"]
    by (auto simp: bits_def nth_Cons' Suc_diff_le less_Suc_eq_le numeral_eq_Suc le_Suc_eq)
  moreover have "bit (push_bit (8 - Suc i) d) 7 = bit d i"
    using Suc.prems by (simp add: bit_push_bit_iff)
  moreover have "push_bit 1 (push_bit (8 - Suc i) d) = push_bit (8 - i) d"
    using Suc.prems push_bit_push_bit [of 1 "8 - Suc i" d] by (simp only: Suc_diff_Suc less_eq_Suc_le Suc_eq_plus1_left [symmetric])
  ultimately show ?case using Suc by (simp add: and_0x80 put_bit_def)
qed

lemma write_put: "I2C_write d = concat (map put_bit (bits d)) @ put_bit True"
  using write_bits_put [of 8 d] by (simp add: I2C_write_def put_bit_def)

lemma bit_shl1: "bit (push_bit 1 x) k = (0 < k \<and> k < 8 \<and> bit (x :: u8) (k - 1))"
proof -
  have "bit (push_bit m x) k = (m \<le> k \<and> k < 8 \<and> bit x (k - m))" for m
    by (auto simp: bit_simps dest: bit_imp_le_length)
  from this [of 1] show ?thesis by (auto simp del: push_bit_Suc)
qed

lemma horner_bit:
  fixes d :: u8
  shows "push_bit 1 (drop_bit (Suc n) d) OR (if bit d n then 1 else 0) = drop_bit n d"
proof -
  have "bit (if bit d n then 1 else 0 :: u8) k = (bit d n \<and> k = 0)" for k
    by (simp add: bit_1_iff)
  then have "bit (push_bit 1 (drop_bit (Suc n) d) OR (if bit d n then 1 else 0)) k = bit (drop_bit n d) k" if "k < 8" for k
    using that by (cases k) (simp_all only: bit_or_iff bit_shl1 bit_drop_bit_eq, auto)
  then show ?thesis by (intro bit_word_eqI) simp
qed

lemma byte_of_bits: "byte_of (bits d @ x) = d"
proof -
  have "drop_bit 8 d = 0" by (rule bit_word_eqI) (auto simp: bit_simps)
  then have "push_bit 1 0 OR (if bit d 7 then 1 else 0) = drop_bit 7 d" using horner_bit [of 7 d] by simp
  moreover have "push_bit 1 (drop_bit 7 d) OR (if bit d 6 then 1 else 0) = drop_bit 6 d"
    "push_bit 1 (drop_bit 6 d) OR (if bit d 5 then 1 else 0) = drop_bit 5 d"
    "push_bit 1 (drop_bit 5 d) OR (if bit d 4 then 1 else 0) = drop_bit 4 d"
    "push_bit 1 (drop_bit 4 d) OR (if bit d 3 then 1 else 0) = drop_bit 3 d"
    "push_bit 1 (drop_bit 3 d) OR (if bit d 2 then 1 else 0) = drop_bit 2 d"
    "push_bit 1 (drop_bit 2 d) OR (if bit d 1 then 1 else 0) = drop_bit 1 d"
    "push_bit 1 (drop_bit 1 d) OR (if bit d 0 then 1 else 0) = d"
    using horner_bit [of 6 d] horner_bit [of 5 d] horner_bit [of 4 d] horner_bit [of 3 d]
      horner_bit [of 2 d] horner_bit [of 1 d] horner_bit [of 0 d]
    by (simp_all only: eval_nat_numeral BitM.simps One_nat_def drop_bit_0 id_apply)
  ultimately show ?thesis by (simp only: byte_of_def bits_def list.map take_Suc_Cons foldl.simps append_Cons numeral_nat take0 take_0)
qed

lemma run_write:
  assumes "collects c" and "\<not> scl s" and "phase s = c []"
  shows "bus_run s (I2C_write d) = byte_done (s\<lparr>sda := True, phase := c (bits d @ [True])\<rparr>)"
  using run_bits [OF assms, of "bits d"] assms
  by (simp add: write_put bus_run_append run_put_bit collects_sample)

lemma run_write_idle:
  assumes "\<not> scl s" and "phase s = Idle"
  shows "bus_run s (I2C_write d) = s\<lparr>sda := True\<rparr>"
proof -
  have "bus_run s (concat (map put_bit bs)) = s\<lparr>sda := (if bs = [] then sda s else last bs)\<rparr>" for bs
    using assms
  proof (induction bs arbitrary: s)
    case Nil
    then show ?case by (simp add: bus_run_Nil)
  next
    case (Cons b bs)
    have "bus_run s (put_bit b) = s\<lparr>sda := b\<rparr>"
      using Cons.prems by (simp add: run_put_bit sample_def byte_done_def)
    then show ?case using Cons.IH [of "s\<lparr>sda := b\<rparr>"] Cons.prems by (simp add: bus_run_append)
  qed
  then show ?thesis
    using assms by (simp add: write_put bus_run_append run_put_bit sample_def byte_done_def)
qed


section \<open>Transactions\<close>

lemma run_start: "bus_run s (I2C_start b) = s\<lparr>scl := False, sda := True, phase := addressed s b\<rparr>"
proof -
  have "bus_run s (I2C_SDA_HIGH @ I2C_SCL_HIGH @ [Delay_Us 5] @ I2C_SDA_LOW @ [Delay_Us 5] @ I2C_SCL_LOW) =
      s\<lparr>scl := False, sda := False, phase := Addr []\<rparr>"
    by (simp add: line_defs bus_run_Nil bus_run_Cons byte_done_def)
  then have "bus_run s (I2C_start b) =
      byte_done (s\<lparr>scl := False, sda := True, phase := Addr (bits b @ [True])\<rparr>)"
    using run_write [of Addr "s\<lparr>scl := False, sda := False, phase := Addr []\<rparr>" b]
    by (simp add: I2C_start_def bus_run_append [symmetric])
      (simp add: bus_run_append bus_run_Cons)
  then show ?thesis by (simp add: byte_done_def byte_of_bits addressed_def Let_def)
qed

lemma run_stop: "\<not> scl s \<Longrightarrow> bus_run s I2C_stop = s\<lparr>scl := True, sda := True, phase := Idle\<rparr>"
  by (simp add: I2C_stop_def line_defs bus_run_Nil bus_run_Cons)

lemma addr_low:
  assumes "a < 128"
  shows "drop_bit 1 (push_bit 1 a) = (a :: u8)" and "drop_bit 1 (push_bit 1 a OR 1) = a"
proof -
  have top: "\<not> bit a 7" using assms by (simp add: bit_iff_odd div_word_less)
  have "bit (drop_bit 1 (push_bit 1 a)) k = bit a k" "bit (drop_bit 1 (push_bit 1 a OR 1)) k = bit a k" if "k < 8" for k
    using top that by (simp_all only: bit_drop_bit_eq comp_apply bit_or_iff bit_shl1 bit_1_iff) (cases "k = 7"; force)+
  then show "drop_bit 1 (push_bit 1 a) = a" "drop_bit 1 (push_bit 1 a OR 1) = a"
    by (auto intro!: bit_word_eqI)
qed

lemma addr_dir: "(push_bit 1 a :: u8) AND 1 = 0" "(push_bit 1 a OR 1 :: u8) AND 1 \<noteq> 0"
proof -
  have "x AND 1 = 0 \<longleftrightarrow> \<not> bit x 0" for x :: u8
    by (simp add: and_one_eq bit_0 even_iff_mod_2_eq_zero)
  then show "(push_bit 1 a :: u8) AND 1 = 0" "(push_bit 1 a OR 1 :: u8) AND 1 \<noteq> 0"
    by (simp_all only: bit_or_iff bit_shl1 bit_1_iff) simp_all
qed

lemma run_write_reg:
  assumes "a < 128"
  shows "\<exists>p. bus_run s (I2C_write_reg tr a reg dat) =
    (bus_run s tr)\<lparr>scl := True, sda := True, phase := Idle, pointer := p,
      devs := (devs (bus_run s tr))(a := map_option (\<lambda>f. f(reg := dat)) (devs (bus_run s tr) a))\<rparr>"
proof -
  let ?t = "bus_run s tr"
  show ?thesis
  proof (cases "devs ?t a")
    case None
    then show ?thesis using addr_low [OF assms] addr_dir [of a]
      by (intro exI [of _ "pointer ?t"])
        (simp add: I2C_write_reg_def bus_run_append run_start addressed_def run_write_idle run_stop fun_upd_idem)
  next
    case (Some f)
    then show ?thesis using addr_low [OF assms] addr_dir [of a]
      by (intro exI [of _ "(pointer ?t)(a := reg + 1)"])
        (simp add: I2C_write_reg_def bus_run_append run_start addressed_def run_write [of "RegSel a"]
          run_write [of "Recv a reg"] byte_done_def byte_of_bits run_stop)
  qed
qed


text \<open>Eight bits read from a device, and from a line nobody drives.\<close>

definition shift_in :: "u8 \<Rightarrow> bool list \<Rightarrow> u8" where
  "shift_in v bs = foldl (\<lambda>v b. push_bit 1 v OR (if b then 1 else 0)) v bs"

lemma shift_in_byte: "shift_in 0 (map (bit d) (rev [0..<8])) = d"
proof -
  have "map (bit d) (rev [0..<8]) = bits d" by (simp add: bits_def upt_rec numeral_eq_Suc)
  then show ?thesis using byte_of_bits [of d "[]"] by (simp add: byte_of_def shift_in_def)
qed

lemma shift_in_ones: "shift_in 0 (replicate 8 True) = 0xFF"
proof -
  have "map (bit (0xFF :: u8)) (rev [0..<8]) = replicate 8 True" by code_simp
  then show ?thesis using shift_in_byte [of "0xFF"] by simp
qed


lemma read_bits_device:
  assumes "bus_run s0 tr = s" and "\<not> scl s" and "sda s" and "phase s = Send a r bs"
    and "devs s a = Some f" and "length bs + n = 8"
  shows "\<exists>tr'. read_bits (bus_pin s0) n v tr = (tr', shift_in v (map (bit (f r)) (rev [0..<n]))) \<and>
    bus_run s0 tr' = s\<lparr>phase := Send a r (bs @ replicate n True)\<rparr>"
  using assms
proof (induction n arbitrary: s tr bs v)
  case 0
  then show ?case by (simp add: shift_in_def)
next
  case (Suc n)
  let ?s1 = "s\<lparr>scl := True, phase := Send a r (bs @ [True])\<rparr>"
  let ?s2 = "s\<lparr>phase := Send a r (bs @ [True])\<rparr>"
  let ?tr1 = "tr @ I2C_SCL_HIGH @ [Delay_Us 5]"
  have 1: "bus_run s0 ?tr1 = ?s1"
    using Suc.prems by (simp add: bus_run_append line_defs bus_run_Cons bus_run_Nil sample_def)
  have 2: "bus_run s0 (?tr1 @ I2C_SCL_LOW) = ?s2"
    using Suc.prems 1
    by (simp add: bus_run_append line_defs bus_run_Cons bus_run_Nil byte_done_def del: append_assoc)
  have len: "8 - Suc (length bs) = n" using Suc.prems(6) by simp
  then have 3: "bus_pin s0 ?tr1 = bit (f r) n"
    unfolding bus_pin_def 1 using Suc.prems by (simp add: sda_level_def)
  obtain tr' where "read_bits (bus_pin s0) n (push_bit 1 v OR (if bit (f r) n then 1 else 0)) (?tr1 @ I2C_SCL_LOW) =
        (tr', shift_in (push_bit 1 v OR (if bit (f r) n then 1 else 0)) (map (bit (f r)) (rev [0..<n])))"
      "bus_run s0 tr' = ?s2\<lparr>phase := Send a r ((bs @ [True]) @ replicate n True)\<rparr>"
    using Suc.IH [OF 2, where bs = "bs @ [True]" and v = "push_bit 1 v OR (if bit (f r) n then 1 else 0)"] Suc.prems
    by auto
  with 3 show ?case
    by (intro exI [of _ tr']) (auto simp: Let_def shift_in_def replicate_append_same)
qed

lemma read_bits_open:
  assumes "bus_run s0 tr = s" and "\<not> scl s" and "sda s" and "phase s = Idle"
  shows "\<exists>tr'. read_bits (bus_pin s0) n v tr = (tr', shift_in v (replicate n True)) \<and> bus_run s0 tr' = s"
  using assms
proof (induction n arbitrary: tr v)
  case 0
  then show ?case by (simp add: shift_in_def)
next
  case (Suc n)
  let ?tr1 = "tr @ I2C_SCL_HIGH @ [Delay_Us 5]"
  have 1: "bus_run s0 ?tr1 = s\<lparr>scl := True\<rparr>"
    using Suc.prems by (simp add: bus_run_append line_defs bus_run_Cons bus_run_Nil sample_def)
  have 2: "bus_run s0 (?tr1 @ I2C_SCL_LOW) = s"
    using Suc.prems 1
    by (simp add: bus_run_append line_defs bus_run_Cons bus_run_Nil byte_done_def del: append_assoc)
  have 3: "bus_pin s0 ?tr1" unfolding bus_pin_def 1 using Suc.prems by (simp add: sda_level_def)
  obtain tr' where "read_bits (bus_pin s0) n (push_bit 1 v OR 1) (?tr1 @ I2C_SCL_LOW) =
        (tr', shift_in (push_bit 1 v OR 1) (replicate n True))" "bus_run s0 tr' = s"
    using Suc.IH [OF 2] Suc.prems by auto
  with 3 show ?case by (intro exI [of _ tr']) (auto simp: Let_def shift_in_def)
qed

text \<open>One byte read with an acknowledge: the device moves on, or falls silent.\<close>

lemma read_device:
  assumes "\<not> scl (bus_run s0 tr)" and "phase (bus_run s0 tr) = Send a r []"
    and "devs (bus_run s0 tr) a = Some f"
  shows "\<exists>tr'. I2C_read (bus_pin s0) tr ack = (tr', f r) \<and>
    bus_run s0 tr' = (bus_run s0 tr)\<lparr>sda := True, pointer := (pointer (bus_run s0 tr))(a := r + 1),
      phase := (if ack then Send a (r + 1) [] else Idle)\<rparr>"
proof -
  let ?s = "(bus_run s0 tr)\<lparr>sda := True\<rparr>"
  have s: "bus_run s0 (tr @ I2C_SDA_HIGH) = ?s"
    using assms by (simp add: bus_run_append line_defs bus_run_Cons bus_run_Nil)
  obtain t where t: "read_bits (bus_pin s0) 8 0 (tr @ I2C_SDA_HIGH) = (t, f r)"
    "bus_run s0 t = ?s\<lparr>phase := Send a r (replicate 8 True)\<rparr>"
    using read_bits_device [OF s, where a = a and r = r and bs = "[]" and f = f and n = 8 and v = 0] assms by (auto simp: shift_in_byte)
  show ?thesis unfolding I2C_read_def t(1)
    using assms by (simp add: bus_run_append t(2) line_defs bus_run_Cons bus_run_Nil sample_def byte_done_def nth_append)
qed

lemma read_open:
  assumes "\<not> scl (bus_run s0 tr)" and "phase (bus_run s0 tr) = Idle"
  shows "\<exists>tr'. I2C_read (bus_pin s0) tr ack = (tr', 0xFF) \<and> bus_run s0 tr' = (bus_run s0 tr)\<lparr>sda := True\<rparr>"
proof -
  let ?s = "(bus_run s0 tr)\<lparr>sda := True\<rparr>"
  have s: "bus_run s0 (tr @ I2C_SDA_HIGH) = ?s"
    using assms by (simp add: bus_run_append line_defs bus_run_Cons bus_run_Nil)
  obtain t where t: "read_bits (bus_pin s0) 8 0 (tr @ I2C_SDA_HIGH) = (t, 0xFF)" "bus_run s0 t = ?s"
    using read_bits_open [OF s, where n = 8 and v = 0] assms by (auto simp: shift_in_ones)
  show ?thesis unfolding I2C_read_def t(1)
    using assms by (simp add: bus_run_append t(2) line_defs bus_run_Cons bus_run_Nil sample_def byte_done_def)
qed


definition reg_value :: "devices \<Rightarrow> u8 \<Rightarrow> u8 \<Rightarrow> u8" where
  "reg_value d a r = (case d a of None \<Rightarrow> 0xFF | Some f \<Rightarrow> f r)"

text \<open>The part every read shares: the register pointer is set and the device turned around.\<close>

lemma run_select:
  assumes "a < 128"
  shows "\<exists>p. bus_run s0 (tr @ I2C_start (push_bit 1 a) @ I2C_write reg @ [Delay_Us 50] @ I2C_start (push_bit 1 a OR 1)) =
    (bus_run s0 tr)\<lparr>scl := False, sda := True, pointer := p,
      phase := (if devs (bus_run s0 tr) a = None then Idle else Send a reg [])\<rparr>"
proof -
  let ?t = "bus_run s0 tr"
  show ?thesis
  proof (cases "devs ?t a")
    case None
    then show ?thesis using addr_low [OF assms] addr_dir [of a]
      by (intro exI [of _ "pointer ?t"])
        (simp add: bus_run_append run_start addressed_def run_write_idle bus_run_Cons bus_run_Nil)
  next
    case (Some f)
    then show ?thesis using addr_low [OF assms] addr_dir [of a]
      by (intro exI [of _ "(pointer ?t)(a := reg)"])
        (simp add: bus_run_append run_start addressed_def run_write [of "RegSel a"] bus_run_Cons bus_run_Nil
          byte_done_def byte_of_bits)
  qed
qed

lemma read_reg_bus:
  assumes "a < 128"
  shows "\<exists>tr' p. I2C_read_reg (bus_pin s0) tr a reg = (tr', reg_value (devs (bus_run s0 tr)) a reg) \<and>
    bus_run s0 tr' = (bus_run s0 tr)\<lparr>scl := True, sda := True, phase := Idle, pointer := p\<rparr>"
proof -
  let ?t = "bus_run s0 tr"
  let ?tr = "tr @ I2C_start (push_bit 1 a) @ I2C_write reg @ [Delay_Us 50] @ I2C_start (push_bit 1 a OR 1)"
  obtain p where p: "bus_run s0 ?tr = ?t\<lparr>scl := False, sda := True, pointer := p,
      phase := (if devs ?t a = None then Idle else Send a reg [])\<rparr>"
    using run_select [OF assms] by blast
  show ?thesis
  proof (cases "devs ?t a")
    case None
    obtain t where "I2C_read (bus_pin s0) ?tr False = (t, 0xFF)"
        "bus_run s0 t = ?t\<lparr>scl := False, sda := True, pointer := p, phase := Idle\<rparr>"
      using read_open [of s0 ?tr False] p None by auto
    with None show ?thesis
      by (intro exI [of _ "t @ I2C_stop"] exI [of _ p])
        (simp add: I2C_read_reg_def reg_value_def bus_run_append run_stop)
  next
    case (Some f)
    obtain t q where "I2C_read (bus_pin s0) ?tr False = (t, f reg)"
        "bus_run s0 t = ?t\<lparr>scl := False, sda := True, pointer := q, phase := Idle\<rparr>"
      using read_device [of s0 ?tr a reg f False] p Some by auto
    with Some show ?thesis
      by (intro exI [of _ "t @ I2C_stop"] exI [of _ q])
        (simp add: I2C_read_reg_def reg_value_def bus_run_append run_stop)
  qed
qed


lemma read_regs_loop_device:
  assumes "\<not> scl (bus_run s0 tr)" and "phase (bus_run s0 tr) = Send a r []"
    and "devs (bus_run s0 tr) a = Some f"
  shows "\<exists>tr' b p ph. read_regs_loop (bus_pin s0) n tr = (tr', map (\<lambda>i. f (r + of_nat i)) [0..<n]) \<and>
    bus_run s0 tr' = (bus_run s0 tr)\<lparr>sda := b, phase := ph, pointer := p\<rparr>"
  using assms
proof (induction n arbitrary: tr r)
  case 0
  then show ?case by (intro exI [of _ tr] exI [of _ "sda (bus_run s0 tr)"] exI [of _ "pointer (bus_run s0 tr)"]
        exI [of _ "phase (bus_run s0 tr)"]) simp
next
  case (Suc n)
  obtain t where t: "I2C_read (bus_pin s0) tr (n > 0) = (t, f r)"
    "bus_run s0 t = (bus_run s0 tr)\<lparr>sda := True, phase := (if n > 0 then Send a (r + 1) [] else Idle),
       pointer := (pointer (bus_run s0 tr))(a := r + 1)\<rparr>"
    using read_device [of s0 tr a r f "n > 0"] Suc.prems by auto
  show ?case
  proof (cases "n = 0")
    case True
    with t show ?thesis by auto
  next
    case False
    obtain t' b p ph where t': "read_regs_loop (bus_pin s0) n t = (t', map (\<lambda>i. f (r + 1 + of_nat i)) [0..<n])"
      "bus_run s0 t' = (bus_run s0 t)\<lparr>sda := b, phase := ph, pointer := p\<rparr>"
      using Suc.IH [of t "r + 1"] Suc.prems t(2) False by auto
    have "map (\<lambda>i. f (r + of_nat i)) [0..<Suc n] = f r # map (\<lambda>i. f (r + 1 + of_nat i)) [0..<n]"
      by (simp add: upt_conv_Cons map_Suc_upt [symmetric] o_def add.assoc del: upt_Suc)
    with t t' show ?thesis
      by (intro exI [of _ t'] exI [of _ b] exI [of _ p] exI [of _ ph]) (simp del: upt_Suc)
  qed
qed

lemma read_regs_bus:
  assumes "a < 128" and "devs (bus_run s0 tr) a = Some f"
  shows "\<exists>tr' p. I2C_read_regs (bus_pin s0) tr a reg len = (tr', map (\<lambda>i. f (reg + of_nat i)) [0..<len]) \<and>
    bus_run s0 tr' = (bus_run s0 tr)\<lparr>scl := True, sda := True, phase := Idle, pointer := p\<rparr>"
proof -
  let ?t = "bus_run s0 tr"
  let ?tr = "tr @ I2C_start (push_bit 1 a) @ I2C_write reg @ [Delay_Us 50] @ I2C_start (push_bit 1 a OR 1)"
  obtain p where p: "bus_run s0 ?tr = ?t\<lparr>scl := False, sda := True, pointer := p, phase := Send a reg []\<rparr>"
    using run_select [OF assms(1), of s0 tr reg] assms(2) by auto
  obtain t b q ph where "read_regs_loop (bus_pin s0) len ?tr = (t, map (\<lambda>i. f (reg + of_nat i)) [0..<len])"
      "bus_run s0 t = (bus_run s0 ?tr)\<lparr>sda := b, phase := ph, pointer := q\<rparr>"
    using read_regs_loop_device [of s0 ?tr a reg f len] p assms(2) by auto
  then show ?thesis unfolding p
    by (intro exI [of _ "t @ I2C_stop"] exI [of _ q]) (simp add: I2C_read_regs_def bus_run_append run_stop)
qed

section \<open>The bus as a register file\<close>

text \<open>
  What a driver needs of a register bus: a read returns the register and changes none, a write
  sets one register of one device, an absent device reads as 0xFF and ignores writes.
\<close>

locale register_bus =
  fixes rd :: "'t \<Rightarrow> u8 \<Rightarrow> u8 \<Rightarrow> 't \<times> u8"
    and wr :: "'t \<Rightarrow> u8 \<Rightarrow> u8 \<Rightarrow> u8 \<Rightarrow> 't"
    and devices_of :: "'t \<Rightarrow> devices"
  assumes rd_value: "a < 128 \<Longrightarrow> snd (rd t a r) = reg_value (devices_of t) a r"
    and rd_keeps: "a < 128 \<Longrightarrow> devices_of (fst (rd t a r)) = devices_of t"
    and wr_sets: "a < 128 \<Longrightarrow>
      devices_of (wr t a r v) = (devices_of t)(a := map_option (\<lambda>f. f(r := v)) (devices_of t a))"
begin

lemma read_written:
  assumes "a < 128" and "b < 128"
  shows "snd (rd (wr t a reg v) b r) =
    (if b = a \<and> r = reg \<and> devices_of t a \<noteq> None then v else reg_value (devices_of t) b r)"
  using assms by (auto simp: rd_value wr_sets reg_value_def split: option.splits)

lemma writes_set:
  assumes "a < 128"
  shows "devices_of (foldl (\<lambda>t (r, v). wr t a r v) t ws) =
    (devices_of t)(a := map_option (\<lambda>f. foldl (\<lambda>f (r, v). f(r := v)) f ws) (devices_of t a))"
proof (induction ws arbitrary: t)
  case Nil
  then show ?case by (cases "devices_of t a") auto
next
  case (Cons w ws)
  obtain r v where w: "w = (r, v)" by (cases w)
  show ?case
    using Cons.IH [of "wr t a r v"] by (cases "devices_of t a") (simp_all add: w wr_sets [OF assms] fun_upd_same del: fun_upd_apply)
qed

end

interpretation i2c: register_bus "I2C_read_reg (bus_pin s)" I2C_write_reg "\<lambda>tr. devs (bus_run s tr)" for s
proof unfold_locales
  fix a t r v
  assume a: "a < (128 :: u8)"
  show "snd (I2C_read_reg (bus_pin s) t a r) = reg_value (devs (bus_run s t)) a r"
    "devs (bus_run s (fst (I2C_read_reg (bus_pin s) t a r))) = devs (bus_run s t)"
    using read_reg_bus [OF a, of s t r] by auto
  show "devs (bus_run s (I2C_write_reg t a r v)) =
      (devs (bus_run s t))(a := map_option (\<lambda>f. f(r := v)) (devs (bus_run s t) a))"
    using run_write_reg [OF a, of s t r v] by auto
qed


definition idle_bus :: bus where
  "idle_bus = \<lparr>scl = True, sda = True, phase = Idle, pointer = (\<lambda>_. 0), devs = (\<lambda>a. if a = 0x5C then Some (\<lambda>r. r + 1) else None)\<rparr>"


text \<open>
  A burst read of \<open>len\<close> registers of a present device returns the registers from \<open>reg\<close> on,
  in order and wrapping at 256, leaves every register as it was and the bus idle.
\<close>

theorem i2c_burst:
  assumes "a < 128" and "devs (bus_run s tr) a = Some f"
  shows "\<exists>tr'. I2C_read_regs (bus_pin s) tr a reg len = (tr', map (\<lambda>i. f (reg + of_nat i)) [0..<len]) \<and>
    devs (bus_run s tr') = devs (bus_run s tr) \<and> ready (bus_run s tr')"
  using read_regs_bus [OF assms] by (fastforce simp: ready_def)

theorem i2c_burst_witness:
  "snd (I2C_read_regs (bus_pin idle_bus) [] 0x5C 0xFF 3) = [0, 1, 2]"
proof -
  have "devs (bus_run idle_bus []) 0x5C = Some (\<lambda>r. r + 1)" by (simp add: idle_bus_def bus_run_Nil)
  from i2c_burst [OF _ this, of "0xFF" 3] show ?thesis by (auto simp: upt_rec)
qed

end
