(* ===== verification/Husb238.thy ===== *)
theory Husb238
  imports Ch32_I2c
begin

text \<open>
  The USB-C input controller (\<open>husb238.c\<close>): decoding the negotiated contract, reading the
  source capabilities, choosing the power profile, and the negotiation block of the main loop
  (\<open>main.c\<close>) that requests the chosen profile once per attachment.  Every register access goes
  over the I2C master of \<open>Ch32_I2c\<close>; \<open>pin\<close> is the SDA input and \<open>tr\<close> the line history.
\<close>

section \<open>Registers and decoders\<close>

definition HUSB238_I2C_ADDR :: u8 where "HUSB238_I2C_ADDR = 0x08"
definition HUSB238_REG_PD_STATUS0 :: u8 where "HUSB238_REG_PD_STATUS0 = 0x00"
definition HUSB238_REG_PD_STATUS1 :: u8 where "HUSB238_REG_PD_STATUS1 = 0x01"
definition HUSB238_REG_SRC_PDO :: u8 where "HUSB238_REG_SRC_PDO = 0x08"
definition HUSB238_REG_GO_COMMAND :: u8 where "HUSB238_REG_GO_COMMAND = 0x09"
definition HUSB238_CMD_REQUEST_PDO :: u8 where "HUSB238_CMD_REQUEST_PDO = 0x01"
definition HUSB238_CMD_GET_SRC_CAP :: u8 where "HUSB238_CMD_GET_SRC_CAP = 0x04"
definition HUSB238_SEL_NONE :: u8 where "HUSB238_SEL_NONE = 0"

definition HUSB238_CURRENT_LUT_MA :: "u16 list" where
  "HUSB238_CURRENT_LUT_MA = [500, 700, 1000, 1250, 1500, 1750, 2000, 2250,
     2500, 2750, 3000, 3250, 3500, 4000, 4500, 5000]"

definition husb238_read_reg :: "sda_pin \<Rightarrow> trace \<Rightarrow> u8 \<Rightarrow> trace \<times> u8" where
  "husb238_read_reg pin tr reg = I2C_read_reg pin tr HUSB238_I2C_ADDR reg"

definition husb238_write_reg :: "trace \<Rightarrow> u8 \<Rightarrow> u8 \<Rightarrow> trace" where
  "husb238_write_reg tr reg val = I2C_write_reg tr HUSB238_I2C_ADDR reg val"

definition husb238_decode_voltage_mV :: "u8 \<Rightarrow> u16" where
  "husb238_decode_voltage_mV v_code =
     (if v_code = 1 then 5000 else if v_code = 2 then 9000 else if v_code = 3 then 12000
      else if v_code = 4 then 15000 else if v_code = 5 then 18000 else if v_code = 6 then 20000
      else 0)"

definition husb238_decode_current_mA :: "u8 \<Rightarrow> u16" where
  "husb238_decode_current_mA i_code = HUSB238_CURRENT_LUT_MA ! unat (i_code AND 0x0F)"

record husb238_data_t =
  attached :: bool
  v_code :: u8
  i_code :: u8
  last_response :: u8
  voltage_mV :: u16
  current_mA :: u16

definition husb238_decode :: "u8 \<Rightarrow> u8 \<Rightarrow> husb238_data_t" where
  "husb238_decode s0 s1 =
     (let v = drop_bit 4 (s0 AND 0xF0);
          i = s0 AND 0x0F;
          att = (s1 AND 0x40 \<noteq> 0 \<and> v \<ge> 1 \<and> v \<le> 6) in
      \<lparr>attached = att, v_code = v, i_code = i, last_response = drop_bit 3 (s1 AND 0x38),
       voltage_mV = (if att then husb238_decode_voltage_mV v else 0),
       current_mA = (if att then husb238_decode_current_mA i else 0)\<rparr>)"

definition husb238_read_all :: "sda_pin \<Rightarrow> trace \<Rightarrow> trace \<times> husb238_data_t" where
  "husb238_read_all pin tr =
     (case husb238_read_reg pin tr HUSB238_REG_PD_STATUS0 of (tr1, s0) \<Rightarrow>
        (case husb238_read_reg pin tr1 HUSB238_REG_PD_STATUS1 of (tr2, s1) \<Rightarrow>
           (tr2, husb238_decode s0 s1)))"

definition husb238_init :: "sda_pin \<Rightarrow> trace \<Rightarrow> trace" where
  "husb238_init pin tr = fst (husb238_read_reg pin tr HUSB238_REG_PD_STATUS0)"

section \<open>Source capabilities\<close>

definition HUSB238_PDO_COUNT :: nat where [simp]: "HUSB238_PDO_COUNT = 6"

definition HUSB238_PDO_MV :: "u16 list" where
  "HUSB238_PDO_MV = [5000, 9000, 12000, 15000, 18000, 20000]"

definition HUSB238_PDO_SEL :: "u8 list" where
  "HUSB238_PDO_SEL = [0x1, 0x2, 0x3, 0x8, 0x9, 0xA]"

definition HUSB238_PDO_REG :: "u8 list" where
  "HUSB238_PDO_REG = [0x02, 0x03, 0x04, 0x05, 0x06, 0x07]"

record husb238_src_caps_t =
  detected_mask :: u8
  caps_mA :: "u16 list"

fun caps_loop :: "sda_pin \<Rightarrow> nat \<Rightarrow> u8 list \<Rightarrow> trace \<Rightarrow> husb238_src_caps_t \<Rightarrow> trace \<times> husb238_src_caps_t" where
  "caps_loop pin i [] tr out = (tr, out)"
| "caps_loop pin i (reg # regs) tr out =
     (case husb238_read_reg pin tr reg of (tr1, b) \<Rightarrow>
        caps_loop pin (i + 1) regs tr1
          (out\<lparr>detected_mask := (if b AND 0x80 \<noteq> 0 then detected_mask out OR push_bit i 1 else detected_mask out),
               caps_mA := (caps_mA out)[i := husb238_decode_current_mA (b AND 0x0F)]\<rparr>))"

definition husb238_read_src_caps :: "sda_pin \<Rightarrow> trace \<Rightarrow> husb238_src_caps_t \<Rightarrow> trace \<times> husb238_src_caps_t" where
  "husb238_read_src_caps pin tr out = caps_loop pin 0 HUSB238_PDO_REG tr (out\<lparr>detected_mask := 0\<rparr>)"

section \<open>Choosing the profile\<close>

definition HUSB238_PREF_MV :: "u16 list" where
  "HUSB238_PREF_MV = [15000, 12000, 18000, 20000, 9000]"

definition HUSB238_POLICY_V_FLOOR_MV :: u16 where [simp]: "HUSB238_POLICY_V_FLOOR_MV = 9000"
definition HUSB238_POLICY_V_CAP_MV :: u16 where [simp]: "HUSB238_POLICY_V_CAP_MV = 20000"
definition HUSB238_POLICY_I_CAP_MA :: u16 where [simp]: "HUSB238_POLICY_I_CAP_MA = 5000"
definition HUSB238_POLICY_P_ENOUGH_MW :: u32 where [simp]: "HUSB238_POLICY_P_ENOUGH_MW = 45000"

fun idx_loop :: "nat \<Rightarrow> u16 list \<Rightarrow> u16 \<Rightarrow> int" where
  "idx_loop i [] v = -1"
| "idx_loop i (mv # mvs) v = (if mv = v then int i else idx_loop (i + 1) mvs v)"

definition husb238_idx_of_mV :: "u16 \<Rightarrow> int" where
  "husb238_idx_of_mV v_mV = idx_loop 0 HUSB238_PDO_MV v_mV"

definition husb238_slot_mW :: "husb238_src_caps_t \<Rightarrow> nat \<Rightarrow> u32" where
  "husb238_slot_mW caps idx =
     (let i_mA = caps_mA caps ! idx;
          i_mA = (if i_mA > HUSB238_POLICY_I_CAP_MA then HUSB238_POLICY_I_CAP_MA else i_mA) in
      ucast (HUSB238_PDO_MV ! idx) * ucast i_mA div 1000)"

definition husb238_slot_in_range :: "nat \<Rightarrow> bool" where
  "husb238_slot_in_range idx \<longleftrightarrow> HUSB238_PDO_MV ! idx \<ge> HUSB238_POLICY_V_FLOOR_MV \<and>
     HUSB238_PDO_MV ! idx \<le> HUSB238_POLICY_V_CAP_MV"

definition detected :: "husb238_src_caps_t \<Rightarrow> nat \<Rightarrow> bool" where
  "detected caps i \<longleftrightarrow> detected_mask caps AND push_bit i 1 \<noteq> 0"

fun enough_loop :: "husb238_src_caps_t \<Rightarrow> u16 list \<Rightarrow> u8 option" where
  "enough_loop caps [] = None"
| "enough_loop caps (mv # pref) =
     (let i = husb238_idx_of_mV mv in
      if i < 0 \<or> \<not> detected caps (nat i) then enough_loop caps pref
      else if husb238_slot_mW caps (nat i) \<ge> HUSB238_POLICY_P_ENOUGH_MW
        then Some (HUSB238_PDO_SEL ! nat i)
      else enough_loop caps pref)"

fun best_loop :: "husb238_src_caps_t \<Rightarrow> nat list \<Rightarrow> u32 \<Rightarrow> u32" where
  "best_loop caps [] best_p = best_p"
| "best_loop caps (i # is) best_p =
     (if \<not> detected caps i \<or> \<not> husb238_slot_in_range i then best_loop caps is best_p
      else let pw = husb238_slot_mW caps i in
        best_loop caps is (if pw > best_p then pw else best_p))"

fun band_pick :: "husb238_src_caps_t \<Rightarrow> u32 \<Rightarrow> u16 list \<Rightarrow> u8 option" where
  "band_pick caps band [] = None"
| "band_pick caps band (mv # pref) =
     (let i = husb238_idx_of_mV mv in
      if i < 0 \<or> \<not> detected caps (nat i) \<or> \<not> husb238_slot_in_range (nat i)
        then band_pick caps band pref
      else if husb238_slot_mW caps (nat i) \<ge> band then Some (HUSB238_PDO_SEL ! nat i)
      else band_pick caps band pref)"

fun fallback_loop :: "husb238_src_caps_t \<Rightarrow> nat list \<Rightarrow> u8 \<Rightarrow> u8" where
  "fallback_loop caps [] fb_sel = fb_sel"
| "fallback_loop caps (i # is) fb_sel =
     fallback_loop caps is
       (if detected caps i \<and> caps_mA caps ! i > 0 then HUSB238_PDO_SEL ! i else fb_sel)"

definition husb238_pick_best_pdo :: "husb238_src_caps_t \<Rightarrow> u8" where
  "husb238_pick_best_pdo caps =
     (case enough_loop caps HUSB238_PREF_MV of
        Some sel \<Rightarrow> sel
      | None \<Rightarrow>
          let best_p = best_loop caps [0..<HUSB238_PDO_COUNT] 0;
              banded = (if best_p > 0 then band_pick caps (best_p * 9 div 10) HUSB238_PREF_MV else None) in
          (case banded of
             Some sel \<Rightarrow> sel
           | None \<Rightarrow> fallback_loop caps [0..<HUSB238_PDO_COUNT] HUSB238_SEL_NONE))"

fun sel_loop :: "nat \<Rightarrow> u8 list \<Rightarrow> u8 \<Rightarrow> u16" where
  "sel_loop i [] sel_code = 0"
| "sel_loop i (sel # sels) sel_code =
     (if sel = sel_code then HUSB238_PDO_MV ! i else sel_loop (i + 1) sels sel_code)"

definition husb238_sel_to_mV :: "u8 \<Rightarrow> u16" where
  "husb238_sel_to_mV sel_code = sel_loop 0 HUSB238_PDO_SEL sel_code"

definition husb238_select_pdo :: "trace \<Rightarrow> u8 \<Rightarrow> trace" where
  "husb238_select_pdo tr sel_code =
     husb238_write_reg (husb238_write_reg tr HUSB238_REG_SRC_PDO (push_bit 4 sel_code))
       HUSB238_REG_GO_COMMAND HUSB238_CMD_REQUEST_PDO"

section \<open>The negotiation block of the main loop\<close>

record husb_state =
  Husb_Data :: husb238_data_t
  Husb_Caps :: husb238_src_caps_t
  Husb_Pd_Optimized :: bool
  Husb_Pick_Sel :: u8

definition pick_current :: "husb238_src_caps_t \<Rightarrow> u16 \<Rightarrow> u16" where
  "pick_current caps pick_mV =
     (let i = husb238_idx_of_mV pick_mV in
      if i < 0 then 0
      else let c = caps_mA caps ! nat i in
        if c > HUSB238_POLICY_I_CAP_MA then HUSB238_POLICY_I_CAP_MA else c)"

definition husb_poll :: "sda_pin \<Rightarrow> trace \<Rightarrow> husb_state \<Rightarrow> trace \<times> husb_state" where
  "husb_poll pin tr st =
     (case husb238_read_all pin tr of (tr, d) \<Rightarrow>
        let st = st\<lparr>Husb_Data := d\<rparr> in
        if attached d then
          if Husb_Pd_Optimized st then (tr, st)
          else (case husb238_read_src_caps pin tr (Husb_Caps st) of (tr, caps) \<Rightarrow>
            let st = st\<lparr>Husb_Caps := caps\<rparr> in
            if detected_mask caps = 0 then
              (husb238_write_reg tr HUSB238_REG_GO_COMMAND HUSB238_CMD_GET_SRC_CAP, st)
            else let sel = husb238_pick_best_pdo caps; st = st\<lparr>Husb_Pick_Sel := sel\<rparr> in
              if sel = HUSB238_SEL_NONE then (tr, st)
              else let pick_mV = husb238_sel_to_mV sel;
                       pick_mA = pick_current caps pick_mV in
                (if pick_mV \<noteq> voltage_mV d \<or> uint (current_mA d) + 50 < uint pick_mA
                 then husb238_select_pdo tr sel else tr,
                 st\<lparr>Husb_Pd_Optimized := True\<rparr>))
        else (tr, st\<lparr>Husb_Pd_Optimized := False, Husb_Pick_Sel := HUSB238_SEL_NONE,
                   Husb_Caps := (Husb_Caps st)\<lparr>detected_mask := 0\<rparr>\<rparr>))"


section \<open>Power of a slot\<close>

definition slot_mV :: "nat \<Rightarrow> nat" where
  "slot_mV i = [5000, 9000, 12000, 15000, 18000, 20000] ! i"

definition slot_power :: "husb238_src_caps_t \<Rightarrow> nat \<Rightarrow> nat" where
  "slot_power caps i = slot_mV i * min (unat (caps_mA caps ! i)) 5000 div 1000"

lemma slot_cases: "i < 6 \<Longrightarrow> (i :: nat) \<in> {0, 1, 2, 3, 4, 5}"
  by auto

lemma slot_mV_eq: "i < 6 \<Longrightarrow> unat (HUSB238_PDO_MV ! i) = slot_mV i"
  using slot_cases [of i] by (auto simp: HUSB238_PDO_MV_def slot_mV_def)

lemma slot_mV_le: "i < 6 \<Longrightarrow> slot_mV i \<le> 20000"
  using slot_cases [of i] by (auto simp: slot_mV_def)

lemma unat_ucast_16_32: "unat (ucast (x :: u16) :: u32) = unat x"
  using unat_bound [of x] by (simp add: unsigned_ucast_eq take_bit_nat_eq_self)

lemma slot_mW_power:
  assumes "i < 6"
  shows "unat (husb238_slot_mW caps i) = slot_power caps i"
proof -
  let ?c = "if caps_mA caps ! i > 5000 then 5000 else caps_mA caps ! i"
  have c: "unat ?c = min (unat (caps_mA caps ! i)) 5000"
    by (auto simp: word_less_nat_alt)
  have "slot_mV i * unat ?c \<le> 20000 * 5000"
    using slot_mV_le [OF assms] by (intro mult_le_mono) (simp_all add: c)
  then have "unat (ucast (HUSB238_PDO_MV ! i) * ucast ?c :: u32) = slot_mV i * unat ?c"
    by (simp add: unat_word_ariths unat_ucast_16_32 slot_mV_eq [OF assms])
  then show ?thesis
    unfolding husb238_slot_mW_def slot_power_def Let_def HUSB238_POLICY_I_CAP_MA_def c [symmetric]
    by (simp add: unat_div)
qed

lemma slot_power_pos:
  assumes "i < 6"
  shows "slot_power caps i > 0 \<longleftrightarrow> caps_mA caps ! i > 0"
proof -
  have "1000 \<le> slot_mV i" using slot_cases [OF assms] by (auto simp: slot_mV_def)
  then have "slot_mV i * n div 1000 > 0 \<longleftrightarrow> n > 0" for n
    using mult_le_mono [of 1000 "slot_mV i" 1 n] by (cases n) (simp_all add: div_greater_zero_iff)
  then show ?thesis by (simp add: slot_power_def word_less_nat_alt)
qed

section \<open>The choice\<close>

definition preference :: "nat list" where "preference = [3, 2, 4, 5, 1]"

lemma idx_of_pref:
  "husb238_idx_of_mV 15000 = 3" "husb238_idx_of_mV 12000 = 2" "husb238_idx_of_mV 18000 = 4"
  "husb238_idx_of_mV 20000 = 5" "husb238_idx_of_mV 9000 = 1"
  by (simp_all add: husb238_idx_of_mV_def HUSB238_PDO_MV_def)

lemma in_range_iff: "i < 6 \<Longrightarrow> husb238_slot_in_range i \<longleftrightarrow> i \<noteq> 0"
  using slot_cases [of i] by (auto simp: husb238_slot_in_range_def HUSB238_PDO_MV_def)

lemma enough_find:
  "enough_loop caps HUSB238_PREF_MV =
    map_option ((!) HUSB238_PDO_SEL) (find (\<lambda>i. detected caps i \<and> 45000 \<le> slot_power caps i) preference)"
proof -
  have "45000 \<le> husb238_slot_mW caps i \<longleftrightarrow> 45000 \<le> slot_power caps i" if "i < 6" for i
    using slot_mW_power [OF that, of caps] by (simp add: word_le_nat_alt)
  then show ?thesis
    by (simp add: HUSB238_PREF_MV_def idx_of_pref preference_def)
qed

lemma band_find:
  "band_pick caps band HUSB238_PREF_MV =
    map_option ((!) HUSB238_PDO_SEL) (find (\<lambda>i. detected caps i \<and> unat band \<le> slot_power caps i) preference)"
proof -
  have "band \<le> husb238_slot_mW caps i \<longleftrightarrow> unat band \<le> slot_power caps i" if "i < 6" for i
    using slot_mW_power [OF that, of caps] by (simp add: word_le_nat_alt)
  then show ?thesis
    by (simp add: HUSB238_PREF_MV_def idx_of_pref preference_def in_range_iff)
qed


lemma best_loop_spec:
  assumes "set is \<subseteq> {0..<6}"
  shows "unat b \<le> unat (best_loop caps is b) \<and>
    (\<forall>i\<in>set is. detected caps i \<and> i \<noteq> 0 \<longrightarrow> slot_power caps i \<le> unat (best_loop caps is b)) \<and>
    (best_loop caps is b = b \<or>
      (\<exists>i\<in>set is. detected caps i \<and> i \<noteq> 0 \<and> unat (best_loop caps is b) = slot_power caps i))"
  using assms
proof (induction "is" arbitrary: b)
  case Nil
  then show ?case by simp
next
  case (Cons i "is")
  then have i: "i < 6" by simp
  let ?b = "if b < husb238_slot_mW caps i then husb238_slot_mW caps i else b"
  have b: "unat ?b = max (slot_power caps i) (unat b)"
    using slot_mW_power [OF i, of caps] by (auto simp: word_less_nat_alt)
  show ?case
  proof (cases "detected caps i \<and> i \<noteq> 0")
    case False
    then have "best_loop caps (i # is) b = best_loop caps is b" using i by (auto simp: in_range_iff)
    with False Cons.IH [of b] Cons.prems show ?thesis by auto
  next
    case True
    then have eq: "best_loop caps (i # is) b = best_loop caps is ?b" using i by (simp add: in_range_iff)
    have "set is \<subseteq> {0..<6}" using Cons.prems by simp
    note IH = Cons.IH [OF this, of ?b, unfolded b]
    have "best_loop caps is ?b = ?b \<Longrightarrow> best_loop caps is ?b = b \<or> unat (best_loop caps is ?b) = slot_power caps i"
      using slot_mW_power [OF i, of caps] by (auto split: if_splits)
    with IH True show ?thesis unfolding eq by auto
  qed
qed

lemma find_append: "find P (xs @ ys) = (case find P xs of None \<Rightarrow> find P ys | Some x \<Rightarrow> Some x)"
  by (induction xs) auto

lemma fallback_find:
  "fallback_loop caps is fb =
    (case find (\<lambda>i. detected caps i \<and> caps_mA caps ! i > 0) (rev is) of
       None \<Rightarrow> fb | Some i \<Rightarrow> HUSB238_PDO_SEL ! i)"
  by (induction "is" arbitrary: fb) (auto simp: find_append split: option.splits)

text \<open>
  What a choice means: nothing is offered with a usable current; or 5 V as the last resort; or the most
  preferred slot with at least 45 W; or, when no slot has 45 W, the most preferred slot within
  90 per cent of the best.
\<close>

definition no_choice :: "husb238_src_caps_t \<Rightarrow> bool" where
  "no_choice caps \<longleftrightarrow> (\<forall>i<6. detected caps i \<longrightarrow> caps_mA caps ! i = 0)"

definition last_resort :: "husb238_src_caps_t \<Rightarrow> bool" where
  "last_resort caps \<longleftrightarrow> detected caps 0 \<and> caps_mA caps ! 0 > 0 \<and>
     (\<forall>i\<in>{1..5}. detected caps i \<longrightarrow> caps_mA caps ! i = 0)"

definition satisfies :: "husb238_src_caps_t \<Rightarrow> nat \<Rightarrow> bool" where
  "satisfies caps n \<longleftrightarrow> detected caps (preference ! n) \<and> 45000 \<le> slot_power caps (preference ! n) \<and>
     (\<forall>m<n. detected caps (preference ! m) \<longrightarrow> slot_power caps (preference ! m) < 45000)"

definition near_best :: "husb238_src_caps_t \<Rightarrow> nat \<Rightarrow> bool" where
  "near_best caps n \<longleftrightarrow> (\<exists>best\<in>{1..5}. detected caps best \<and> slot_power caps best > 0 \<and>
     (\<forall>i\<in>{1..5}. detected caps i \<longrightarrow> slot_power caps i \<le> slot_power caps best \<and> slot_power caps i < 45000) \<and>
     detected caps (preference ! n) \<and> slot_power caps best * 9 div 10 \<le> slot_power caps (preference ! n) \<and>
     (\<forall>m<n. detected caps (preference ! m) \<longrightarrow>
        slot_power caps (preference ! m) < slot_power caps best * 9 div 10))"

lemma preference_length: "length preference = 5"
  by (simp add: preference_def)

lemma preference_set: "set preference = {1..5}"
  by (auto simp: preference_def)

lemma slot_power_bound: "i < 6 \<Longrightarrow> slot_power caps i \<le> 100000"
  using slot_mV_le [of i] mult_le_mono [of "slot_mV i" 20000 "min (unat (caps_mA caps ! i)) 5000" 5000]
  by (simp add: slot_power_def)


lemma find_preference:
  assumes "find P preference = Some i"
  obtains n where "n < 5" and "preference ! n = i" and "P i" and "\<forall>m<n. \<not> P (preference ! m)"
  using assms by (auto simp: find_Some_iff2 find_Some_iff preference_length)

lemma find_preference_none: "find P preference = None \<longleftrightarrow> (\<forall>i\<in>{1..5}. \<not> P i)"
  by (auto simp: find_None_iff preference_set)

text \<open>
  The profile choice follows the stated policy for every capability table: the result is
  "none" exactly when nothing is offered with a nonzero current, 5 V only when no slot from
  9 V to 20 V offers current, the first of 15, 12, 18, 20, 9 V that offers 45 W if one does, and
  otherwise the first of them within 90 per cent of the strongest offer.
\<close>

theorem pick_policy:
  "(husb238_pick_best_pdo caps = HUSB238_SEL_NONE \<and> no_choice caps) \<or>
   (husb238_pick_best_pdo caps = HUSB238_PDO_SEL ! 0 \<and> last_resort caps) \<or>
   (\<exists>n<5. husb238_pick_best_pdo caps = HUSB238_PDO_SEL ! (preference ! n) \<and>
      (satisfies caps n \<or> near_best caps n))"
proof (cases "find (\<lambda>i. detected caps i \<and> 45000 \<le> slot_power caps i) preference")
  case (Some i)
  then obtain n where "n < 5" "preference ! n = i" "satisfies caps n"
    by (rule find_preference) (auto simp: satisfies_def not_le)
  moreover have "husb238_pick_best_pdo caps = HUSB238_PDO_SEL ! i"
    by (simp add: husb238_pick_best_pdo_def enough_find Some)
  ultimately show ?thesis by blast
next
  case None
  let ?best = "best_loop caps [0..<6] 0"
  have weak: "\<forall>i\<in>{1..5}. detected caps i \<longrightarrow> slot_power caps i < 45000"
    using None by (auto simp: find_preference_none not_le)
  have range: "i \<in> {1..5} \<longleftrightarrow> i \<in> set [0..<6] \<and> i \<noteq> 0" for i :: nat by auto
  have best: "\<forall>i\<in>{1..5}. detected caps i \<longrightarrow> slot_power caps i \<le> unat ?best"
    "?best = 0 \<or> (\<exists>i\<in>{1..5}. detected caps i \<and> unat ?best = slot_power caps i)"
  proof -
    have "set [0..<6] \<subseteq> {0..<6}" by simp
    note spec = best_loop_spec [OF this, of 0 caps]
    show "\<forall>i\<in>{1..5}. detected caps i \<longrightarrow> slot_power caps i \<le> unat ?best"
      using spec range by blast
    show "?best = 0 \<or> (\<exists>i\<in>{1..5}. detected caps i \<and> unat ?best = slot_power caps i)"
      using spec range by blast
  qed
  show ?thesis
  proof (cases "?best = 0")
    case True
    have none: "\<forall>i\<in>{1..5}. detected caps i \<longrightarrow> caps_mA caps ! i = 0"
    proof (intro ballI impI)
      fix i :: nat assume i: "i \<in> {1..5}" "detected caps i"
      then have "slot_power caps i = 0" using best(1) True by simp
      with slot_power_pos [of i caps] i(1) show "caps_mA caps ! i = 0" by (auto simp: word_gt_0)
    qed
    have split: "rev [0..<6] = [5, 4, 3, 2, 1] @ [0::nat]" by code_simp
    have upper: "find (\<lambda>i. detected caps i \<and> caps_mA caps ! i > 0) [5, 4, 3, 2, 1] = None"
      unfolding find_None_iff using none by (auto simp: word_gt_0)
    have pick: "husb238_pick_best_pdo caps =
        (if detected caps 0 \<and> caps_mA caps ! 0 > 0 then HUSB238_PDO_SEL ! 0 else HUSB238_SEL_NONE)"
      unfolding husb238_pick_best_pdo_def HUSB238_PDO_COUNT_def enough_find None fallback_find split find_append upper
      by (simp add: True)
    show ?thesis
    proof (cases "detected caps 0 \<and> caps_mA caps ! 0 > 0")
      case True
      then have "last_resort caps" using none by (simp add: last_resort_def)
      with True pick show ?thesis by simp
    next
      case False
      have "\<forall>i::nat<6. i = 0 \<or> i \<in> {1..5}" by auto
      then have "no_choice caps" unfolding no_choice_def using none False by (metis word_gt_0)
      with False pick show ?thesis by auto
    qed
  next
    case False
    then obtain b where b: "b \<in> {1..5}" "detected caps b" "unat ?best = slot_power caps b"
      using best(2) by blast
    have "slot_power caps b \<le> 100000" using b(1) by (intro slot_power_bound) auto
    then have band: "unat (?best * 9 div 10) = slot_power caps b * 9 div 10"
      using b(3) by (simp add: unat_div unat_word_ariths)
    have pos: "slot_power caps b > 0" using False b(3) by (metis gr0I unat_eq_zero)
    have "find (\<lambda>i. detected caps i \<and> slot_power caps b * 9 div 10 \<le> slot_power caps i) preference \<noteq> None"
      unfolding find_preference_none using b(1,2) by fastforce
    then obtain i where i: "find (\<lambda>i. detected caps i \<and> slot_power caps b * 9 div 10 \<le> slot_power caps i) preference = Some i"
      by blast
    then obtain n where n: "n < 5" "preference ! n = i"
      "detected caps i \<and> slot_power caps b * 9 div 10 \<le> slot_power caps i"
      "\<forall>m<n. \<not> (detected caps (preference ! m) \<and> slot_power caps b * 9 div 10 \<le> slot_power caps (preference ! m))"
      by (rule find_preference)
    moreover from n b pos weak best(1) have "near_best caps n"
      unfolding near_best_def by (intro bexI [of _ b]) (simp_all add: not_le)
    moreover have "husb238_pick_best_pdo caps = HUSB238_PDO_SEL ! i"
      using False i band
      by (simp add: husb238_pick_best_pdo_def enough_find None band_find word_gt_0)
    ultimately show ?thesis by blast
  qed
qed


text \<open>A 27 W supply with 5 V / 5 A, 9 V / 3 A, 12 V / 2.25 A and 15 V / 1.8 A.\<close>

definition rpi_27w :: husb238_src_caps_t where
  "rpi_27w = \<lparr>detected_mask = 0x0F, caps_mA = [5000, 3000, 2250, 1750, 500, 500]\<rparr>"

theorem pick_policy_witness: "husb238_pick_best_pdo rpi_27w = 0x8 \<and> (\<exists>n<5. near_best rpi_27w n)"
proof -
  have pick: "husb238_pick_best_pdo rpi_27w = 0x8" by code_simp
  have "\<not> (\<exists>i\<in>set preference. detected rpi_27w i \<and> 45000 \<le> slot_power rpi_27w i)"
    by (simp add: preference_def detected_def rpi_27w_def slot_power_def slot_mV_def)
  then have "n < 5 \<Longrightarrow> \<not> satisfies rpi_27w n" for n
    using nth_mem [of n preference] by (auto simp: satisfies_def preference_length)
  with pick_policy [of rpi_27w] pick show ?thesis
    by (auto simp: HUSB238_SEL_NONE_def HUSB238_PDO_SEL_def)
qed


section \<open>Negotiation over the bus\<close>

lemma husb_read:
  assumes "devs (bus_run s tr) 0x08 = Some f"
  shows "\<exists>tr1. husb238_read_reg (bus_pin s) tr r = (tr1, f r) \<and> devs (bus_run s tr1) = devs (bus_run s tr)"
  using i2c.rd_value [of "0x08" s tr r] i2c.rd_keeps [of "0x08" s tr r] assms
  by (cases "husb238_read_reg (bus_pin s) tr r")
    (simp add: husb238_read_reg_def HUSB238_I2C_ADDR_def reg_value_def)

lemma husb_write:
  assumes "devs (bus_run s tr) 0x08 = Some f"
  shows "devs (bus_run s (husb238_write_reg tr r v)) = (devs (bus_run s tr))(0x08 \<mapsto> f(r := v))"
  using i2c.wr_sets [of "0x08" s tr r v] assms by (simp add: husb238_write_reg_def HUSB238_I2C_ADDR_def)

definition caps_of :: "(u8 \<Rightarrow> u8) \<Rightarrow> husb238_src_caps_t" where
  "caps_of f = \<lparr>detected_mask =
       foldl (\<lambda>m (i, r). if f r AND 0x80 \<noteq> 0 then m OR push_bit i 1 else m) 0 (enumerate 0 HUSB238_PDO_REG),
     caps_mA = map (\<lambda>r. husb238_decode_current_mA (f r AND 0x0F)) HUSB238_PDO_REG\<rparr>"

lemma caps_loop_bus:
  assumes "devs (bus_run s tr) 0x08 = Some f"
  shows "\<exists>tr1. caps_loop (bus_pin s) i regs tr out = (tr1,
      foldl (\<lambda>out (i, r). out\<lparr>detected_mask := (if f r AND 0x80 \<noteq> 0 then detected_mask out OR push_bit i 1 else detected_mask out),
         caps_mA := (caps_mA out)[i := husb238_decode_current_mA (f r AND 0x0F)]\<rparr>) out (enumerate i regs)) \<and>
    devs (bus_run s tr1) = devs (bus_run s tr)"
  using assms
proof (induction regs arbitrary: i tr out)
  case Nil
  then show ?case by simp
next
  case (Cons r regs)
  obtain tr1 where 1: "husb238_read_reg (bus_pin s) tr r = (tr1, f r)" "devs (bus_run s tr1) = devs (bus_run s tr)"
    using husb_read [OF Cons.prems] by blast
  then have "devs (bus_run s tr1) 0x08 = Some f" using Cons.prems by simp
  from Cons.IH [OF this] 1 show ?case by simp
qed

lemma caps_fold:
  "foldl (\<lambda>out (i, r). out\<lparr>detected_mask := (if f r AND 0x80 \<noteq> 0 then detected_mask out OR push_bit i 1 else detected_mask out),
         caps_mA := (caps_mA out)[i := g r]\<rparr>) out xs =
   out\<lparr>detected_mask := foldl (\<lambda>m (i, r). if f r AND 0x80 \<noteq> 0 then m OR push_bit i 1 else m) (detected_mask out) xs,
     caps_mA := foldl (\<lambda>l (i, r). l[i := g r]) (caps_mA out) xs\<rparr>"
  by (induction xs arbitrary: out) auto

lemma updates_map:
  assumes "length l = 6"
  shows "foldl (\<lambda>l (i, r). l[i := g r]) l (enumerate 0 HUSB238_PDO_REG) = map g HUSB238_PDO_REG"
proof -
  obtain a0 a1 a2 a3 a4 a5 where "l = [a0, a1, a2, a3, a4, a5]"
    using assms by (auto simp: numeral_eq_Suc length_Suc_conv)
  then show ?thesis by (simp add: HUSB238_PDO_REG_def numeral_eq_Suc)
qed

lemma caps_bus:
  assumes "devs (bus_run s tr) 0x08 = Some f" and "length (caps_mA out) = 6"
  shows "\<exists>tr1. husb238_read_src_caps (bus_pin s) tr out = (tr1, caps_of f) \<and> devs (bus_run s tr1) = devs (bus_run s tr)"
  using caps_loop_bus [OF assms(1), of 0 HUSB238_PDO_REG "out\<lparr>detected_mask := 0\<rparr>"] assms(2)
  by (cases out) (simp add: husb238_read_src_caps_def caps_fold updates_map caps_of_def del: enumerate_simps)

text \<open>
  One pass of the negotiation block over a bus with the controller on it: the contract is
  decoded from its two status registers; an attached controller that was not yet negotiated with
  gets the chosen profile written to its request registers, unless the contract in effect already
  is that profile, and the block latches; a latched block writes nothing; a detached one re-arms
  and writes nothing.
\<close>

theorem negotiate_once:
  assumes "devs (bus_run s tr) 0x08 = Some f" and "length (caps_mA (Husb_Caps st)) = 6"
    and "d = husb238_decode (f 0) (f 1)" and "sel = husb238_pick_best_pdo (caps_of f)"
    and "husb_poll (bus_pin s) tr st = (tr', st')"
  shows "Husb_Data st' = d \<and>
    (\<not> attached d \<longrightarrow> \<not> Husb_Pd_Optimized st' \<and> devs (bus_run s tr') = devs (bus_run s tr)) \<and>
    (attached d \<and> Husb_Pd_Optimized st \<longrightarrow> Husb_Pd_Optimized st' \<and> devs (bus_run s tr') = devs (bus_run s tr)) \<and>
    (attached d \<and> \<not> Husb_Pd_Optimized st \<and> detected_mask (caps_of f) \<noteq> 0 \<and> sel \<noteq> HUSB238_SEL_NONE \<longrightarrow>
       Husb_Pd_Optimized st' \<and> Husb_Pick_Sel st' = sel \<and>
       devs (bus_run s tr') 0x08 = Some (if husb238_sel_to_mV sel \<noteq> voltage_mV d \<or>
           uint (current_mA d) + 50 < uint (pick_current (caps_of f) (husb238_sel_to_mV sel))
         then f(8 := push_bit 4 sel, 9 := 1) else f))"
proof -
  obtain t1 where 1: "husb238_read_reg (bus_pin s) tr 0 = (t1, f 0)" "devs (bus_run s t1) = devs (bus_run s tr)"
    using husb_read [OF assms(1)] by blast
  then have f1: "devs (bus_run s t1) 0x08 = Some f" using assms(1) by simp
  obtain t2 where 2: "husb238_read_reg (bus_pin s) t1 1 = (t2, f 1)" "devs (bus_run s t2) = devs (bus_run s t1)"
    using husb_read [OF f1] by blast
  then have f2: "devs (bus_run s t2) 0x08 = Some f" using f1 by simp
  have all: "husb238_read_all (bus_pin s) tr = (t2, d)"
    using 1 2 assms(3) by (simp add: husb238_read_all_def HUSB238_REG_PD_STATUS0_def HUSB238_REG_PD_STATUS1_def)
  obtain t3 where 3: "husb238_read_src_caps (bus_pin s) t2 (Husb_Caps st) =
      (t3, caps_of f)" "devs (bus_run s t3) = devs (bus_run s t2)"
    using caps_bus [OF f2 assms(2)] by blast
  then have f3: "devs (bus_run s t3) 0x08 = Some f" using f2 by simp
  have select: "devs (bus_run s (husb238_select_pdo t3 x)) 0x08 = Some (f(8 := push_bit 4 x, 9 := 1))" for x
    using husb_write [OF f3, of 8 "push_bit 4 x"]
      husb_write [of s "husb238_write_reg t3 8 (push_bit 4 x)" "f(8 := push_bit 4 x)" 9 1]
    by (simp add: husb238_select_pdo_def HUSB238_REG_SRC_PDO_def HUSB238_REG_GO_COMMAND_def HUSB238_CMD_REQUEST_PDO_def)
  show ?thesis
    using assms(5) all 3 f3 select 1(2) 2(2)
    by (auto simp: husb_poll_def Let_def assms(4) split: if_splits)
qed


text \<open>The strapped 5 V contract of the same supply, just attached.\<close>

definition strapped :: "u8 \<Rightarrow> u8" where
  "strapped r = (if r = 0 then 0x1B else if r = 1 then 0x48 else if r = 2 then 0x8F
     else if r = 3 then 0x8A else if r = 4 then 0x87 else if r = 5 then 0x85 else 0)"

definition strapped_bus :: bus where
  "strapped_bus = \<lparr>scl = True, sda = True, phase = Idle, pointer = (\<lambda>_. 0),
     devs = (\<lambda>a. if a = 0x08 then Some strapped else None)\<rparr>"

definition unnegotiated :: husb_state where
  "unnegotiated = \<lparr>Husb_Data = husb238_decode 0 0, Husb_Caps = \<lparr>detected_mask = 0, caps_mA = [0, 0, 0, 0, 0, 0]\<rparr>,
     Husb_Pd_Optimized = False, Husb_Pick_Sel = 0\<rparr>"

theorem negotiate_once_witness:
  "devs (bus_run strapped_bus (fst (husb_poll (bus_pin strapped_bus) [] unnegotiated))) 0x08 =
    Some (strapped(8 := 0x80, 9 := 1))"
proof -
  obtain tr' st' where r: "husb_poll (bus_pin strapped_bus) [] unnegotiated = (tr', st')" by fastforce
  have f: "devs (bus_run strapped_bus []) 0x08 = Some strapped" by (simp add: strapped_bus_def bus_run_Nil)
  have l: "length (caps_mA (Husb_Caps unnegotiated)) = 6" by (simp add: unnegotiated_def)
  have vals: "attached (husb238_decode (strapped 0) (strapped 1))" "\<not> Husb_Pd_Optimized unnegotiated"
    "detected_mask (caps_of strapped) \<noteq> 0" "husb238_pick_best_pdo (caps_of strapped) = 8"
    "husb238_sel_to_mV 8 \<noteq> voltage_mV (husb238_decode (strapped 0) (strapped 1))"
    by code_simp+
  from negotiate_once [OF f l refl refl r] r vals show ?thesis
    by (simp add: HUSB238_SEL_NONE_def push_bit_eq_mult)
qed

end
