(* ===== verification/Mp2762a.thy ===== *)
theory Mp2762a
  imports Ch32_I2c "HOL-Library.Signed_Division"
begin

text \<open>
  The battery charger driver (\<open>mp2762a.c\<close>) and the battery block of the main loop: register
  configuration, telemetry decoding, battery detection with its debounce and the restart of a
  stuck charger.  Register accesses go over the I2C master; PA6, which powers the charger, is
  the argument \<open>pa6\<close>.
\<close>

section \<open>Registers\<close>

definition MP2762A_I2C_ADDR :: u8 where "MP2762A_I2C_ADDR = 0x5C"
definition MP2762A_REG_INPUT_ILIM :: u8 where "MP2762A_REG_INPUT_ILIM = 0x00"
definition MP2762A_REG_INPUT_VLIM :: u8 where "MP2762A_REG_INPUT_VLIM = 0x01"
definition MP2762A_REG_CHG_CURR :: u8 where "MP2762A_REG_CHG_CURR = 0x02"
definition MP2762A_REG_VBAT_REG :: u8 where "MP2762A_REG_VBAT_REG = 0x04"
definition MP2762A_REG_CONFIG0 :: u8 where "MP2762A_REG_CONFIG0 = 0x08"
definition MP2762A_REG_CONFIG1 :: u8 where "MP2762A_REG_CONFIG1 = 0x09"
definition MP2762A_REG_ADC_CFG :: u8 where "MP2762A_REG_ADC_CFG = 0x0B"
definition MP2762A_REG_INPUT_ILIM2 :: u8 where "MP2762A_REG_INPUT_ILIM2 = 0x0F"
definition MP2762A_REG_STATUS :: u8 where "MP2762A_REG_STATUS = 0x13"
definition MP2762A_REG_FAULT :: u8 where "MP2762A_REG_FAULT = 0x14"
definition MP2762A_REG_ADC_VBAT_L :: u8 where "MP2762A_REG_ADC_VBAT_L = 0x16"
definition MP2762A_REG_ADC_VSYS_L :: u8 where "MP2762A_REG_ADC_VSYS_L = 0x18"
definition MP2762A_REG_ADC_ICHG_L :: u8 where "MP2762A_REG_ADC_ICHG_L = 0x1A"
definition MP2762A_REG_ADC_VIN_L :: u8 where "MP2762A_REG_ADC_VIN_L = 0x1C"
definition MP2762A_REG_ADC_IIN_L :: u8 where "MP2762A_REG_ADC_IIN_L = 0x1E"
definition MP2762A_REG_ADC_TJUNC_L :: u8 where "MP2762A_REG_ADC_TJUNC_L = 0x24"

definition MP2762A_REG_RST :: u8 where "MP2762A_REG_RST = 0x80"
definition MP2762A_CHG_EN :: u8 where "MP2762A_CHG_EN = 0x10"
definition MP2762A_NTC_GCOMP :: u8 where "MP2762A_NTC_GCOMP = 0x04"
definition MP2762A_BATTFET_EN :: u8 where "MP2762A_BATTFET_EN = 0x02"
definition MP2762A_BATT_UVLO :: u8 where "MP2762A_BATT_UVLO = 0x80"
definition MP2762A_CHG_STAT_MASK :: u8 where "MP2762A_CHG_STAT_MASK = 0x0C"
definition MP2762A_ACOK :: u8 where "MP2762A_ACOK = 0x02"
definition MP2762A_CHG_NOT_CHARGING :: u8 where "MP2762A_CHG_NOT_CHARGING = 0x00"
definition MP2762A_CHG_TRICKLE :: u8 where "MP2762A_CHG_TRICKLE = 0x04"
definition MP2762A_CHG_FAST :: u8 where "MP2762A_CHG_FAST = 0x08"
definition MP2762A_CHG_DONE :: u8 where "MP2762A_CHG_DONE = 0x0C"

definition MP2762A_CONFIG0_NORMAL :: u8 where
  "MP2762A_CONFIG0_NORMAL = MP2762A_CHG_EN OR MP2762A_NTC_GCOMP OR MP2762A_BATTFET_EN"

definition BAT_DEBOUNCE_COUNT :: u8 where "BAT_DEBOUNCE_COUNT = 3"
definition BAT_CHG_CURRENT_THRESHOLD_MA :: u16 where "BAT_CHG_CURRENT_THRESHOLD_MA = 30"
definition STUCK_RESTART_COUNT :: u8 where "STUCK_RESTART_COUNT = 6"
definition BAT_PRESENT_EXT_MIN_MV :: u16 where "BAT_PRESENT_EXT_MIN_MV = 5500"

datatype mp2762a_chg_state_t =
  CHG_STATE_NOT_CHARGING | CHG_STATE_TRICKLE | CHG_STATE_FAST | CHG_STATE_DONE

record mp2762a_data_t =
  chg_state :: mp2762a_chg_state_t
  power_good :: bool
  vin_mv :: u16
  iin_ma :: u16
  vbat_mv :: u16
  ichg_ma :: u16
  vsys_mv :: u16
  tjunc_c10 :: int
  fault :: u8

definition MP2762A_TJ_NA :: int where "MP2762A_TJ_NA = - 32768"

record bat_state =
  g_bat_present_state :: bool
  g_bat_present_counter :: u8
  g_bat_inserted_flag :: bool
  g_stuck_counter :: u8

definition bat_boot :: bat_state where
  "bat_boot = \<lparr>g_bat_present_state = False, g_bat_present_counter = 0,
     g_bat_inserted_flag = False, g_stuck_counter = 0\<rparr>"

section \<open>Access and configuration\<close>

definition mp2762a_read_reg :: "sda_pin \<Rightarrow> trace \<Rightarrow> u8 \<Rightarrow> trace \<times> u8" where
  "mp2762a_read_reg pin tr reg = I2C_read_reg pin tr MP2762A_I2C_ADDR reg"

definition mp2762a_write_reg :: "trace \<Rightarrow> u8 \<Rightarrow> u8 \<Rightarrow> trace" where
  "mp2762a_write_reg tr reg val = I2C_write_reg tr MP2762A_I2C_ADDR reg val"

definition mp2762a_read_reg16 :: "sda_pin \<Rightarrow> trace \<Rightarrow> u8 \<Rightarrow> trace \<times> u16" where
  "mp2762a_read_reg16 pin tr reg = I2C_read_reg16 pin tr MP2762A_I2C_ADDR reg"

definition mp2762a_init :: "sda_pin \<Rightarrow> trace \<Rightarrow> trace" where
  "mp2762a_init pin tr =
     (case mp2762a_read_reg pin tr MP2762A_REG_FAULT of (tr, _) \<Rightarrow>
        let tr = mp2762a_write_reg tr MP2762A_REG_INPUT_ILIM 0x64;
            tr = mp2762a_write_reg tr MP2762A_REG_INPUT_ILIM2 0x64;
            tr = mp2762a_write_reg tr MP2762A_REG_INPUT_VLIM 0x2D;
            tr = mp2762a_write_reg tr MP2762A_REG_CHG_CURR 0x0A;
            tr = mp2762a_write_reg tr MP2762A_REG_VBAT_REG 0x36;
            tr = mp2762a_write_reg tr MP2762A_REG_CONFIG0 MP2762A_CONFIG0_NORMAL;
            tr = mp2762a_write_reg tr MP2762A_REG_CONFIG1 0x44 in
        (case mp2762a_read_reg pin tr MP2762A_REG_ADC_CFG of (tr, cfg3) \<Rightarrow>
           mp2762a_write_reg tr MP2762A_REG_ADC_CFG (cfg3 OR 0x03)))"

definition mp2762a_factory_reset :: "sda_pin \<Rightarrow> trace \<Rightarrow> trace \<times> bat_state" where
  "mp2762a_factory_reset pin tr =
     (let tr = mp2762a_write_reg tr MP2762A_REG_CONFIG0 MP2762A_REG_RST;
          tr = fst (mp2762a_read_reg pin (tr @ [Delay_Us 10000]) MP2762A_REG_FAULT) in
      (tr, bat_boot))"

definition mp2762a_restart_charging :: "sda_pin \<Rightarrow> trace \<Rightarrow> trace" where
  "mp2762a_restart_charging pin tr =
     (case mp2762a_read_reg pin tr MP2762A_REG_FAULT of (tr, _) \<Rightarrow>
        let tr = mp2762a_write_reg tr MP2762A_REG_CONFIG0 (MP2762A_NTC_GCOMP OR MP2762A_BATTFET_EN) in
        mp2762a_write_reg (tr @ [Delay_Us 10000]) MP2762A_REG_CONFIG0 MP2762A_CONFIG0_NORMAL)"

definition mp2762a_kick_watchdog :: "trace \<Rightarrow> trace" where
  "mp2762a_kick_watchdog tr =
     (let tr = mp2762a_write_reg tr MP2762A_REG_CONFIG0 MP2762A_CONFIG0_NORMAL;
          tr = mp2762a_write_reg tr MP2762A_REG_CONFIG1 0x44;
          tr = mp2762a_write_reg tr MP2762A_REG_CHG_CURR 0x0A;
          tr = mp2762a_write_reg tr MP2762A_REG_INPUT_ILIM 0x64 in
      mp2762a_write_reg tr MP2762A_REG_INPUT_ILIM2 0x64)"

section \<open>Telemetry\<close>

definition chg_state_of :: "u8 \<Rightarrow> mp2762a_chg_state_t" where
  "chg_state_of chg_bits =
     (if chg_bits = MP2762A_CHG_NOT_CHARGING then CHG_STATE_NOT_CHARGING
      else if chg_bits = MP2762A_CHG_TRICKLE then CHG_STATE_TRICKLE
      else if chg_bits = MP2762A_CHG_FAST then CHG_STATE_FAST
      else if chg_bits = MP2762A_CHG_DONE then CHG_STATE_DONE
      else CHG_STATE_NOT_CHARGING)"

definition mp2762a_get_charge_state :: "sda_pin \<Rightarrow> trace \<Rightarrow> trace \<times> mp2762a_chg_state_t" where
  "mp2762a_get_charge_state pin tr =
     (case mp2762a_read_reg pin tr MP2762A_REG_STATUS of (tr, status) \<Rightarrow>
        (tr, chg_state_of (status AND MP2762A_CHG_STAT_MASK)))"

definition mp2762a_is_power_good :: "sda_pin \<Rightarrow> trace \<Rightarrow> trace \<times> bool" where
  "mp2762a_is_power_good pin tr =
     (case mp2762a_read_reg pin tr MP2762A_REG_STATUS of (tr, status) \<Rightarrow>
        (tr, status AND MP2762A_ACOK \<noteq> 0))"

definition mp2762a_read_adc16 :: "sda_pin \<Rightarrow> trace \<Rightarrow> u8 \<Rightarrow> trace \<times> u16" where
  "mp2762a_read_adc16 pin tr reg_lsb =
     (case mp2762a_read_reg pin tr reg_lsb of (tr, lsb) \<Rightarrow>
        (case mp2762a_read_reg pin tr (reg_lsb + 1) of (tr, msb) \<Rightarrow>
           (tr, push_bit 8 (ucast msb) OR ucast lsb)))"

text \<open>The scale of a ten-bit reading: C computes in int, so nothing wraps before the cast.\<close>

definition adc_scale :: "nat \<Rightarrow> nat \<Rightarrow> u16 \<Rightarrow> u16" where
  "adc_scale num den raw = of_nat (unat (drop_bit 6 raw) * num div den)"

definition mp2762a_get_input_voltage_mv :: "sda_pin \<Rightarrow> trace \<Rightarrow> trace \<times> u16" where
  "mp2762a_get_input_voltage_mv pin tr = apsnd (adc_scale 25 1) (mp2762a_read_adc16 pin tr MP2762A_REG_ADC_VIN_L)"

definition mp2762a_get_input_current_ma :: "sda_pin \<Rightarrow> trace \<Rightarrow> trace \<times> u16" where
  "mp2762a_get_input_current_ma pin tr = apsnd (adc_scale 25 4) (mp2762a_read_adc16 pin tr MP2762A_REG_ADC_IIN_L)"

definition mp2762a_get_battery_voltage_mv :: "sda_pin \<Rightarrow> trace \<Rightarrow> trace \<times> u16" where
  "mp2762a_get_battery_voltage_mv pin tr = apsnd (adc_scale 25 2) (mp2762a_read_adc16 pin tr MP2762A_REG_ADC_VBAT_L)"

definition mp2762a_get_charge_current_ma :: "sda_pin \<Rightarrow> trace \<Rightarrow> trace \<times> u16" where
  "mp2762a_get_charge_current_ma pin tr = apsnd (adc_scale 25 2) (mp2762a_read_adc16 pin tr MP2762A_REG_ADC_ICHG_L)"

definition mp2762a_get_system_voltage_mv :: "sda_pin \<Rightarrow> trace \<Rightarrow> trace \<times> u16" where
  "mp2762a_get_system_voltage_mv pin tr = apsnd (adc_scale 25 2) (mp2762a_read_adc16 pin tr MP2762A_REG_ADC_VSYS_L)"

definition junction_c10 :: "u16 \<Rightarrow> int" where
  "junction_c10 raw =
     (let tj = int (unat (drop_bit 6 raw));
          dC = ((903 - tj) * 10000) sdiv 2578;
          dC = (if dC > 32767 then 32767 else dC) in
      if dC < - 32768 then - 32768 else dC)"

definition mp2762a_get_junction_temp_c10 :: "sda_pin \<Rightarrow> trace \<Rightarrow> trace \<times> int" where
  "mp2762a_get_junction_temp_c10 pin tr = apsnd junction_c10 (mp2762a_read_adc16 pin tr MP2762A_REG_ADC_TJUNC_L)"

definition mp2762a_get_fault :: "sda_pin \<Rightarrow> trace \<Rightarrow> trace \<times> u8" where
  "mp2762a_get_fault pin tr = mp2762a_read_reg pin tr MP2762A_REG_FAULT"

definition mp2762a_is_battery_uvlo :: "sda_pin \<Rightarrow> trace \<Rightarrow> trace \<times> bool" where
  "mp2762a_is_battery_uvlo pin tr =
     (case mp2762a_read_reg pin tr MP2762A_REG_STATUS of (tr, status) \<Rightarrow>
        (tr, status AND MP2762A_BATT_UVLO \<noteq> 0))"

definition mp2762a_read_all :: "bool \<Rightarrow> sda_pin \<Rightarrow> trace \<Rightarrow> trace \<times> mp2762a_data_t" where
  "mp2762a_read_all pa6 pin tr =
     (if \<not> pa6 then (tr, \<lparr>chg_state = CHG_STATE_NOT_CHARGING, power_good = False, vin_mv = 0, iin_ma = 0,
        vbat_mv = 0, ichg_ma = 0, vsys_mv = 0, tjunc_c10 = MP2762A_TJ_NA, fault = 0\<rparr>)
      else
        let (tr, status) = mp2762a_read_reg pin tr MP2762A_REG_STATUS;
            (tr, vin) = mp2762a_get_input_voltage_mv pin tr;
            (tr, iin) = mp2762a_get_input_current_ma pin tr;
            (tr, vbat) = mp2762a_get_battery_voltage_mv pin tr;
            (tr, ichg) = mp2762a_get_charge_current_ma pin tr;
            (tr, vsys) = mp2762a_get_system_voltage_mv pin tr;
            (tr, tj) = mp2762a_get_junction_temp_c10 pin tr;
            (tr, flt) = mp2762a_read_reg pin tr MP2762A_REG_FAULT in
        (tr, \<lparr>chg_state = chg_state_of (status AND MP2762A_CHG_STAT_MASK),
           power_good = (status AND MP2762A_ACOK \<noteq> 0), vin_mv = vin, iin_ma = iin,
           vbat_mv = vbat, ichg_ma = ichg, vsys_mv = vsys, tjunc_c10 = tj, fault = flt\<rparr>))"

section \<open>Battery detection\<close>

definition raw_presence :: "sda_pin \<Rightarrow> trace \<Rightarrow> u8 \<Rightarrow> u16 \<Rightarrow> trace \<times> bool" where
  "raw_presence pin tr status vbat_ext_mv =
     (if status AND MP2762A_ACOK \<noteq> 0 then
        let chg_bits = status AND MP2762A_CHG_STAT_MASK;
            (tr, ichg) = mp2762a_get_charge_current_ma pin tr in
        (tr, if chg_bits = MP2762A_CHG_DONE \<or> chg_bits = MP2762A_CHG_TRICKLE then True
             else if ichg > BAT_CHG_CURRENT_THRESHOLD_MA then True
             else vbat_ext_mv > BAT_PRESENT_EXT_MIN_MV)
      else (tr, status AND MP2762A_BATT_UVLO = 0))"

definition unstick :: "sda_pin \<Rightarrow> trace \<Rightarrow> u8 \<Rightarrow> bool \<Rightarrow> bat_state \<Rightarrow> trace \<times> bat_state" where
  "unstick pin tr status raw_present g =
     (if status AND MP2762A_ACOK \<noteq> 0 \<and> \<not> raw_present then
        let g = g\<lparr>g_stuck_counter := g_stuck_counter g + 1\<rparr> in
        if g_stuck_counter g \<ge> STUCK_RESTART_COUNT
        then (mp2762a_restart_charging pin tr, g\<lparr>g_stuck_counter := 0\<rparr>)
        else (tr, g)
      else (tr, g\<lparr>g_stuck_counter := 0\<rparr>))"

definition debounce :: "bat_state \<Rightarrow> bool \<Rightarrow> bat_state" where
  "debounce g raw_present =
     (if raw_present = g_bat_present_state g then g\<lparr>g_bat_present_counter := 0\<rparr>
      else let g = g\<lparr>g_bat_present_counter := g_bat_present_counter g + 1\<rparr> in
        if g_bat_present_counter g \<ge> BAT_DEBOUNCE_COUNT then
          let old_state = g_bat_present_state g;
              g = g\<lparr>g_bat_present_state := raw_present, g_bat_present_counter := 0\<rparr> in
          if \<not> old_state \<and> raw_present then g\<lparr>g_bat_inserted_flag := True\<rparr> else g
        else g)"

definition mp2762a_poll_battery :: "sda_pin \<Rightarrow> u16 \<Rightarrow> trace \<times> bat_state \<Rightarrow> trace \<times> bat_state" where
  "mp2762a_poll_battery pin vbat_ext_mv = (\<lambda>(tr, g).
     let (tr, status) = mp2762a_read_reg pin tr MP2762A_REG_STATUS;
         (tr, raw_present) = raw_presence pin tr status vbat_ext_mv;
         (tr, g) = unstick pin tr status raw_present g in
     (tr, debounce g raw_present))"

definition mp2762a_is_battery_present :: "bat_state \<Rightarrow> bool" where
  "mp2762a_is_battery_present g = g_bat_present_state g"

definition mp2762a_battery_inserted :: "bat_state \<Rightarrow> bat_state \<times> bool" where
  "mp2762a_battery_inserted g =
     (if g_bat_inserted_flag g then (g\<lparr>g_bat_inserted_flag := False\<rparr>, True) else (g, False))"

text \<open>The 500 ms block of the main loop; \<open>flt\<close> is the cached fault byte, which it clears.\<close>

definition battery_block :: "sda_pin \<Rightarrow> u16 \<Rightarrow> trace \<times> bat_state \<Rightarrow> u8 \<Rightarrow> (trace \<times> bat_state) \<times> u8" where
  "battery_block pin vbat tg flt =
     (let (tr, g) = mp2762a_poll_battery pin vbat tg;
          (g, inserted) = mp2762a_battery_inserted g;
          tr = (if inserted then mp2762a_restart_charging pin tr else tr) in
      if flt \<noteq> 0 then ((mp2762a_restart_charging pin tr, g), 0) else ((tr, g), flt))"


section \<open>The charger on the bus\<close>

definition chg :: "bus \<Rightarrow> trace \<Rightarrow> (u8 \<Rightarrow> u8) option" where
  "chg s tr = devs (bus_run s tr) 0x5C"

named_theorems charger

lemma chg_read [charger]: "chg s (fst (mp2762a_read_reg (bus_pin s) tr r)) = chg s tr"
  using i2c.rd_keeps [of "0x5C" s tr r] by (simp add: chg_def mp2762a_read_reg_def MP2762A_I2C_ADDR_def)

lemma chg_write [charger]: "chg s (mp2762a_write_reg tr r v) = map_option (\<lambda>f. f(r := v)) (chg s tr)"
  using i2c.wr_sets [of "0x5C" s tr r v] by (simp add: chg_def mp2762a_write_reg_def MP2762A_I2C_ADDR_def)

lemma chg_delay [charger]: "chg s (tr @ [Delay_Us n]) = chg s tr"
  by (simp add: chg_def bus_run_append bus_run_Cons bus_run_Nil)

lemma read_charger: "chg s tr = Some f \<Longrightarrow> snd (mp2762a_read_reg (bus_pin s) tr r) = f r"
  using i2c.rd_value [of "0x5C" s tr r]
  by (simp add: chg_def mp2762a_read_reg_def MP2762A_I2C_ADDR_def reg_value_def)

lemma chg_adc [charger]: "chg s (fst (mp2762a_read_adc16 (bus_pin s) tr r)) = chg s tr"
  by (simp add: mp2762a_read_adc16_def split_beta charger)

lemma chg_restart [charger]:
  "chg s (mp2762a_restart_charging (bus_pin s) tr) = map_option (\<lambda>f. f(0x08 := 0x16)) (chg s tr)"
  by (cases "chg s tr")
    (simp_all add: mp2762a_restart_charging_def split_beta Let_def charger MP2762A_REG_CONFIG0_def
      MP2762A_CONFIG0_NORMAL_def MP2762A_CHG_EN_def MP2762A_NTC_GCOMP_def MP2762A_BATTFET_EN_def)

lemma chg_read_all [charger]: "chg s (fst (mp2762a_read_all pa6 (bus_pin s) tr)) = chg s tr"
  by (simp add: mp2762a_read_all_def split_beta Let_def charger mp2762a_get_input_voltage_mv_def
      mp2762a_get_input_current_ma_def mp2762a_get_battery_voltage_mv_def mp2762a_get_charge_current_ma_def
      mp2762a_get_system_voltage_mv_def mp2762a_get_junction_temp_c10_def)

definition configured :: "(u8 \<Rightarrow> u8) \<Rightarrow> bool" where
  "configured f \<longleftrightarrow> f 0x00 = 0x64 \<and> f 0x0F = 0x64 \<and> f 0x01 = 0x2D \<and> f 0x02 = 0x0A \<and>
     f 0x04 = 0x36 \<and> f 0x08 = 0x16 \<and> f 0x09 = 0x44"

definition charger_ok :: "bus \<Rightarrow> trace \<times> bat_state \<Rightarrow> bool" where
  "charger_ok s tg \<longleftrightarrow> (\<exists>f. chg s (fst tg) = Some f \<and> configured f)"

datatype charger_op = Telemetry bool | Kick | Battery u16 u8

definition charger_step :: "sda_pin \<Rightarrow> trace \<times> bat_state \<Rightarrow> charger_op \<Rightarrow> trace \<times> bat_state" where
  "charger_step pin tg e = (case e of
     Telemetry pa6 \<Rightarrow> (fst (mp2762a_read_all pa6 pin (fst tg)), snd tg)
   | Kick \<Rightarrow> (mp2762a_kick_watchdog (fst tg), snd tg)
   | Battery vbat flt \<Rightarrow> fst (battery_block pin vbat tg flt))"

lemma configured_restart: "configured f \<Longrightarrow> configured (f(0x08 := 0x16))"
  by (simp add: configured_def)

lemma poll_ok: "charger_ok s tg \<Longrightarrow> charger_ok s (mp2762a_poll_battery (bus_pin s) vbat tg)"
  by (cases tg) (auto simp: charger_ok_def mp2762a_poll_battery_def raw_presence_def unstick_def split_beta Let_def
      charger mp2762a_get_charge_current_ma_def configured_restart)

lemma restart_ok: "charger_ok s (tr, g) \<Longrightarrow> charger_ok s (mp2762a_restart_charging (bus_pin s) tr, g')"
  by (auto simp: charger_ok_def charger configured_restart)

lemma block_ok: "charger_ok s tg \<Longrightarrow> charger_ok s (fst (battery_block (bus_pin s) vbat tg flt))"
  using poll_ok [of s tg vbat]
  by (cases "mp2762a_poll_battery (bus_pin s) vbat tg")
    (auto simp: battery_block_def split_beta Let_def charger_ok_def charger configured_restart)

interpretation mp: invariant_machine "charger_step (bus_pin s)" "charger_ok s" for s
proof unfold_locales
  fix tg e
  assume ok: "charger_ok s tg"
  show "charger_ok s (charger_step (bus_pin s) tg e)"
  proof (cases e)
    case (Telemetry pa6)
    with ok show ?thesis by (simp add: charger_step_def charger_ok_def charger)
  next
    case Kick
    with ok show ?thesis
      by (auto simp: charger_step_def charger_ok_def charger mp2762a_kick_watchdog_def Let_def configured_def
          MP2762A_REG_CONFIG0_def MP2762A_REG_CONFIG1_def MP2762A_REG_CHG_CURR_def MP2762A_REG_INPUT_ILIM_def
          MP2762A_REG_INPUT_ILIM2_def MP2762A_CONFIG0_NORMAL_def MP2762A_CHG_EN_def MP2762A_NTC_GCOMP_def
          MP2762A_BATTFET_EN_def)
  next
    case (Battery vbat flt)
    with block_ok [OF ok] show ?thesis by (simp add: charger_step_def)
  qed
qed

lemma init_ok:
  assumes "chg s tr = Some f"
  shows "charger_ok s (mp2762a_init (bus_pin s) tr, g)"
  using assms
  by (simp add: charger_ok_def mp2762a_init_def split_beta Let_def charger configured_def
      MP2762A_REG_CONFIG0_def MP2762A_REG_CONFIG1_def MP2762A_REG_CHG_CURR_def MP2762A_REG_INPUT_ILIM_def
      MP2762A_REG_INPUT_ILIM2_def MP2762A_REG_INPUT_VLIM_def MP2762A_REG_VBAT_REG_def MP2762A_REG_ADC_CFG_def
      MP2762A_CONFIG0_NORMAL_def MP2762A_CHG_EN_def MP2762A_NTC_GCOMP_def MP2762A_BATTFET_EN_def)




section \<open>The debounce\<close>

text \<open>A sequence of polls with the raw reading each of them obtained.\<close>

definition reading :: "sda_pin \<Rightarrow> u16 \<Rightarrow> trace \<Rightarrow> bool" where
  "reading pin vbat tr = (case mp2762a_read_reg pin tr MP2762A_REG_STATUS of
     (tr, status) \<Rightarrow> snd (raw_presence pin tr status vbat))"

fun poll_run :: "sda_pin \<Rightarrow> trace \<times> bat_state \<Rightarrow> u16 list \<Rightarrow> (trace \<times> bat_state) \<times> bool list" where
  "poll_run pin tg [] = (tg, [])"
| "poll_run pin tg (v # vs) =
     (case poll_run pin (mp2762a_poll_battery pin v tg) vs of (tg', rs) \<Rightarrow> (tg', reading pin v (fst tg) # rs))"

definition trail :: "bool \<Rightarrow> bool list \<Rightarrow> nat" where
  "trail p rs = length (takeWhile (\<lambda>r. r \<noteq> p) (rev rs))"

definition tracks :: "bat_state \<Rightarrow> bool list \<Rightarrow> bool" where
  "tracks g rs \<longleftrightarrow> unat (g_bat_present_counter g) = trail (g_bat_present_state g) rs \<and>
     trail (g_bat_present_state g) rs < 3"

lemma poll_debounce:
  "\<exists>g'. snd (mp2762a_poll_battery pin v tg) = debounce g' (reading pin v (fst tg)) \<and>
    g_bat_present_state g' = g_bat_present_state (snd tg) \<and>
    g_bat_present_counter g' = g_bat_present_counter (snd tg) \<and>
    g_bat_inserted_flag g' = g_bat_inserted_flag (snd tg)"
  by (cases tg) (auto simp: mp2762a_poll_battery_def reading_def unstick_def split_beta Let_def)

lemma debounce_keep:
  assumes "tracks g rs" and "r = g_bat_present_state g"
  shows "debounce g r = g\<lparr>g_bat_present_counter := 0\<rparr> \<and> tracks (debounce g r) (rs @ [r])"
  using assms by (simp add: debounce_def tracks_def trail_def)

lemma debounce_count:
  assumes "tracks g rs" and "r \<noteq> g_bat_present_state g" and "trail (g_bat_present_state g) rs < 2"
  shows "debounce g r = g\<lparr>g_bat_present_counter := g_bat_present_counter g + 1\<rparr> \<and> tracks (debounce g r) (rs @ [r])"
proof -
  let ?c = "g_bat_present_counter g"
  have c: "unat ?c < 2" using assms by (simp add: tracks_def)
  then have "unat (?c + 1) = Suc (unat ?c)" by (intro unat_inc) (auto simp: unat_max)
  moreover from this c have "\<not> ?c + 1 \<ge> 3" by (simp add: word_le_nat_alt)
  ultimately show ?thesis using assms
    by (simp add: debounce_def BAT_DEBOUNCE_COUNT_def tracks_def trail_def Let_def)
qed

lemma debounce_flip:
  assumes "tracks g rs" and "r \<noteq> g_bat_present_state g" and "trail (g_bat_present_state g) rs \<ge> 2"
  shows "g_bat_present_state (debounce g r) = r \<and> tracks (debounce g r) (rs @ [r]) \<and>
    g_bat_inserted_flag (debounce g r) = (g_bat_inserted_flag g \<or> r)"
proof -
  let ?c = "g_bat_present_counter g"
  have c: "unat ?c = 2" using assms by (simp add: tracks_def)
  then have "?c = 2" by (simp add: word_unat_eq_iff)
  then show ?thesis using assms
    by (auto simp: debounce_def BAT_DEBOUNCE_COUNT_def tracks_def trail_def Let_def)
qed

lemma debounce_cases:
  assumes "tracks g rs"
  obtains (keep) "r = g_bat_present_state g" "g_bat_present_state (debounce g r) = g_bat_present_state g"
      "tracks (debounce g r) (rs @ [r])"
    | (count) "r \<noteq> g_bat_present_state g" "g_bat_present_state (debounce g r) = g_bat_present_state g"
      "tracks (debounce g r) (rs @ [r])"
    | (flip) "r \<noteq> g_bat_present_state g" "g_bat_present_state (debounce g r) = r"
      "tracks (debounce g r) (rs @ [r])" "trail (g_bat_present_state g) rs \<ge> 2"
proof (cases "r = g_bat_present_state g")
  case True
  with debounce_keep [OF assms, of r] show thesis by (intro keep) auto
next
  case False
  show thesis
  proof (cases "trail (g_bat_present_state g) rs < 2")
    case True
    with False debounce_count [OF assms, of r] show thesis by (intro count) auto
  next
    case no: False
    with False debounce_flip [OF assms, of r] show thesis by (intro flip) auto
  qed
qed

lemma tracks_debounce: "tracks g rs \<Longrightarrow> tracks (debounce g r) (rs @ [r])"
  by (erule debounce_cases [where r = r])

lemma tracks_cong:
  "g_bat_present_state g' = g_bat_present_state g \<Longrightarrow> g_bat_present_counter g' = g_bat_present_counter g \<Longrightarrow>
   tracks g' rs = tracks g rs"
  by (simp add: tracks_def)

lemma poll_run_tracks:
  assumes "tracks (snd tg) rs"
  shows "tracks (snd (fst (poll_run pin tg vs))) (rs @ snd (poll_run pin tg vs))"
  using assms
proof (induction vs arbitrary: tg rs)
  case Nil
  then show ?case by simp
next
  case (Cons v vs)
  obtain g' where g': "snd (mp2762a_poll_battery pin v tg) = debounce g' (reading pin v (fst tg))"
    "g_bat_present_state g' = g_bat_present_state (snd tg)" "g_bat_present_counter g' = g_bat_present_counter (snd tg)"
    using poll_debounce [of pin v tg] by blast
  have "tracks (snd (mp2762a_poll_battery pin v tg)) (rs @ [reading pin v (fst tg)])"
    unfolding g'(1) using Cons.prems by (intro tracks_debounce) (simp add: tracks_cong [OF g'(2,3)])
  from Cons.IH [OF this] show ?case by (simp add: split_beta)
qed

lemma trail_last:
  "trail p rs \<ge> n \<Longrightarrow> \<forall>x\<in>set (drop (length rs - n) rs). x \<noteq> p"
proof -
  assume n: "trail p rs \<ge> n"
  have "drop (length rs - n) rs = rev (take n (rev rs))" by (simp add: take_rev)
  moreover have "set (take n (rev rs)) \<subseteq> set (takeWhile (\<lambda>r. r \<noteq> p) (rev rs))"
  proof -
    have "takeWhile (\<lambda>r. r \<noteq> p) (rev rs) = take (trail p rs) (rev rs)"
      unfolding trail_def by (rule takeWhile_eq_take)
    then show ?thesis using set_take_subset_set_take [OF n, of "rev rs"] by simp
  qed
  ultimately show ?thesis by (auto dest: set_takeWhileD)
qed

lemma last_trail:
  assumes "n \<le> length rs" and "\<forall>x\<in>set (drop (length rs - n) rs). x \<noteq> p"
  shows "trail p rs \<ge> n"
proof -
  have "take n (rev rs) = rev (drop (length rs - n) rs)" by (simp add: rev_drop assms(1))
  with assms(2) have "\<forall>x\<in>set (take n (rev rs)). x \<noteq> p" by simp
  then have "takeWhile (\<lambda>r. r \<noteq> p) (take n (rev rs) @ drop n (rev rs)) =
      take n (rev rs) @ takeWhile (\<lambda>r. r \<noteq> p) (drop n (rev rs))"
    by (intro takeWhile_append2) blast
  then have "takeWhile (\<lambda>r. r \<noteq> p) (rev rs) = take n (rev rs) @ takeWhile (\<lambda>r. r \<noteq> p) (drop n (rev rs))"
    by (simp only: append_take_drop_id)
  then show ?thesis using assms(1) by (simp add: trail_def)
qed

text \<open>
  Battery presence is decided by three agreeing polls and by nothing less: whenever the last
  three raw readings since boot agree, the reported state is that reading; the reported state
  changes only in a poll that completes three agreeing readings; and the insertion flag is
  raised exactly on a change from absent to present.
\<close>

theorem presence_debounced:
  assumes "poll_run pin (tr, bat_boot) vs = ((tr', g), rs)"
    and "mp2762a_poll_battery pin v (tr', g) = (tr'', g')"
  shows "(length rs \<ge> 3 \<and> set (drop (length rs - 3) rs) = {r} \<longrightarrow> mp2762a_is_battery_present g = r) \<and>
    (mp2762a_is_battery_present g' \<noteq> mp2762a_is_battery_present g \<longrightarrow>
       reading pin v tr' = mp2762a_is_battery_present g' \<and> length rs \<ge> 2 \<and>
       (\<forall>x\<in>set (drop (length rs - 2) rs). x = mp2762a_is_battery_present g')) \<and>
    g_bat_inserted_flag g' = (g_bat_inserted_flag g \<or>
       \<not> mp2762a_is_battery_present g \<and> mp2762a_is_battery_present g')"
proof -
  have "tracks bat_boot []" by (simp add: tracks_def trail_def bat_boot_def)
  then have t: "tracks g rs" using poll_run_tracks [of "(tr, bat_boot)" "[]" pin vs] assms(1) by simp
  obtain h where h: "g' = debounce h (reading pin v tr')" "g_bat_present_state h = g_bat_present_state g"
    "g_bat_present_counter h = g_bat_present_counter g" "g_bat_inserted_flag h = g_bat_inserted_flag g"
    using poll_debounce [of pin v "(tr', g)"] assms(2) by auto
  have th: "tracks h rs" using t by (simp add: tracks_cong [OF h(2,3)])
  have "length rs \<ge> 3 \<and> set (drop (length rs - 3) rs) = {r} \<longrightarrow> g_bat_present_state g = r"
    using last_trail [of 3 rs "g_bat_present_state g"] t by (auto simp: tracks_def)
  moreover have "g_bat_present_state g' \<noteq> g_bat_present_state g \<longrightarrow>
      reading pin v tr' = g_bat_present_state g' \<and> length rs \<ge> 2 \<and>
      (\<forall>x\<in>set (drop (length rs - 2) rs). x = g_bat_present_state g')"
    using th
  proof (cases rule: debounce_cases [where r = "reading pin v tr'"])
    case flip
    have "\<forall>x\<in>set (drop (length rs - 2) rs). x = reading pin v tr'"
      using trail_last [OF flip(4)] flip(1) by blast
    moreover have "length rs \<ge> 2"
      using flip(4) length_takeWhile_le [of "\<lambda>r. r \<noteq> g_bat_present_state h" "rev rs"] by (simp add: trail_def)
    ultimately show ?thesis using flip(2) unfolding h(1) by (simp only:) blast
  qed (simp_all add: h)
  moreover have "g_bat_inserted_flag g' = (g_bat_inserted_flag g \<or> \<not> g_bat_present_state g \<and> g_bat_present_state g')"
    by (auto simp: h debounce_def Let_def)
  ultimately show ?thesis by (simp add: mp2762a_is_battery_present_def)
qed


text \<open>A bus line stuck at one level: every register reads as all ones or all zeros.\<close>

lemma read_bits_stuck:
  "\<exists>tr'. read_bits (\<lambda>_. b) n v tr = (tr', shift_in v (replicate n b))"
  by (induction n arbitrary: v tr) (auto simp: shift_in_def Let_def)

lemma read_reg_stuck: "snd (I2C_read_reg (\<lambda>_. b) tr a r) = (if b then 0xFF else 0)"
proof -
  have "shift_in 0 (replicate 8 True) = 0xFF" "shift_in 0 (replicate 8 False) = 0" by code_simp+
  then have "shift_in 0 (replicate 8 b) = (if b then 0xFF else 0)" by (cases b) simp_all
  then have "snd (I2C_read (\<lambda>_. b) t c) = (if b then 0xFF else 0)" for t c
    using read_bits_stuck [of b 8 0 "t @ I2C_SDA_HIGH"] by (auto simp: I2C_read_def)
  then show ?thesis by (simp add: I2C_read_reg_def split_beta)
qed

lemma reading_stuck: "reading (\<lambda>_. b) v tr"
  using read_reg_stuck [of b]
  by (cases b)
    (auto simp: reading_def raw_presence_def split_beta mp2762a_read_reg_def MP2762A_ACOK_def MP2762A_BATT_UVLO_def
      MP2762A_CHG_STAT_MASK_def MP2762A_CHG_DONE_def MP2762A_CHG_TRICKLE_def)

text \<open>
  An unpowered charger, whose bus reads all zeros or all ones, is taken for a present battery:
  the polls do not ask whether the charger is powered.
\<close>

lemma dead_charger_present:
  "mp2762a_is_battery_present (snd (fst (poll_run (\<lambda>_. b) (tr, bat_boot) [v1, v2, v3])))"
proof -
  obtain tr' g rs where r: "poll_run (\<lambda>_. b) (tr, bat_boot) [v1, v2, v3] = ((tr', g), rs)"
    by (metis surj_pair)
  then have "rs = [True, True, True]" by (auto simp: split_beta reading_stuck)
  moreover have "tracks bat_boot []" by (simp add: tracks_def trail_def bat_boot_def)
  ultimately have "tracks g [True, True, True]" using poll_run_tracks [of "(tr, bat_boot)" "[]" "\<lambda>_. b" "[v1, v2, v3]"] r by simp
  then have "g_bat_present_state g" by (cases "g_bat_present_state g") (auto simp: tracks_def trail_def)
  with r show ?thesis by (simp add: mp2762a_is_battery_present_def)
qed

theorem presence_debounced_witness:
  "mp2762a_is_battery_present (snd (fst (poll_run (\<lambda>_. True) ([], bat_boot) [0, 0, 0])))"
proof -
  obtain tr' g rs where r: "poll_run (\<lambda>_. True) ([], bat_boot) [0, 0, 0] = ((tr', g), rs)"
    by (metis surj_pair)
  obtain tr'' g' where p: "mp2762a_poll_battery (\<lambda>_. True) 0 (tr', g) = (tr'', g')" by fastforce
  from r have "rs = [True, True, True]" by (auto simp: split_beta reading_stuck)
  with presence_debounced [OF r p, of True] r show ?thesis by simp
qed

end
