(* ===== verification/Tps55289.thy ===== *)
theory Tps55289
  imports Complex_Main Ch32_I2c
begin

text \<open>
  The output converter driver (\<open>tps55289.c\<close>) and the set-point watchdog of the main loop.  The
  driver computes in \<open>float\<close> and \<open>double\<close>: a floating-point number is the rational it
  denotes and every operation rounds to 24 or 53 significant bits, to nearest with ties to even,
  as IEEE 754 arithmetic does inside the range the driver uses (no value here comes near
  overflow or the subnormal numbers).
\<close>

section \<open>Floating point\<close>

function blen :: "int \<Rightarrow> nat" where
  "blen n = (if n \<le> 0 then 0 else Suc (blen (n div 2)))"
  by pat_completeness auto
termination by (relation "measure nat") auto

declare blen.simps [simp del]

definition pow2 :: "int \<Rightarrow> rat" where
  "pow2 e = (if e \<ge> 0 then 2 ^ nat e else 1 / 2 ^ nat (- e))"

text \<open>The exponent of a positive rational: the largest \<open>e\<close> with \<open>pow2 e \<le> x\<close>.\<close>

definition expo :: "rat \<Rightarrow> int" where
  "expo x = (case quotient_of x of (a, b) \<Rightarrow>
     let e = int (blen a) - int (blen b) in if pow2 e \<le> x then e else e - 1)"

definition round_even :: "rat \<Rightarrow> int" where
  "round_even q = (let f = \<lfloor>q\<rfloor>; r = q - of_int f in
     if r < 1 / 2 then f else if r > 1 / 2 then f + 1 else if even f then f else f + 1)"

definition fl :: "nat \<Rightarrow> rat \<Rightarrow> rat" where
  "fl p x = (if x = 0 then 0 else let u = pow2 (expo \<bar>x\<bar> - int p + 1) in of_int (round_even (x / u)) * u)"

abbreviation fl32 :: "rat \<Rightarrow> rat" where "fl32 \<equiv> fl 24"
abbreviation fl64 :: "rat \<Rightarrow> rat" where "fl64 \<equiv> fl 53"

definition roundf :: "rat \<Rightarrow> int" where
  "roundf x = (if x \<ge> 0 then \<lfloor>x + 1 / 2\<rfloor> else - \<lfloor>- x + 1 / 2\<rfloor>)"

definition trunc :: "rat \<Rightarrow> int" where
  "trunc x = (if x \<ge> 0 then \<lfloor>x\<rfloor> else - \<lfloor>- x\<rfloor>)"

section \<open>Registers and constants\<close>

definition TPS55289_I2C_ADDR :: u8 where "TPS55289_I2C_ADDR = 0x75"
definition REG_REF_LSB :: u8 where "REG_REF_LSB = 0x00"
definition REG_REF_MSB :: u8 where "REG_REF_MSB = 0x01"
definition REG_IOUT_LIMIT :: u8 where "REG_IOUT_LIMIT = 0x02"
definition REG_VOUT_SR :: u8 where "REG_VOUT_SR = 0x03"
definition REG_VOUT_FS :: u8 where "REG_VOUT_FS = 0x04"
definition REG_CDC :: u8 where "REG_CDC = 0x05"
definition REG_MODE :: u8 where "REG_MODE = 0x06"
definition REG_STATUS :: u8 where "REG_STATUS = 0x07"
definition MODE_OE_BIT :: u8 where "MODE_OE_BIT = 0x80"
definition MODE_HICCUP_BIT :: u8 where "MODE_HICCUP_BIT = 0x20"
definition CDC_COMP_0V7 :: u8 where "CDC_COMP_0V7 = 7"
definition LSB_REF_VOLTAGE :: rat where "LSB_REF_VOLTAGE = fl64 (5645 / 10000000)"
definition REF_MIN_V :: rat where "REF_MIN_V = fl64 (45 / 1000)"
definition REF_MAX_V :: rat where "REF_MAX_V = fl64 (1200 / 1000)"
definition IOUT_LSB_PER_AMP :: rat where "IOUT_LSB_PER_AMP = 20"

definition INTFB_OPTIONS :: "rat list" where
  "INTFB_OPTIONS = [fl32 (2256 / 10000), fl32 (1128 / 10000), fl32 (752 / 10000), fl32 (564 / 10000)]"

record tps_cache =
  g_voltage_set_v10 :: int
  g_current_set_a10 :: int

section \<open>Operations\<close>

definition tps55289_write_byte :: "trace \<Rightarrow> u8 \<Rightarrow> u8 \<Rightarrow> trace" where
  "tps55289_write_byte tr reg val = I2C_write_reg tr TPS55289_I2C_ADDR reg val"

definition write_word_lsb_first :: "trace \<Rightarrow> u8 \<Rightarrow> u16 \<Rightarrow> trace" where
  "write_word_lsb_first tr reg_lsb val =
     (let lsb = ucast (val AND 0xFF) :: u8;
          msb = ucast (drop_bit 8 val AND 0x07) :: u8 in
      I2C_write_reg (I2C_write_reg tr TPS55289_I2C_ADDR reg_lsb lsb) TPS55289_I2C_ADDR (reg_lsb + 1) msb)"

definition tps55289_set_cdc_compensation :: "trace \<Rightarrow> u8 \<Rightarrow> trace" where
  "tps55289_set_cdc_compensation tr level =
     (let level = (if level > 7 then 7 else level) in
      tps55289_write_byte tr REG_CDC (0xE0 OR (level AND 0x07)))"

definition tps55289_enable_output :: "trace \<Rightarrow> bool \<Rightarrow> trace" where
  "tps55289_enable_output tr enable =
     tps55289_write_byte tr REG_MODE (if enable then MODE_OE_BIT OR MODE_HICCUP_BIT else MODE_HICCUP_BIT)"

definition tps55289_init :: "sda_pin \<Rightarrow> trace \<Rightarrow> trace" where
  "tps55289_init pin tr =
     (let tr = tps55289_write_byte tr REG_VOUT_SR (push_bit 4 0x01 OR 0x01);
          tr = tps55289_set_cdc_compensation tr CDC_COMP_0V7;
          (tr, mode) = I2C_read_reg pin tr TPS55289_I2C_ADDR REG_MODE in
      if mode AND MODE_OE_BIT = 0 then tps55289_enable_output tr False else tr)"

text \<open>The failure value \<open>-1\<close> is returned as an unsigned byte.\<close>

definition tps55289_set_current_limit :: "trace \<times> tps_cache \<Rightarrow> rat \<Rightarrow> (trace \<times> tps_cache) \<times> u8" where
  "tps55289_set_current_limit tc amps =
     (if amps < 0 \<or> amps > fl32 (635 / 100) then (tc, - 1)
      else let reg_val = roundf (fl32 (amps * IOUT_LSB_PER_AMP));
               reg_val = (if reg_val > 0x7F then 0x7F else reg_val);
               reg_val = reg_val OR 0x80 in
        ((tps55289_write_byte (fst tc) REG_IOUT_LIMIT (word_of_int reg_val),
          (snd tc)\<lparr>g_current_set_a10 := roundf (fl32 (amps * 10))\<rparr>), 0))"

definition tps55289_set_voltage :: "trace \<times> tps_cache \<Rightarrow> rat \<Rightarrow> (trace \<times> tps_cache) \<times> u8" where
  "tps55289_set_voltage tc vout =
     (if vout < fl32 (33 / 10) \<or> vout > 20 then (tc, - 1)
      else let ratio = INTFB_OPTIONS ! 3;
               vref = fl32 (vout * ratio) in
        if vref < REF_MIN_V \<or> vref > REF_MAX_V then (tc, - 1)
        else let reg_float = fl32 (fl64 (fl64 (vref - REF_MIN_V) / LSB_REF_VOLTAGE));
                 reg_float = fl32 (reg_float + 1 / 2);
                 reg = trunc reg_float;
                 reg = (if reg < 0 then 0 else reg);
                 reg = (if reg > 0x7FF then 0x7FF else reg);
                 tr = tps55289_write_byte (fst tc) REG_VOUT_FS 0x03;
                 tr = write_word_lsb_first tr REG_REF_LSB (word_of_int reg) in
          ((tr, (snd tc)\<lparr>g_voltage_set_v10 := roundf (fl32 (vout * 10))\<rparr>), 0))"

definition tps55289_get_voltage_set_v10 :: "tps_cache \<Rightarrow> int" where
  "tps55289_get_voltage_set_v10 c = g_voltage_set_v10 c"

definition tps55289_get_current_set_a10 :: "tps_cache \<Rightarrow> int" where
  "tps55289_get_current_set_a10 c = g_current_set_a10 c"

definition tps55289_clear_set_cache :: "tps_cache \<Rightarrow> tps_cache" where
  "tps55289_clear_set_cache c = c\<lparr>g_voltage_set_v10 := 0, g_current_set_a10 := 0\<rparr>"

definition tps55289_read_voltage :: "sda_pin \<Rightarrow> trace \<Rightarrow> trace \<times> rat" where
  "tps55289_read_voltage pin tr =
     (let (tr, lsb) = I2C_read_reg pin tr TPS55289_I2C_ADDR REG_REF_LSB;
          (tr, msb) = I2C_read_reg pin tr TPS55289_I2C_ADDR REG_REF_MSB;
          (tr, vout_fs) = I2C_read_reg pin tr TPS55289_I2C_ADDR REG_VOUT_FS;
          reg = (push_bit 8 (ucast (msb AND 0x07)) OR ucast lsb :: u16);
          intfb_bits = vout_fs AND 0x03;
          ratio = INTFB_OPTIONS ! unat intfb_bits;
          vref = fl32 (fl64 (REF_MIN_V + fl64 (of_int (uint reg) * LSB_REF_VOLTAGE))) in
      (tr, fl32 (vref / ratio)))"

definition tps55289_read_current_limit :: "sda_pin \<Rightarrow> trace \<Rightarrow> trace \<times> rat" where
  "tps55289_read_current_limit pin tr =
     (let (tr, reg) = I2C_read_reg pin tr TPS55289_I2C_ADDR REG_IOUT_LIMIT in
      (tr, fl32 (of_int (uint (reg AND 0x7F)) / IOUT_LSB_PER_AMP)))"

definition tps55289_read_status :: "sda_pin \<Rightarrow> trace \<Rightarrow> trace \<times> u8" where
  "tps55289_read_status pin tr = I2C_read_reg pin tr TPS55289_I2C_ADDR REG_STATUS"

text \<open>The two-second block of the main loop: read back, then re-apply the cached set points.\<close>

record tps_state =
  tps_line :: trace
  tps_set :: tps_cache
  Tps_Vread_v10 :: int
  Tps_Iread_a10 :: int
  Tps_Status_Latched :: u8

definition tps_block :: "sda_pin \<Rightarrow> tps_state \<Rightarrow> tps_state" where
  "tps_block pin st =
     (let (tr, v) = tps55289_read_voltage pin (tps_line st);
          (tr, i) = tps55289_read_current_limit pin tr;
          (tr, s) = tps55289_read_status pin tr;
          st = st\<lparr>Tps_Vread_v10 := trunc (fl32 (v * 10)), Tps_Iread_a10 := trunc (fl32 (i * 10)),
                  Tps_Status_Latched := Tps_Status_Latched st OR s\<rparr>;
          v_set = tps55289_get_voltage_set_v10 (tps_set st);
          i_set = tps55289_get_current_set_a10 (tps_set st) in
      if v_set > 0 \<and> i_set > 0 then
        let tr = tps55289_set_cdc_compensation tr CDC_COMP_0V7;
            tc = fst (tps55289_set_current_limit (tr, tps_set st) (fl32 (of_int i_set / 10)));
            tc = fst (tps55289_set_voltage tc (fl32 (of_int v_set / 10))) in
        st\<lparr>tps_line := tps55289_enable_output (fst tc) True, tps_set := snd tc\<rparr>
      else st\<lparr>tps_line := tr\<rparr>)"


text \<open>
  The set points of the output contracts (\<open>PD_Process.c\<close>, state \<open>STA_TX_ACCEPT\<close>) and how a
  set point is applied, there and by the default 5 V supply.
\<close>

definition accept_setpoint :: "nat \<Rightarrow> rat \<times> rat" where
  "accept_setpoint ReqPDO_Idx =
     (if ReqPDO_Idx = 1 then (5, fl32 (52 / 10))
      else if ReqPDO_Idx = 2 then (9, fl32 (31 / 10))
      else if ReqPDO_Idx = 3 then (12, fl32 (23 / 10))
      else if ReqPDO_Idx = 4 then (15, fl32 (19 / 10))
      else (5, 3))"

definition apply_setpoint :: "trace \<times> tps_cache \<Rightarrow> rat \<Rightarrow> rat \<Rightarrow> trace \<times> tps_cache" where
  "apply_setpoint tc volt amps =
     (let tc = (tps55289_set_cdc_compensation (fst tc) CDC_COMP_0V7, snd tc);
          tc = fst (tps55289_set_current_limit tc amps);
          tc = fst (tps55289_set_voltage tc volt) in
      (tps55289_enable_output (fst tc) True, snd tc))"

section \<open>Set points survive the watchdog\<close>

definition volt_reg :: "rat \<Rightarrow> u16" where
  "volt_reg vout = (let vref = fl32 (vout * INTFB_OPTIONS ! 3);
     reg = trunc (fl32 (fl32 (fl64 (fl64 (vref - REF_MIN_V) / LSB_REF_VOLTAGE)) + 1 / 2));
     reg = (if reg < 0 then 0 else reg) in word_of_int (if reg > 0x7FF then 0x7FF else reg))"

definition volt_ok :: "int \<Rightarrow> bool" where
  "volt_ok v10 \<longleftrightarrow> (let v = fl32 (of_int v10 / 10); vref = fl32 (v * INTFB_OPTIONS ! 3) in
     \<not> v < fl32 (33 / 10) \<and> \<not> v > 20 \<and> \<not> vref < REF_MIN_V \<and> \<not> vref > REF_MAX_V \<and>
     roundf (fl32 (v * 10)) = v10)"

definition curr_ok :: "int \<Rightarrow> bool" where
  "curr_ok a10 \<longleftrightarrow> (let a = fl32 (of_int a10 / 10) in
     \<not> a < 0 \<and> \<not> a > fl32 (635 / 100) \<and> roundf (fl32 (a * 10)) = a10)"

definition curr_reg :: "rat \<Rightarrow> u8" where
  "curr_reg amps = (let r = roundf (fl32 (amps * IOUT_LSB_PER_AMP)) in word_of_int ((if r > 0x7F then 0x7F else r) OR 0x80))"

lemma set_voltage_ok:
  assumes "volt_ok v10"
  shows "tps55289_set_voltage tc (fl32 (of_int v10 / 10)) =
    ((write_word_lsb_first (tps55289_write_byte (fst tc) REG_VOUT_FS 0x03) REG_REF_LSB (volt_reg (fl32 (of_int v10 / 10))),
      (snd tc)\<lparr>g_voltage_set_v10 := v10\<rparr>), 0)"
  using assms by (simp add: tps55289_set_voltage_def volt_ok_def volt_reg_def Let_def)

lemma set_current_ok:
  assumes "curr_ok a10"
  shows "tps55289_set_current_limit tc (fl32 (of_int a10 / 10)) =
    ((tps55289_write_byte (fst tc) REG_IOUT_LIMIT (curr_reg (fl32 (of_int a10 / 10))),
      (snd tc)\<lparr>g_current_set_a10 := a10\<rparr>), 0)"
  using assms by (simp add: tps55289_set_current_limit_def curr_ok_def curr_reg_def Let_def)

definition tps :: "bus \<Rightarrow> trace \<Rightarrow> (u8 \<Rightarrow> u8) option" where
  "tps s tr = devs (bus_run s tr) 0x75"

named_theorems converter

lemma tps_write [converter]: "tps s (I2C_write_reg tr 0x75 r v) = map_option (\<lambda>f. f(r := v)) (tps s tr)"
  using i2c.wr_sets [of "0x75" s tr r v] by (simp add: tps_def)

lemma tps_read [converter]: "tps s (fst (I2C_read_reg (bus_pin s) tr 0x75 r)) = tps s tr"
  using i2c.rd_keeps [of "0x75" s tr r] by (simp add: tps_def)

text \<open>The registers a set point determines.\<close>

definition with_setpoint :: "rat \<Rightarrow> rat \<Rightarrow> (u8 \<Rightarrow> u8) \<Rightarrow> u8 \<Rightarrow> u8" where
  "with_setpoint volt amps f = f(0x05 := 0xE7, 0x02 := curr_reg amps, 0x04 := 0x03,
     0x00 := ucast (volt_reg volt AND 0xFF), 0x01 := ucast (drop_bit 8 (volt_reg volt) AND 0x07), 0x06 := 0xA0)"

lemma with_setpoint_idem: "with_setpoint v i (with_setpoint v i f) = with_setpoint v i f"
  by (rule ext) (simp add: with_setpoint_def)

lemma apply_setpoint_ok:
  assumes "volt_ok v10" and "curr_ok a10" and "tps s (fst tc) = Some f"
  shows "snd (apply_setpoint tc (fl32 (of_int v10 / 10)) (fl32 (of_int a10 / 10))) =
      (snd tc)\<lparr>g_voltage_set_v10 := v10, g_current_set_a10 := a10\<rparr>"
    and "tps s (fst (apply_setpoint tc (fl32 (of_int v10 / 10)) (fl32 (of_int a10 / 10)))) =
      Some (with_setpoint (fl32 (of_int v10 / 10)) (fl32 (of_int a10 / 10)) f)"
  using assms(3)
  by (simp_all add: apply_setpoint_def Let_def set_voltage_ok [OF assms(1)] set_current_ok [OF assms(2)]
      tps55289_set_cdc_compensation_def tps55289_enable_output_def tps55289_write_byte_def write_word_lsb_first_def
      TPS55289_I2C_ADDR_def converter with_setpoint_def REG_CDC_def REG_IOUT_LIMIT_def REG_VOUT_FS_def REG_REF_LSB_def
      REG_MODE_def MODE_OE_BIT_def MODE_HICCUP_BIT_def CDC_COMP_0V7_def)

lemma tps_block_reads:
  assumes "tps s (tps_line st) = Some f"
  obtains tr where "tps s tr = Some f"
    and "tps_set (tps_block (bus_pin s) st) = (if g_voltage_set_v10 (tps_set st) > 0 \<and> g_current_set_a10 (tps_set st) > 0
      then snd (apply_setpoint (tr, tps_set st) (fl32 (of_int (g_voltage_set_v10 (tps_set st)) / 10))
        (fl32 (of_int (g_current_set_a10 (tps_set st)) / 10))) else tps_set st)"
    and "tps_line (tps_block (bus_pin s) st) = (if g_voltage_set_v10 (tps_set st) > 0 \<and> g_current_set_a10 (tps_set st) > 0
      then fst (apply_setpoint (tr, tps_set st) (fl32 (of_int (g_voltage_set_v10 (tps_set st)) / 10))
        (fl32 (of_int (g_current_set_a10 (tps_set st)) / 10))) else tr)"
proof -
  let ?t1 = "fst (tps55289_read_voltage (bus_pin s) (tps_line st))"
  let ?t2 = "fst (tps55289_read_current_limit (bus_pin s) ?t1)"
  let ?t3 = "fst (tps55289_read_status (bus_pin s) ?t2)"
  have t: "tps s ?t3 = Some f"
    using assms by (simp add: tps55289_read_voltage_def tps55289_read_current_limit_def tps55289_read_status_def
        split_beta Let_def TPS55289_I2C_ADDR_def converter)
  show thesis
    by (rule that [OF t]) (simp_all add: tps_block_def split_beta Let_def apply_setpoint_def
        tps55289_get_voltage_set_v10_def tps55289_get_current_set_a10_def)
qed

lemma setpoints_ok:
  "volt_ok 50" "volt_ok 90" "volt_ok 120" "volt_ok 150"
  "curr_ok 30" "curr_ok 52" "curr_ok 31" "curr_ok 23" "curr_ok 19"
  by code_simp+

lemma setpoint_grid:
  "\<exists>v10 a10. accept_setpoint idx = (fl32 (of_int v10 / 10), fl32 (of_int a10 / 10)) \<and>
    v10 > 0 \<and> a10 > 0 \<and> volt_ok v10 \<and> curr_ok a10"
proof -
  have "fl32 (of_int 50 / 10) = 5" "fl32 (of_int 90 / 10) = 9" "fl32 (of_int 120 / 10) = 12"
    "fl32 (of_int 150 / 10) = 15" "fl32 (of_int 30 / 10) = 3"
    by code_simp+
  then have "accept_setpoint idx \<in> {(fl32 (of_int 50 / 10), fl32 (of_int 52 / 10)),
      (fl32 (of_int 90 / 10), fl32 (of_int 31 / 10)), (fl32 (of_int 120 / 10), fl32 (of_int 23 / 10)),
      (fl32 (of_int 150 / 10), fl32 (of_int 19 / 10)), (fl32 (of_int 50 / 10), fl32 (of_int 30 / 10))}"
    by (simp add: accept_setpoint_def)
  then show ?thesis using setpoints_ok by (elim insertE) fastforce+
qed

text \<open>
  For every output contract the firmware can accept, and for the default 5 V supply, the
  two-second watchdog reproduces the set point exactly: on a bus with the converter on it, the
  block that re-applies the cached values leaves every register of the converter and the cached
  values as the set point left them, whatever it reads back in between.
\<close>

theorem watchdog_reproduces_setpoint:
  assumes "devs (bus_run s tr) 0x75 = Some f" and "accept_setpoint idx = (volt, amps)"
    and "(tr', cache) = apply_setpoint (tr, c) volt amps"
    and "tps_line st = tr'" and "tps_set st = cache"
  shows "\<exists>g. devs (bus_run s tr') 0x75 = Some g \<and>
    devs (bus_run s (tps_line (tps_block (bus_pin s) st))) 0x75 = Some g \<and>
    tps_set (tps_block (bus_pin s) st) = cache"
proof -
  obtain v10 a10 where g: "volt = fl32 (of_int v10 / 10)" "amps = fl32 (of_int a10 / 10)" "v10 > 0" "a10 > 0"
      "volt_ok v10" "curr_ok a10"
    using setpoint_grid [of idx] assms(2) by auto
  have "tps s (fst (tr, c)) = Some f" using assms(1) by (simp add: tps_def)
  note a = apply_setpoint_ok [OF g(5,6) this]
  have tr': "tps s (tps_line st) = Some (with_setpoint volt amps f)"
    and cache: "tps_set st = c\<lparr>g_voltage_set_v10 := v10, g_current_set_a10 := a10\<rparr>"
    using a assms(3-5) unfolding g(1,2) by (metis fst_conv, metis snd_conv)
  obtain t where t: "tps s t = Some (with_setpoint volt amps f)"
    "tps_set (tps_block (bus_pin s) st) = snd (apply_setpoint (t, tps_set st) volt amps)"
    "tps_line (tps_block (bus_pin s) st) = fst (apply_setpoint (t, tps_set st) volt amps)"
    by (rule tps_block_reads [OF tr']) (use g cache in auto)
  have "tps s (fst (t, tps_set st)) = Some (with_setpoint volt amps f)" using t(1) by simp
  note b = apply_setpoint_ok [OF g(5,6) this]
  show ?thesis using b t tr' cache assms(4,5) unfolding g(1,2)
    by (auto simp: tps_def with_setpoint_idem)
qed


definition converter_bus :: bus where
  "converter_bus = \<lparr>scl = True, sda = True, phase = Idle, pointer = (\<lambda>_. 0),
     devs = (\<lambda>a. if a = 0x75 then Some (\<lambda>_. 0) else None)\<rparr>"

theorem watchdog_reproduces_setpoint_witness:
  "\<exists>tr' cache st g. devs (bus_run converter_bus tr') 0x75 = Some g \<and> tps_line st = tr' \<and> tps_set st = cache \<and>
    devs (bus_run converter_bus (tps_line (tps_block (bus_pin converter_bus) st))) 0x75 = Some g"
proof -
  let ?c = "\<lparr>g_voltage_set_v10 = 0, g_current_set_a10 = 0\<rparr>"
  obtain volt amps where p: "accept_setpoint 1 = (volt, amps)" by (metis surj_pair)
  obtain tr' cache where a: "(tr', cache) = apply_setpoint ([], ?c) volt amps" by (metis surj_pair)
  let ?st = "\<lparr>tps_line = tr', tps_set = cache, Tps_Vread_v10 = 0, Tps_Iread_a10 = 0, Tps_Status_Latched = 0\<rparr>"
  have "devs (bus_run converter_bus []) 0x75 = Some (\<lambda>_. 0)" by (simp add: converter_bus_def bus_run_Nil)
  from watchdog_reproduces_setpoint [OF this p a, of ?st]
  obtain g where "devs (bus_run converter_bus tr') 0x75 = Some g"
      "devs (bus_run converter_bus (tps_line (tps_block (bus_pin converter_bus) ?st))) 0x75 = Some g"
    by auto
  then show ?thesis by (intro exI [of _ tr'] exI [of _ cache] exI [of _ ?st] exI [of _ g]) simp
qed

end
