(* ===== verification/Power_Status.thy ===== *)
theory Power_Status
  imports Wire_Protocol
begin

text \<open>
  The power telemetry payloads of \<^verbatim>\<open>common/protocol.h\<close> and the version-dispatching decoder
  of \<^verbatim>\<open>main/power_status_decode.h\<close>. A packed struct is a record of machine words; an
  \<open>int16_t\<close> is kept as the \<^typ>\<open>u16\<close> of its two bytes and read with \<^const>\<open>sint\<close>. Copying a
  struct to or from a byte buffer (\<open>memcpy\<close>) is its little-endian image, which is what the
  two firmware images exchange.
\<close>

section \<open>Payload structs\<close>

record wups_power_status_v1 =
  p1_version :: u8
  p1_charge_state :: u8
  p1_vbus_in_mV :: u16
  p1_vbus_out_mV :: u16
  p1_ibus_out_mA :: u16
  p1_vbat_mV :: u16
  p1_ibat_mA :: u16
  p1_temp_dC :: u16
  p1_pd_contract_mV :: u16
  p1_pd_contract_mA :: u16
  p1_faults :: u16

record wups_power_status_v2 =
  p2_version :: u8
  p2_flags :: u8
  p2_charge_state :: u8
  p2_reserved :: u8
  p2_vbus_in_mV :: u16
  p2_pd_in_mV :: u16
  p2_pd_in_mA :: u16
  p2_vbus_out_mV :: u16
  p2_vout_set_mV :: u16
  p2_vout_read_mV :: u16
  p2_iout_limit_mA :: u16
  p2_pd_out_mV :: u16
  p2_pd_out_mA :: u16
  p2_vbat_mV :: u16
  p2_ichg_mA :: u16
  p2_vsys_mV :: u16
  p2_iin_mA :: u16
  p2_temp_lm_dC :: u16
  p2_temp_mp_dC :: u16
  p2_faults :: u16
  p2_uptime_s :: u32

definition WUPS_PWR2_FLAG_DC_IN_EN :: u8 where [simp]: "WUPS_PWR2_FLAG_DC_IN_EN = 1"
definition WUPS_PWR2_FLAG_VBUS_OUT_EN :: u8 where [simp]: "WUPS_PWR2_FLAG_VBUS_OUT_EN = 2"
definition WUPS_PWR2_FLAG_BATT_PRESENT :: u8 where [simp]: "WUPS_PWR2_FLAG_BATT_PRESENT = 4"
definition WUPS_PWR2_FLAG_POWER_GOOD :: u8 where [simp]: "WUPS_PWR2_FLAG_POWER_GOOD = 8"
definition WUPS_PWR2_FLAG_USB_C_ATTACH :: u8 where [simp]: "WUPS_PWR2_FLAG_USB_C_ATTACH = 16"
definition WUPS_PWR2_TEMP_NA :: u16 where [simp]: "WUPS_PWR2_TEMP_NA = 0x8000"

definition status_v1_bytes :: "wups_power_status_v1 \<Rightarrow> bytes" where
  "status_v1_bytes s = [p1_version s, p1_charge_state s] @ concat (map le16
     [p1_vbus_in_mV s, p1_vbus_out_mV s, p1_ibus_out_mA s, p1_vbat_mV s, p1_ibat_mA s,
      p1_temp_dC s, p1_pd_contract_mV s, p1_pd_contract_mA s, p1_faults s])"

definition status_v2_bytes :: "wups_power_status_v2 \<Rightarrow> bytes" where
  "status_v2_bytes s =
     [p2_version s, p2_flags s, p2_charge_state s, p2_reserved s] @ concat (map le16
     [p2_vbus_in_mV s, p2_pd_in_mV s, p2_pd_in_mA s, p2_vbus_out_mV s, p2_vout_set_mV s,
      p2_vout_read_mV s, p2_iout_limit_mA s, p2_pd_out_mV s, p2_pd_out_mA s, p2_vbat_mV s,
      p2_ichg_mA s, p2_vsys_mV s, p2_iin_mA s, p2_temp_lm_dC s, p2_temp_mp_dC s, p2_faults s])
     @ le32 (p2_uptime_s s)"

definition u16_at :: "bytes \<Rightarrow> nat \<Rightarrow> u16" where
  "u16_at raw i = rd_u16le (drop i raw)"

definition load_status_v1 :: "bytes \<Rightarrow> wups_power_status_v1" where
  "load_status_v1 raw = \<lparr>p1_version = raw ! 0, p1_charge_state = raw ! 1,
     p1_vbus_in_mV = u16_at raw 2, p1_vbus_out_mV = u16_at raw 4, p1_ibus_out_mA = u16_at raw 6,
     p1_vbat_mV = u16_at raw 8, p1_ibat_mA = u16_at raw 10, p1_temp_dC = u16_at raw 12,
     p1_pd_contract_mV = u16_at raw 14, p1_pd_contract_mA = u16_at raw 16,
     p1_faults = u16_at raw 18\<rparr>"

definition load_status_v2 :: "bytes \<Rightarrow> wups_power_status_v2" where
  "load_status_v2 raw = \<lparr>p2_version = raw ! 0, p2_flags = raw ! 1, p2_charge_state = raw ! 2,
     p2_reserved = raw ! 3, p2_vbus_in_mV = u16_at raw 4, p2_pd_in_mV = u16_at raw 6,
     p2_pd_in_mA = u16_at raw 8, p2_vbus_out_mV = u16_at raw 10, p2_vout_set_mV = u16_at raw 12,
     p2_vout_read_mV = u16_at raw 14, p2_iout_limit_mA = u16_at raw 16,
     p2_pd_out_mV = u16_at raw 18, p2_pd_out_mA = u16_at raw 20, p2_vbat_mV = u16_at raw 22,
     p2_ichg_mA = u16_at raw 24, p2_vsys_mV = u16_at raw 26, p2_iin_mA = u16_at raw 28,
     p2_temp_lm_dC = u16_at raw 30, p2_temp_mp_dC = u16_at raw 32, p2_faults = u16_at raw 34,
     p2_uptime_s = rd_u32le (drop 36 raw)\<rparr>"

definition zero_v1 :: wups_power_status_v1 where
  "zero_v1 = load_status_v1 (replicate 20 0)"

definition zero_v2 :: wups_power_status_v2 where
  "zero_v2 = load_status_v2 (replicate 40 0)"

section \<open>Decoder\<close>

record wups_power_status_view =
  view_version :: u8
  view_v1 :: wups_power_status_v1
  view_v2 :: wups_power_status_v2
  temp_mp_valid :: bool
  temp_agg_dC :: u16

definition zero_view :: wups_power_status_view where
  "zero_view = \<lparr>view_version = 0, view_v1 = zero_v1, view_v2 = zero_v2,
     temp_mp_valid = False, temp_agg_dC = 0\<rparr>"

definition wups_power_temp_agg_dC :: "u16 \<Rightarrow> u16 \<Rightarrow> u16" where
  "wups_power_temp_agg_dC lm mp =
     (if mp = WUPS_PWR2_TEMP_NA then lm else if sint mp > sint lm then mp else lm)"

definition wups_power_status_decode :: "bytes \<Rightarrow> u8 \<times> wups_power_status_view" where
  "wups_power_status_decode raw = (
     let out = zero_view in
     if raw = [] then (0, out)
     else if raw ! 0 = 2 \<and> sizeof_power_status_v2 \<le> length raw then
       let v2 = load_status_v2 raw in
       (2, out\<lparr>view_v2 := v2, temp_mp_valid := p2_temp_mp_dC v2 \<noteq> WUPS_PWR2_TEMP_NA,
          temp_agg_dC := wups_power_temp_agg_dC (p2_temp_lm_dC v2) (p2_temp_mp_dC v2),
          view_version := 2\<rparr>)
     else if raw ! 0 = 1 \<and> sizeof_power_status_v1 \<le> length raw then
       let v1 = load_status_v1 raw in
       (1, out\<lparr>view_v1 := v1, temp_mp_valid := False, temp_agg_dC := p1_temp_dC v1,
          view_version := 1\<rparr>)
     else (0, out))"

section \<open>Codec laws\<close>

lemma status_v1_length [simp]: "length (status_v1_bytes s) = sizeof_power_status_v1"
  by (simp add: status_v1_bytes_def)

lemma status_v2_length [simp]: "length (status_v2_bytes s) = sizeof_power_status_v2"
  by (simp add: status_v2_bytes_def)

lemma drop_le16 [simp]: "drop (numeral n) (le16 x @ r) = drop (numeral n - 2) r"
  if "2 \<le> (numeral n :: nat)"
  using that by (simp add: le16_def numeral_eq_Suc [of n]) (cases "pred_numeral n"; simp add: numeral_eq_Suc)

lemmas u16_fields = u16_at_def rd_u16le_le16 rd_u16le_le16 [where rest = "[]", simplified]
  rd_u32le_le32

lemma load_v1_bytes: "load_status_v1 (status_v1_bytes s @ rest) = s"
  by (simp add: load_status_v1_def status_v1_bytes_def u16_fields)

lemma load_v2_bytes: "load_status_v2 (status_v2_bytes s @ rest) = s"
  by (simp add: load_status_v2_def status_v2_bytes_def u16_fields)

interpretation status_v1: byte_codec status_v1_bytes load_status_v1 sizeof_power_status_v1
  by unfold_locales (rule status_v1_length, rule load_v1_bytes)

interpretation status_v2: byte_codec status_v2_bytes load_status_v2 sizeof_power_status_v2
  by unfold_locales (rule status_v2_length, rule load_v2_bytes)

lemma status_hd [simp]:
  "(status_v1_bytes s @ rest) ! 0 = p1_version s"
  "(status_v2_bytes t @ rest) ! 0 = p2_version t"
  by (simp_all add: status_v1_bytes_def status_v2_bytes_def)

lemma agg_not_colder:
  assumes "mp \<noteq> WUPS_PWR2_TEMP_NA"
  shows "sint (wups_power_temp_agg_dC lm mp) = max (sint lm) (sint mp)"
  using assms by (simp add: wups_power_temp_agg_dC_def max_def)

lemma sint_na: "sint (x :: u16) = - 32768 \<longleftrightarrow> x = 0x8000"
proof
  assume "sint x = - 32768"
  then have "sint x = sint (0x8000 :: u16)" by simp
  then show "x = 0x8000" by (rule signed_word_eqI)
qed simp

lemma nonempty: "status_v1_bytes s \<noteq> []" "status_v2_bytes t \<noteq> []"
  by (simp_all add: status_v1_bytes_def status_v2_bytes_def)

section \<open>Properties\<close>

text \<open>
  Telemetry round trip: whatever follows the struct in the payload, a version 2 status
  comes back field by field, with the aggregate temperature being the hotter of the two
  sensors, or the board sensor alone when the charger temperature carries the sentinel; a
  version 1 status comes back likewise with its own temperature; and the half of the view
  that was not decoded is all zero.
\<close>

theorem power_status_round_trip:
  "(p2_version s = 2 \<longrightarrow> wups_power_status_decode (status_v2_bytes s @ rest) =
      (2, \<lparr>view_version = 2, view_v1 = zero_v1, view_v2 = s,
           temp_mp_valid = (sint (p2_temp_mp_dC s) \<noteq> - 32768),
           temp_agg_dC = (if sint (p2_temp_mp_dC s) \<noteq> - 32768
                             \<and> sint (p2_temp_lm_dC s) < sint (p2_temp_mp_dC s)
                          then p2_temp_mp_dC s else p2_temp_lm_dC s)\<rparr>))
   \<and> (p1_version t = 1 \<longrightarrow> wups_power_status_decode (status_v1_bytes t @ rest) =
      (1, \<lparr>view_version = 1, view_v1 = t, view_v2 = zero_v2,
           temp_mp_valid = False, temp_agg_dC = p1_temp_dC t\<rparr>))"
  by (auto simp: wups_power_status_decode_def Let_def zero_view_def load_v1_bytes load_v2_bytes
      wups_power_temp_agg_dC_def sint_na nonempty)

definition sample_v2 :: wups_power_status_v2 where
  "sample_v2 = (load_status_v2 (replicate 40 7))\<lparr>p2_version := 2, p2_temp_mp_dC := 0x8000\<rparr>"

theorem power_status_round_trip_witness:
  "temp_agg_dC (snd (wups_power_status_decode (status_v2_bytes sample_v2 @ [9]))) = 0x0707
   \<and> fst (wups_power_status_decode
        (status_v1_bytes (zero_v1\<lparr>p1_version := 1, p1_temp_dC := 0x00FD\<rparr>) @ [9])) = 1"
  using power_status_round_trip [of sample_v2 "[9]" "zero_v1\<lparr>p1_version := 1, p1_temp_dC := 0x00FD\<rparr>"]
  by (simp add: sample_v2_def sint_na) code_simp

text \<open>
  C39. Decoding is total and never guesses: the returned version is the one recorded in the
  view and is 1, 2 or 0; it is 0 exactly when the payload is empty, has another version byte
  or is shorter than its own version's struct, and then every field of the view is zero. In
  particular a truncated version 2 payload is never read through the version 1 layout,
  although it is long enough for it.
\<close>

theorem power_status_rejects:
  "case wups_power_status_decode raw of (v, out) \<Rightarrow>
     view_version out = v \<and> v \<in> {0, 1, 2}
     \<and> (v = 0 \<longleftrightarrow> \<not> (raw \<noteq> [] \<and> (raw ! 0 = 2 \<and> 40 \<le> length raw \<or> raw ! 0 = 1 \<and> 20 \<le> length raw)))
     \<and> (v = 0 \<longrightarrow> out = zero_view)
     \<and> (raw \<noteq> [] \<and> raw ! 0 = 2 \<longrightarrow> v \<noteq> 1 \<and> view_v1 out = zero_v1)
     \<and> (raw \<noteq> [] \<and> raw ! 0 = 1 \<longrightarrow> v \<noteq> 2 \<and> view_v2 out = zero_v2)"
  by (auto simp: wups_power_status_decode_def Let_def zero_view_def)

theorem power_status_rejects_witness:
  "fst (wups_power_status_decode (2 # replicate 38 1)) = 0"
  using power_status_rejects [of "2 # replicate 38 1"] by (simp split: prod.splits)

end
