(* ===== verification/Ch32_Pd.thy ===== *)
theory Ch32_Pd
  imports Tps55289
begin

text \<open>
  The USB Power Delivery source of the power controller (\<open>PD_Process.c\<close>) with the rail switches
  of \<open>main.c\<close> it drives. The control block, the message buffers, the event trace ring and the
  port registers are one record; the converter set points go through the I2C driver. What the
  hardware decides is an argument: the comparator levels of the two CC pins, the poll after which
  a transmission ends, and the receptions that happen while the firmware polls for a GoodCRC.
  Text printed on the debug console and fixed delays are left out. A transmitted packet is
  appended to the list \<open>sent\<close>, and \<open>polls\<close> counts the iterations of the two polling loops.
\<close>

section \<open>Constants\<close>

datatype CC_STATUS =
    STA_IDLE | STA_DISCONNECT | STA_SRC_CONNECT | STA_RX_SRC_CAP_WAIT | STA_RX_SRC_CAP | STA_TX_REQ
  | STA_RX_ACCEPT_WAIT | STA_RX_ACCEPT | STA_RX_REJECT | STA_RX_PS_RDY_WAIT | STA_RX_PS_RDY
  | STA_SINK_CONNECT | STA_TX_SRC_CAP | STA_RX_REQ_WAIT | STA_RX_REQ | STA_TX_ACCEPT | STA_TX_REJECT
  | STA_ADJ_VOL | STA_TX_PS_RDY | STA_TX_DR_SWAP | STA_RX_DR_SWAP_ACCEPT | STA_TX_PR_SWAP
  | STA_RX_PR_SWAP_ACCEPT | STA_RX_PR_SWAP_PS_RDY | STA_TX_PR_SWAP_PS_RDY | STA_PR_SWAP_RECON_WAIT
  | STA_SRC_RECON_WAIT | STA_SINK_RECON_WAIT | STA_RX_APD_PS_RDY_WAIT | STA_RX_APD_PS_RDY
  | STA_MODE_SWITCH | STA_TX_SOFTRST | STA_TX_HRST | STA_PHY_RST | STA_APD_IDLE_WAIT | STA_TX_VDM_RPI

datatype sop = UPD_SOP0 | UPD_HARD_RESET

definition DEF_TYPE_GOODCRC :: u8 where [simp]: "DEF_TYPE_GOODCRC = 0x01"
definition DEF_TYPE_ACCEPT :: u8 where [simp]: "DEF_TYPE_ACCEPT = 0x03"
definition DEF_TYPE_REJECT :: u8 where [simp]: "DEF_TYPE_REJECT = 0x04"
definition DEF_TYPE_PS_RDY :: u8 where [simp]: "DEF_TYPE_PS_RDY = 0x06"
definition DEF_TYPE_GET_SRC_CAP :: u8 where [simp]: "DEF_TYPE_GET_SRC_CAP = 0x07"
definition DEF_TYPE_GET_SNK_CAP :: u8 where [simp]: "DEF_TYPE_GET_SNK_CAP = 0x08"
definition DEF_TYPE_DR_SWAP :: u8 where [simp]: "DEF_TYPE_DR_SWAP = 0x09"
definition DEF_TYPE_VCONN_SWAP :: u8 where [simp]: "DEF_TYPE_VCONN_SWAP = 0x0B"
definition DEF_TYPE_WAIT :: u8 where [simp]: "DEF_TYPE_WAIT = 0x0C"
definition DEF_TYPE_SOFT_RESET :: u8 where [simp]: "DEF_TYPE_SOFT_RESET = 0x0D"
definition DEF_TYPE_NOT_SUPPORT :: u8 where [simp]: "DEF_TYPE_NOT_SUPPORT = 0x10"
definition DEF_TYPE_SRC_CAP :: u8 where [simp]: "DEF_TYPE_SRC_CAP = 0x01"
definition DEF_TYPE_REQUEST :: u8 where [simp]: "DEF_TYPE_REQUEST = 0x02"
definition DEF_TYPE_VENDOR_DEFINED :: u8 where [simp]: "DEF_TYPE_VENDOR_DEFINED = 0x0F"

definition PD_EVT_CONNECT :: u16 where [simp]: "PD_EVT_CONNECT = 0x01"
definition PD_EVT_SRC_CAP_TX :: u16 where [simp]: "PD_EVT_SRC_CAP_TX = 0x02"
definition PD_EVT_REQ_RX :: u16 where [simp]: "PD_EVT_REQ_RX = 0x03"
definition PD_EVT_ACCEPT_TX :: u16 where [simp]: "PD_EVT_ACCEPT_TX = 0x04"
definition PD_EVT_PS_RDY_TX :: u16 where [simp]: "PD_EVT_PS_RDY_TX = 0x05"
definition PD_EVT_VDM_RPI_TX :: u16 where [simp]: "PD_EVT_VDM_RPI_TX = 0x06"
definition PD_EVT_DRSWAP_RX :: u16 where [simp]: "PD_EVT_DRSWAP_RX = 0x07"
definition PD_EVT_DRSWAP_ACC :: u16 where [simp]: "PD_EVT_DRSWAP_ACC = 0x08"
definition PD_EVT_DRSWAP_FAIL :: u16 where [simp]: "PD_EVT_DRSWAP_FAIL = 0x09"
definition PD_EVT_SOFTRST_RX :: u16 where [simp]: "PD_EVT_SOFTRST_RX = 0x0A"
definition PD_EVT_SOFTRST_TX :: u16 where [simp]: "PD_EVT_SOFTRST_TX = 0x0B"
definition PD_EVT_HRST_TX :: u16 where [simp]: "PD_EVT_HRST_TX = 0x0C"
definition PD_EVT_DISCONNECT :: u16 where [simp]: "PD_EVT_DISCONNECT = 0x0D"
definition PD_EVT_PROTO_REPLY :: u16 where [simp]: "PD_EVT_PROTO_REPLY = 0x0E"
definition PD_EVT_ENTER_USB :: u16 where [simp]: "PD_EVT_ENTER_USB = 0x0F"

definition PD_ALL_CLR :: u16 where "PD_ALL_CLR = 0x0002"
definition CC_SEL :: u16 where "CC_SEL = 0x0004"
definition PD_DMA_EN :: u16 where "PD_DMA_EN = 0x0008"
definition IE_RX_ACT :: u16 where "IE_RX_ACT = 0x2000"
definition IE_RX_RESET :: u16 where "IE_RX_RESET = 0x4000"
definition IE_TX_END :: u16 where "IE_TX_END = 0x8000"
definition PA_CC_AI :: u16 where "PA_CC_AI = 0x0001"
definition CC_PD :: u16 where "CC_PD = 0x0002"
definition CC_PU_330 :: u16 where "CC_PU_330 = 0x0004"
definition CC_LVE :: u16 where "CC_LVE = 0x0010"
definition CC_CMP_Mask :: u16 where "CC_CMP_Mask = 0x00E0"
definition CC_CMP_22 :: u16 where "CC_CMP_22 = 0x0040"
definition CC_CMP_66 :: u16 where "CC_CMP_66 = 0x00A0"
definition bCC_CMP_22 :: u8 where [simp]: "bCC_CMP_22 = 0x01"
definition bCC_CMP_66 :: u8 where [simp]: "bCC_CMP_66 = 0x08"
definition bCC_CMP_220 :: u8 where [simp]: "bCC_CMP_220 = 0x40"

definition SrcCap_5V5A_Tab :: bytes where
  "SrcCap_5V5A_Tab = [0xF4, 0x91, 0x01, 0x0E, 0x2C, 0xD1, 0x02, 0x00,
     0xE1, 0xC0, 0x03, 0x00, 0xB4, 0xB0, 0x04, 0x00]"

definition VDM_RPI_TX_Tab :: bytes where
  "VDM_RPI_TX_Tab = [0x41, 0xA0, 0x00, 0xFF, 0x8A, 0x2E, 0xC0, 0x01, 0x00, 0x00, 0x00, 0x00,
     0x00, 0x00, 0x0F, 0x00, 0x01, 0x00, 0x80, 0x20]"

definition VDM_UFP_ID_ACK_Tab :: bytes where
  "VDM_UFP_ID_ACK_Tab = [0x41, 0xA0, 0x00, 0xFF, 0x8A, 0x2E, 0x40, 0x50, 0x00, 0x00, 0x00, 0x00,
     0x00, 0x01, 0x0A, 0x00, 0x00, 0x00, 0x00, 0x21]"

definition SrcCap_5V3A_Tab :: bytes where
  "SrcCap_5V3A_Tab = [0x2C, 0x91, 0x01, 0x3E]"

section \<open>State\<close>

record pd_control =
  PD_State :: CC_STATUS
  Msg_ID :: u8
  Det_Timer :: u8
  Det_Cnt :: u8
  PD_Comm_Timer :: u16
  ReqPDO_Idx :: u8
  PD_BusIdle_Timer :: u16
  Mode_Try_Cnt :: u8
  Adapter_Idle_Cnt :: u8
  Src_Cap_Cnt :: u8
  Msg_Recvd :: bool
  Connected :: bool
  Stop_Det_Chk :: bool
  PD_Role :: bool
  PR_Role :: bool
  Auto_Ack_PRRole :: bool
  PD_Version :: bool
  PD_Comm_Succ :: bool

record pd_state = pd_control +
  DRSwap_Last_MsgID :: u8
  PD_Evt_Buf :: "u16 list"
  PD_Evt_W :: u8
  PD_Rx_Buf :: bytes
  PD_Tx_Buf :: bytes
  PD_Ack_Buf :: bytes
  Adapter_SrcCap :: bytes
  PORT_CC1 :: u16
  PORT_CC2 :: u16
  CONFIG :: u16
  irq_on :: bool
  rx_armed :: bool
  sent :: "(sop \<times> bytes) list"
  polls :: nat
  VBUS_OUT_EN :: bool
  PDS_EN :: bool
  rail :: tps_state

record cc_levels =
  cc1_22 :: bool
  cc1_66 :: bool
  cc1_220 :: bool
  cc2_22 :: bool
  cc2_66 :: bool
  cc2_220 :: bool

text \<open>Answers of the transceiver, by the number of packets sent so far and the poll.\<close>

record pd_env =
  tx_end_at :: "nat \<Rightarrow> nat \<Rightarrow> bool"
  rx_at :: "nat \<Rightarrow> nat \<Rightarrow> (nat \<times> bytes) option"

section \<open>Trace ring and rail switches\<close>

definition PD_Evt :: "u16 \<Rightarrow> pd_state \<Rightarrow> pd_state" where
  "PD_Evt code_arg s = s\<lparr>PD_Evt_Buf := (PD_Evt_Buf s)[unat (PD_Evt_W s AND 0x0F) := code_arg],
     PD_Evt_W := PD_Evt_W s + 1\<rparr>"

definition rail_line :: "(trace \<Rightarrow> trace) \<Rightarrow> tps_state \<Rightarrow> tps_state" where
  "rail_line f t = t\<lparr>tps_line := f (tps_line t)\<rparr>"

definition rail_setpoint :: "rat \<Rightarrow> rat \<Rightarrow> tps_state \<Rightarrow> tps_state" where
  "rail_setpoint volt amps t =
     (case apply_setpoint (tps_line t, tps_set t) volt amps of
       (tr, c) \<Rightarrow> t\<lparr>tps_line := tr, tps_set := c\<rparr>)"

definition VBUS_enable :: "pd_state \<Rightarrow> pd_state" where
  "VBUS_enable s = s\<lparr>VBUS_OUT_EN := True, PDS_EN := True\<rparr>"

definition VBUS_disable :: "pd_state \<Rightarrow> pd_state" where
  "VBUS_disable s =
     (let s = s\<lparr>VBUS_OUT_EN := False, PDS_EN := True\<rparr>;
          t = rail_line (\<lambda>tr. tps55289_enable_output tr False) (rail s);
          t = t\<lparr>tps_set := tps55289_clear_set_cache (tps_set t), Tps_Vread_v10 := 0, Tps_Iread_a10 := 0\<rparr> in
      s\<lparr>rail := t, ReqPDO_Idx := 0\<rparr>)"

definition VBUS_set_5V :: "pd_state \<Rightarrow> pd_state" where
  "VBUS_set_5V s = (let s = VBUS_enable s in s\<lparr>rail := rail_setpoint 5 3 (rail s)\<rparr>)"

section \<open>Port setup\<close>

definition PD_Rx_Mode :: "pd_state \<Rightarrow> pd_state" where
  "PD_Rx_Mode s =
     (let c = CONFIG s OR PD_ALL_CLR;
          c = c AND NOT PD_ALL_CLR;
          c = c OR IE_RX_ACT OR IE_RX_RESET OR PD_DMA_EN in
      s\<lparr>CONFIG := c, rx_armed := True, irq_on := True\<rparr>)"

definition PD_SRC_Init :: "pd_state \<Rightarrow> pd_state" where
  "PD_SRC_Init s = s\<lparr>PR_Role := True, Auto_Ack_PRRole := True,
     PORT_CC1 := CC_CMP_66 OR CC_PU_330, PORT_CC2 := CC_CMP_66 OR CC_PU_330\<rparr>"

definition PD_SINK_Init :: "pd_state \<Rightarrow> pd_state" where
  "PD_SINK_Init s = s\<lparr>PR_Role := False, Auto_Ack_PRRole := False,
     PORT_CC1 := CC_CMP_66 OR CC_PD, PORT_CC2 := CC_CMP_66 OR CC_PD\<rparr>"

definition PD_DataRole_Reset :: "pd_state \<Rightarrow> pd_state" where
  "PD_DataRole_Reset s = s\<lparr>PD_Role := True, irq_on := True, DRSwap_Last_MsgID := 0xFF\<rparr>"

definition PD_PHY_Reset :: "pd_state \<Rightarrow> pd_state" where
  "PD_PHY_Reset s =
     (let s = s\<lparr>Msg_Recvd := False, Msg_ID := 0, PD_Version := True, Det_Cnt := 0,
                Connected := False, PD_Comm_Timer := 0, PD_BusIdle_Timer := 0,
                Mode_Try_Cnt := 0x80, PD_Role := True, DRSwap_Last_MsgID := 0xFF,
                Stop_Det_Chk := False, PD_State := STA_IDLE, PD_Comm_Succ := False\<rparr> in
      PD_Rx_Mode (PD_SRC_Init s))"

definition PD_Init :: "pd_state \<Rightarrow> pd_state" where
  "PD_Init s =
     (let s = s\<lparr>CONFIG := PD_DMA_EN\<rparr>;
          s = s\<lparr>PD_State := STA_IDLE, Msg_ID := 0, Det_Timer := 0, Det_Cnt := 0, PD_Comm_Timer := 0,
                ReqPDO_Idx := 0, PD_BusIdle_Timer := 0, Mode_Try_Cnt := 0, Adapter_Idle_Cnt := 0,
                Src_Cap_Cnt := 0, Msg_Recvd := False, Connected := False, Stop_Det_Chk := False,
                PD_Role := False, PR_Role := False, Auto_Ack_PRRole := False, PD_Version := False,
                PD_Comm_Succ := False\<rparr>;
          s = s\<lparr>Adapter_SrcCap := [1] @ SrcCap_5V3A_Tab @ drop 5 (Adapter_SrcCap s)\<rparr> in
      PD_Rx_Mode (PD_PHY_Reset s))"

section \<open>Attach and detach detection\<close>

definition cc_select :: "u16 \<Rightarrow> u16 \<Rightarrow> u16" where
  "cc_select thr port = (port AND NOT (CC_CMP_Mask OR PA_CC_AI)) OR thr"

definition PD_Detect :: "cc_levels \<Rightarrow> pd_state \<Rightarrow> pd_state \<times> u8" where
  "PD_Detect l s =
     (let s = s\<lparr>PORT_CC1 := cc_select CC_CMP_66 (cc_select CC_CMP_22 (PORT_CC1 s)),
                PORT_CC2 := cc_select CC_CMP_66 (cc_select CC_CMP_22 (PORT_CC2 s))\<rparr> in
      if Connected s then
        let cmp_cc1 = (if cc1_22 l then bCC_CMP_22 else 0) OR (if cc1_220 l then bCC_CMP_220 else 0);
            cmp_cc2 = (if cc2_22 l then bCC_CMP_22 else 0) OR (if cc2_220 l then bCC_CMP_220 else 0) in
        if PORT_CC1 s AND CC_PD \<noteq> 0 then (s, 0)
        else if CONFIG s AND CC_SEL \<noteq> 0 then
          (s, if cmp_cc2 AND bCC_CMP_220 = bCC_CMP_220 then 0 else 2)
        else (s, if cmp_cc1 AND bCC_CMP_220 = bCC_CMP_220 then 0 else 1)
      else
        let cmp_cc1 = (if cc1_22 l then bCC_CMP_22 else 0) OR (if cc1_66 l then bCC_CMP_66 else 0)
              OR (if cc1_220 l then bCC_CMP_220 else 0);
            cmp_cc2 = (if cc2_22 l then bCC_CMP_22 else 0) OR (if cc2_66 l then bCC_CMP_66 else 0)
              OR (if cc2_220 l then bCC_CMP_220 else 0) in
        if PORT_CC1 s AND CC_PD \<noteq> 0 then (s, 0)
        else
          let ret = (if cmp_cc1 AND bCC_CMP_66 = bCC_CMP_66 \<and> cmp_cc1 AND bCC_CMP_220 = 0 then
                       if (cmp_cc2 AND bCC_CMP_22 = bCC_CMP_22 \<and> cmp_cc2 AND bCC_CMP_66 = 0)
                          \<or> cmp_cc2 AND bCC_CMP_220 = bCC_CMP_220 then 1 else 0
                     else 0);
              ret = (if cmp_cc2 AND bCC_CMP_66 = bCC_CMP_66 \<and> cmp_cc2 AND bCC_CMP_220 = 0 then
                       if ret \<noteq> 0 then 0
                       else if (cmp_cc1 AND bCC_CMP_22 = bCC_CMP_22 \<and> cmp_cc1 AND bCC_CMP_66 = 0)
                          \<or> cmp_cc1 AND bCC_CMP_220 = bCC_CMP_220 then 2 else 0
                     else ret) in
          (s, ret))"

definition PD_Det_Proc :: "cc_levels \<Rightarrow> pd_state \<Rightarrow> pd_state" where
  "PD_Det_Proc l s =
     (let (s, status) = PD_Detect l s in
      if Connected s then
        if status \<noteq> 0 then s\<lparr>Det_Cnt := 0\<rparr>
        else let s = s\<lparr>Det_Cnt := Det_Cnt s + 1\<rparr> in
          if Det_Cnt s \<ge> 5 then
            let s = s\<lparr>Det_Cnt := 0, Connected := False\<rparr> in
            if \<not> Stop_Det_Chk s then s\<lparr>PD_State := STA_DISCONNECT\<rparr> else s
          else s
      else
        let s = (if status = 0 then s\<lparr>Det_Cnt := 0\<rparr> else s\<lparr>Det_Cnt := Det_Cnt s + 1\<rparr>) in
        if Det_Cnt s \<ge> 5 then
          let s = s\<lparr>Det_Cnt := 0, Connected := True\<rparr> in
          if \<not> Stop_Det_Chk s then
            let s = s\<lparr>CONFIG := (if status = 1 then CONFIG s AND NOT CC_SEL else CONFIG s OR CC_SEL)\<rparr>;
                s = s\<lparr>PD_State := STA_SINK_CONNECT\<rparr>;
                s = PD_Evt PD_EVT_CONNECT s;
                s = VBUS_set_5V s in
            s\<lparr>PD_Comm_Timer := 0\<rparr>
          else s
        else s)"

section \<open>Sending\<close>

fun tx_wait :: "(nat \<Rightarrow> bool) \<Rightarrow> nat \<Rightarrow> nat \<Rightarrow> nat" where
  "tx_wait te 0 k = k"
| "tx_wait te (Suc guard) k =
     (if te k then Suc k else if guard = 0 then Suc k else tx_wait te guard (Suc k))"

definition TX_GUARD :: nat where "TX_GUARD = 200000"

definition lve_port :: "(u16 \<Rightarrow> u16) \<Rightarrow> pd_state \<Rightarrow> pd_state" where
  "lve_port f s = (if CONFIG s AND CC_SEL = CC_SEL then s\<lparr>PORT_CC2 := f (PORT_CC2 s)\<rparr>
     else s\<lparr>PORT_CC1 := f (PORT_CC1 s)\<rparr>)"

definition PD_Phy_SendPack :: "pd_env \<Rightarrow> bool \<Rightarrow> bytes \<Rightarrow> sop \<Rightarrow> pd_state \<Rightarrow> pd_state" where
  "PD_Phy_SendPack env mode data sop s =
     (let s = lve_port (\<lambda>p. p OR CC_LVE) s;
          s = s\<lparr>rx_armed := False, sent := sent s @ [(sop, data)]\<rparr> in
      if mode then
        let s = s\<lparr>polls := polls s + tx_wait (tx_end_at env (length (sent s))) TX_GUARD 0\<rparr>;
            s = lve_port (\<lambda>p. p AND NOT CC_LVE) s;
            s = s\<lparr>CONFIG := CONFIG s OR PD_ALL_CLR\<rparr>;
            s = s\<lparr>CONFIG := CONFIG s AND NOT PD_ALL_CLR\<rparr> in
        s\<lparr>rx_armed := True\<rparr>
      else s)"

definition PD_Load_Header :: "bool \<Rightarrow> u8 \<Rightarrow> pd_state \<Rightarrow> pd_state" where
  "PD_Load_Header ex msg_type s =
     (let b0 = msg_type;
          b0 = (if PD_Role s then b0 OR 0x20 else b0);
          b0 = (if PD_Version s then b0 OR 0x80 else b0 OR 0x40);
          b1 = Msg_ID s AND 0x0E;
          b1 = (if PR_Role s then b1 OR 0x01 else b1);
          b1 = (if ex then b1 OR 0x80 else b1) in
      s\<lparr>PD_Tx_Buf := (PD_Tx_Buf s)[0 := b0, 1 := b1]\<rparr>)"

definition rx_dma :: "bytes \<Rightarrow> bytes \<Rightarrow> bytes" where
  "rx_dma buf data = take (length buf) (data @ drop (length data) buf)"

fun crc_wait :: "(nat \<Rightarrow> (nat \<times> bytes) option) \<Rightarrow> nat \<Rightarrow> nat \<Rightarrow> bytes \<Rightarrow> bool \<times> nat \<times> bytes" where
  "crc_wait rx 0 k buf = (False, k, buf)"
| "crc_wait rx (Suc cnt) k buf =
     (case rx k of
       Some (n, data) \<Rightarrow>
         let buf = rx_dma buf data in
         if n = 6 \<and> buf ! 0 AND 0x1F = DEF_TYPE_GOODCRC then (True, Suc k, buf)
         else crc_wait rx cnt (Suc k) buf
     | None \<Rightarrow> crc_wait rx cnt (Suc k) buf)"

definition send_once :: "pd_env \<Rightarrow> nat \<Rightarrow> pd_state \<Rightarrow> pd_state \<times> bool" where
  "send_once env len s =
     (let s = s\<lparr>irq_on := False\<rparr>;
          s = PD_Phy_SendPack env True (take (len + 2) (PD_Tx_Buf s)) UPD_SOP0 s;
          (ok, k, buf) = crc_wait (rx_at env (length (sent s))) 249 0 (PD_Rx_Buf s);
          s = s\<lparr>PD_Rx_Buf := buf, polls := polls s + k\<rparr> in
      if ok then (s\<lparr>Msg_ID := Msg_ID s + 2\<rparr>, True) else (s, False))"

fun send_tries :: "pd_env \<Rightarrow> nat \<Rightarrow> nat \<Rightarrow> pd_state \<Rightarrow> pd_state \<times> bool" where
  "send_tries env 0 len s = (s, False)"
| "send_tries env (Suc trycnt) len s =
     (let (s, ok) = send_once env len s in
      if ok then (s, True) else send_tries env trycnt len s)"

definition store_payload :: "bytes \<Rightarrow> bytes \<Rightarrow> bytes" where
  "store_payload pbuf tx = foldl (\<lambda>tx cnt. tx[2 + cnt := pbuf ! cnt]) tx [0..<length pbuf]"

text \<open>The result is \<open>True\<close> for \<open>DEF_PD_TX_OK\<close>.\<close>

definition PD_Send_Handle :: "pd_env \<Rightarrow> bytes \<Rightarrow> pd_state \<Rightarrow> pd_state \<times> bool" where
  "PD_Send_Handle env pbuf s =
     (let len = length pbuf in
      if len mod 4 \<noteq> 0 then (s, False)
      else if len > 28 then (s, False)
      else
        let cnt = of_nat (len div 4) :: u8;
            s = s\<lparr>PD_Tx_Buf := (PD_Tx_Buf s)[1 := (PD_Tx_Buf s ! 1) OR push_bit 4 cnt]\<rparr>;
            s = s\<lparr>PD_Tx_Buf := store_payload pbuf (PD_Tx_Buf s)\<rparr>;
            (s, ok) = send_tries env 3 len s in
        (PD_Rx_Mode s, ok))"

definition PD_Request_Analyse :: "nat \<Rightarrow> bytes \<Rightarrow> u16" where
  "PD_Request_Analyse pdo_idx srccap =
     (let temp32 = (ucast (srccap ! ((pdo_idx - 1) * 4)) :: u32)
            + push_bit 8 (ucast (srccap ! ((pdo_idx - 1) * 4 + 1))) in
      ucast ((temp32 AND 0x3FF) * 10))"

section \<open>State machine\<close>

definition send_control :: "pd_env \<Rightarrow> u8 \<Rightarrow> bytes \<Rightarrow> pd_state \<Rightarrow> pd_state \<times> bool" where
  "send_control env msg_type pbuf s = PD_Send_Handle env pbuf (PD_Load_Header False msg_type s)"

definition comm_tick :: "u8 \<Rightarrow> pd_state \<Rightarrow> pd_state" where
  "comm_tick Tmr_Ms_Dlt s = s\<lparr>PD_Comm_Timer := PD_Comm_Timer s + ucast Tmr_Ms_Dlt\<rparr>"

definition sta_disconnect :: "pd_state \<Rightarrow> pd_state" where
  "sta_disconnect s = PD_PHY_Reset (VBUS_disable (PD_Evt PD_EVT_DISCONNECT s))"

definition sta_sink_connect :: "pd_state \<Rightarrow> pd_state" where
  "sta_sink_connect s =
     (if PD_Comm_Timer s > 159
      then s\<lparr>Stop_Det_Chk := False, PD_Comm_Timer := 0, PD_State := STA_TX_SRC_CAP\<rparr> else s)"

definition sta_tx_src_cap :: "pd_env \<Rightarrow> pd_state \<Rightarrow> pd_state" where
  "sta_tx_src_cap env s =
     (if PD_Comm_Timer s > 159 then
        let (s, ok) = send_control env DEF_TYPE_SRC_CAP SrcCap_5V5A_Tab s;
            s = (if ok then PD_Evt PD_EVT_SRC_CAP_TX (s\<lparr>PD_State := STA_RX_REQ_WAIT\<rparr>) else s) in
        s\<lparr>PD_Comm_Timer := 0\<rparr>
      else s)"

definition sta_rx_req_wait :: "pd_state \<Rightarrow> pd_state" where
  "sta_rx_req_wait s =
     (if PD_Comm_Timer s > 29 \<and> \<not> Msg_Recvd s then s\<lparr>PD_State := STA_TX_HRST\<rparr> else s)"

definition sta_tx_accept :: "pd_env \<Rightarrow> pd_state \<Rightarrow> pd_state" where
  "sta_tx_accept env s =
     (if PD_Comm_Timer s > 2 then
        let (s, ok) = send_control env DEF_TYPE_ACCEPT [] s in
        if ok then
          let s = PD_Evt PD_EVT_ACCEPT_TX s;
              (volt, amps) = accept_setpoint (unat (ReqPDO_Idx s));
              s = s\<lparr>rail := rail_setpoint volt amps (rail s)\<rparr> in
          s\<lparr>PD_State := STA_TX_PS_RDY, PD_Comm_Timer := 0\<rparr>
        else s\<lparr>PD_State := STA_TX_SOFTRST, PD_Comm_Timer := 0\<rparr>
      else s)"

definition sta_tx_ps_rdy :: "pd_env \<Rightarrow> pd_state \<Rightarrow> pd_state" where
  "sta_tx_ps_rdy env s =
     (if PD_Comm_Timer s > 19 then
        let (s, ok) = send_control env DEF_TYPE_PS_RDY [] s in
        if ok then (PD_Evt PD_EVT_PS_RDY_TX s)\<lparr>PD_State := STA_IDLE, PD_Comm_Timer := 0\<rparr>
        else s\<lparr>PD_State := STA_TX_SOFTRST, PD_Comm_Timer := 0\<rparr>
      else s)"

definition sta_tx_softrst :: "pd_env \<Rightarrow> pd_state \<Rightarrow> pd_state" where
  "sta_tx_softrst env s =
     (let s = PD_Evt PD_EVT_SOFTRST_TX (s\<lparr>DRSwap_Last_MsgID := 0xFF\<rparr>);
          (s, ok) = send_control env DEF_TYPE_SOFT_RESET [] s in
      s\<lparr>PD_State := (if ok then STA_IDLE else STA_TX_HRST), PD_Comm_Timer := 0\<rparr>)"

definition sta_tx_hrst :: "pd_env \<Rightarrow> pd_state \<Rightarrow> pd_state" where
  "sta_tx_hrst env s =
     (let s = PD_Evt PD_EVT_HRST_TX (s\<lparr>Stop_Det_Chk := True\<rparr>);
          s = PD_Phy_SendPack env True [] UPD_HARD_RESET (s\<lparr>irq_on := False\<rparr>);
          s = s\<lparr>Msg_Recvd := False, PD_Role := True, DRSwap_Last_MsgID := 0xFF\<rparr>;
          s = PD_Rx_Mode s in
      s\<lparr>PD_State := STA_IDLE, PD_Comm_Timer := 0\<rparr>)"

definition sta_tx_vdm_rpi :: "pd_env \<Rightarrow> pd_state \<Rightarrow> pd_state" where
  "sta_tx_vdm_rpi env s =
     (if PD_Comm_Timer s > 10 then
        let s = fst (send_control env DEF_TYPE_VENDOR_DEFINED VDM_RPI_TX_Tab s);
            s = PD_Evt PD_EVT_VDM_RPI_TX s in
        s\<lparr>PD_Comm_Timer := 0, PD_State := STA_IDLE\<rparr>
      else s)"

definition state_switch :: "pd_env \<Rightarrow> u8 \<Rightarrow> pd_state \<Rightarrow> pd_state" where
  "state_switch env Tmr_Ms_Dlt s =
     (case PD_State s of
       STA_DISCONNECT \<Rightarrow> sta_disconnect s
     | STA_SINK_CONNECT \<Rightarrow> sta_sink_connect (comm_tick Tmr_Ms_Dlt s)
     | STA_TX_SRC_CAP \<Rightarrow> sta_tx_src_cap env (comm_tick Tmr_Ms_Dlt s)
     | STA_RX_REQ_WAIT \<Rightarrow> sta_rx_req_wait (comm_tick Tmr_Ms_Dlt s)
     | STA_TX_ACCEPT \<Rightarrow> sta_tx_accept env (comm_tick Tmr_Ms_Dlt s)
     | STA_TX_PS_RDY \<Rightarrow> sta_tx_ps_rdy env (comm_tick Tmr_Ms_Dlt s)
     | STA_TX_SOFTRST \<Rightarrow> sta_tx_softrst env s
     | STA_TX_HRST \<Rightarrow> sta_tx_hrst env s
     | STA_TX_VDM_RPI \<Rightarrow> sta_tx_vdm_rpi env (comm_tick Tmr_Ms_Dlt s)
     | _ \<Rightarrow> s)"

section \<open>Received messages\<close>

definition rx_accept :: "pd_state \<Rightarrow> pd_state" where
  "rx_accept s = (let s = s\<lparr>PD_Comm_Timer := 0\<rparr> in
     if PD_State s = STA_RX_ACCEPT_WAIT then s\<lparr>PD_State := STA_RX_PS_RDY_WAIT\<rparr> else s)"

definition rx_request :: "pd_state \<Rightarrow> pd_state" where
  "rx_request s =
     (let s = s\<lparr>ReqPDO_Idx := drop_bit 4 (PD_Rx_Buf s ! 5 AND 0x70)\<rparr>;
          s = PD_Evt (PD_EVT_REQ_RX OR ucast (push_bit 4 (ReqPDO_Idx s))) s in
      if ReqPDO_Idx s = 0 \<or> ReqPDO_Idx s > 4 then s\<lparr>PD_State := STA_TX_HRST\<rparr>
      else s\<lparr>PD_Version := (PD_Rx_Buf s ! 0 AND 0xC0 = 0x80),
             PD_State := STA_TX_ACCEPT, PD_Comm_Timer := 0\<rparr>)"

definition rx_soft_reset :: "pd_env \<Rightarrow> pd_state \<Rightarrow> pd_state" where
  "rx_soft_reset env s =
     (let s = PD_Evt PD_EVT_SOFTRST_RX (s\<lparr>Msg_ID := 0, DRSwap_Last_MsgID := 0xFF\<rparr>);
          s = fst (send_control env DEF_TYPE_ACCEPT [] s) in
      s\<lparr>PD_State := STA_TX_SRC_CAP, PD_Comm_Timer := 0\<rparr>)"

definition rx_dr_swap :: "pd_env \<Rightarrow> pd_state \<Rightarrow> pd_state" where
  "rx_dr_swap env s =
     (if PD_Rx_Buf s ! 1 AND 0x70 = 0 then
        if PD_State s = STA_IDLE then
          let rx_msgid = drop_bit 1 (PD_Rx_Buf s ! 1) AND 0x07 in
          if DRSwap_Last_MsgID s \<noteq> rx_msgid then
            let s = PD_Evt PD_EVT_DRSWAP_RX s;
                (s, ok) = send_control env DEF_TYPE_ACCEPT [] s in
            if ok then
              let s = s\<lparr>DRSwap_Last_MsgID := rx_msgid\<rparr>;
                  s = s\<lparr>PD_Role := \<not> PD_Role s, irq_on := True\<rparr> in
              PD_Evt (PD_EVT_DRSWAP_ACC OR (if PD_Role s then 0x10 else 0)) s
            else (PD_Evt PD_EVT_DRSWAP_FAIL s)\<lparr>PD_State := STA_TX_HRST\<rparr>
          else PD_Evt (PD_EVT_DRSWAP_RX OR 0x10) s
        else
          let s = PD_Evt (PD_EVT_DRSWAP_RX OR 0x20) s in
          fst (send_control env DEF_TYPE_WAIT [] s)
      else s)"

definition rx_vendor_defined :: "pd_env \<Rightarrow> pd_state \<Rightarrow> pd_state" where
  "rx_vendor_defined env s =
     (let b = PD_Rx_Buf s in
      if PD_Role s \<and> b ! 2 = 0x01 \<and> b ! 3 = 0xA0 \<and> b ! 4 = 0x00 \<and> b ! 5 = 0xFF
      then s\<lparr>PD_State := STA_TX_VDM_RPI, PD_Comm_Timer := 0\<rparr>
      else if \<not> PD_Role s \<and> b ! 3 AND 0x80 = 0x80 \<and> b ! 2 AND 0xC0 = 0 then
        if b ! 2 AND 0x1F = 0x01 then
          let s = fst (send_control env DEF_TYPE_VENDOR_DEFINED VDM_UFP_ID_ACK_Tab s) in
          PD_Evt (PD_EVT_PROTO_REPLY OR 0x50) s
        else
          let vdm_nak = [(b ! 2 AND 0x1F) OR 0x80, b ! 3, b ! 4, b ! 5];
              s = fst (send_control env DEF_TYPE_VENDOR_DEFINED vdm_nak s) in
          PD_Evt (PD_EVT_PROTO_REPLY OR 0x10) s
      else s)"

definition rx_get_src_cap :: "pd_env \<Rightarrow> pd_state \<Rightarrow> pd_state" where
  "rx_get_src_cap env s =
     PD_Evt (PD_EVT_PROTO_REPLY OR 0x30) (fst (send_control env DEF_TYPE_SRC_CAP SrcCap_5V5A_Tab s))"

definition rx_get_snk_cap :: "pd_env \<Rightarrow> pd_state \<Rightarrow> pd_state" where
  "rx_get_snk_cap env s =
     (if PD_Rx_Buf s ! 1 AND 0x70 \<noteq> 0 then
        let usb_mode = drop_bit 4 (PD_Rx_Buf s ! 5) AND 0x07 in
        if usb_mode = 0 then
          PD_Evt (PD_EVT_ENTER_USB OR 0x10 OR push_bit 8 (ucast usb_mode))
            (fst (send_control env DEF_TYPE_ACCEPT [] s))
        else
          PD_Evt (PD_EVT_ENTER_USB OR push_bit 8 (ucast usb_mode))
            (fst (send_control env DEF_TYPE_REJECT [] s))
      else
        PD_Evt (PD_EVT_PROTO_REPLY OR 0x20 OR push_bit 8 (ucast DEF_TYPE_GET_SNK_CAP))
          (fst (send_control env (if PD_Version s then DEF_TYPE_NOT_SUPPORT else DEF_TYPE_REJECT) [] s)))"

definition rx_vconn_swap :: "pd_env \<Rightarrow> pd_state \<Rightarrow> pd_state" where
  "rx_vconn_swap env s =
     PD_Evt (PD_EVT_PROTO_REPLY OR 0x40) (fst (send_control env DEF_TYPE_REJECT [] s))"

text \<open>The event word is built from the receive buffer after the reply has been sent.\<close>

definition rx_other :: "pd_env \<Rightarrow> pd_state \<Rightarrow> pd_state" where
  "rx_other env s =
     (if PD_Version s then
        let s = fst (send_control env DEF_TYPE_NOT_SUPPORT [] s);
            t = (PD_Rx_Buf s ! 0 AND 0x1F) OR (if PD_Rx_Buf s ! 1 AND 0x70 \<noteq> 0 then 0x80 else 0) in
        PD_Evt (PD_EVT_PROTO_REPLY OR 0x20 OR push_bit 8 (ucast t)) s
      else s)"

definition rx_dispatch :: "pd_env \<Rightarrow> pd_state \<Rightarrow> pd_state" where
  "rx_dispatch env s =
     (let s = s\<lparr>Adapter_Idle_Cnt := 0\<rparr>;
          pd_header = PD_Rx_Buf s ! 0 AND 0x1F;
          s = (if pd_header \<noteq> DEF_TYPE_DR_SWAP then s\<lparr>DRSwap_Last_MsgID := 0xFF\<rparr> else s);
          s = (if pd_header = DEF_TYPE_ACCEPT then rx_accept s
               else if pd_header = DEF_TYPE_REQUEST then rx_request s
               else if pd_header = DEF_TYPE_WAIT then s
               else if pd_header = DEF_TYPE_SOFT_RESET then rx_soft_reset env s
               else if pd_header = DEF_TYPE_DR_SWAP then rx_dr_swap env s
               else if pd_header = DEF_TYPE_VENDOR_DEFINED then rx_vendor_defined env s
               else if pd_header = DEF_TYPE_GET_SRC_CAP then rx_get_src_cap env s
               else if pd_header = DEF_TYPE_GET_SNK_CAP then rx_get_snk_cap env s
               else if pd_header = DEF_TYPE_VCONN_SWAP then rx_vconn_swap env s
               else rx_other env s) in
      (PD_Rx_Mode s)\<lparr>Msg_Recvd := False, PD_BusIdle_Timer := 0\<rparr>)"

definition PD_Main_Proc :: "pd_env \<Rightarrow> u8 \<Rightarrow> pd_state \<Rightarrow> pd_state" where
  "PD_Main_Proc env Tmr_Ms_Dlt s =
     (let s = s\<lparr>PD_BusIdle_Timer := PD_BusIdle_Timer s + ucast Tmr_Ms_Dlt\<rparr>;
          s = state_switch env Tmr_Ms_Dlt s in
      if Msg_Recvd s then rx_dispatch env s else s)"

section \<open>Interrupt\<close>

record pd_irq =
  if_rx_act :: bool
  rx_sop0 :: bool
  byte_cnt :: nat
  if_tx_end :: bool
  if_rx_reset :: bool

definition USBPD_IRQHandler :: "pd_env \<Rightarrow> pd_irq \<Rightarrow> pd_state \<Rightarrow> pd_state" where
  "USBPD_IRQHandler env q s =
     (let s = (if if_rx_act q \<and> rx_sop0 q \<and> byte_cnt q \<ge> 6
                  \<and> (byte_cnt q \<noteq> 6 \<or> PD_Rx_Buf s ! 0 AND 0x1F \<noteq> DEF_TYPE_GOODCRC)
               then
                 let s = s\<lparr>PD_Ack_Buf := [if PD_Role s then 0x61 else 0x41,
                       (PD_Rx_Buf s ! 1 AND 0x0E) OR (if Auto_Ack_PRRole s then 1 else 0)]\<rparr>;
                     s = s\<lparr>CONFIG := CONFIG s OR IE_TX_END\<rparr> in
                 PD_Phy_SendPack env False (PD_Ack_Buf s) UPD_SOP0 s
               else s);
          s = (if if_tx_end q
               then s\<lparr>PORT_CC1 := PORT_CC1 s AND NOT CC_LVE, PORT_CC2 := PORT_CC2 s AND NOT CC_LVE,
                      irq_on := False, Msg_Recvd := True\<rparr>
               else s) in
      if if_rx_reset q then PD_SINK_Init s else s)"

text \<open>Restart of the output after an off period (\<open>main.c\<close>).\<close>

definition Power_Output_Restart :: "pd_state \<Rightarrow> pd_state" where
  "Power_Output_Restart s =
     (let s = PD_DataRole_Reset (VBUS_set_5V s) in
      s\<lparr>PD_State := STA_SINK_CONNECT, PD_Comm_Timer := 0, Src_Cap_Cnt := 0\<rparr>)"

end
