(* ===== verification/Ch32_Source.thy ===== *)
theory Ch32_Source
  imports Ch32_Pd
begin

text \<open>
  Facts about the Power Delivery source of \<open>PD_Process.c\<close>: what a transmission may change, the
  well-formedness of every reachable port state and of everything it transmits, the contract
  applied to the converter, attach and detach, data role swaps, and the time spent polling.
\<close>

section \<open>Frame conditions\<close>

lemma lve_port_frame [simp]:
  "PD_State (lve_port f s) = PD_State s" "Msg_ID (lve_port f s) = Msg_ID s"
  "Det_Cnt (lve_port f s) = Det_Cnt s" "PD_Comm_Timer (lve_port f s) = PD_Comm_Timer s"
  "ReqPDO_Idx (lve_port f s) = ReqPDO_Idx s" "Msg_Recvd (lve_port f s) = Msg_Recvd s"
  "Connected (lve_port f s) = Connected s" "Stop_Det_Chk (lve_port f s) = Stop_Det_Chk s"
  "PD_Role (lve_port f s) = PD_Role s" "PR_Role (lve_port f s) = PR_Role s"
  "Auto_Ack_PRRole (lve_port f s) = Auto_Ack_PRRole s"
  "PD_Version (lve_port f s) = PD_Version s" "DRSwap_Last_MsgID (lve_port f s) = DRSwap_Last_MsgID s"
  "PD_Evt_Buf (lve_port f s) = PD_Evt_Buf s" "PD_Evt_W (lve_port f s) = PD_Evt_W s"
  "PD_Rx_Buf (lve_port f s) = PD_Rx_Buf s" "PD_Tx_Buf (lve_port f s) = PD_Tx_Buf s"
  "PD_Ack_Buf (lve_port f s) = PD_Ack_Buf s"
  "CONFIG (lve_port f s) = CONFIG s" "sent (lve_port f s) = sent s" "polls (lve_port f s) = polls s"
  "VBUS_OUT_EN (lve_port f s) = VBUS_OUT_EN s" "PDS_EN (lve_port f s) = PDS_EN s"
  "rail (lve_port f s) = rail s"
  by (simp_all add: lve_port_def)

lemma SendPack_frame [simp]:
  "PD_State (PD_Phy_SendPack env m d p s) = PD_State s" "Msg_ID (PD_Phy_SendPack env m d p s) = Msg_ID s"
  "Det_Cnt (PD_Phy_SendPack env m d p s) = Det_Cnt s"
  "PD_Comm_Timer (PD_Phy_SendPack env m d p s) = PD_Comm_Timer s"
  "ReqPDO_Idx (PD_Phy_SendPack env m d p s) = ReqPDO_Idx s"
  "Msg_Recvd (PD_Phy_SendPack env m d p s) = Msg_Recvd s"
  "Connected (PD_Phy_SendPack env m d p s) = Connected s"
  "Stop_Det_Chk (PD_Phy_SendPack env m d p s) = Stop_Det_Chk s"
  "PD_Role (PD_Phy_SendPack env m d p s) = PD_Role s" "PR_Role (PD_Phy_SendPack env m d p s) = PR_Role s"
  "PD_Version (PD_Phy_SendPack env m d p s) = PD_Version s"
  "DRSwap_Last_MsgID (PD_Phy_SendPack env m d p s) = DRSwap_Last_MsgID s"
  "PD_Evt_Buf (PD_Phy_SendPack env m d p s) = PD_Evt_Buf s" "PD_Evt_W (PD_Phy_SendPack env m d p s) = PD_Evt_W s"
  "PD_Rx_Buf (PD_Phy_SendPack env m d p s) = PD_Rx_Buf s" "PD_Tx_Buf (PD_Phy_SendPack env m d p s) = PD_Tx_Buf s"
  "PD_Ack_Buf (PD_Phy_SendPack env m d p s) = PD_Ack_Buf s"
  "sent (PD_Phy_SendPack env m d p s) = sent s @ [(p, d)]"
  "VBUS_OUT_EN (PD_Phy_SendPack env m d p s) = VBUS_OUT_EN s"
  "PDS_EN (PD_Phy_SendPack env m d p s) = PDS_EN s" "rail (PD_Phy_SendPack env m d p s) = rail s"
  by (simp_all add: PD_Phy_SendPack_def Let_def)

lemma send_once_frame [simp]:
  "PD_State (fst (send_once env len s)) = PD_State s"
  "Det_Cnt (fst (send_once env len s)) = Det_Cnt s"
  "PD_Comm_Timer (fst (send_once env len s)) = PD_Comm_Timer s"
  "ReqPDO_Idx (fst (send_once env len s)) = ReqPDO_Idx s"
  "Msg_Recvd (fst (send_once env len s)) = Msg_Recvd s"
  "Connected (fst (send_once env len s)) = Connected s"
  "Stop_Det_Chk (fst (send_once env len s)) = Stop_Det_Chk s"
  "PD_Role (fst (send_once env len s)) = PD_Role s"
  "PR_Role (fst (send_once env len s)) = PR_Role s"
  "PD_Version (fst (send_once env len s)) = PD_Version s"
  "DRSwap_Last_MsgID (fst (send_once env len s)) = DRSwap_Last_MsgID s"
  "PD_Evt_Buf (fst (send_once env len s)) = PD_Evt_Buf s"
  "PD_Evt_W (fst (send_once env len s)) = PD_Evt_W s"
  "PD_Tx_Buf (fst (send_once env len s)) = PD_Tx_Buf s"
  "VBUS_OUT_EN (fst (send_once env len s)) = VBUS_OUT_EN s"
  "PDS_EN (fst (send_once env len s)) = PDS_EN s"
  "rail (fst (send_once env len s)) = rail s"
  by (simp_all add: send_once_def Let_def split_beta)

lemma send_tries_frame [simp]:
  "PD_State (fst (send_tries env n len s)) = PD_State s"
  "Det_Cnt (fst (send_tries env n len s)) = Det_Cnt s"
  "PD_Comm_Timer (fst (send_tries env n len s)) = PD_Comm_Timer s"
  "ReqPDO_Idx (fst (send_tries env n len s)) = ReqPDO_Idx s"
  "Msg_Recvd (fst (send_tries env n len s)) = Msg_Recvd s"
  "Connected (fst (send_tries env n len s)) = Connected s"
  "Stop_Det_Chk (fst (send_tries env n len s)) = Stop_Det_Chk s"
  "PD_Role (fst (send_tries env n len s)) = PD_Role s"
  "PR_Role (fst (send_tries env n len s)) = PR_Role s"
  "PD_Version (fst (send_tries env n len s)) = PD_Version s"
  "DRSwap_Last_MsgID (fst (send_tries env n len s)) = DRSwap_Last_MsgID s"
  "PD_Evt_Buf (fst (send_tries env n len s)) = PD_Evt_Buf s"
  "PD_Evt_W (fst (send_tries env n len s)) = PD_Evt_W s"
  "PD_Tx_Buf (fst (send_tries env n len s)) = PD_Tx_Buf s"
  "VBUS_OUT_EN (fst (send_tries env n len s)) = VBUS_OUT_EN s"
  "PDS_EN (fst (send_tries env n len s)) = PDS_EN s"
  "rail (fst (send_tries env n len s)) = rail s"
  by (induction n arbitrary: s) (simp_all add: Let_def split_beta)

lemma Rx_Mode_frame [simp]:
  "PD_State (PD_Rx_Mode s) = PD_State s" "Msg_ID (PD_Rx_Mode s) = Msg_ID s"
  "Det_Cnt (PD_Rx_Mode s) = Det_Cnt s" "PD_Comm_Timer (PD_Rx_Mode s) = PD_Comm_Timer s"
  "ReqPDO_Idx (PD_Rx_Mode s) = ReqPDO_Idx s" "Msg_Recvd (PD_Rx_Mode s) = Msg_Recvd s"
  "Connected (PD_Rx_Mode s) = Connected s" "Stop_Det_Chk (PD_Rx_Mode s) = Stop_Det_Chk s"
  "PD_Role (PD_Rx_Mode s) = PD_Role s" "PR_Role (PD_Rx_Mode s) = PR_Role s"
  "PD_Version (PD_Rx_Mode s) = PD_Version s" "DRSwap_Last_MsgID (PD_Rx_Mode s) = DRSwap_Last_MsgID s"
  "PD_Evt_Buf (PD_Rx_Mode s) = PD_Evt_Buf s" "PD_Evt_W (PD_Rx_Mode s) = PD_Evt_W s"
  "PD_Rx_Buf (PD_Rx_Mode s) = PD_Rx_Buf s" "PD_Tx_Buf (PD_Rx_Mode s) = PD_Tx_Buf s"
  "PD_Ack_Buf (PD_Rx_Mode s) = PD_Ack_Buf s"
  "sent (PD_Rx_Mode s) = sent s" "polls (PD_Rx_Mode s) = polls s"
  "VBUS_OUT_EN (PD_Rx_Mode s) = VBUS_OUT_EN s" "PDS_EN (PD_Rx_Mode s) = PDS_EN s"
  "rail (PD_Rx_Mode s) = rail s" "irq_on (PD_Rx_Mode s)" "rx_armed (PD_Rx_Mode s)"
  by (simp_all add: PD_Rx_Mode_def)

lemma send_frame [simp]:
  "PD_State (fst (send_control env t d s)) = PD_State s"
  "Det_Cnt (fst (send_control env t d s)) = Det_Cnt s"
  "PD_Comm_Timer (fst (send_control env t d s)) = PD_Comm_Timer s"
  "ReqPDO_Idx (fst (send_control env t d s)) = ReqPDO_Idx s"
  "Msg_Recvd (fst (send_control env t d s)) = Msg_Recvd s"
  "Connected (fst (send_control env t d s)) = Connected s"
  "Stop_Det_Chk (fst (send_control env t d s)) = Stop_Det_Chk s"
  "PD_Role (fst (send_control env t d s)) = PD_Role s"
  "PR_Role (fst (send_control env t d s)) = PR_Role s"
  "PD_Version (fst (send_control env t d s)) = PD_Version s"
  "DRSwap_Last_MsgID (fst (send_control env t d s)) = DRSwap_Last_MsgID s"
  "PD_Evt_Buf (fst (send_control env t d s)) = PD_Evt_Buf s"
  "PD_Evt_W (fst (send_control env t d s)) = PD_Evt_W s"
  "VBUS_OUT_EN (fst (send_control env t d s)) = VBUS_OUT_EN s"
  "PDS_EN (fst (send_control env t d s)) = PDS_EN s"
  "rail (fst (send_control env t d s)) = rail s"
  by (simp_all add: send_control_def PD_Send_Handle_def PD_Load_Header_def Let_def split_beta)

lemma Evt_frame [simp]:
  "PD_State (PD_Evt e s) = PD_State s" "Msg_ID (PD_Evt e s) = Msg_ID s"
  "Det_Cnt (PD_Evt e s) = Det_Cnt s" "PD_Comm_Timer (PD_Evt e s) = PD_Comm_Timer s"
  "ReqPDO_Idx (PD_Evt e s) = ReqPDO_Idx s" "Msg_Recvd (PD_Evt e s) = Msg_Recvd s"
  "Connected (PD_Evt e s) = Connected s" "Stop_Det_Chk (PD_Evt e s) = Stop_Det_Chk s"
  "PD_Role (PD_Evt e s) = PD_Role s" "PR_Role (PD_Evt e s) = PR_Role s"
  "PD_Version (PD_Evt e s) = PD_Version s" "DRSwap_Last_MsgID (PD_Evt e s) = DRSwap_Last_MsgID s"
  "PD_Rx_Buf (PD_Evt e s) = PD_Rx_Buf s" "PD_Tx_Buf (PD_Evt e s) = PD_Tx_Buf s"
  "PD_Ack_Buf (PD_Evt e s) = PD_Ack_Buf s" "sent (PD_Evt e s) = sent s" "polls (PD_Evt e s) = polls s"
  "VBUS_OUT_EN (PD_Evt e s) = VBUS_OUT_EN s" "PDS_EN (PD_Evt e s) = PDS_EN s"
  "rail (PD_Evt e s) = rail s" "CONFIG (PD_Evt e s) = CONFIG s"
  "PORT_CC1 (PD_Evt e s) = PORT_CC1 s" "PORT_CC2 (PD_Evt e s) = PORT_CC2 s"
  "length (PD_Evt_Buf (PD_Evt e s)) = length (PD_Evt_Buf s)"
  by (simp_all add: PD_Evt_def)

section \<open>Polling is bounded\<close>

lemma tx_wait_bound: "tx_wait te guard k \<le> k + guard"
proof (induction guard arbitrary: k)
  case (Suc guard)
  show ?case using Suc.IH [of "Suc k"] by simp
qed simp

lemma crc_wait_bound: "fst (snd (crc_wait rx cnt k buf)) \<le> k + cnt"
proof (induction cnt arbitrary: k buf)
  case (Suc cnt)
  show ?case using Suc.IH [of "Suc k"] by (simp add: Let_def split: option.split prod.split)
qed simp

definition SEND_POLLS :: nat where "SEND_POLLS = TX_GUARD + 249"

lemma SendPack_polls: "polls (PD_Phy_SendPack env m d p s) \<le> polls s + TX_GUARD"
  using tx_wait_bound [of "tx_end_at env (Suc (length (sent s)))" TX_GUARD 0]
  by (simp add: PD_Phy_SendPack_def Let_def)

lemma send_once_polls: "polls (fst (send_once env len s)) \<le> polls s + SEND_POLLS"
proof -
  let ?s = "PD_Phy_SendPack env True (take (len + 2) (PD_Tx_Buf s)) UPD_SOP0 (s\<lparr>irq_on := False\<rparr>)"
  let ?w = "crc_wait (rx_at env (Suc (length (sent s)))) 249 0 (PD_Rx_Buf s)"
  have "polls ?s \<le> polls s + TX_GUARD"
    using SendPack_polls [of env True _ UPD_SOP0 "s\<lparr>irq_on := False\<rparr>"] by simp
  moreover have "fst (snd ?w) \<le> 249"
    using crc_wait_bound [of _ 249 0] by simp
  ultimately show ?thesis by (simp add: send_once_def Let_def split_beta SEND_POLLS_def)
qed

lemma send_tries_polls: "polls (fst (send_tries env n len s)) \<le> polls s + n * SEND_POLLS"
proof (induction n arbitrary: s)
  case (Suc n)
  show ?case
    using Suc.IH [of "fst (send_once env len s)"] send_once_polls [of env len s]
    by (simp add: Let_def split_beta)
qed simp

lemma send_polls: "polls (fst (send_control env t d s)) \<le> polls s + 3 * SEND_POLLS"
proof -
  have "polls (fst (send_tries env 3 n (s\<lparr>PD_Tx_Buf := x\<rparr>))) \<le> polls s + 3 * SEND_POLLS" for n x
    using send_tries_polls [of env 3 n "s\<lparr>PD_Tx_Buf := x\<rparr>"] by simp
  then show ?thesis
    by (simp add: send_control_def PD_Send_Handle_def PD_Load_Header_def Let_def split_beta)
qed

section \<open>Transmitted packets\<close>

definition hdr0 :: "pd_state \<Rightarrow> u8 \<Rightarrow> u8" where
  "hdr0 s t = (let b = (if PD_Role s then t OR 0x20 else t) in if PD_Version s then b OR 0x80 else b OR 0x40)"

definition hdr1 :: "pd_state \<Rightarrow> nat \<Rightarrow> u8" where
  "hdr1 s n = (if PR_Role s then (Msg_ID s AND 0x0E) OR 1 else Msg_ID s AND 0x0E) OR push_bit 4 (of_nat n)"

definition pd_packet :: "pd_state \<Rightarrow> u8 \<Rightarrow> bytes \<Rightarrow> bytes" where
  "pd_packet s t d = [hdr0 s t, hdr1 s (length d div 4)] @ d"

fun packet_ok :: "sop \<times> bytes \<Rightarrow> bool" where
  "packet_ok (UPD_SOP0, p) \<longleftrightarrow> 2 \<le> length p \<and> length p = 2 + 4 * unat (drop_bit 4 (p ! 1) AND 7)"
| "packet_ok (UPD_HARD_RESET, p) \<longleftrightarrow> p = []"

lemma store_prefix:
  assumes "n \<le> length p" and "2 + length p \<le> length tx"
  shows "foldl (\<lambda>tx cnt. tx[2 + cnt := p ! cnt]) tx [0..<n] = take 2 tx @ take n p @ drop (2 + n) tx"
  using assms(1)
proof (induction n)
  case 0
  then show ?case by simp
next
  case (Suc n)
  then have n: "n < length p" "n + 2 < length tx" using assms(2) by auto
  have "(take 2 tx @ take n p @ drop (2 + n) tx)[2 + n := p ! n] = take 2 tx @ take n p @ [p ! n] @ drop (Suc (Suc (Suc n))) tx"
    using n assms(2) by (simp add: list_update_append min_def Cons_nth_drop_Suc [symmetric])
  then show ?case using Suc n by (simp add: take_Suc_conv_app_nth)
qed

lemma store_payload_eq:
  "2 + length p \<le> length tx \<Longrightarrow> store_payload p tx = take 2 tx @ p @ drop (2 + length p) tx"
  using store_prefix [of "length p" p tx] by (simp add: store_payload_def)

lemma send_once_sent [simp]:
  "sent (fst (send_once env len s)) = sent s @ [(UPD_SOP0, take (len + 2) (PD_Tx_Buf s))]"
  by (simp add: send_once_def Let_def split_beta)

lemma send_tries_sent:
  "\<exists>k. k \<le> n \<and> (0 < n \<longrightarrow> 0 < k) \<and>
     sent (fst (send_tries env n len s)) = sent s @ replicate k (UPD_SOP0, take (len + 2) (PD_Tx_Buf s))"
proof (induction n arbitrary: s)
  case 0
  then show ?case by simp
next
  case (Suc n)
  show ?case
  proof (cases "snd (send_once env len s)")
    case True
    then show ?thesis by (intro exI [of _ 1]) (simp add: Let_def split_beta)
  next
    case False
    obtain k where "k \<le> n" "sent (fst (send_tries env n len (fst (send_once env len s)))) =
        sent (fst (send_once env len s)) @ replicate k (UPD_SOP0, take (len + 2) (PD_Tx_Buf (fst (send_once env len s))))"
      using Suc.IH by blast
    with False show ?thesis by (intro exI [of _ "Suc k"]) (simp add: Let_def split_beta)
  qed
qed

lemma two_bytes: "length xs = 34 \<Longrightarrow> take 2 (xs[0 := a, Suc 0 := b]) = [a, b]"
  by (cases xs rule: list.exhaust; cases "tl xs") (auto simp: numeral_2_eq_2)

lemma send_sent:
  assumes "length (PD_Tx_Buf s) = 34" "length d mod 4 = 0" "length d \<le> 28"
  shows "\<exists>k\<in>{1..3}. sent (fst (send_control env t d s)) = sent s @ replicate k (UPD_SOP0, pd_packet s t d)"
proof -
  let ?tx = "store_payload d ((PD_Tx_Buf s)[0 := hdr0 s t, 1 := hdr1 s (length d div 4)])"
  have tx: "take (Suc (Suc (length d))) ?tx = pd_packet s t d"
    using assms by (simp add: store_payload_eq two_bytes pd_packet_def)
  have "fst (send_control env t d s) = PD_Rx_Mode (fst (send_tries env 3 (length d) (s\<lparr>PD_Tx_Buf := ?tx\<rparr>)))"
    using assms by (simp add: send_control_def PD_Send_Handle_def PD_Load_Header_def Let_def split_beta
        hdr0_def hdr1_def)
  then show ?thesis
    using send_tries_sent [of 3 env "length d" "s\<lparr>PD_Tx_Buf := ?tx\<rparr>"] using tx by auto
qed

section \<open>Well-formed port states\<close>

definition source_states :: "CC_STATUS set" where
  "source_states = {STA_IDLE, STA_DISCONNECT, STA_SINK_CONNECT, STA_TX_SRC_CAP, STA_RX_REQ_WAIT,
     STA_TX_ACCEPT, STA_TX_PS_RDY, STA_TX_SOFTRST, STA_TX_HRST, STA_TX_VDM_RPI}"

definition pd_wf :: "pd_state \<Rightarrow> bool" where
  "pd_wf s \<longleftrightarrow> PD_State s \<in> source_states \<and> Det_Cnt s < 5 \<and> even (uint (Msg_ID s))
     \<and> ReqPDO_Idx s \<le> 7 \<and> (DRSwap_Last_MsgID s = 0xFF \<or> DRSwap_Last_MsgID s \<le> 7)
     \<and> length (PD_Evt_Buf s) = 16 \<and> length (PD_Rx_Buf s) = 34 \<and> length (PD_Tx_Buf s) = 34
     \<and> list_all packet_ok (sent s)"

lemma source_statesI [simp]:
  "STA_IDLE \<in> source_states" "STA_DISCONNECT \<in> source_states" "STA_SINK_CONNECT \<in> source_states"
  "STA_TX_SRC_CAP \<in> source_states" "STA_RX_REQ_WAIT \<in> source_states" "STA_TX_ACCEPT \<in> source_states"
  "STA_TX_PS_RDY \<in> source_states" "STA_TX_SOFTRST \<in> source_states" "STA_TX_HRST \<in> source_states"
  "STA_TX_VDM_RPI \<in> source_states" "STA_RX_ACCEPT_WAIT \<notin> source_states"
  by (simp_all add: source_states_def)

lemma pd_wf_upd [simp]:
  "pd_wf s \<Longrightarrow> pd_wf (s\<lparr>PD_Comm_Timer := a\<rparr>)" "pd_wf s \<Longrightarrow> pd_wf (s\<lparr>PD_BusIdle_Timer := a\<rparr>)"
  "pd_wf s \<Longrightarrow> pd_wf (s\<lparr>Adapter_Idle_Cnt := b\<rparr>)" "pd_wf s \<Longrightarrow> pd_wf (s\<lparr>Msg_Recvd := c\<rparr>)"
  "pd_wf s \<Longrightarrow> pd_wf (s\<lparr>Stop_Det_Chk := c\<rparr>)" "pd_wf s \<Longrightarrow> pd_wf (s\<lparr>Connected := c\<rparr>)"
  "pd_wf s \<Longrightarrow> pd_wf (s\<lparr>PD_Role := c\<rparr>)" "pd_wf s \<Longrightarrow> pd_wf (s\<lparr>PD_Version := c\<rparr>)"
  "pd_wf s \<Longrightarrow> pd_wf (s\<lparr>irq_on := c\<rparr>)" "pd_wf s \<Longrightarrow> pd_wf (s\<lparr>rail := t\<rparr>)"
  "pd_wf s \<Longrightarrow> pd_wf (s\<lparr>CONFIG := x\<rparr>)" "pd_wf s \<Longrightarrow> pd_wf (s\<lparr>PORT_CC1 := x\<rparr>)"
  "pd_wf s \<Longrightarrow> pd_wf (s\<lparr>PORT_CC2 := x\<rparr>)" "pd_wf s \<Longrightarrow> pd_wf (s\<lparr>PD_Ack_Buf := d\<rparr>)"
  "pd_wf s \<Longrightarrow> pd_wf (s\<lparr>VBUS_OUT_EN := c\<rparr>)" "pd_wf s \<Longrightarrow> pd_wf (s\<lparr>PDS_EN := c\<rparr>)"
  "pd_wf s \<Longrightarrow> pd_wf (s\<lparr>PR_Role := c\<rparr>)" "pd_wf s \<Longrightarrow> pd_wf (s\<lparr>Auto_Ack_PRRole := c\<rparr>)"
  "pd_wf s \<Longrightarrow> pd_wf (s\<lparr>Src_Cap_Cnt := b\<rparr>)" "pd_wf s \<Longrightarrow> pd_wf (s\<lparr>Mode_Try_Cnt := b\<rparr>)"
  "pd_wf s \<Longrightarrow> pd_wf (s\<lparr>PD_Comm_Succ := c\<rparr>)" "pd_wf s \<Longrightarrow> pd_wf (s\<lparr>rx_armed := c\<rparr>)"
  "pd_wf s \<Longrightarrow> n < 5 \<Longrightarrow> pd_wf (s\<lparr>Det_Cnt := n\<rparr>)" "pd_wf s \<Longrightarrow> pd_wf (s\<lparr>Msg_ID := 0\<rparr>)"
  "pd_wf s \<Longrightarrow> pd_wf (s\<lparr>ReqPDO_Idx := 0\<rparr>)" "pd_wf s \<Longrightarrow> pd_wf (s\<lparr>DRSwap_Last_MsgID := 0xFF\<rparr>)"
  "pd_wf s \<Longrightarrow> q \<in> source_states \<Longrightarrow> pd_wf (s\<lparr>PD_State := q\<rparr>)"
  by (simp_all add: pd_wf_def)

lemma pd_wf_Evt [simp]: "pd_wf s \<Longrightarrow> pd_wf (PD_Evt e s)"
  by (simp add: pd_wf_def)

lemma pd_wf_Rx_Mode [simp]: "pd_wf s \<Longrightarrow> pd_wf (PD_Rx_Mode s)"
  by (simp add: pd_wf_def)

lemma ndo_hdr1:
  assumes "n < 8"
  shows "unat (drop_bit 4 (hdr1 s n) AND 7) = n"
proof -
  have z: "drop_bit 4 (Msg_ID s AND 0x0E) = 0" "drop_bit 4 ((Msg_ID s AND 0x0E) OR 1) = 0"
    by (simp_all add: drop_bit_and drop_bit_or)
  have "drop_bit 4 (hdr1 s n) = drop_bit 4 (push_bit 4 (of_nat n))"
    using z by (simp only: hdr1_def drop_bit_or split: if_split) simp
  moreover have "n \<in> {0, 1, 2, 3, 4, 5, 6, 7}" using assms by auto
  then have "unat (drop_bit 4 (push_bit 4 (of_nat n :: u8)) AND 7) = n"
    by (elim insertE; simp)
  ultimately show ?thesis by simp
qed

lemma packet_ok_packet:
  assumes "length d mod 4 = 0" "length d \<le> 28"
  shows "packet_ok (UPD_SOP0, pd_packet s t d)"
  using ndo_hdr1 [of "length d div 4" s] assms by (simp add: pd_packet_def) presburger

lemma rx_dma_length [simp]: "length (rx_dma buf d) = length buf"
  by (simp add: rx_dma_def)

lemma crc_wait_length [simp]: "length (snd (snd (crc_wait rx n k buf))) = length buf"
  by (induction n arbitrary: k buf) (simp_all add: Let_def split: option.split prod.split)

lemma send_once_rx_length [simp]:
  "length (PD_Rx_Buf (fst (send_once env len s))) = length (PD_Rx_Buf s)"
  by (simp add: send_once_def Let_def split_beta)

lemma send_tries_rx_length [simp]:
  "length (PD_Rx_Buf (fst (send_tries env n len s))) = length (PD_Rx_Buf s)"
  by (induction n arbitrary: s) (simp_all add: Let_def split_beta)

lemma even_msg_id: "even (uint (x :: u8)) \<Longrightarrow> even (uint (x + 2))"
  by (simp add: uint_word_ariths dvd_mod_iff)

lemma send_tries_msg_id:
  "even (uint (Msg_ID s)) \<Longrightarrow> even (uint (Msg_ID (fst (send_tries env n len s))))"
  by (induction n arbitrary: s) (simp_all add: Let_def split_beta send_once_def even_msg_id)

lemma store_payload_length [simp]: "length (store_payload p tx) = length tx"
proof -
  have "length (foldl (\<lambda>tx cnt. tx[2 + cnt := p ! cnt]) tx xs) = length tx" for xs
    by (induction xs arbitrary: tx) simp_all
  then show ?thesis by (simp add: store_payload_def)
qed

lemma pd_wf_send [simp]:
  assumes "pd_wf s" "length d mod 4 = 0" "length d \<le> 28"
  shows "pd_wf (fst (send_control env t d s))"
proof -
  have tx: "length (PD_Tx_Buf s) = 34" using assms(1) by (simp add: pd_wf_def)
  obtain k where "sent (fst (send_control env t d s)) = sent s @ replicate k (UPD_SOP0, pd_packet s t d)"
    using send_sent [OF tx assms(2,3)] by blast
  then have "list_all packet_ok (sent (fst (send_control env t d s)))"
    using assms packet_ok_packet [OF assms(2,3)] by (auto simp: pd_wf_def list_all_iff)
  moreover have "length (PD_Tx_Buf (fst (send_control env t d s))) = 34"
      "length (PD_Rx_Buf (fst (send_control env t d s))) = 34"
      "even (uint (Msg_ID (fst (send_control env t d s))))"
    using assms tx by (auto simp: pd_wf_def send_control_def PD_Send_Handle_def PD_Load_Header_def Let_def
        split_beta send_tries_msg_id)
  ultimately show ?thesis using assms(1) by (simp add: pd_wf_def)
qed

section \<open>Steps of the port\<close>

text \<open>
  The port as a transition system: a detection tick, a run of the state machine, a reception
  written into the receive buffer, the interrupt (only while it is enabled), and the two host
  commands that switch the output.
\<close>

inductive port_step :: "pd_env \<Rightarrow> pd_state \<Rightarrow> pd_state \<Rightarrow> bool" for env where
  detect: "port_step env s (PD_Det_Proc l s)"
| service: "port_step env s (PD_Main_Proc env dlt s)"
| receive: "rx_armed s \<Longrightarrow> port_step env s (s\<lparr>PD_Rx_Buf := rx_dma (PD_Rx_Buf s) data\<rparr>)"
| irq: "irq_on s \<Longrightarrow> port_step env s (USBPD_IRQHandler env q s)"

inductive pd_step :: "pd_env \<Rightarrow> pd_state \<Rightarrow> pd_state \<Rightarrow> bool" for env where
  port: "port_step env s s' \<Longrightarrow> pd_step env s s'"
| off: "pd_step env s (VBUS_disable s)"
| restart: "pd_step env s (Power_Output_Restart s)"

inductive_cases port_stepE: "port_step env s s'"
inductive_cases pd_stepE: "pd_step env s s'"

inductive port_run :: "pd_env \<Rightarrow> pd_state \<Rightarrow> pd_state \<Rightarrow> bool" for env where
  start: "port_run env s s"
| step: "port_run env s s' \<Longrightarrow> port_step env s' s'' \<Longrightarrow> port_run env s s''"

inductive pd_run :: "pd_env \<Rightarrow> pd_state \<Rightarrow> pd_state \<Rightarrow> bool" for env where
  start: "pd_run env s s"
| step: "pd_run env s s' \<Longrightarrow> pd_step env s' s'' \<Longrightarrow> pd_run env s s''"

lemmas table_defs = SrcCap_5V5A_Tab_def VDM_RPI_TX_Tab_def VDM_UFP_ID_ACK_Tab_def SrcCap_5V3A_Tab_def

lemma pd_wf_tables [simp]:
  "pd_wf s \<Longrightarrow> pd_wf (fst (send_control env t SrcCap_5V5A_Tab s))"
  "pd_wf s \<Longrightarrow> pd_wf (fst (send_control env t VDM_RPI_TX_Tab s))"
  "pd_wf s \<Longrightarrow> pd_wf (fst (send_control env t VDM_UFP_ID_ACK_Tab s))"
  by (simp_all add: table_defs)

lemma pd_wf_rail [simp]:
  "pd_wf s \<Longrightarrow> pd_wf (VBUS_disable s)" "pd_wf s \<Longrightarrow> pd_wf (VBUS_set_5V s)"
  "pd_wf s \<Longrightarrow> pd_wf (PD_DataRole_Reset s)" "pd_wf s \<Longrightarrow> pd_wf (PD_PHY_Reset s)"
  "pd_wf s \<Longrightarrow> pd_wf (PD_SINK_Init s)" "pd_wf s \<Longrightarrow> pd_wf (Power_Output_Restart s)"
  by (simp_all add: VBUS_disable_def VBUS_set_5V_def VBUS_enable_def PD_DataRole_Reset_def
      PD_PHY_Reset_def PD_SRC_Init_def PD_SINK_Init_def Power_Output_Restart_def Let_def)

lemma PD_Detect_frame:
  "fst (PD_Detect l s) = s\<lparr>PORT_CC1 := cc_select CC_CMP_66 (cc_select CC_CMP_22 (PORT_CC1 s)),
     PORT_CC2 := cc_select CC_CMP_66 (cc_select CC_CMP_22 (PORT_CC2 s))\<rparr>"
  by (simp add: PD_Detect_def Let_def)

lemma detect_split:
  obtains c1 c2 where "PD_Detect l s = (s\<lparr>PORT_CC1 := c1, PORT_CC2 := c2\<rparr>, snd (PD_Detect l s))"
  using PD_Detect_frame [of l s] by (metis prod.collapse)

lemma pd_wf_Det [simp]:
  assumes "pd_wf s"
  shows "pd_wf (PD_Det_Proc l s)"
proof -
  obtain c1 c2 where d: "PD_Detect l s = (s\<lparr>PORT_CC1 := c1, PORT_CC2 := c2\<rparr>, snd (PD_Detect l s))"
    by (rule detect_split)
  show ?thesis using assms by (subst PD_Det_Proc_def, subst d) (simp add: Let_def not_le)
qed

lemma pd_wf_SendPack:
  "pd_wf s \<Longrightarrow> packet_ok (p, d) \<Longrightarrow> pd_wf (PD_Phy_SendPack env m d p s)"
  by (simp add: pd_wf_def)

lemma pd_wf_switch [simp]: "pd_wf s \<Longrightarrow> pd_wf (state_switch env dlt s)"
  by (simp add: state_switch_def sta_disconnect_def sta_sink_connect_def sta_tx_src_cap_def
      sta_rx_req_wait_def sta_tx_accept_def sta_tx_ps_rdy_def sta_tx_softrst_def sta_tx_hrst_def
      sta_tx_vdm_rpi_def comm_tick_def pd_wf_SendPack Let_def split_beta split: CC_STATUS.split)

lemma small_fields:
  "drop_bit 4 ((x :: u8) AND 0x70) \<le> 7" "(y :: u8) AND 0x07 \<le> 7"
  by (simp_all add: drop_bit_and word_and_le1)

lemma pd_wf_drswap [simp]: "pd_wf s \<Longrightarrow> pd_wf (s\<lparr>DRSwap_Last_MsgID := x AND 7\<rparr>)"
  by (simp add: pd_wf_def small_fields)

lemma pd_wf_handlers:
  assumes "pd_wf s"
  shows "pd_wf (rx_accept s)" "pd_wf (rx_request s)" "pd_wf (rx_soft_reset env s)"
    "pd_wf (rx_dr_swap env s)" "pd_wf (rx_vendor_defined env s)" "pd_wf (rx_get_src_cap env s)"
    "pd_wf (rx_get_snk_cap env s)" "pd_wf (rx_vconn_swap env s)" "pd_wf (rx_other env s)"
proof -
  have q: "pd_wf (s\<lparr>ReqPDO_Idx := drop_bit 4 (x AND 0x70)\<rparr>)" for x
    using assms by (simp add: pd_wf_def small_fields)
  show "pd_wf (rx_request s)" using q by (simp add: rx_request_def Let_def)
  show "pd_wf (rx_accept s)" using assms by (auto simp: rx_accept_def Let_def pd_wf_def)
qed (use assms in \<open>simp_all add: rx_soft_reset_def rx_dr_swap_def rx_vendor_defined_def
    rx_get_src_cap_def rx_get_snk_cap_def rx_vconn_swap_def rx_other_def Let_def split_beta\<close>)

lemma pd_wf_dispatch [simp]: "pd_wf s \<Longrightarrow> pd_wf (rx_dispatch env s)"
  by (simp add: rx_dispatch_def Let_def pd_wf_handlers)

lemma pd_wf_Main [simp]: "pd_wf s \<Longrightarrow> pd_wf (PD_Main_Proc env dlt s)"
  by (simp add: PD_Main_Proc_def Let_def)

lemma pd_wf_IRQ [simp]:
  assumes "pd_wf s"
  shows "pd_wf (USBPD_IRQHandler env q s)"
proof -
  have "drop_bit 4 ((x :: u8) AND 0x0E) = 0" "drop_bit 4 (((x :: u8) AND 0x0E) OR 1) = 0" for x
    by (simp_all add: drop_bit_and drop_bit_or)
  then have "pd_wf (PD_Phy_SendPack env False [a, (x AND 0x0E) OR (if b then 1 else 0)] UPD_SOP0 (s\<lparr>PD_Ack_Buf := d, CONFIG := c\<rparr>))"
    for a b c d x using assms by (intro pd_wf_SendPack) simp_all
  then show ?thesis using assms by (simp add: USBPD_IRQHandler_def Let_def)
qed

lemma pd_wf_port: "port_step env s s' \<Longrightarrow> pd_wf s \<Longrightarrow> pd_wf s'"
  by (erule port_stepE) (simp_all, simp add: pd_wf_def)

definition pd_boot :: pd_state where
  "pd_boot = PD_Init \<lparr>PD_State = STA_IDLE, Msg_ID = 0, Det_Timer = 0, Det_Cnt = 0, PD_Comm_Timer = 0,
     ReqPDO_Idx = 0, PD_BusIdle_Timer = 0, Mode_Try_Cnt = 0, Adapter_Idle_Cnt = 0, Src_Cap_Cnt = 0,
     Msg_Recvd = False, Connected = False, Stop_Det_Chk = False, PD_Role = False, PR_Role = False,
     Auto_Ack_PRRole = False, PD_Version = False, PD_Comm_Succ = False, DRSwap_Last_MsgID = 0xFF,
     PD_Evt_Buf = replicate 16 0, PD_Evt_W = 0, PD_Rx_Buf = replicate 34 0, PD_Tx_Buf = replicate 34 0,
     PD_Ack_Buf = [0, 0], Adapter_SrcCap = replicate 30 0, PORT_CC1 = 0, PORT_CC2 = 0, CONFIG = 0,
     irq_on = False, rx_armed = False, sent = [], polls = 0, VBUS_OUT_EN = False, PDS_EN = False,
     rail = \<lparr>tps_line = [], tps_set = \<lparr>g_voltage_set_v10 = 0, g_current_set_a10 = 0\<rparr>,
       Tps_Vread_v10 = 0, Tps_Iread_a10 = 0, Tps_Status_Latched = 0\<rparr>\<rparr>"

definition no_answer :: pd_env where
  "no_answer = \<lparr>tx_end_at = \<lambda>_ _. False, rx_at = \<lambda>_ _. None\<rparr>"

definition acking :: pd_env where
  "acking = \<lparr>tx_end_at = \<lambda>_ _. True, rx_at = \<lambda>_ _. Some (6, [0x41, 0x00])\<rparr>"

lemma pd_boot_wf: "pd_wf pd_boot"
  by (simp add: pd_boot_def PD_Init_def PD_PHY_Reset_def PD_SRC_Init_def Let_def pd_wf_def)

text \<open>
  C35. Type safety of the power delivery source: from any well-formed port state, whatever the
  CC comparators, the transceiver and the port partner do and in whatever order detections, state
  machine runs, receptions, interrupts and host commands happen, the port stays in one of its ten
  source states with its counters, message identifiers and buffers within their bounds, and every
  packet it transmits is a hard reset or a message whose length agrees with the object count in
  its header.
\<close>

theorem pd_reachable_wf:
  assumes "pd_run env s s'" and "pd_wf s"
  shows "pd_wf s'"
  using assms
proof (induction rule: pd_run.induct)
  case (step s s' s'')
  from step.hyps(2) step.IH [OF step.prems] show ?case
    by (cases rule: pd_step.cases) (simp_all add: pd_wf_port)
qed simp

theorem pd_reachable_wf_witness: "pd_wf (PD_Main_Proc no_answer 200 (Power_Output_Restart pd_boot))"
proof -
  have "pd_run no_answer pd_boot (PD_Main_Proc no_answer 200 (Power_Output_Restart pd_boot))"
    by (intro pd_run.step [OF pd_run.step [OF pd_run.start pd_step.restart]] pd_step.port port_step.service)
  from pd_reachable_wf [OF this pd_boot_wf] show ?thesis .
qed

section \<open>Time\<close>

lemma switch_polls: "polls (state_switch env dlt s) \<le> polls s + 3 * SEND_POLLS"
proof -
  have "TX_GUARD \<le> 3 * SEND_POLLS" by (simp add: SEND_POLLS_def)
  then have h: "polls (PD_Phy_SendPack env True [] UPD_HARD_RESET s) \<le> polls s + 3 * SEND_POLLS" for s
    using SendPack_polls [of env True "[]" UPD_HARD_RESET s] by linarith
  show ?thesis
  proof (cases "PD_State s")
    case STA_TX_HRST
    then show ?thesis using h [of "(PD_Evt PD_EVT_HRST_TX (s\<lparr>Stop_Det_Chk := True\<rparr>))\<lparr>irq_on := False\<rparr>"]
      by (simp add: state_switch_def sta_tx_hrst_def Let_def)
  next
    case STA_TX_SRC_CAP
    then show ?thesis using send_polls [of env _ _ "comm_tick dlt s"]
      by (simp add: state_switch_def sta_tx_src_cap_def comm_tick_def Let_def split_beta)
  next
    case STA_TX_ACCEPT
    then show ?thesis using send_polls [of env _ _ "comm_tick dlt s"]
      by (simp add: state_switch_def sta_tx_accept_def comm_tick_def Let_def split_beta)
  next
    case STA_TX_PS_RDY
    then show ?thesis using send_polls [of env _ _ "comm_tick dlt s"]
      by (simp add: state_switch_def sta_tx_ps_rdy_def comm_tick_def Let_def split_beta)
  next
    case STA_TX_SOFTRST
    then show ?thesis using send_polls [of env _ _ "PD_Evt PD_EVT_SOFTRST_TX (s\<lparr>DRSwap_Last_MsgID := 0xFF\<rparr>)"]
      by (simp add: state_switch_def sta_tx_softrst_def Let_def split_beta)
  next
    case STA_TX_VDM_RPI
    then show ?thesis using send_polls [of env _ _ "comm_tick dlt s"]
      by (simp add: state_switch_def sta_tx_vdm_rpi_def comm_tick_def Let_def split_beta)
  qed (simp_all add: state_switch_def sta_disconnect_def sta_sink_connect_def sta_rx_req_wait_def
      comm_tick_def PD_PHY_Reset_def PD_SRC_Init_def VBUS_disable_def Let_def)
qed

lemma handler_polls:
  "polls (rx_accept s) = polls s" "polls (rx_request s) = polls s"
  "polls (rx_soft_reset env s) \<le> polls s + 3 * SEND_POLLS"
  "polls (rx_dr_swap env s) \<le> polls s + 3 * SEND_POLLS"
  "polls (rx_vendor_defined env s) \<le> polls s + 3 * SEND_POLLS"
  "polls (rx_get_src_cap env s) \<le> polls s + 3 * SEND_POLLS"
  "polls (rx_get_snk_cap env s) \<le> polls s + 3 * SEND_POLLS"
  "polls (rx_vconn_swap env s) \<le> polls s + 3 * SEND_POLLS"
  "polls (rx_other env s) \<le> polls s + 3 * SEND_POLLS"
proof -
  show "polls (rx_soft_reset env s) \<le> polls s + 3 * SEND_POLLS"
    using send_polls [of env _ _ "PD_Evt PD_EVT_SOFTRST_RX (s\<lparr>Msg_ID := 0, DRSwap_Last_MsgID := 0xFF\<rparr>)"]
    by (simp add: rx_soft_reset_def Let_def)
  have e: "polls (fst (send_control env t d (PD_Evt e s))) \<le> polls s + 3 * SEND_POLLS" for t d e
    using send_polls [of env t d "PD_Evt e s"] by simp
  then show "polls (rx_dr_swap env s) \<le> polls s + 3 * SEND_POLLS"
    by (simp add: rx_dr_swap_def Let_def split_beta)
qed (simp_all add: rx_accept_def rx_request_def rx_vendor_defined_def rx_get_src_cap_def
    rx_get_snk_cap_def rx_vconn_swap_def rx_other_def send_polls Let_def)

lemma dispatch_polls: "polls (rx_dispatch env s) \<le> polls s + 3 * SEND_POLLS"
  using handler_polls(3-9) [of env "s\<lparr>Adapter_Idle_Cnt := 0\<rparr>"]
    handler_polls(3-9) [of env "s\<lparr>Adapter_Idle_Cnt := 0, DRSwap_Last_MsgID := 0xFF\<rparr>"]
  by (simp add: rx_dispatch_def handler_polls(1,2) Let_def)

text \<open>
  C36. The power delivery state machine never blocks the main loop: one run ends after at most
  1201494 polls of the transceiver in total (six transmission attempts, each bounded by the
  transmission guard and the GoodCRC window), even when no transmission ever completes and
  no answer ever arrives.
\<close>

theorem PD_Main_Proc_bounded: "polls (PD_Main_Proc env dlt s) - polls s \<le> 1201494"
proof -
  let ?s = "s\<lparr>PD_BusIdle_Timer := PD_BusIdle_Timer s + ucast dlt\<rparr>"
  have "polls (PD_Main_Proc env dlt s) \<le> polls s + 6 * SEND_POLLS"
    using switch_polls [of env dlt ?s] dispatch_polls [of env "state_switch env dlt ?s"]
    by (simp add: PD_Main_Proc_def Let_def)
  then show ?thesis by (simp add: SEND_POLLS_def TX_GUARD_def)
qed

section \<open>Contract\<close>

definition pdo :: "nat \<Rightarrow> u32" where
  "pdo i = rd_u32le (drop (4 * (i - 1)) SrcCap_5V5A_Tab)"

definition pdo_mV :: "nat \<Rightarrow> int" where
  "pdo_mV i = 50 * uint (drop_bit 10 (pdo i) AND 0x3FF)"

definition pdo_mA :: "nat \<Rightarrow> int" where
  "pdo_mA i = uint (PD_Request_Analyse i SrcCap_5V5A_Tab)"

lemma pdo_values:
  "map pdo_mV [1, 2, 3, 4] = [5000, 9000, 12000, 15000]"
  "map pdo_mA [1, 2, 3, 4] = [5000, 3000, 2250, 1800]"
  by code_simp+

lemma contract_grid:
  assumes "1 \<le> i" "i \<le> 4"
  obtains v10 a10 where "accept_setpoint i = (fl32 (of_int v10 / 10), fl32 (of_int a10 / 10))"
    "volt_ok v10" "curr_ok a10" "100 * v10 = pdo_mV i" "pdo_mA i \<le> 100 * a10"
    "10000 * a10 \<le> 106 * pdo_mA i"
proof -
  have g: "fl32 (of_int 50 / 10) = 5" "fl32 (of_int 90 / 10) = 9" "fl32 (of_int 120 / 10) = 12"
    "fl32 (of_int 150 / 10) = 15"
    by code_simp+
  have "i \<in> {1, 2, 3, 4}" using assms by auto
  then show thesis
  proof (elim insertE)
    assume "i = 1" then show thesis using that [of 50 52] setpoints_ok g pdo_values by (simp add: accept_setpoint_def)
  next
    assume "i = 2" then show thesis using that [of 90 31] setpoints_ok g pdo_values by (simp add: accept_setpoint_def)
  next
    assume "i = 3" then show thesis using that [of 120 23] setpoints_ok g pdo_values by (simp add: accept_setpoint_def)
  next
    assume "i = 4" then show thesis using that [of 150 19] setpoints_ok g pdo_values by (simp add: accept_setpoint_def)
  qed simp
qed

lemma accept_branches:
  assumes "PD_State s = STA_TX_ACCEPT" and "2 < PD_Comm_Timer s + ucast dlt"
  shows "snd (send_control env DEF_TYPE_ACCEPT [] (comm_tick dlt s)) \<Longrightarrow>
      accept_setpoint (unat (ReqPDO_Idx s)) = (v, a) \<Longrightarrow>
      PD_State (state_switch env dlt s) = STA_TX_PS_RDY \<and> rail (state_switch env dlt s) = rail_setpoint v a (rail s)"
    and "\<not> snd (send_control env DEF_TYPE_ACCEPT [] (comm_tick dlt s)) \<Longrightarrow>
      PD_State (state_switch env dlt s) = STA_TX_SOFTRST \<and> rail (state_switch env dlt s) = rail s"
  using assms by (auto simp: state_switch_def sta_tx_accept_def comm_tick_def Let_def split_beta)

text \<open>
  C10. An accepted request puts exactly the advertised contract on the rail: when the partner
  acknowledges the Accept for capability \<open>i\<close>, the cached set point is the voltage of the
  \<open>i\<close>th advertised capability with a current limit at least its current and at most 6 percent
  above, the converter registers hold that set point with the output enabled, and the state
  machine goes on to announce the supply ready; when the Accept is not acknowledged, the rail is
  untouched and the port falls back to a soft reset.
\<close>

theorem accept_applies_contract:
  assumes "devs (bus_run b (tps_line (rail s))) 0x75 = Some f"
    and "PD_State s = STA_TX_ACCEPT" and "2 < PD_Comm_Timer s + ucast dlt"
    and "unat (ReqPDO_Idx s) = i" and "1 \<le> i" and "i \<le> 4"
    and "s' = state_switch env dlt s"
  shows "if snd (send_control env DEF_TYPE_ACCEPT [] (comm_tick dlt s)) then
       PD_State s' = STA_TX_PS_RDY
       \<and> 100 * g_voltage_set_v10 (tps_set (rail s')) = pdo_mV i
       \<and> pdo_mA i \<le> 100 * g_current_set_a10 (tps_set (rail s'))
       \<and> 10000 * g_current_set_a10 (tps_set (rail s')) \<le> 106 * pdo_mA i
       \<and> (\<exists>g. devs (bus_run b (tps_line (rail s'))) 0x75 = Some g \<and> g 0x06 = 0xA0
            \<and> (case accept_setpoint i of (volt, amps) \<Rightarrow> g = with_setpoint volt amps f))
     else PD_State s' = STA_TX_SOFTRST \<and> rail s' = rail s"
proof -
  obtain v10 a10 where g: "accept_setpoint i = (fl32 (of_int v10 / 10), fl32 (of_int a10 / 10))"
      "volt_ok v10" "curr_ok a10" "100 * v10 = pdo_mV i" "pdo_mA i \<le> 100 * a10" "10000 * a10 \<le> 106 * pdo_mA i"
    by (rule contract_grid [OF assms(5,6)])
  have "tps b (fst (tps_line (rail s), tps_set (rail s))) = Some f" using assms(1) by (simp add: tps_def)
  note a = apply_setpoint_ok [OF g(2,3) this]
  have m: "with_setpoint v a f 0x06 = 0xA0" for v a by (simp add: with_setpoint_def)
  show ?thesis
    using accept_branches [OF assms(2,3), of env] g a m assms(4,7)
    by (auto simp: rail_setpoint_def split_beta tps_def)
qed

lemma acking_wait: "length buf = 34 \<Longrightarrow>
  crc_wait (rx_at acking n) 249 0 buf = (True, 1, rx_dma buf [0x41, 0])"
proof -
  have "(249 :: nat) = Suc 248" by simp
  then show "length buf = 34 \<Longrightarrow> ?thesis"
    by (simp only: crc_wait.simps) (simp add: acking_def rx_dma_def)
qed

lemma acking_tries: "length (PD_Rx_Buf s) = 34 \<Longrightarrow> snd (send_tries acking 3 len s)"
proof -
  have "(3 :: nat) = Suc 2" by simp
  then show "length (PD_Rx_Buf s) = 34 \<Longrightarrow> ?thesis"
    by (simp only: send_tries.simps) (simp add: send_once_def Let_def split_beta acking_wait)
qed

lemma acking_ok:
  assumes "length (PD_Rx_Buf s) = 34" "length d mod 4 = 0" "length d \<le> 28"
  shows "snd (send_control acking t d s)"
  using assms by (simp add: send_control_def PD_Send_Handle_def PD_Load_Header_def Let_def split_beta acking_tries)

theorem accept_applies_contract_witness:
  "\<exists>g. devs (bus_run converter_bus (tps_line (rail
      (state_switch acking 1 (pd_boot\<lparr>PD_State := STA_TX_ACCEPT, ReqPDO_Idx := 2, PD_Comm_Timer := 3\<rparr>))))) 0x75 = Some g
    \<and> g 0x06 = 0xA0"
proof -
  let ?s = "pd_boot\<lparr>PD_State := STA_TX_ACCEPT, ReqPDO_Idx := 2, PD_Comm_Timer := 3\<rparr>"
  have r: "tps_line (rail ?s) = []" "length (PD_Rx_Buf ?s) = 34"
    by (simp_all add: pd_boot_def PD_Init_def PD_PHY_Reset_def PD_SRC_Init_def Let_def)
  have dev: "devs (bus_run converter_bus (tps_line (rail ?s))) 0x75 = Some (\<lambda>_. 0)"
    by (simp only: r) (simp add: converter_bus_def bus_run_Nil)
  have st: "PD_State ?s = STA_TX_ACCEPT" "2 < PD_Comm_Timer ?s + ucast (1 :: u8)" "unat (ReqPDO_Idx ?s) = 2"
    by simp_all
  have ok: "snd (send_control acking DEF_TYPE_ACCEPT [] (comm_tick 1 ?s))"
    using r by (intro acking_ok) (simp_all add: comm_tick_def)
  from accept_applies_contract [OF dev st one_le_numeral _ refl, of acking] show ?thesis
    unfolding if_P [OF ok] by auto
qed

section \<open>Attach and detach\<close>

definition cc_open :: "pd_state \<Rightarrow> cc_levels \<Rightarrow> bool" where
  "cc_open s l = (if CONFIG s AND CC_SEL \<noteq> 0 then cc2_220 l else cc1_220 l)"

lemma detect_open: "Connected s \<Longrightarrow> cc_open s l \<Longrightarrow> snd (PD_Detect l s) = 0"
  by (auto simp: PD_Detect_def cc_open_def Let_def)

lemma det_proc_open:
  assumes "Connected s" and "cc_open s l"
  obtains c1 c2 where "PD_Det_Proc l s =
    (let s1 = s\<lparr>PORT_CC1 := c1, PORT_CC2 := c2, Det_Cnt := Det_Cnt s + 1\<rparr> in
     if Det_Cnt s + 1 \<ge> 5 then
       let s2 = s1\<lparr>Det_Cnt := 0, Connected := False\<rparr> in
       if \<not> Stop_Det_Chk s then s2\<lparr>PD_State := STA_DISCONNECT\<rparr> else s2
     else s1)"
proof -
  obtain c1 c2 where d: "PD_Detect l s = (s\<lparr>PORT_CC1 := c1, PORT_CC2 := c2\<rparr>, snd (PD_Detect l s))"
    by (rule detect_split)
  show thesis
    by (rule that [of c2 c1], subst PD_Det_Proc_def, subst d)
      (use assms detect_open [OF assms] in \<open>simp add: Let_def\<close>)
qed

lemma five_opens:
  assumes "Connected s" "Det_Cnt s < 5" "length ls = 5 - unat (Det_Cnt s)" "\<forall>l\<in>set ls. cc_open s l"
  shows "\<exists>c1 c2. foldl (\<lambda>s l. PD_Det_Proc l s) s ls =
    (let s2 = s\<lparr>PORT_CC1 := c1, PORT_CC2 := c2, Det_Cnt := 0, Connected := False\<rparr> in
     if \<not> Stop_Det_Chk s then s2\<lparr>PD_State := STA_DISCONNECT\<rparr> else s2)"
  using assms
proof (induction ls arbitrary: s)
  case Nil
  then show ?case by (simp add: word_less_nat_alt)
next
  case (Cons l ls)
  obtain c1 c2 where p: "PD_Det_Proc l s =
    (let s1 = s\<lparr>PORT_CC1 := c1, PORT_CC2 := c2, Det_Cnt := Det_Cnt s + 1\<rparr> in
     if Det_Cnt s + 1 \<ge> 5 then
       let s2 = s1\<lparr>Det_Cnt := 0, Connected := False\<rparr> in
       if \<not> Stop_Det_Chk s then s2\<lparr>PD_State := STA_DISCONNECT\<rparr> else s2
     else s1)"
    using det_proc_open [OF Cons.prems(1)] Cons.prems(4) by (metis list.set_intros(1))
  have u: "unat (Det_Cnt s + 1) = Suc (unat (Det_Cnt s))"
    using Cons.prems(2) by (intro unat_inc) auto
  show ?case
  proof (cases "Det_Cnt s + 1 \<ge> 5")
    case True
    then have "ls = []" using Cons.prems(3) u by (cases ls) (auto simp: word_le_nat_alt)
    then show ?thesis using True by (intro exI [of _ c1] exI [of _ c2]) (simp add: p Let_def)
  next
    case False
    let ?s = "s\<lparr>PORT_CC1 := c1, PORT_CC2 := c2, Det_Cnt := Det_Cnt s + 1\<rparr>"
    have "\<exists>c1 c2. foldl (\<lambda>s l. PD_Det_Proc l s) ?s ls =
      (let s2 = ?s\<lparr>PORT_CC1 := c1, PORT_CC2 := c2, Det_Cnt := 0, Connected := False\<rparr> in
       if \<not> Stop_Det_Chk ?s then s2\<lparr>PD_State := STA_DISCONNECT\<rparr> else s2)"
      using Cons.prems False u by (intro Cons.IH) (simp_all add: cc_open_def not_le)
    then show ?thesis using False by (simp add: p Let_def)
  qed
qed

lemma tps_disable:
  "tps b (tps_line (rail (VBUS_disable s))) = map_option (\<lambda>f. f(0x06 := 0x20)) (tps b (tps_line (rail s)))"
  by (simp add: VBUS_disable_def rail_line_def Let_def tps55289_enable_output_def tps55289_write_byte_def
      TPS55289_I2C_ADDR_def REG_MODE_def MODE_HICCUP_BIT_def converter)

lemma PHY_Reset_frame [simp]:
  "rail (PD_PHY_Reset s) = rail s" "VBUS_OUT_EN (PD_PHY_Reset s) = VBUS_OUT_EN s"
  "PD_State (PD_PHY_Reset s) = STA_IDLE" "Msg_Recvd (PD_PHY_Reset s) = False"
  "Connected (PD_PHY_Reset s) = False" "Stop_Det_Chk (PD_PHY_Reset s) = False"
  "PD_Role (PD_PHY_Reset s) = True"
  by (simp_all add: PD_PHY_Reset_def PD_SRC_Init_def Let_def)

lemma disconnect_run:
  assumes "PD_State s = STA_DISCONNECT" and "s' = PD_Main_Proc env dlt s"
  shows "rail s' = rail (VBUS_disable s)" "VBUS_OUT_EN s' = False" "PD_State s' = STA_IDLE"
    "Connected s' = False"
  using assms
  by (simp_all add: PD_Main_Proc_def state_switch_def sta_disconnect_def VBUS_disable_def PD_Evt_def Let_def)


definition plugged :: pd_state where
  "plugged = pd_boot\<lparr>Connected := True, VBUS_OUT_EN := True\<rparr>"

definition open_levels :: cc_levels where
  "open_levels = \<lparr>cc1_22 = True, cc1_66 = True, cc1_220 = True, cc2_22 = True, cc2_66 = True, cc2_220 = True\<rparr>"

lemma plugged_fields:
  "Connected plugged" "\<not> Stop_Det_Chk plugged" "Det_Cnt plugged = 0" "tps_line (rail plugged) = []"
  "cc_open plugged open_levels" "VBUS_OUT_EN plugged"
  by (simp_all add: plugged_def pd_boot_def PD_Init_def PD_PHY_Reset_def PD_SRC_Init_def PD_Rx_Mode_def Let_def
      cc_open_def open_levels_def)


section \<open>The detach check after a hard reset\<close>

definition latched :: "pd_state \<Rightarrow> bool" where
  "latched s \<longleftrightarrow> Stop_Det_Chk s \<and> PD_State s \<noteq> STA_DISCONNECT \<and> PD_State s \<noteq> STA_SINK_CONNECT"

lemma latched_Det:
  assumes "latched s"
  shows "latched (PD_Det_Proc l s) \<and> VBUS_OUT_EN (PD_Det_Proc l s) = VBUS_OUT_EN s"
proof -
  obtain c1 c2 where d: "PD_Detect l s = (s\<lparr>PORT_CC1 := c1, PORT_CC2 := c2\<rparr>, snd (PD_Detect l s))"
    by (rule detect_split)
  show ?thesis using assms
    by (subst (1 2) PD_Det_Proc_def, subst (1 2) d) (simp add: Let_def latched_def)
qed

lemma latched_switch:
  assumes "latched s"
  shows "latched (state_switch env dlt s) \<and> VBUS_OUT_EN (state_switch env dlt s) = VBUS_OUT_EN s"
  using assms
  by (cases "PD_State s")
    (simp_all add: latched_def state_switch_def sta_tx_src_cap_def
      sta_rx_req_wait_def sta_tx_accept_def sta_tx_ps_rdy_def sta_tx_softrst_def sta_tx_hrst_def
      sta_tx_vdm_rpi_def comm_tick_def Let_def split_beta)

lemma latched_handlers:
  assumes "latched s"
  shows "latched (rx_accept s) \<and> VBUS_OUT_EN (rx_accept s) = VBUS_OUT_EN s"
    "latched (rx_request s) \<and> VBUS_OUT_EN (rx_request s) = VBUS_OUT_EN s"
    "latched (rx_soft_reset env s) \<and> VBUS_OUT_EN (rx_soft_reset env s) = VBUS_OUT_EN s"
    "latched (rx_dr_swap env s) \<and> VBUS_OUT_EN (rx_dr_swap env s) = VBUS_OUT_EN s"
    "latched (rx_vendor_defined env s) \<and> VBUS_OUT_EN (rx_vendor_defined env s) = VBUS_OUT_EN s"
    "latched (rx_get_src_cap env s) \<and> VBUS_OUT_EN (rx_get_src_cap env s) = VBUS_OUT_EN s"
    "latched (rx_get_snk_cap env s) \<and> VBUS_OUT_EN (rx_get_snk_cap env s) = VBUS_OUT_EN s"
    "latched (rx_vconn_swap env s) \<and> VBUS_OUT_EN (rx_vconn_swap env s) = VBUS_OUT_EN s"
    "latched (rx_other env s) \<and> VBUS_OUT_EN (rx_other env s) = VBUS_OUT_EN s"
  using assms by (simp_all add: latched_def rx_accept_def rx_request_def rx_soft_reset_def rx_dr_swap_def
      rx_vendor_defined_def rx_get_src_cap_def rx_get_snk_cap_def rx_vconn_swap_def rx_other_def Let_def split_beta)

lemma latched_dispatch:
  assumes "latched s"
  shows "latched (rx_dispatch env s) \<and> VBUS_OUT_EN (rx_dispatch env s) = VBUS_OUT_EN s"
proof -
  have l: "latched (s\<lparr>Adapter_Idle_Cnt := 0\<rparr>)" "latched (s\<lparr>Adapter_Idle_Cnt := 0, DRSwap_Last_MsgID := 0xFF\<rparr>)"
    using assms by (simp_all add: latched_def)
  have m: "latched ((PD_Rx_Mode s)\<lparr>Msg_Recvd := False, PD_BusIdle_Timer := 0\<rparr>) = latched s" for s
    by (simp add: latched_def)
  show ?thesis
    using l latched_handlers [OF l(1)] latched_handlers [OF l(2)] by (simp add: rx_dispatch_def Let_def m)
qed

lemma latched_step:
  assumes "port_step env s s'" and "latched s"
  shows "latched s' \<and> VBUS_OUT_EN s' = VBUS_OUT_EN s"
  using assms(1)
proof (cases rule: port_step.cases)
  case (service dlt)
  let ?s = "s\<lparr>PD_BusIdle_Timer := PD_BusIdle_Timer s + ucast dlt\<rparr>"
  have "latched ?s" using assms(2) by (simp add: latched_def)
  from latched_switch [OF this, of env dlt] latched_dispatch [of "state_switch env dlt ?s" env] service
  show ?thesis by (simp add: PD_Main_Proc_def Let_def)
qed (use assms(2) latched_Det in \<open>simp_all add: latched_def USBPD_IRQHandler_def PD_SINK_Init_def Let_def\<close>)

text \<open>
  C34. After the port has sent a hard reset, detach detection stays disarmed: no sequence of
  detections, state machine runs, receptions and interrupts, whatever the levels on the CC lines,
  makes the port treat the sink as disconnected or open the output switch again; only a restart of
  the output by a host command ends this. An unplugged port with a rail that is still driven is
  therefore reachable.
\<close>

theorem hard_reset_disarms_detach:
  assumes "PD_State s = STA_TX_HRST" and "VBUS_OUT_EN s"
    and "port_run env (PD_Main_Proc env dlt s) s'"
  shows "VBUS_OUT_EN s' \<and> Stop_Det_Chk s' \<and> PD_State s' \<noteq> STA_DISCONNECT"
proof -
  have "latched (PD_Main_Proc env dlt s)" "VBUS_OUT_EN (PD_Main_Proc env dlt s)"
    using assms(1,2) by (simp_all add: PD_Main_Proc_def state_switch_def sta_tx_hrst_def latched_def Let_def)
  with assms(3) have "latched s' \<and> VBUS_OUT_EN s'"
    by (induction rule: port_run.induct) (auto dest: latched_step)
  then show ?thesis by (simp add: latched_def)
qed

lemma port_run_detections:
  "port_run env s s' \<Longrightarrow> port_run env s (foldl (\<lambda>s l. PD_Det_Proc l s) s' ls)"
  by (induction ls arbitrary: s') (auto intro: port_run.step port_step.detect)

theorem hard_reset_disarms_detach_witness:
  "VBUS_OUT_EN (foldl (\<lambda>s l. PD_Det_Proc l s)
     (PD_Main_Proc no_answer 1 (plugged\<lparr>PD_State := STA_TX_HRST\<rparr>)) (replicate 50 open_levels))"
  using hard_reset_disarms_detach [of "plugged\<lparr>PD_State := STA_TX_HRST\<rparr>" no_answer 1,
      OF _ _ port_run_detections [OF port_run.start]] plugged_fields(6)
  by simp

section \<open>Data role swaps\<close>

definition dr_swap_msg :: "pd_state \<Rightarrow> u8 \<Rightarrow> bool" where
  "dr_swap_msg s mid \<longleftrightarrow> PD_Rx_Buf s ! 0 AND 0x1F = DEF_TYPE_DR_SWAP \<and> PD_Rx_Buf s ! 1 AND 0x70 = 0
     \<and> drop_bit 1 (PD_Rx_Buf s ! 1) AND 7 = mid"

lemma dispatch_dr_swap:
  assumes "dr_swap_msg s mid"
  shows "rx_dispatch env s = (PD_Rx_Mode (rx_dr_swap env (s\<lparr>Adapter_Idle_Cnt := 0\<rparr>)))\<lparr>Msg_Recvd := False, PD_BusIdle_Timer := 0\<rparr>"
  using assms by (simp add: rx_dispatch_def dr_swap_msg_def Let_def)

text \<open>
  A data role swap takes effect exactly once: an idle port that receives a new swap request
  answers Accept, and when the partner acknowledges it the role changes; receiving the same
  message again (same identifier, nothing else in between) changes nothing and sends nothing. When the Accept
  is not acknowledged the role is kept and a hard reset is queued, after which the port has its
  default data role.
\<close>

theorem dr_swap_once:
  assumes "dr_swap_msg s mid" and "PD_State s = STA_IDLE" and "DRSwap_Last_MsgID s \<noteq> mid"
    and "s1 = rx_dispatch env s"
    and "dr_swap_msg s2 mid" and "s2 = s1\<lparr>PD_Rx_Buf := again, Msg_Recvd := True\<rparr>"
  shows "if PD_State s1 = STA_IDLE
     then PD_Role s1 = (\<not> PD_Role s) \<and> PD_Role (rx_dispatch env s2) = PD_Role s1
        \<and> sent (rx_dispatch env s2) = sent s1 \<and> PD_State (rx_dispatch env s2) = STA_IDLE
     else PD_State s1 = STA_TX_HRST \<and> PD_Role s1 = PD_Role s
        \<and> PD_Role (PD_Main_Proc env dlt s1) \<and> PD_State (PD_Main_Proc env dlt s1) = STA_IDLE"
proof -
  let ?a = "PD_Evt PD_EVT_DRSWAP_RX (s\<lparr>Adapter_Idle_Cnt := 0\<rparr>)"
  let ?ok = "snd (send_control env DEF_TYPE_ACCEPT [] ?a)"
  note d1 = dispatch_dr_swap [OF assms(1), of env]
  note d2 = dispatch_dr_swap [OF assms(5), of env]
  show ?thesis
  proof (cases ?ok)
    case True
    then have 1: "PD_State s1 = STA_IDLE" "PD_Role s1 = (\<not> PD_Role s)" "DRSwap_Last_MsgID s1 = mid"
      using assms(1-4) by (simp_all add: d1 rx_dr_swap_def dr_swap_msg_def Let_def split_beta)
    have "rx_dr_swap env (s2\<lparr>Adapter_Idle_Cnt := 0\<rparr>) = PD_Evt (PD_EVT_DRSWAP_RX OR 0x10) (s2\<lparr>Adapter_Idle_Cnt := 0\<rparr>)"
      using 1 assms(5,6) by (simp add: rx_dr_swap_def dr_swap_msg_def Let_def)
    then show ?thesis using 1 d2 assms(6) by simp
  next
    case False
    then have 1: "PD_State s1 = STA_TX_HRST" "PD_Role s1 = PD_Role s"
      using assms(1-4) by (simp_all add: d1 rx_dr_swap_def dr_swap_msg_def Let_def split_beta)
    then show ?thesis
      by (simp add: PD_Main_Proc_def state_switch_def sta_tx_hrst_def Let_def)
  qed
qed

definition swap_buf :: bytes where "swap_buf = [0x89, 0x02] @ replicate 32 0"

theorem dr_swap_once_witness:
  "\<not> PD_Role (rx_dispatch acking ((rx_dispatch acking (plugged\<lparr>PD_Rx_Buf := swap_buf\<rparr>))
      \<lparr>PD_Rx_Buf := swap_buf, Msg_Recvd := True\<rparr>))"
proof -
  let ?s = "plugged\<lparr>PD_Rx_Buf := swap_buf\<rparr>"
  have p: "PD_State plugged = STA_IDLE" "DRSwap_Last_MsgID plugged = 0xFF" "PD_Role plugged"
    by (simp_all add: plugged_def pd_boot_def PD_Init_def PD_PHY_Reset_def PD_SRC_Init_def Let_def)
  have m: "dr_swap_msg (s\<lparr>PD_Rx_Buf := swap_buf\<rparr>) 1" "dr_swap_msg (s\<lparr>PD_Rx_Buf := swap_buf, Msg_Recvd := True\<rparr>) 1" for s
    by (simp_all add: dr_swap_msg_def swap_buf_def drop_bit_Suc)
  have "PD_State (rx_dispatch acking ?s) = STA_IDLE"
    using p m(1) [of plugged] by (simp add: dispatch_dr_swap [OF m(1)])
      (simp add: rx_dr_swap_def dr_swap_msg_def Let_def split_beta acking_ok swap_buf_def)
  then show ?thesis
    using dr_swap_once [OF m(1) _ _ refl m(2) refl, of plugged acking] p by (simp add: Let_def)
qed

section \<open>The trace of an unsupported message\<close>

lemma crc_wait_ok:
  "fst (crc_wait rx n k buf) \<Longrightarrow> snd (snd (crc_wait rx n k buf)) ! 0 AND 0x1F = DEF_TYPE_GOODCRC"
  by (induction n arbitrary: k buf) (auto simp: Let_def split: option.splits prod.splits if_splits)

lemma send_tries_ok:
  "snd (send_tries env n len s) \<Longrightarrow> PD_Rx_Buf (fst (send_tries env n len s)) ! 0 AND 0x1F = DEF_TYPE_GOODCRC"
  by (induction n arbitrary: s) (auto simp: Let_def split_beta send_once_def dest: crc_wait_ok split: if_splits)

lemma send_ok:
  "snd (send_control env t d s) \<Longrightarrow> PD_Rx_Buf (fst (send_control env t d s)) ! 0 AND 0x1F = DEF_TYPE_GOODCRC"
  by (auto simp: send_control_def PD_Send_Handle_def PD_Load_Header_def Let_def split_beta
      dest: send_tries_ok split: if_splits)

text \<open>
  What the trace records for a message the port does not support: under revision 3.0 the
  port answers Not Supported, and once the partner acknowledges that answer the event word carries
  message type 1, whatever message had been received. The type is read from the receive
  buffer after the acknowledgement has overwritten it.
\<close>

theorem unsupported_trace_type:
  assumes "PD_Version s" and "snd (send_control env DEF_TYPE_NOT_SUPPORT [] s)"
    and "length (PD_Evt_Buf s) = 16"
    and "e = PD_Evt_Buf (rx_other env s) ! unat (PD_Evt_W s AND 0x0F)"
  shows "drop_bit 8 e AND 0x1F = 1"
proof -
  let ?s = "fst (send_control env DEF_TYPE_NOT_SUPPORT [] s)"
  have x: "PD_Rx_Buf ?s ! 0 AND 0x1F = 1" using send_ok [OF assms(2)] by simp
  have "unat (PD_Evt_W s AND 0x0F) \<le> unat (0x0F :: u8)"
    using word_and_le1 [of "PD_Evt_W s" "0x0F"] by (simp only: word_le_nat_alt)
  then have w: "unat (PD_Evt_W s AND 0x0F) < 16" by simp
  then have "e = 0x2E OR push_bit 8 (ucast (1 OR (if PD_Rx_Buf ?s ! 1 AND 0x70 \<noteq> 0 then 0x80 else 0 :: u8)))"
    using assms(1,3,4) x by (simp add: rx_other_def Let_def) (simp add: PD_Evt_def)
  then show ?thesis by simp
qed

theorem unsupported_trace_type_witness:
  "\<exists>e. e = PD_Evt_Buf (rx_other acking (plugged\<lparr>PD_Rx_Buf := [0x9A, 0x00] @ replicate 32 0\<rparr>)) ! 0
     \<and> drop_bit 8 e AND 0x1F = 1"
proof -
  let ?s = "plugged\<lparr>PD_Rx_Buf := [0x9A, 0x00] @ replicate 32 0\<rparr>"
  have "PD_Version ?s" "length (PD_Evt_Buf ?s) = 16" "PD_Evt_W ?s = 0"
    by (simp_all add: plugged_def pd_boot_def PD_Init_def PD_PHY_Reset_def PD_SRC_Init_def Let_def)
  then show ?thesis
    using unsupported_trace_type [of ?s acking, OF _ _ _ refl] by (simp add: acking_ok)
qed

end
