(* ===== verification/Ch32_Uart.thy ===== *)
theory Ch32_Uart
  imports Wire_Deframer Power_Status
begin

text \<open>
  The transmit side of the power controller (\<open>main.c\<close>): bytes on USART2 with the bounded wait
  for the transmitter, the self-healing of a mute transmitter, frames and log messages. When the
  transmitter becomes ready is the argument \<open>tc\<close>: \<open>tc n k\<close> is the flag at poll \<open>k\<close> of wait \<open>n\<close>.
\<close>

section \<open>Byte sender\<close>

record usart2 =
  tx_bytes :: bytes
  tc_waits :: nat
  Usart2_Tc_Timeouts :: u8
  Dma_Rx_Tail :: nat
  usart2_inits :: nat
  Wups_Tx_Seq :: u8

definition USART2_TX_REINIT_AFTER :: u8 where [simp]: "USART2_TX_REINIT_AFTER = 8"
definition TC_GUARD :: nat where "TC_GUARD = 50000"

text \<open>The bounded wait; true when the guard has not run out.\<close>

fun tc_wait :: "(nat \<Rightarrow> bool) \<Rightarrow> nat \<Rightarrow> nat \<Rightarrow> bool" where
  "tc_wait tc 0 k = False"
| "tc_wait tc (Suc guard) k = (tc k \<or> guard \<noteq> 0 \<and> tc_wait tc guard (Suc k))"

definition USART2_Init :: "usart2 \<Rightarrow> usart2" where
  "USART2_Init u = u\<lparr>usart2_inits := usart2_inits u + 1\<rparr>"

fun Usart2_Send_Bytes :: "(nat \<Rightarrow> nat \<Rightarrow> bool) \<Rightarrow> bytes \<Rightarrow> usart2 \<Rightarrow> usart2" where
  "Usart2_Send_Bytes tc [] u = u"
| "Usart2_Send_Bytes tc (b # buf) u =
     (let ready = tc_wait (tc (tc_waits u)) TC_GUARD 0;
          u = u\<lparr>tc_waits := tc_waits u + 1\<rparr> in
      if \<not> ready then
        let u = u\<lparr>Usart2_Tc_Timeouts := Usart2_Tc_Timeouts u + 1\<rparr> in
        if Usart2_Tc_Timeouts u \<ge> USART2_TX_REINIT_AFTER
        then (USART2_Init (u\<lparr>Usart2_Tc_Timeouts := 0\<rparr>))\<lparr>Dma_Rx_Tail := 0\<rparr>
        else u
      else Usart2_Send_Bytes tc buf (u\<lparr>Usart2_Tc_Timeouts := 0, tx_bytes := tx_bytes u @ [b]\<rparr>))"

section \<open>Frames\<close>

definition wups_send_frame ::
  "(nat \<Rightarrow> nat \<Rightarrow> bool) \<Rightarrow> u8 \<Rightarrow> u8 \<Rightarrow> u8 \<Rightarrow> u8 \<Rightarrow> u8 \<Rightarrow> bytes \<Rightarrow> usart2 \<Rightarrow> usart2" where
  "wups_send_frame tc dst cls op flags seq payload u =
     (let payload_len = of_nat (length payload) :: u16;
          header = [WUPS_SYNC1, WUPS_SYNC2, dst, WUPS_ADDR_CH32X, cls, op, flags, seq,
            ucast (payload_len AND 0xFF), ucast (drop_bit 8 payload_len AND 0xFF)];
          (a, b) = foldl fletcher_step (0, 0) (drop 2 header);
          (a, b) = foldl fletcher_step (a, b) payload;
          trailer = [a, b, WUPS_END1, WUPS_END2, WUPS_GUARD_BYTE];
          u = Usart2_Send_Bytes tc header u;
          u = (if payload \<noteq> [] then Usart2_Send_Bytes tc payload u else u) in
      Usart2_Send_Bytes tc trailer u)"

definition FW_VERSION_STR :: string where "FW_VERSION_STR = ''ch32x:1.1.1''"
definition FW_VERSION_U16 :: u16 where "FW_VERSION_U16 = 0x0101"

definition next_seq :: "usart2 \<Rightarrow> usart2" where
  "next_seq u = u\<lparr>Wups_Tx_Seq := Wups_Tx_Seq u + 1\<rparr>"

definition ascii :: "string \<Rightarrow> bytes" where
  "ascii s = map (\<lambda>c. of_nat (of_char c)) s"

text \<open>A C string ends at its terminator; the longest text that fits is 236 bytes.\<close>

definition wups_send_log :: "(nat \<Rightarrow> nat \<Rightarrow> bool) \<Rightarrow> u8 \<Rightarrow> string \<Rightarrow> usart2 \<Rightarrow> usart2" where
  "wups_send_log tc level s u =
     (let body = take (WUPS_MAX_PAYLOAD - 4) (takeWhile (\<lambda>b. b \<noteq> 0) (ascii s));
          text_len = length body in
      wups_send_frame tc WUPS_ADDR_BROADCAST WUPS_CLASS_SYSTEM WUPS_OP_SYS_LOG WUPS_FLAG_EVENT
        (Wups_Tx_Seq u) ([1, level, of_nat text_len, 0] @ body) (next_seq u))"

definition wups_send_hello_bcast :: "(nat \<Rightarrow> nat \<Rightarrow> bool) \<Rightarrow> usart2 \<Rightarrow> usart2" where
  "wups_send_hello_bcast tc u =
     wups_send_frame tc WUPS_ADDR_BROADCAST WUPS_CLASS_SYSTEM WUPS_OP_SYS_HELLO WUPS_FLAG_EVENT
       (Wups_Tx_Seq u)
       ([1, WUPS_PROTO_VERSION, WUPS_ADDR_CH32X, 0] @ le16 FW_VERSION_U16
         @ le16 (WUPS_CAP_SYSTEM OR WUPS_CAP_POWER) @ le32 0)
       (next_seq u)"

definition wups_send_power_event :: "(nat \<Rightarrow> nat \<Rightarrow> bool) \<Rightarrow> u8 \<Rightarrow> usart2 \<Rightarrow> usart2" where
  "wups_send_power_event tc event u =
     wups_send_frame tc WUPS_ADDR_BROADCAST WUPS_CLASS_POWER WUPS_OP_PWR_EVENT WUPS_FLAG_EVENT
       (Wups_Tx_Seq u) [1, event] (next_seq u)"

section \<open>A healthy transmitter\<close>

definition healthy :: "(nat \<Rightarrow> nat \<Rightarrow> bool) \<Rightarrow> bool" where
  "healthy tc \<longleftrightarrow> (\<forall>n. \<exists>k<TC_GUARD. tc n k)"

lemma tc_wait_iff: "tc_wait tc guard k \<longleftrightarrow> (\<exists>j<guard. tc (k + j))"
proof (induction guard arbitrary: k)
  case (Suc guard)
  have "(\<exists>j<Suc guard. tc (k + j)) \<longleftrightarrow> tc k \<or> (\<exists>j<guard. tc (Suc k + j))"
    using less_Suc_eq_0_disj by auto
  with Suc.IH show ?case by auto
qed simp

lemma healthy_wait: "healthy tc \<Longrightarrow> tc_wait (tc n) TC_GUARD 0"
  by (simp add: tc_wait_iff healthy_def)

lemma send_bytes_healthy:
  assumes "healthy tc"
  shows "tx_bytes (Usart2_Send_Bytes tc buf u) = tx_bytes u @ buf"
    and "usart2_inits (Usart2_Send_Bytes tc buf u) = usart2_inits u"
    and "Wups_Tx_Seq (Usart2_Send_Bytes tc buf u) = Wups_Tx_Seq u"
  by (induction buf arbitrary: u) (simp_all add: Let_def healthy_wait [OF assms])

lemma send_frame_healthy:
  assumes "healthy tc"
  shows "tx_bytes (wups_send_frame tc dst cls op flags seq payload u) = tx_bytes u
      @ encode \<lparr>f_dst = dst, f_src = WUPS_ADDR_CH32X, f_cls = cls, f_op = op, f_flags = flags,
          f_seq = seq, f_payload = payload\<rparr> @ [WUPS_GUARD_BYTE]"
    and "Wups_Tx_Seq (wups_send_frame tc dst cls op flags seq payload u) = Wups_Tx_Seq u"
  by (simp_all add: wups_send_frame_def Let_def split_beta send_bytes_healthy [OF assms] encode_def
      frame_body_def wups_fletcher8_def le16_def
      del: Usart2_Send_Bytes.simps fletcher_step.simps)

section \<open>Delivery\<close>

text \<open>The frames of a stream: each followed by its guard byte.\<close>

definition stream :: "wups_frame list \<Rightarrow> bytes" where
  "stream fs = concat (map (\<lambda>f. encode f @ [WUPS_GUARD_BYTE]) fs)"

context deframer
begin

lemma guard_ignored:
  assumes "ok s" and "view s = []"
  shows "ok (fst (step s 0))" "view (fst (step s 0)) = []" "snd (step s 0) = None"
proof -
  have "spec_step [] 0 = ([], None)"
    by (simp add: spec_step_def Let_def prefix_ok_def restart_def)
  then show "view (fst (step s 0)) = []" "snd (step s 0) = None"
    using view_step [OF assms(1), of 0] out_step [OF assms(1), of 0] assms(2) by simp_all
qed (rule ok_step [OF assms(1)])

lemma stream_delivered:
  assumes "ok s" and "view s = []" and "\<And>f. f \<in> set fs \<Longrightarrow> frame_fits f"
  shows "snd (deframe step s (stream fs)) = fs \<and> view (fst (deframe step s (stream fs))) = []
    \<and> ok (fst (deframe step s (stream fs)))"
  using assms
proof (induction fs arbitrary: s)
  case Nil
  then show ?case by (simp add: stream_def)
next
  case (Cons f fs)
  let ?s1 = "fst (deframe step s (encode f))"
  have 1: "ok ?s1" "view ?s1 = []" "snd (deframe step s (encode f)) = [f]"
    using ok_deframe [OF Cons.prems(1)] round_trip [OF Cons.prems(1), of f] Cons.prems by auto
  note 2 = guard_ignored [OF 1(1,2)]
  have "stream (f # fs) = encode f @ [WUPS_GUARD_BYTE] @ stream fs" by (simp add: stream_def)
  moreover have "snd (deframe step (fst (step ?s1 0)) (stream fs)) = fs
      \<and> view (fst (deframe step (fst (step ?s1 0)) (stream fs))) = []
      \<and> ok (fst (deframe step (fst (step ?s1 0)) (stream fs)))"
    using Cons.prems 2 by (intro Cons.IH) auto
  ultimately show ?case
    using 1 2 by (simp add: deframe_append split_beta)
qed

end

section \<open>A mute transmitter\<close>

definition mute :: "nat \<Rightarrow> nat \<Rightarrow> bool" where
  "mute n k = False"

lemma mute_wait: "\<not> tc_wait (mute n) guard k"
  by (simp add: tc_wait_iff mute_def)

text \<open>One transmission attempt that expires.\<close>

definition expire_once :: "usart2 \<Rightarrow> usart2" where
  "expire_once u = Usart2_Send_Bytes mute [0] u"

lemma mute_send: "buf \<noteq> [] \<Longrightarrow> Usart2_Send_Bytes mute buf u = expire_once u"
  by (cases buf) (simp_all add: expire_once_def Let_def mute_wait)

lemma mute_frame: "payload \<noteq> [] \<Longrightarrow>
  wups_send_frame mute dst cls op flags seq payload u = (expire_once ^^ 3) u"
  by (simp add: wups_send_frame_def Let_def split_beta mute_send eval_nat_numeral del: Usart2_Send_Bytes.simps)

definition tally :: "usart2 \<Rightarrow> nat" where
  "tally u = 8 * usart2_inits u + unat (Usart2_Tc_Timeouts u)"

lemma expire_tally:
  assumes "Usart2_Tc_Timeouts u < 8"
  shows "tally (expire_once u) = Suc (tally u)" "Usart2_Tc_Timeouts (expire_once u) < 8"
    "tx_bytes (expire_once u) = tx_bytes u"
proof -
  have s: "unat (Usart2_Tc_Timeouts u + 1) = Suc (unat (Usart2_Tc_Timeouts u))"
    using assms by (intro unat_inc) auto
  have b: "unat (Usart2_Tc_Timeouts u) < 8" using assms by (simp add: word_less_nat_alt)
  show "tally (expire_once u) = Suc (tally u)" "Usart2_Tc_Timeouts (expire_once u) < 8"
    "tx_bytes (expire_once u) = tx_bytes u"
    using s b by (auto simp: expire_once_def Let_def mute_wait tally_def USART2_Init_def word_le_nat_alt
        word_less_nat_alt not_le)
qed

lemma expire_many:
  "Usart2_Tc_Timeouts u < 8 \<Longrightarrow> tally ((expire_once ^^ n) u) = n + tally u
     \<and> Usart2_Tc_Timeouts ((expire_once ^^ n) u) < 8 \<and> tx_bytes ((expire_once ^^ n) u) = tx_bytes u"
  by (induction n) (simp_all add: expire_tally)

text \<open>
  A transmitter that has gone mute is re-initialised in bounded time: while its ready flag
  never comes, sending any sequence of messages ends (each of its three parts gives up after one
  bounded wait), puts no byte on the line, and re-initialises the serial port once for every eight
  parts given up, so that three messages are always enough.
\<close>

theorem mute_transmitter_healed:
  assumes "Usart2_Tc_Timeouts u < 8" and "\<forall>p\<in>set ps. p \<noteq> []"
    and "u' = foldl (\<lambda>u p. wups_send_frame mute dst cls op flags (Wups_Tx_Seq u) p u) u ps"
  shows "tx_bytes u' = tx_bytes u
    \<and> usart2_inits u' = usart2_inits u + (unat (Usart2_Tc_Timeouts u) + 3 * length ps) div 8
    \<and> (3 \<le> length ps \<longrightarrow> usart2_inits u < usart2_inits u')"
proof -
  have u': "u' = (expire_once ^^ (3 * length ps)) u"
    using assms(2) unfolding assms(3)
    by (induction ps arbitrary: u) (simp_all add: mute_frame funpow_add [symmetric, THEN fun_cong, unfolded comp_def]
        add.commute flip: funpow_swap1)
  have t: "tally u' = 3 * length ps + tally u" "unat (Usart2_Tc_Timeouts u') < 8" "tx_bytes u' = tx_bytes u"
    using expire_many [OF assms(1)] by (simp_all add: u' word_less_nat_alt)
  have i: "usart2_inits u' = usart2_inits u + (unat (Usart2_Tc_Timeouts u) + 3 * length ps) div 8"
    using t(1,2) by (simp add: tally_def)
  moreover have "3 \<le> length ps \<Longrightarrow> 1 \<le> (unat (Usart2_Tc_Timeouts u) + 3 * length ps) div 8"
    by (simp add: Suc_le_eq div_greater_zero_iff)
  ultimately show ?thesis using t(3) by auto
qed

definition uart_boot :: usart2 where
  "uart_boot = \<lparr>tx_bytes = [], tc_waits = 0, Usart2_Tc_Timeouts = 0, Dma_Rx_Tail = 0, usart2_inits = 1,
     Wups_Tx_Seq = 0\<rparr>"

theorem mute_transmitter_healed_witness:
  "usart2_inits (foldl (\<lambda>u p. wups_send_frame mute 2 1 1 4 (Wups_Tx_Seq u) p u) uart_boot [[1], [2], [3]]) = 2"
  using mute_transmitter_healed [of uart_boot "[[1], [2], [3]]", OF _ _ refl, of 2 1 1 4]
  by (simp add: uart_boot_def)

end
