(* ===== verification/Ch32_Events.thy ===== *)
theory Ch32_Events
  imports Ch32_Uart Mp2762a
begin

text \<open>
  The power event detector of the power controller (\<open>main.c\<close>, \<open>wups_power_event_tick\<close>): edges of
  the mains, fault, charge and battery readings become broadcast events. The readings of one tick
  are the record \<open>readings\<close>; the static variables of the function are the record \<open>evt\<close>.
\<close>

definition PWR_EVT_MAINS_ON_MV :: u16 where [simp]: "PWR_EVT_MAINS_ON_MV = 5500"
definition PWR_EVT_MAINS_OFF_MV :: u16 where [simp]: "PWR_EVT_MAINS_OFF_MV = 4500"
definition PWR_EVT_VBAT_LOW_MV :: u16 where [simp]: "PWR_EVT_VBAT_LOW_MV = 6900"
definition PWR_EVT_VBAT_REARM_MV :: u16 where [simp]: "PWR_EVT_VBAT_REARM_MV = 7300"
definition PWR_EVT_FAULT_HOLD_S :: u32 where [simp]: "PWR_EVT_FAULT_HOLD_S = 30"
definition STATUS_SCP_BIT :: u8 where [simp]: "STATUS_SCP_BIT = 0x80"
definition STATUS_OCP_BIT :: u8 where [simp]: "STATUS_OCP_BIT = 0x40"
definition STATUS_OVP_BIT :: u8 where [simp]: "STATUS_OVP_BIT = 0x20"

record evt =
  Evt_Primed :: bool
  Evt_Mains :: bool
  Evt_Prev_Faults :: u16
  Evt_Prev_Cs :: u8
  Evt_Batt_Low :: bool
  Evt_Last_Fault_S :: u32

definition evt_boot :: evt where
  "evt_boot = \<lparr>Evt_Primed = False, Evt_Mains = False, Evt_Prev_Faults = 0, Evt_Prev_Cs = 0,
     Evt_Batt_Low = False, Evt_Last_Fault_S = 0\<rparr>"

record readings =
  r_dc_mV :: u16
  r_vbat_mV :: u16
  r_faults :: u16
  r_cs :: u8
  r_uptime :: u32

definition pack_faults :: "u8 \<Rightarrow> u8 \<Rightarrow> u16" where
  "pack_faults chg_fault latched_status =
     (let tps_flags = (if latched_status AND STATUS_SCP_BIT \<noteq> 0 then 0x0100 else 0);
          tps_flags = (if latched_status AND STATUS_OCP_BIT \<noteq> 0 then tps_flags OR 0x0200 else tps_flags);
          tps_flags = (if latched_status AND STATUS_OVP_BIT \<noteq> 0 then tps_flags OR 0x0400 else tps_flags) in
      ucast chg_fault OR tps_flags)"

fun chg_state_code :: "mp2762a_chg_state_t \<Rightarrow> u8" where
  "chg_state_code CHG_STATE_NOT_CHARGING = 0"
| "chg_state_code CHG_STATE_TRICKLE = 1"
| "chg_state_code CHG_STATE_FAST = 2"
| "chg_state_code CHG_STATE_DONE = 3"

text \<open>One tick: the new variables and the events to broadcast, in order.\<close>

definition event_tick :: "readings \<Rightarrow> evt \<Rightarrow> evt \<times> u8 list" where
  "event_tick r e =
     (let mains = (if Evt_Mains e then r_dc_mV r > PWR_EVT_MAINS_OFF_MV else r_dc_mV r > PWR_EVT_MAINS_ON_MV);
          faults = r_faults r;
          cs = r_cs r in
      if \<not> Evt_Primed e then
        (e\<lparr>Evt_Primed := True, Evt_Mains := mains, Evt_Prev_Faults := faults, Evt_Prev_Cs := cs\<rparr>, [])
      else
        let (e, ev1) = (if mains \<noteq> Evt_Mains e then
              let e = e\<lparr>Evt_Mains := mains\<rparr> in
              (if mains then e\<lparr>Evt_Batt_Low := False\<rparr> else e,
               [if mains then WUPS_PWR_EVT_MAINS_RESTORED else WUPS_PWR_EVT_MAINS_LOST])
            else (e, []));
            (e, ev2) = (if faults AND NOT (Evt_Prev_Faults e) \<noteq> 0
                  \<and> r_uptime r - Evt_Last_Fault_S e \<ge> PWR_EVT_FAULT_HOLD_S
                then (e\<lparr>Evt_Last_Fault_S := r_uptime r\<rparr>, [WUPS_PWR_EVT_FAULT])
                else (e, []));
            e = e\<lparr>Evt_Prev_Faults := faults\<rparr>;
            ev3 = (if mains \<and> cs = 3 \<and> Evt_Prev_Cs e \<noteq> 3 then [WUPS_PWR_EVT_CHARGE_FULL] else []);
            e = e\<lparr>Evt_Prev_Cs := cs\<rparr>;
            (e, ev4) = (if \<not> mains \<and> \<not> Evt_Batt_Low e \<and> r_vbat_mV r < PWR_EVT_VBAT_LOW_MV \<and> r_vbat_mV r > 1000
                then (e\<lparr>Evt_Batt_Low := True\<rparr>, [WUPS_PWR_EVT_CHARGE_LOW])
                else if Evt_Batt_Low e \<and> r_vbat_mV r > PWR_EVT_VBAT_REARM_MV
                then (e\<lparr>Evt_Batt_Low := False\<rparr>, [])
                else (e, [])) in
        (e, ev1 @ ev2 @ ev3 @ ev4))"

definition wups_power_event_tick ::
  "(nat \<Rightarrow> nat \<Rightarrow> bool) \<Rightarrow> readings \<Rightarrow> evt \<times> usart2 \<Rightarrow> evt \<times> usart2" where
  "wups_power_event_tick tc r eu =
     (let (e, events) = event_tick r (fst eu) in
      (e, foldl (\<lambda>u ev. wups_send_power_event tc ev u) (snd eu) events))"

section \<open>Runs\<close>

fun event_run :: "evt \<Rightarrow> readings list \<Rightarrow> evt \<times> (readings \<times> u8) list" where
  "event_run e [] = (e, [])"
| "event_run e (r # rs) =
     (let (e, evs) = event_tick r e; (e', rest) = event_run e rs in
      (e', map (\<lambda>ev. (r, ev)) evs @ rest))"

definition is_mains :: "u8 \<Rightarrow> bool" where
  "is_mains ev \<longleftrightarrow> ev = WUPS_PWR_EVT_MAINS_LOST \<or> ev = WUPS_PWR_EVT_MAINS_RESTORED"

fun alternates :: "bool \<Rightarrow> u8 list \<Rightarrow> bool" where
  "alternates m [] = True"
| "alternates m (ev # evs) =
     (ev = (if m then WUPS_PWR_EVT_MAINS_LOST else WUPS_PWR_EVT_MAINS_RESTORED) \<and> alternates (\<not> m) evs)"

definition mains_of :: "(readings \<times> u8) list \<Rightarrow> (readings \<times> u8) list" where
  "mains_of log = filter (\<lambda>(r, ev). is_mains ev) log"

text \<open>Every mains event is justified by its reading.\<close>

definition justified :: "readings \<times> u8 \<Rightarrow> bool" where
  "justified p = (case p of (r, ev) \<Rightarrow>
     (ev = WUPS_PWR_EVT_MAINS_LOST \<longrightarrow> r_dc_mV r \<le> 4500) \<and>
     (ev = WUPS_PWR_EVT_MAINS_RESTORED \<longrightarrow> r_dc_mV r > 5500))"

lemma tick_mains:
  assumes "Evt_Primed e" and "event_tick r e = (e', evs)"
  shows "filter is_mains evs = (if Evt_Mains e' = Evt_Mains e then []
      else [if Evt_Mains e' then WUPS_PWR_EVT_MAINS_RESTORED else WUPS_PWR_EVT_MAINS_LOST])"
    and "Evt_Primed e'" and "\<forall>ev\<in>set evs. justified (r, ev)"
  using assms by (auto simp: event_tick_def is_mains_def justified_def Let_def not_less split: if_splits)

lemma run_mains:
  assumes "Evt_Primed e" and "event_run e rs = (e', log)"
  shows "alternates (Evt_Mains e) (map snd (mains_of log)) \<and> (\<forall>p\<in>set log. justified p)"
  using assms
proof (induction rs arbitrary: e log)
  case Nil
  then show ?case by (simp add: mains_of_def)
next
  case (Cons r rs)
  obtain e1 evs where t: "event_tick r e = (e1, evs)" by (metis surj_pair)
  obtain rest where u: "event_run e1 rs = (e', rest)" "log = map (\<lambda>ev. (r, ev)) evs @ rest"
    using Cons.prems(2) t by (auto simp: Let_def split: prod.splits)
  note m = tick_mains [OF Cons.prems(1) t]
  have f: "map snd (mains_of (map (\<lambda>ev. (r, ev)) evs)) = filter is_mains evs"
    by (induction evs) (simp_all add: mains_of_def)
  have "mains_of log = mains_of (map (\<lambda>ev. (r, ev)) evs) @ mains_of rest"
    by (simp add: u(2) mains_of_def)
  then have "map snd (mains_of log) = filter is_mains evs @ map snd (mains_of rest)" by (simp add: f)
  with Cons.IH [OF m(2) u(1)] m u(2) show ?case by auto
qed

text \<open>
  Mains events tell the truth in order: from boot, whatever the readings, the mains events
  that are broadcast strictly alternate between lost and restored, starting with the one that
  contradicts the first reading; lost is reported only for an input of at most 4.5 V and restored
  only for one above 5.5 V, so an input that hovers inside the band raises no event at all.
\<close>

theorem mains_events_alternate:
  assumes "event_run evt_boot (r0 # rs) = (e', log)"
  shows "alternates (r_dc_mV r0 > 5500) (map snd (mains_of log))
    \<and> (\<forall>(r, ev)\<in>set log. (ev = WUPS_PWR_EVT_MAINS_LOST \<longrightarrow> r_dc_mV r \<le> 4500)
        \<and> (ev = WUPS_PWR_EVT_MAINS_RESTORED \<longrightarrow> r_dc_mV r > 5500))"
proof -
  obtain e1 where t: "event_tick r0 evt_boot = (e1, [])" "Evt_Primed e1" "Evt_Mains e1 = (r_dc_mV r0 > 5500)"
    by (simp add: event_tick_def evt_boot_def Let_def)
  then have "event_run e1 rs = (e', log)" using assms by (simp add: Let_def split: prod.splits)
  from run_mains [OF t(2) this] t(3) show ?thesis unfolding justified_def by auto
qed

definition reading_at :: "u16 \<Rightarrow> u16 \<Rightarrow> u32 \<Rightarrow> readings" where
  "reading_at mV flt t = \<lparr>r_dc_mV = mV, r_vbat_mV = 8000, r_faults = flt, r_cs = 0, r_uptime = t\<rparr>"

theorem mains_events_alternate_witness:
  "map snd (mains_of (snd (event_run evt_boot (map (\<lambda>v. reading_at v 0 1) [12000, 5000, 4400, 5400, 5600])))) = [1, 2]
   \<and> alternates True [1, 2]"
proof -
  let ?rs = "map (\<lambda>v. reading_at v 0 1) [5000, 4400, 5400, 5600]"
  have e: "map snd (mains_of (snd (event_run evt_boot (reading_at 12000 0 1 # ?rs)))) = [1, 2]" by code_simp
  then show ?thesis
    using mains_events_alternate [of "reading_at 12000 0 1" ?rs, OF prod.collapse [symmetric]]
    by (simp add: reading_at_def)
qed

section \<open>Fault events\<close>

definition fault_times :: "(readings \<times> u8) list \<Rightarrow> nat list" where
  "fault_times log = map (\<lambda>(r, ev). unat (r_uptime r)) (filter (\<lambda>(r, ev). ev = WUPS_PWR_EVT_FAULT) log)"

lemma tick_fault:
  assumes "event_tick r e = (e', evs)" and "Evt_Last_Fault_S e \<le> r_uptime r"
  shows "fault_times (map (\<lambda>ev. (r, ev)) evs) = [] \<and> Evt_Last_Fault_S e' = Evt_Last_Fault_S e
    \<or> fault_times (map (\<lambda>ev. (r, ev)) evs) = [unat (r_uptime r)] \<and> Evt_Last_Fault_S e' = r_uptime r
       \<and> unat (Evt_Last_Fault_S e) + 30 \<le> unat (r_uptime r)"
proof -
  have "unat (Evt_Last_Fault_S e) + 30 \<le> unat (r_uptime r)" if "r_uptime r - Evt_Last_Fault_S e \<ge> 30"
    using that assms(2) by (simp add: word_le_nat_alt unat_sub)
  with assms(1) show ?thesis
    by (auto simp: event_tick_def fault_times_def Let_def split: if_splits)
qed

text \<open>
  Fault events are rate limited: while the uptime does not run backwards, any two fault
  events of a run are at least 30 seconds apart, and none is sent in the first 30 seconds.
\<close>

theorem fault_events_spaced:
  assumes "event_run e rs = (e', log)" and "sorted (map r_uptime rs)"
    and "\<forall>r\<in>set rs. Evt_Last_Fault_S e \<le> r_uptime r"
  shows "sorted_wrt (\<lambda>s t. s + 30 \<le> t) (unat (Evt_Last_Fault_S e) # fault_times log)"
  using assms
proof (induction rs arbitrary: e log)
  case Nil
  then show ?case by (simp add: fault_times_def)
next
  case (Cons r rs)
  obtain e1 evs where t: "event_tick r e = (e1, evs)" by (metis surj_pair)
  obtain rest where u: "event_run e1 rs = (e', rest)" "log = map (\<lambda>ev. (r, ev)) evs @ rest"
    using Cons.prems(1) t by (auto simp: Let_def split: prod.splits)
  have f: "fault_times log = fault_times (map (\<lambda>ev. (r, ev)) evs) @ fault_times rest"
    by (simp add: u(2) fault_times_def)
  have le: "Evt_Last_Fault_S e \<le> r_uptime r" using Cons.prems(3) by simp
  note tf = tick_fault [OF t le]
  have "\<forall>q\<in>set rs. Evt_Last_Fault_S e1 \<le> r_uptime q" using tf Cons.prems(2,3) by auto
  from Cons.IH [OF u(1) _ this] Cons.prems(2)
  have "sorted_wrt (\<lambda>s t. s + 30 \<le> t) (unat (Evt_Last_Fault_S e1) # fault_times rest)" by simp
  with tf show ?case by (auto simp: f)
qed

theorem fault_events_spaced_witness:
  "sorted_wrt (\<lambda>s t. s + 30 \<le> t) (0 # fault_times (snd (event_run evt_boot
     [reading_at 12000 0 1, reading_at 12000 1 40, reading_at 12000 0 41, reading_at 12000 1 50, reading_at 12000 0 60, reading_at 12000 1 75])))"
  using fault_events_spaced [where e = evt_boot, OF prod.collapse [symmetric], of
     "[reading_at 12000 0 1, reading_at 12000 1 40, reading_at 12000 0 41, reading_at 12000 1 50, reading_at 12000 0 60, reading_at 12000 1 75]"]
  by (simp add: reading_at_def evt_boot_def)

text \<open>
  A fault that first appears inside the hold time and stays is not reported later either: the
  detector has already recorded it as the previous state.
\<close>

theorem held_fault_not_reported:
  assumes "Evt_Primed e" and "r_uptime r - Evt_Last_Fault_S e < PWR_EVT_FAULT_HOLD_S"
    and "\<forall>q\<in>set rs. r_faults q = r_faults r"
    and "event_run e (r # rs) = (e', log)"
  shows "fault_times log = []"
proof -
  have tick: "fault_times (map (\<lambda>ev. (q, ev)) evs) = [] \<and> Evt_Prev_Faults e1 = r_faults q \<and> Evt_Primed e1"
    if "event_tick q e0 = (e1, evs)" "Evt_Primed e0"
      "r_faults q AND NOT (Evt_Prev_Faults e0) = 0 \<or> r_uptime q - Evt_Last_Fault_S e0 < PWR_EVT_FAULT_HOLD_S" for q e0 e1 evs
    using that by (auto simp: event_tick_def fault_times_def Let_def not_less split: if_splits)
  have same: "fault_times lg = []"
    if "event_run e0 qs = (e', lg)" "Evt_Primed e0" "Evt_Prev_Faults e0 = r_faults r" "\<forall>q\<in>set qs. r_faults q = r_faults r" for e0 qs lg
    using that
  proof (induction qs arbitrary: e0 lg)
    case Nil
    then show ?case by (simp add: fault_times_def)
  next
    case (Cons q qs)
    obtain e1 evs where t: "event_tick q e0 = (e1, evs)" by (metis surj_pair)
    obtain rest where u: "event_run e1 qs = (e', rest)" "lg = map (\<lambda>ev. (q, ev)) evs @ rest"
      using Cons.prems(1) t by (auto simp: Let_def split: prod.splits)
    have "r_faults q AND NOT (Evt_Prev_Faults e0) = 0" using Cons.prems by simp
    with tick [OF t Cons.prems(2)] Cons.IH [OF u(1)] Cons.prems(4) u(2) show ?case
      by (simp add: fault_times_def)
  qed
  obtain e1 evs where t: "event_tick r e = (e1, evs)" by (metis surj_pair)
  obtain rest where u: "event_run e1 rs = (e', rest)" "log = map (\<lambda>ev. (r, ev)) evs @ rest"
    using assms(4) t by (auto simp: Let_def split: prod.splits)
  from tick [OF t assms(1)] assms(2) same [OF u(1)] assms(3) u(2) show ?thesis
    by (simp add: fault_times_def)
qed

end
