(* ===== verification/Ch32_Diag.thy ===== *)
theory Ch32_Diag
  imports Ch32_Pd Husb238 Mp2762a
begin

text \<open>
  Text of the diagnostic messages of the power controller (\<open>main.c\<close>): the formatters of the five
  second diagnostic block, the text of a port trace event, and the board temperature sensor
  (\<open>lm75b.c\<close>). The formatters write into fixed local arrays; the properties bound what they write.
\<close>

section \<open>Digits\<close>

definition hex_digits :: string where "hex_digits = ''0123456789ABCDEF''"

definition hex1 :: "u8 \<Rightarrow> string" where
  "hex1 b = [hex_digits ! unat (b AND 0xF)]"

definition EMIT_HEX :: "u8 \<Rightarrow> string" where
  "EMIT_HEX b = hex1 (drop_bit 4 b) @ hex1 b"

definition dec_digit :: "int \<Rightarrow> char" where
  "dec_digit n = char_of (nat ((48 + n) mod 256))"

text \<open>Decimal digits, collected least significant first and written in reverse.\<close>

function digits_lsb :: "u16 \<Rightarrow> string" where
  "digits_lsb v = (if v = 0 then [] else dec_digit (uint (v mod 10)) # digits_lsb (v div 10))"
  by pat_completeness auto
termination
proof (relation "measure unat")
  fix v :: u16
  assume "v \<noteq> 0"
  then have "unat v \<noteq> 0" by (simp add: unat_eq_0)
  then show "(v div 10, v) \<in> measure unat" by (simp add: unat_div)
qed simp

declare digits_lsb.simps [simp del]

definition EMIT_U16 :: "u16 \<Rightarrow> string" where
  "EMIT_U16 v = (if v = 0 then ''0'' else rev (digits_lsb v))"

text \<open>Tenths of a degree; the hundreds of the whole part are written as one character.\<close>

definition emit_temp :: "int \<Rightarrow> string" where
  "emit_temp c10 =
     (let v = \<bar>c10\<bar>; whole = v div 10; frac = v mod 10 in
      (if c10 < 0 then ''-'' else [])
      @ (if whole \<ge> 100 then [dec_digit (whole div 100)] else [])
      @ (if whole \<ge> 10 then [dec_digit ((whole div 10) mod 10)] else [])
      @ [dec_digit (whole mod 10)] @ ''.'' @ [dec_digit frac] @ ''C'')"

section \<open>Diagnostic lines\<close>

definition mp2762a_regs :: "u8 list" where
  "mp2762a_regs = [0x00, 0x0F, 0x02, 0x08, 0x13, 0x14, 0x1A, 0x1B, 0x1E, 0x1F, 0x24, 0x25]"

fun read_regs_each :: "sda_pin \<Rightarrow> trace \<Rightarrow> u8 list \<Rightarrow> trace \<times> u8 list" where
  "read_regs_each pin tr [] = (tr, [])"
| "read_regs_each pin tr (r # rs) =
     (let (tr, b) = mp2762a_read_reg pin tr r; (tr, bs) = read_regs_each pin tr rs in (tr, b # bs))"

definition mp_line :: "u8 list \<Rightarrow> int \<Rightarrow> int \<Rightarrow> string" where
  "mp_line r board_c10 tj_c10 =
     ''MP2762A r00='' @ EMIT_HEX (r ! 0) @ '' r0F='' @ EMIT_HEX (r ! 1) @ '' r02='' @ EMIT_HEX (r ! 2)
     @ '' r08='' @ EMIT_HEX (r ! 3) @ '' r13='' @ EMIT_HEX (r ! 4) @ '' r14='' @ EMIT_HEX (r ! 5)
     @ '' ICHG='' @ EMIT_HEX (r ! 7) @ EMIT_HEX (r ! 6) @ '' IIN='' @ EMIT_HEX (r ! 9) @ EMIT_HEX (r ! 8)
     @ '' TJraw='' @ EMIT_HEX (r ! 11) @ EMIT_HEX (r ! 10)
     @ '' Tboard='' @ emit_temp board_c10
     @ '' TJ='' @ (if tj_c10 = - 32768 then ''NA'' else emit_temp tj_c10)"

definition husb_line :: "husb238_data_t \<Rightarrow> string" where
  "husb_line d =
     ''HUSB att='' @ (if attached d then ''1'' else ''0'') @ '' Vin='' @ EMIT_U16 (voltage_mV d) @ ''mV''
     @ '' Iin='' @ EMIT_U16 (current_mA d) @ ''mA'' @ '' v='' @ hex1 (v_code d) @ '' i='' @ hex1 (i_code d)
     @ '' resp='' @ hex1 (last_response d)"

definition HLBL :: "string list" where
  "HLBL = [''5'', ''9'', ''12'', ''15'', ''18'', ''20'']"

definition caps_line :: "husb238_src_caps_t \<Rightarrow> u8 \<Rightarrow> string" where
  "caps_line caps pick =
     ''HUSBcaps'' @ concat (map (\<lambda>i. '' '' @ HLBL ! i @ ''=''
        @ (if detected_mask caps AND push_bit i 1 \<noteq> 0 then EMIT_U16 (caps_mA caps ! i) else ''-''))
        [0..<HUSB238_PDO_COUNT])
     @ '' pick='' @ EMIT_U16 (husb238_sel_to_mV pick)"

section \<open>Trace events\<close>

definition pd_evt_text :: "u16 \<Rightarrow> string option" where
  "pd_evt_text e =
     (let code = e AND 0x0F;
          arg = drop_bit 4 e AND 0x0F;
          ext = ucast (drop_bit 8 e) :: u8 in
      if code = PD_EVT_CONNECT then Some ''PD: CC connect''
      else if code = PD_EVT_SRC_CAP_TX then Some ''PD: SRC_CAP sent''
      else if code = PD_EVT_REQ_RX then Some (''PD: REQUEST pdo='' @ [dec_digit (uint arg)])
      else if code = PD_EVT_ACCEPT_TX then Some ''PD: ACCEPT sent''
      else if code = PD_EVT_PS_RDY_TX then Some ''PD: PS_RDY sent''
      else if code = PD_EVT_VDM_RPI_TX then Some ''PD: VDM RPi-id sent''
      else if code = PD_EVT_DRSWAP_RX then
        Some (if arg = 1 then ''PD: DR_Swap RX (dup)'' else if arg = 2 then ''PD: DR_Swap RX (busy->Wait)''
              else ''PD: DR_Swap RX'')
      else if code = PD_EVT_DRSWAP_ACC then
        Some (if arg \<noteq> 0 then ''PD: DR_Swap ACC, now DFP'' else ''PD: DR_Swap ACC, now UFP'')
      else if code = PD_EVT_DRSWAP_FAIL then Some ''PD: DR_Swap TXfail->HRST''
      else if code = PD_EVT_SOFTRST_RX then Some ''PD: Soft_Reset RX''
      else if code = PD_EVT_SOFTRST_TX then Some ''PD: Soft_Reset TX''
      else if code = PD_EVT_HRST_TX then Some ''PD: HardReset TX''
      else if code = PD_EVT_DISCONNECT then Some ''PD: disconnect''
      else if code = PD_EVT_PROTO_REPLY then
        Some (if arg = 2 then ''PD: NotSupp t='' @ hex1 (drop_bit 4 ext AND 0x07) @ hex1 ext @ '' ''
                @ (if ext AND 0x80 \<noteq> 0 then ''d'' else ''c'')
              else if arg = 1 then ''PD: VDM NAK sent'' else if arg = 3 then ''PD: GetSrcCap answered''
              else if arg = 4 then ''PD: VCONN_Swap Reject'' else if arg = 5 then ''PD: UFP identity ACK sent''
              else ''PD: reply?'')
      else if code = PD_EVT_ENTER_USB then
        Some ((if arg \<noteq> 0 then ''PD: Enter_USB mode='' else ''PD: Enter_USB REJ mode='')
          @ [dec_digit (uint (ext AND 0x07))] @ (if arg \<noteq> 0 then '' ACC'' else []))
      else None)"

section \<open>Board temperature\<close>

definition LM75B_I2C_ADDR :: u8 where "LM75B_I2C_ADDR = 0x48"
definition LM75B_REG_TEMP :: u8 where "LM75B_REG_TEMP = 0x00"

definition lm75b_read_temp_raw :: "sda_pin \<Rightarrow> trace \<Rightarrow> trace \<times> int" where
  "lm75b_read_temp_raw pin tr =
     (let (tr, buf) = I2C_read_regs pin tr LM75B_I2C_ADDR LM75B_REG_TEMP 2;
          raw = sint (push_bit 8 (ucast (buf ! 0)) OR ucast (buf ! 1) :: u16) in
      (tr, raw div 32))"

definition lm75b_read_temp_c :: "sda_pin \<Rightarrow> trace \<Rightarrow> trace \<times> rat" where
  "lm75b_read_temp_c pin tr = (let (tr, raw) = lm75b_read_temp_raw pin tr in (tr, fl32 (of_int raw * (1 / 8))))"

definition board_c10 :: "rat \<Rightarrow> int" where
  "board_c10 t = trunc (fl32 (t * 10))"

section \<open>Buffer bounds\<close>

lemma digits_bound: "unat v < 10 ^ n \<Longrightarrow> length (digits_lsb v) \<le> n"
proof (induction n arbitrary: v)
  case 0
  then show ?case by (simp add: digits_lsb.simps unat_eq_0)
next
  case (Suc n)
  have "length (digits_lsb (v div 10)) \<le> n"
    using Suc.prems by (intro Suc.IH) (simp add: unat_div less_mult_imp_div_less mult.commute)
  then show ?case by (subst digits_lsb.simps) simp
qed

lemma digits_le_5: "length (digits_lsb v) \<le> 5"
  using unat_bound [of v] by (intro digits_bound) simp

lemma EMIT_U16_length: "length (EMIT_U16 v) \<le> 5"
  using digits_le_5 [of v] by (simp add: EMIT_U16_def)

lemma temp_length: "length (emit_temp c) \<le> 7"
  by (simp add: emit_temp_def Let_def)

lemma hex_length [simp]: "length (EMIT_HEX b) = 2" "length (hex1 b) = 1"
  by (simp_all add: EMIT_HEX_def hex1_def)

lemma label_length: "i < 6 \<Longrightarrow> length (HLBL ! i) \<le> 2"
  using slot_cases [of i] by (auto simp: HLBL_def)

lemma concat_bound: "(\<And>x. x \<in> set xs \<Longrightarrow> length (f x) \<le> k) \<Longrightarrow> length (concat (map f xs)) \<le> k * length xs"
  by (induction xs) fastforce+

text \<open>
  No diagnostic message overruns its buffer: with the terminator, the charger line fits its 160
  bytes, the input contract line its 72, the capability line its 96 and every port trace text
  its 32, whatever the registers, contracts, temperatures and events; the dec_digit buffer of five
  characters suffices for every 16-bit value.
\<close>

theorem diagnostics_fit:
  "length (mp_line r t tj) < 160 \<and> length (husb_line d) < 72 \<and> length (caps_line caps pick) < 96
   \<and> (case pd_evt_text e of None \<Rightarrow> True | Some s \<Rightarrow> length s < 32) \<and> length (digits_lsb v) \<le> 5"
proof (intro conjI)
  show "length (mp_line r t tj) < 160"
    using temp_length [of t] temp_length [of tj] by (simp add: mp_line_def)
  show "length (husb_line d) < 72"
    using EMIT_U16_length [of "voltage_mV d"] EMIT_U16_length [of "current_mA d"] by (simp add: husb_line_def)
  have "length ('' '' @ HLBL ! i @ ''='' @ (if detected_mask caps AND push_bit i 1 \<noteq> 0 then EMIT_U16 (caps_mA caps ! i) else ''-'')) \<le> 9"
    if "i \<in> set [0..<6]" for i
    using label_length [of i] EMIT_U16_length [of "caps_mA caps ! i"] that by simp
  then have "length (concat (map (\<lambda>i. '' '' @ HLBL ! i @ ''=''
        @ (if detected_mask caps AND push_bit i 1 \<noteq> 0 then EMIT_U16 (caps_mA caps ! i) else ''-'')) [0..<6])) \<le> 9 * length [0..<6]"
    by (rule concat_bound)
  then show "length (caps_line caps pick) < 96"
    using EMIT_U16_length [of "husb238_sel_to_mV pick"] by (simp add: caps_line_def del: upt.simps)
  show "length (digits_lsb v) \<le> 5" by (rule digits_le_5)
  show "case pd_evt_text e of None \<Rightarrow> True | Some s \<Rightarrow> length s < 32"
    by (simp add: pd_evt_text_def Let_def)
qed

end
