(* ===== verification/Ch32_Main.thy ===== *)
theory Ch32_Main
  imports Ch32_Diag Ch32_Events
begin

text \<open>
  The main program of the power controller (\<open>main.c\<close>): command dispatch and the receive ring, the
  telemetry frame, the power cycle, the periodic blocks of the endless loop, and the millisecond
  interrupt with the analog inputs. One iteration of the loop is \<open>main_iteration\<close>. The drivers
  share one I2C bus, whose line operations are the trace inside the converter state. What the
  hardware supplies is the record \<open>board\<close>; the readings of one iteration (CC levels, ring content
  and write position, millisecond counter at each use) are the record \<open>inputs\<close>.
\<close>

datatype powercycle_state = POWERCYCLE_IDLE | POWERCYCLE_OFF_WAIT

definition POWERCYCLE_OFF_MS :: u16 where [simp]: "POWERCYCLE_OFF_MS = 1500"
definition JSON_INTERVAL_MS :: u16 where [simp]: "JSON_INTERVAL_MS = 1000"
definition TEMP_INTERVAL_MS :: u16 where [simp]: "TEMP_INTERVAL_MS = 5000"
definition CHG_INTERVAL_MS :: u16 where [simp]: "CHG_INTERVAL_MS = 2000"
definition TPS_INTERVAL_MS :: u16 where [simp]: "TPS_INTERVAL_MS = 2000"
definition BAT_INTERVAL_MS :: u16 where [simp]: "BAT_INTERVAL_MS = 500"
definition DIAG_LOG_INTERVAL_MS :: u16 where [simp]: "DIAG_LOG_INTERVAL_MS = 5000"
definition DMA_RX_BUF_SIZE :: nat where [simp]: "DMA_RX_BUF_SIZE = 256"
definition ADC_VAL_INVALID :: u16 where [simp]: "ADC_VAL_INVALID = 0xFFFF"

record board =
  b_tc :: "nat \<Rightarrow> nat \<Rightarrow> bool"
  b_pd :: pd_env
  b_pin :: sda_pin

record inputs =
  i_cc :: cc_levels
  i_ring :: bytes
  i_head :: nat
  i_ore :: bool
  i_now :: "nat \<Rightarrow> u8"

record main_state =
  pd :: pd_state
  uart :: usart2
  Wups_Rx :: wups_rx
  bat :: bat_state
  husb :: husb_state
  Chg_Data :: mp2762a_data_t
  evs :: evt
  DC_INP_EN_SRC :: bool
  LED :: bool
  Tim_Ms_Cnt :: u8
  Tmr_Ms_Cnt_Last :: u8
  Tmr_Ms_Dlt :: u8
  pd_last_ms :: u8
  Led_Cnt :: u8
  Uptime_Sec :: u32
  Ms_Sub_Cnt :: u16
  Adc_RR_Cnt :: u16
  DC_Inp_ADC_Val :: u16
  Vbat_ADC_Val :: u16
  Vbus_Out_ADC_Val :: u16
  DC_Inp_Voltage_mV :: u16
  Vbat_Voltage_mV :: u16
  Vbus_Out_Voltage_mV :: u16
  Json_Timer_Ms :: u16
  Temp_Timer_Ms :: u16
  Chg_Timer_Ms :: u16
  Tps_Timer_Ms :: u16
  Bat_Timer_Ms :: u16
  Diag_Log_Timer_Ms :: u16
  Pd_Evt_Timer_Ms :: u16
  Board_Temp_c10 :: int
  Diag_Toggle :: bool
  Powercycle_State :: powercycle_state
  Powercycle_Timer_Ms :: u16
  evt_rd :: u8
  Uart_Rx_Total :: u32
  Uart_Ore_Count :: u32
  Cmd_Frames_Dispatched :: u32
  iwdg_kicks :: nat
  reset_requested :: bool

definition bus_tr :: "main_state \<Rightarrow> trace" where
  "bus_tr s = tps_line (rail (pd s))"

definition set_bus :: "trace \<Rightarrow> main_state \<Rightarrow> main_state" where
  "set_bus tr s = s\<lparr>pd := (pd s)\<lparr>rail := (rail (pd s))\<lparr>tps_line := tr\<rparr>\<rparr>\<rparr>"

section \<open>Telemetry\<close>

definition pd_out_contract :: "u8 \<Rightarrow> u16 \<times> u16" where
  "pd_out_contract idx =
     (if idx = 1 then (5000, 5000) else if idx = 2 then (9000, 3000)
      else if idx = 3 then (12000, 2250) else if idx = 4 then (15000, 1800) else (0, 0))"

definition status_flags :: "main_state \<Rightarrow> u8" where
  "status_flags s =
     (if DC_INP_EN_SRC s then WUPS_PWR2_FLAG_DC_IN_EN else 0)
     OR (if VBUS_OUT_EN (pd s) then WUPS_PWR2_FLAG_VBUS_OUT_EN else 0)
     OR (if mp2762a_is_battery_present (bat s) then WUPS_PWR2_FLAG_BATT_PRESENT else 0)
     OR (if power_good (Chg_Data s) then WUPS_PWR2_FLAG_POWER_GOOD else 0)
     OR (if attached (Husb_Data (husb s)) then WUPS_PWR2_FLAG_USB_C_ATTACH else 0)"

definition power_status :: "main_state \<Rightarrow> wups_power_status_v2" where
  "power_status s =
     \<lparr>p2_version = 2, p2_flags = status_flags s, p2_charge_state = chg_state_code (chg_state (Chg_Data s)),
      p2_reserved = 0, p2_vbus_in_mV = DC_Inp_Voltage_mV s, p2_pd_in_mV = voltage_mV (Husb_Data (husb s)),
      p2_pd_in_mA = current_mA (Husb_Data (husb s)), p2_vbus_out_mV = Vbus_Out_Voltage_mV s,
      p2_vout_set_mV = word_of_int (tps55289_get_voltage_set_v10 (tps_set (rail (pd s))) * 100),
      p2_vout_read_mV = word_of_int (Tps_Vread_v10 (rail (pd s)) * 100),
      p2_iout_limit_mA = word_of_int (Tps_Iread_a10 (rail (pd s)) * 100),
      p2_pd_out_mV = fst (pd_out_contract (ReqPDO_Idx (pd s))),
      p2_pd_out_mA = snd (pd_out_contract (ReqPDO_Idx (pd s))),
      p2_vbat_mV = Vbat_Voltage_mV s, p2_ichg_mA = ichg_ma (Chg_Data s), p2_vsys_mV = vsys_mv (Chg_Data s),
      p2_iin_mA = iin_ma (Chg_Data s), p2_temp_lm_dC = word_of_int (Board_Temp_c10 s),
      p2_temp_mp_dC = word_of_int (tjunc_c10 (Chg_Data s)),
      p2_faults = pack_faults (fault (Chg_Data s)) (Tps_Status_Latched (rail (pd s))),
      p2_uptime_s = Uptime_Sec s\<rparr>"

definition clear_status_latch :: "main_state \<Rightarrow> main_state" where
  "clear_status_latch s = s\<lparr>pd := (pd s)\<lparr>rail := (rail (pd s))\<lparr>Tps_Status_Latched := 0\<rparr>\<rparr>\<rparr>"

definition wups_send_power_status :: "board \<Rightarrow> u8 \<Rightarrow> u8 \<Rightarrow> u8 \<Rightarrow> main_state \<Rightarrow> main_state" where
  "wups_send_power_status b dst flags seq s =
     (let payload = status_v2_bytes (power_status s);
          s = clear_status_latch s in
      s\<lparr>uart := wups_send_frame (b_tc b) dst WUPS_CLASS_POWER WUPS_OP_PWR_STATUS flags seq payload (uart s)\<rparr>)"

section \<open>Commands\<close>

definition sys_pong :: "u32 \<Rightarrow> bytes" where
  "sys_pong uptime_s = [1, 0] @ le16 FW_VERSION_U16 @ le32 (uptime_s * 1000) @ ascii FW_VERSION_STR"

definition wups_handle_frame :: "board \<Rightarrow> wups_frame \<Rightarrow> main_state \<Rightarrow> main_state" where
  "wups_handle_frame b f s =
     (if f_dst f \<noteq> WUPS_ADDR_CH32X \<and> f_dst f \<noteq> WUPS_ADDR_BROADCAST \<and> f_dst f \<noteq> WUPS_ADDR_INTERNAL then s
      else if f_cls f = WUPS_CLASS_SYSTEM then
        if f_op f = WUPS_OP_SYS_PING \<and> f_flags f AND WUPS_FLAG_REQ \<noteq> 0 then
          s\<lparr>uart := wups_send_frame (b_tc b) (f_src f) WUPS_CLASS_SYSTEM WUPS_OP_SYS_PING WUPS_FLAG_RESP (f_seq f)
              (sys_pong (Uptime_Sec s)) (uart s)\<rparr>
        else if f_op f = WUPS_OP_SYS_STATUS_QUERY \<and> f_flags f AND WUPS_FLAG_REQ \<noteq> 0 then
          wups_send_power_status b (f_src f) WUPS_FLAG_RESP (f_seq f) s
        else s
      else if f_cls f = WUPS_CLASS_POWER \<and> f_flags f AND WUPS_FLAG_REQ \<noteq> 0 then
        if f_op f = WUPS_OP_PWR_ENABLE then s\<lparr>pd := Power_Output_Restart (pd s)\<rparr>
        else if f_op f = WUPS_OP_PWR_DISABLE then s\<lparr>pd := VBUS_disable (pd s)\<rparr>
        else if f_op f = WUPS_OP_PWR_CYCLE then
          s\<lparr>pd := VBUS_disable (pd s), Powercycle_Timer_Ms := 0, Powercycle_State := POWERCYCLE_OFF_WAIT\<rparr>
        else if f_op f = WUPS_OP_PWR_RESET then s\<lparr>reset_requested := True\<rparr>
        else s
      else s)"

definition drain_byte :: "board \<Rightarrow> bytes \<Rightarrow> main_state \<Rightarrow> main_state" where
  "drain_byte b ring s =
     (let c = ring ! Dma_Rx_Tail (uart s);
          s = s\<lparr>uart := (uart s)\<lparr>Dma_Rx_Tail := (Dma_Rx_Tail (uart s) + 1) mod DMA_RX_BUF_SIZE\<rparr>,
                Uart_Rx_Total := Uart_Rx_Total s + 1\<rparr>;
          (rx, out) = wups_rx_byte c (Wups_Rx s);
          s = s\<lparr>Wups_Rx := rx\<rparr> in
      case out of
        None \<Rightarrow> s
      | Some f \<Rightarrow> wups_handle_frame b f (s\<lparr>Cmd_Frames_Dispatched := Cmd_Frames_Dispatched s + 1\<rparr>))"

text \<open>
  The write position is read once, before the loop; a re-initialisation of the serial port inside
  the loop moves the read position. \<open>None\<close> means that the loop does not end.
\<close>

partial_function (option) drain_loop :: "board \<Rightarrow> bytes \<Rightarrow> nat \<Rightarrow> main_state \<Rightarrow> main_state option" where
  [code]: "drain_loop b ring head s =
     (if Dma_Rx_Tail (uart s) = head then Some s
      else drain_loop b ring head (drain_byte b ring s))"

definition Cmd_Rx_Drain :: "board \<Rightarrow> inputs \<Rightarrow> main_state \<Rightarrow> main_state option" where
  "Cmd_Rx_Drain b i s =
     (let s = (if i_ore i then s\<lparr>Uart_Ore_Count := Uart_Ore_Count s + 1\<rparr> else s) in
      drain_loop b (i_ring i) (i_head i) s)"

section \<open>Blocks of the loop\<close>

definition timer_tick :: "main_state \<Rightarrow> u16 \<Rightarrow> u16" where
  "timer_tick s t = t + ucast (Tmr_Ms_Dlt s)"

definition loop_top :: "u8 \<Rightarrow> main_state \<Rightarrow> main_state" where
  "loop_top now s = s\<lparr>Tim_Ms_Cnt := now, Tmr_Ms_Dlt := now - Tmr_Ms_Cnt_Last s, Tmr_Ms_Cnt_Last := now\<rparr>"

definition powercycle_block :: "main_state \<Rightarrow> main_state" where
  "powercycle_block s =
     (if Powercycle_State s = POWERCYCLE_OFF_WAIT then
        let s = s\<lparr>Powercycle_Timer_Ms := timer_tick s (Powercycle_Timer_Ms s)\<rparr> in
        if Powercycle_Timer_Ms s \<ge> POWERCYCLE_OFF_MS
        then s\<lparr>pd := Power_Output_Restart (pd s), Powercycle_State := POWERCYCLE_IDLE\<rparr>
        else s
      else s)"

definition detect_block :: "inputs \<Rightarrow> main_state \<Rightarrow> main_state" where
  "detect_block i s =
     (let s = s\<lparr>pd := (pd s)\<lparr>Det_Timer := Det_Timer (pd s) + Tmr_Ms_Dlt s\<rparr>\<rparr> in
      if Det_Timer (pd s) > 4 then s\<lparr>pd := PD_Det_Proc (i_cc i) ((pd s)\<lparr>Det_Timer := 0\<rparr>)\<rparr> else s)"

definition PD_Service :: "board \<Rightarrow> u8 \<Rightarrow> main_state \<Rightarrow> main_state" where
  "PD_Service b now s =
     (let dlt = now - pd_last_ms s in
      s\<lparr>pd_last_ms := now, pd := PD_Main_Proc (b_pd b) dlt (pd s)\<rparr>)"

definition PD_Evt_Drain :: "board \<Rightarrow> main_state \<Rightarrow> main_state" where
  "PD_Evt_Drain b s =
     (if evt_rd s = PD_Evt_W (pd s) then s
      else if Pd_Evt_Timer_Ms s < 4 then s
      else
        let e = PD_Evt_Buf (pd s) ! unat (evt_rd s AND 0x0F);
            s = s\<lparr>Pd_Evt_Timer_Ms := 0, evt_rd := evt_rd s + 1\<rparr> in
        case pd_evt_text e of
          None \<Rightarrow> s
        | Some txt \<Rightarrow> s\<lparr>uart := wups_send_log (b_tc b) 2 txt (uart s)\<rparr>)"

definition trace_block :: "board \<Rightarrow> main_state \<Rightarrow> main_state" where
  "trace_block b s = PD_Evt_Drain b (s\<lparr>Pd_Evt_Timer_Ms := timer_tick s (Pd_Evt_Timer_Ms s)\<rparr>)"

definition temp_block :: "board \<Rightarrow> main_state \<Rightarrow> main_state" where
  "temp_block b s =
     (let s = s\<lparr>Temp_Timer_Ms := timer_tick s (Temp_Timer_Ms s)\<rparr> in
      if Temp_Timer_Ms s \<ge> TEMP_INTERVAL_MS then
        let (tr, t) = lm75b_read_temp_c (b_pin b) (bus_tr s) in
        (set_bus tr s)\<lparr>Temp_Timer_Ms := 0, Board_Temp_c10 := board_c10 t\<rparr>
      else s)"

definition converter_block :: "board \<Rightarrow> main_state \<Rightarrow> main_state" where
  "converter_block b s =
     (let s = s\<lparr>Tps_Timer_Ms := timer_tick s (Tps_Timer_Ms s)\<rparr> in
      if Tps_Timer_Ms s \<ge> TPS_INTERVAL_MS
      then s\<lparr>Tps_Timer_Ms := 0, pd := (pd s)\<lparr>rail := tps_block (b_pin b) (rail (pd s))\<rparr>\<rparr>
      else s)"

definition charger_block :: "board \<Rightarrow> main_state \<Rightarrow> main_state" where
  "charger_block b s =
     (let s = s\<lparr>Chg_Timer_Ms := timer_tick s (Chg_Timer_Ms s)\<rparr> in
      if Chg_Timer_Ms s \<ge> CHG_INTERVAL_MS then
        let (tr, data) = mp2762a_read_all (DC_INP_EN_SRC s) (b_pin b) (bus_tr s);
            tr = mp2762a_kick_watchdog tr;
            (tr, h) = husb_poll (b_pin b) tr (husb s) in
        (set_bus tr s)\<lparr>Chg_Timer_Ms := 0, Chg_Data := data, husb := h\<rparr>
      else s)"

definition battery_tick :: "board \<Rightarrow> main_state \<Rightarrow> main_state" where
  "battery_tick b s =
     (let s = s\<lparr>Bat_Timer_Ms := timer_tick s (Bat_Timer_Ms s)\<rparr> in
      if Bat_Timer_Ms s \<ge> BAT_INTERVAL_MS then
        let ((tr, g), flt) = battery_block (b_pin b) (Vbat_Voltage_mV s) (bus_tr s, bat s) (fault (Chg_Data s)) in
        (set_bus tr s)\<lparr>Bat_Timer_Ms := 0, bat := g, Chg_Data := (Chg_Data s)\<lparr>fault := flt\<rparr>\<rparr>
      else s)"

definition log_line :: "board \<Rightarrow> string \<Rightarrow> main_state \<Rightarrow> main_state" where
  "log_line b txt s = s\<lparr>uart := wups_send_log (b_tc b) 2 txt (uart s)\<rparr>"

definition diag_block :: "board \<Rightarrow> u8 \<Rightarrow> main_state \<Rightarrow> main_state" where
  "diag_block b now s =
     (let s = s\<lparr>Diag_Log_Timer_Ms := timer_tick s (Diag_Log_Timer_Ms s)\<rparr> in
      if Diag_Log_Timer_Ms s \<ge> DIAG_LOG_INTERVAL_MS then
        let s = s\<lparr>Diag_Log_Timer_Ms := 0, Diag_Toggle := \<not> Diag_Toggle s\<rparr>;
            s = (if \<not> Diag_Toggle s then
                   let (tr, regs) = read_regs_each (b_pin b) (bus_tr s) mp2762a_regs in
                   log_line b (mp_line regs (Board_Temp_c10 s) (tjunc_c10 (Chg_Data s))) (set_bus tr s)
                 else s);
            s = log_line b (husb_line (Husb_Data (husb s))) s;
            s = (if Diag_Toggle s then log_line b (caps_line (Husb_Caps (husb s)) (Husb_Pick_Sel (husb s))) s else s) in
        PD_Service b now s
      else s)"

definition adc_mV :: "u16 \<Rightarrow> u32 \<Rightarrow> u16" where
  "adc_mV adc scale = ucast ((ucast adc * scale) div 4096)"

definition readings_of :: "main_state \<Rightarrow> readings" where
  "readings_of s = \<lparr>r_dc_mV = DC_Inp_Voltage_mV s, r_vbat_mV = Vbat_Voltage_mV s,
     r_faults = pack_faults (fault (Chg_Data s)) (Tps_Status_Latched (rail (pd s))),
     r_cs = chg_state_code (chg_state (Chg_Data s)), r_uptime = Uptime_Sec s\<rparr>"

definition status_block :: "board \<Rightarrow> main_state \<Rightarrow> main_state" where
  "status_block b s =
     (let s = s\<lparr>Json_Timer_Ms := timer_tick s (Json_Timer_Ms s)\<rparr> in
      if Json_Timer_Ms s \<ge> JSON_INTERVAL_MS then
        let s = s\<lparr>Json_Timer_Ms := 0, iwdg_kicks := iwdg_kicks s + 1,
                  DC_Inp_Voltage_mV := adc_mV (DC_Inp_ADC_Val s) 21029,
                  Vbat_Voltage_mV := adc_mV (Vbat_ADC_Val s) 10322,
                  Vbus_Out_Voltage_mV := adc_mV (Vbus_Out_ADC_Val s) 21029\<rparr>;
            (e, u) = wups_power_event_tick (b_tc b) (readings_of s) (evs s, uart s);
            s = s\<lparr>evs := e, uart := u\<rparr>;
            seq = Wups_Tx_Seq (uart s);
            s = s\<lparr>uart := next_seq (uart s)\<rparr> in
        wups_send_power_status b WUPS_ADDR_RP2040 WUPS_FLAG_EVENT seq s
      else s)"

definition main_iteration :: "board \<Rightarrow> inputs \<Rightarrow> main_state \<Rightarrow> main_state option" where
  "main_iteration b i s =
     map_option (\<lambda>s.
       let s = powercycle_block s;
           s = detect_block i s;
           s = PD_Service b (i_now i 1) s;
           s = trace_block b s;
           s = temp_block b s;
           s = converter_block b s;
           s = PD_Service b (i_now i 2) s;
           s = charger_block b s;
           s = PD_Service b (i_now i 3) s;
           s = battery_tick b s;
           s = diag_block b (i_now i 4) s in
       status_block b s)
     (Cmd_Rx_Drain b i (loop_top (i_now i 0) s))"

section \<open>Millisecond interrupt\<close>

text \<open>\<open>eoc k\<close> is the end-of-conversion flag at poll \<open>k\<close>, \<open>val\<close> the conversion result.\<close>

definition Get_ADC_Val :: "(nat \<Rightarrow> bool) \<Rightarrow> u16 \<Rightarrow> u16" where
  "Get_ADC_Val eoc val = (if tc_wait eoc 200 0 then val else ADC_VAL_INVALID)"

definition adc_round :: "(u8 \<Rightarrow> (nat \<Rightarrow> bool) \<times> u16) \<Rightarrow> main_state \<Rightarrow> main_state" where
  "adc_round adc s =
     (let s = s\<lparr>Adc_RR_Cnt := Adc_RR_Cnt s + 1\<rparr> in
      if Adc_RR_Cnt s AND 0x1FF = 1 then
        let v = Get_ADC_Val (fst (adc 5)) (snd (adc 5)) in
        if v \<noteq> ADC_VAL_INVALID then s\<lparr>Vbat_ADC_Val := v\<rparr> else s
      else if Adc_RR_Cnt s AND 0x1FF = 257 then
        let v = Get_ADC_Val (fst (adc 0)) (snd (adc 0)) in
        if v \<noteq> ADC_VAL_INVALID then s\<lparr>Vbus_Out_ADC_Val := v\<rparr> else s
      else
        let v = Get_ADC_Val (fst (adc 1)) (snd (adc 1)) in
        if v \<noteq> ADC_VAL_INVALID then s\<lparr>DC_Inp_ADC_Val := v\<rparr> else s)"

definition input_switch :: "main_state \<Rightarrow> main_state" where
  "input_switch s =
     (if DC_Inp_ADC_Val s \<ge> 0x793 then s\<lparr>LED := (Led_Cnt s AND 0x40 \<noteq> 0), DC_INP_EN_SRC := True\<rparr>
      else if DC_Inp_ADC_Val s \<le> 0x6D1 then s\<lparr>DC_INP_EN_SRC := False, LED := (Led_Cnt s AND 0x80 \<noteq> 0)\<rparr>
      else s)"

definition TIM1_UP_IRQHandler :: "(u8 \<Rightarrow> (nat \<Rightarrow> bool) \<times> u16) \<Rightarrow> main_state \<Rightarrow> main_state" where
  "TIM1_UP_IRQHandler adc s =
     (let s = s\<lparr>Tim_Ms_Cnt := Tim_Ms_Cnt s + 1, Ms_Sub_Cnt := Ms_Sub_Cnt s + 1\<rparr>;
          s = (if Ms_Sub_Cnt s \<ge> 1000 then s\<lparr>Ms_Sub_Cnt := 0, Uptime_Sec := Uptime_Sec s + 1\<rparr> else s);
          s = s\<lparr>Led_Cnt := Led_Cnt s + 1\<rparr> in
      input_switch (adc_round adc s))"

text \<open>Start of the program: the drivers are set up, then the node announces itself.\<close>

definition main_setup :: "board \<Rightarrow> bool \<Rightarrow> bool \<Rightarrow> main_state \<Rightarrow> main_state" where
  "main_setup b iwdg_reset soft_reset s =
     (let s = s\<lparr>pd := PD_Init (pd s)\<rparr>;
          s = set_bus (bus_tr s @ I2C_init) s;
          s = set_bus (tps55289_init (b_pin b) (bus_tr s)) s;
          s = set_bus (mp2762a_init (b_pin b) (bus_tr s)) s;
          s = set_bus (husb238_init (b_pin b) (bus_tr s)) s;
          s = s\<lparr>uart := USART2_Init (uart s)\<rparr>;
          s = s\<lparr>uart := wups_send_hello_bcast (b_tc b) (uart s)\<rparr> in
      if iwdg_reset then
        s\<lparr>uart := wups_send_log (b_tc b) 1 ''boot: IWDG watchdog reset (main loop wedged before reboot)'' (uart s)\<rparr>
      else if soft_reset then
        s\<lparr>uart := wups_send_log (b_tc b) 2 ''boot: software reset (ups.reset)'' (uart s)\<rparr>
      else s)"

end
