(* ===== verification/Ch32_Loop.thy ===== *)
theory Ch32_Loop
  imports Ch32_Main Ch32_Source
begin

text \<open>
  Facts about the main program of the power controller: what the receive ring does for a healthy
  and for a mute transmitter, which commands reach the output rail, the power cycle, and the way
  of a telemetry frame from the controller to the decoder of the network processor.
\<close>

section \<open>Draining the ring\<close>

definition ring_bytes :: "bytes \<Rightarrow> nat \<Rightarrow> nat \<Rightarrow> bytes" where
  "ring_bytes ring tail n = map (\<lambda>k. ring ! ((tail + k) mod 256)) [0..<n]"

definition pending :: "nat \<Rightarrow> nat \<Rightarrow> nat" where
  "pending tail head = (head + 256 - tail) mod 256"

text \<open>What a command frame does to the port and the power cycle.\<close>

definition for_this_node :: "wups_frame \<Rightarrow> bool" where
  "for_this_node f \<longleftrightarrow> f_dst f = WUPS_ADDR_CH32X \<or> f_dst f = WUPS_ADDR_BROADCAST \<or> f_dst f = WUPS_ADDR_INTERNAL"

definition power_request :: "u8 \<Rightarrow> wups_frame \<Rightarrow> bool" where
  "power_request op f \<longleftrightarrow> for_this_node f \<and> f_cls f = WUPS_CLASS_POWER \<and> f_flags f AND WUPS_FLAG_REQ \<noteq> 0 \<and> f_op f = op"

definition is_query :: "wups_frame \<Rightarrow> bool" where
  "is_query f \<longleftrightarrow> for_this_node f \<and> f_cls f = WUPS_CLASS_SYSTEM \<and> f_op f = WUPS_OP_SYS_STATUS_QUERY \<and> f_flags f AND WUPS_FLAG_REQ \<noteq> 0"

definition command :: "wups_frame \<Rightarrow> pd_state \<Rightarrow> pd_state" where
  "command f p =
     (if power_request WUPS_OP_PWR_ENABLE f then Power_Output_Restart p
      else if power_request WUPS_OP_PWR_DISABLE f \<or> power_request WUPS_OP_PWR_CYCLE f then VBUS_disable p
      else if is_query f then p\<lparr>rail := (rail p)\<lparr>Tps_Status_Latched := 0\<rparr>\<rparr>
      else p)"

lemma send_bytes_tail:
  assumes "healthy tc"
  shows "Dma_Rx_Tail (Usart2_Send_Bytes tc buf u) = Dma_Rx_Tail u"
  by (induction buf arbitrary: u) (simp_all add: Let_def healthy_wait [OF assms])

lemma send_frame_tail:
  assumes "healthy tc"
  shows "Dma_Rx_Tail (wups_send_frame tc dst cls op flags seq p u) = Dma_Rx_Tail u"
  by (simp add: wups_send_frame_def Let_def split_beta send_bytes_tail [OF assms] del: Usart2_Send_Bytes.simps)

lemma handle_facts:
  assumes "healthy (b_tc b)"
  shows "Dma_Rx_Tail (uart (wups_handle_frame b f s)) = Dma_Rx_Tail (uart s)"
    "Wups_Rx (wups_handle_frame b f s) = Wups_Rx s"
    "Cmd_Frames_Dispatched (wups_handle_frame b f s) = Cmd_Frames_Dispatched s"
    "pd (wups_handle_frame b f s) = command f (pd s)"
  by (simp_all add: wups_handle_frame_def command_def power_request_def is_query_def for_this_node_def
      wups_send_power_status_def clear_status_latch_def send_frame_tail [OF assms] Let_def)

lemma drain_byte_facts:
  assumes "healthy (b_tc b)" and "wups_rx_byte (ring ! Dma_Rx_Tail (uart s)) (Wups_Rx s) = (rx, out)"
  shows "Dma_Rx_Tail (uart (drain_byte b ring s)) = (Dma_Rx_Tail (uart s) + 1) mod 256"
    "Wups_Rx (drain_byte b ring s) = rx"
    "Cmd_Frames_Dispatched (drain_byte b ring s) = Cmd_Frames_Dispatched s + (case out of None \<Rightarrow> 0 | Some f \<Rightarrow> 1)"
    "pd (drain_byte b ring s) = (case out of None \<Rightarrow> pd s | Some f \<Rightarrow> command f (pd s))"
  using assms by (simp_all add: drain_byte_def Let_def handle_facts split: option.split)

lemma pending_alt:
  assumes "t < 256" "h < 256"
  shows "pending t h = (if t \<le> h then h - t else h + 256 - t)"
proof (cases "t \<le> h")
  case True
  then have "h + 256 - t = (h - t) + 256" by simp
  then show ?thesis using True assms by (simp only: pending_def mod_add_self2) simp
qed (use assms in \<open>simp add: pending_def\<close>)

lemma pending_next:
  assumes "t < 256" "h < 256" "t \<noteq> h"
  shows "pending t h = Suc (pending ((t + 1) mod 256) h)"
proof (cases "t = 255")
  case False
  then show ?thesis using assms by (simp add: pending_alt) arith
qed (use assms in \<open>simp add: pending_alt\<close>)

lemma ring_bytes_Suc:
  "t < 256 \<Longrightarrow> ring_bytes ring t (Suc n) = ring ! t # ring_bytes ring ((t + 1) mod 256) n"
  by (rule nth_equalityI) (auto simp: ring_bytes_def nth_Cons mod_simps simp del: upt_Suc split: nat.split)

lemma drain_run:
  assumes "healthy (b_tc b)" and "Dma_Rx_Tail (uart s) < 256" and "head < 256"
    and "n = pending (Dma_Rx_Tail (uart s)) head"
    and "(rx, frames) = deframe ch32_step (Wups_Rx s) (ring_bytes ring (Dma_Rx_Tail (uart s)) n)"
  shows "\<exists>s'. drain_loop b ring head s = Some s' \<and> Dma_Rx_Tail (uart s') = head \<and> Wups_Rx s' = rx
    \<and> Cmd_Frames_Dispatched s' = Cmd_Frames_Dispatched s + of_nat (length frames)
    \<and> pd s' = foldl (\<lambda>p f. command f p) (pd s) frames"
  using assms(2-5)
proof (induction n arbitrary: s rx frames)
  case 0
  then have "Dma_Rx_Tail (uart s) = head" by (simp add: pending_alt split: if_splits)
  with 0 show ?case by (subst drain_loop.simps) (simp add: ring_bytes_def)
next
  case (Suc n)
  let ?t = "Dma_Rx_Tail (uart s)"
  have ne: "?t \<noteq> head" using Suc.prems(2,3) by (auto simp: pending_def)
  obtain rx1 out where o: "wups_rx_byte (ring ! ?t) (Wups_Rx s) = (rx1, out)" by (metis surj_pair)
  then have o': "ch32_step (Wups_Rx s) (ring ! ?t) = (rx1, out)" by (simp add: ch32_step_def)
  note d = drain_byte_facts [OF assms(1) o]
  have n: "n = pending ((?t + 1) mod 256) head"
    using Suc.prems(3) pending_next [OF Suc.prems(1,2) ne] by simp
  note bytes = ring_bytes_Suc [OF Suc.prems(1)]
  obtain fs where fs: "deframe ch32_step rx1 (ring_bytes ring ((?t + 1) mod 256) n) = (rx, fs)"
      "frames = (case out of None \<Rightarrow> fs | Some f \<Rightarrow> f # fs)"
    using Suc.prems(4) by (auto simp: bytes o' split: prod.splits option.splits)
  have "\<exists>s'. drain_loop b ring head (drain_byte b ring s) = Some s' \<and> Dma_Rx_Tail (uart s') = head \<and> Wups_Rx s' = rx
      \<and> Cmd_Frames_Dispatched s' = Cmd_Frames_Dispatched (drain_byte b ring s) + of_nat (length fs)
      \<and> pd s' = foldl (\<lambda>p f. command f p) (pd (drain_byte b ring s)) fs"
    using Suc.prems(2) n fs(1) by (intro Suc.IH) (simp_all add: d)
  then show ?case
    using ne by (subst drain_loop.simps) (auto simp: d fs(2) split: option.splits)
qed


section \<open>A ring that is never drained\<close>

definition is_ping :: "wups_frame \<Rightarrow> bool" where
  "is_ping f \<longleftrightarrow> for_this_node f \<and> f_cls f = WUPS_CLASS_SYSTEM \<and> f_op f = WUPS_OP_SYS_PING
     \<and> f_flags f AND WUPS_FLAG_REQ \<noteq> 0 \<and> frame_fits f"

definition hunting :: "wups_rx \<Rightarrow> bool" where
  "hunting r \<longleftrightarrow> rx_ok (wx_core r) \<and> rx_view (wx_core r) = []"

lemma drain_iterate:
  assumes "\<And>m. m \<le> n \<Longrightarrow> snd (deframe ch32_step (Wups_Rx s) (map (\<lambda>k. ring ! (t + k)) [0..<m])) = []"
    and "Dma_Rx_Tail (uart s) = t" and "t + n < 256"
  shows "let s' = (drain_byte b ring ^^ n) s in Dma_Rx_Tail (uart s') = t + n
    \<and> uart s' = (uart s)\<lparr>Dma_Rx_Tail := t + n\<rparr>
    \<and> Wups_Rx s' = fst (deframe ch32_step (Wups_Rx s) (map (\<lambda>k. ring ! (t + k)) [0..<n]))"
  using assms
proof (induction n)
  case 0
  then show ?case by simp
next
  case (Suc n)
  let ?s = "(drain_byte b ring ^^ n) s" and ?bs = "map (\<lambda>k. ring ! (t + k)) [0..<n]"
  have IH: "Dma_Rx_Tail (uart ?s) = t + n" "uart ?s = (uart s)\<lparr>Dma_Rx_Tail := t + n\<rparr>"
      "Wups_Rx ?s = fst (deframe ch32_step (Wups_Rx s) ?bs)"
    using Suc.IH Suc.prems by (simp_all add: Let_def)
  obtain rx out where o: "wups_rx_byte (ring ! (t + n)) (Wups_Rx ?s) = (rx, out)" by (metis surj_pair)
  have "snd (deframe ch32_step (Wups_Rx s) (?bs @ [ring ! (t + n)])) = []"
    using Suc.prems(1) [of "Suc n"] by simp
  then have "out = None"
    using o IH(3) by (simp add: snd_deframe_append ch32_step_def split: option.splits)
  then have d: "drain_byte b ring ?s = ?s\<lparr>uart := (uart ?s)\<lparr>Dma_Rx_Tail := t + n + 1\<rparr>,
      Uart_Rx_Total := Uart_Rx_Total ?s + 1, Wups_Rx := rx\<rparr>"
    using o Suc.prems(3) by (simp add: drain_byte_def IH(1) Let_def)
  have "fst (deframe ch32_step (Wups_Rx s) (?bs @ [ring ! (t + n)])) = rx"
    using o IH(3) by (simp add: deframe_append split_beta ch32_step_def)
  then show ?case using IH(2) by (simp add: d Let_def)
qed

lemma ping_prefix_silent:
  assumes "hunting r" and "frame_fits f" and "m < length (encode f)"
  shows "snd (deframe ch32_step r (take m (encode f))) = []"
proof -
  have "deframe spec_step [] (take m (encode f)) = ([] @ take m (encode f), [])"
  proof (rule deframe_extend)
    show "prefix_ok ([] @ take m (encode f))" using prefix_ok_take [OF prefix_ok_encode(1) [OF assms(2)]] by simp
    show "\<not> complete ([] @ take n (take m (encode f)))" if "n \<le> length (take m (encode f))" for n
      using that assms(3) not_complete_proper [OF assms(2), of "min n m"] by (simp add: min.commute)
  qed simp
  then show ?thesis
    using ch32.deframe_spec [of r "take m (encode f)"] assms(1) by (simp add: hunting_def del: rx_view.simps)
qed

definition at_ring :: "bytes \<Rightarrow> nat \<Rightarrow> bytes \<Rightarrow> bool" where
  "at_ring ring t bs \<longleftrightarrow> t + length bs < 256 \<and> (\<forall>k<length bs. ring ! (t + k) = bs ! k)"

lemma at_ring_take: "at_ring ring t bs \<Longrightarrow> m \<le> length bs \<Longrightarrow> map (\<lambda>k. ring ! (t + k)) [0..<m] = take m bs"
  by (rule nth_equalityI) (auto simp: at_ring_def)

lemma at_ring_append:
  "at_ring ring t (xs @ ys) \<Longrightarrow> at_ring ring t xs \<and> at_ring ring (t + length xs) ys"
  by (auto simp: at_ring_def nth_append) (metis add.assoc add_diff_cancel_left' add_less_cancel_left not_add_less1)

lemma expire_tail:
  assumes "Usart2_Tc_Timeouts u < 8"
  shows "Dma_Rx_Tail (expire_once u) = (if tally (expire_once u) mod 8 = 0 then 0 else Dma_Rx_Tail u)"
proof -
  have s: "unat (Usart2_Tc_Timeouts u + 1) = Suc (unat (Usart2_Tc_Timeouts u))"
    using assms by (intro unat_inc) auto
  have b: "unat (Usart2_Tc_Timeouts u) < 8" using assms by (simp add: word_less_nat_alt)
  show ?thesis
    using s b by (auto simp: expire_once_def Let_def mute_wait tally_def USART2_Init_def word_le_nat_alt not_le)
qed

lemma expire_tail_many:
  assumes "Usart2_Tc_Timeouts u < 8"
  shows "Dma_Rx_Tail ((expire_once ^^ n) u) =
    (if tally u div 8 < (n + tally u) div 8 then 0 else Dma_Rx_Tail u)"
proof (induction n)
  case (Suc n)
  note m = expire_many [OF assms, of n]
  have "tally (expire_once ((expire_once ^^ n) u)) = Suc (n + tally u)" using m by (simp add: expire_tally)
  moreover have "Suc k div 8 = (if Suc k mod 8 = 0 then Suc (k div 8) else k div 8)" for k :: nat
    by (rule div_Suc)
  ultimately show ?case
    using expire_tail [of "(expire_once ^^ n) u"] m Suc.IH by (simp add: Let_def)
      (metis div_le_mono le_add2 less_Suc_eq_le linorder_not_less)
qed simp

text \<open>Draining one ping frame while the transmitter is mute.\<close>

lemma drain_ping:
  assumes "b_tc b = mute" and "is_ping f" and "hunting (Wups_Rx s)" and "Dma_Rx_Tail (uart s) = t"
    and "at_ring ring t (encode f)" and "Usart2_Tc_Timeouts (uart s) < 8"
    and "s' = (drain_byte b ring ^^ length (encode f)) s"
  shows "hunting (Wups_Rx s') \<and> Usart2_Tc_Timeouts (uart s') < 8
    \<and> tally (uart s') = tally (uart s) + 3
    \<and> Dma_Rx_Tail (uart s') = (if tally (uart s) div 8 < (3 + tally (uart s)) div 8 then 0 else t + length (encode f))
    \<and> (\<forall>m<length (encode f). Dma_Rx_Tail (uart ((drain_byte b ring ^^ m) s)) = t + m)"
proof -
  let ?e = "encode f"
  have fits: "frame_fits f" using assms(2) by (simp add: is_ping_def)
  obtain bs c where e: "?e = bs @ [c]" using encode_length [of f] by (cases "?e" rule: rev_cases) auto
  have len: "t + length ?e < 256" using assms(5) by (simp add: at_ring_def)
  have it: "let s' = (drain_byte b ring ^^ m) s in Dma_Rx_Tail (uart s') = t + m
      \<and> uart s' = (uart s)\<lparr>Dma_Rx_Tail := t + m\<rparr>
      \<and> Wups_Rx s' = fst (deframe ch32_step (Wups_Rx s) (map (\<lambda>k. ring ! (t + k)) [0..<m]))"
    if "m < length ?e" for m
    using that len at_ring_take [OF assms(5)] ping_prefix_silent [OF assms(3) fits] assms(4)
    by (intro drain_iterate) simp_all
  let ?s = "(drain_byte b ring ^^ length bs) s"
  have bs: "Dma_Rx_Tail (uart ?s) = t + length bs" "uart ?s = (uart s)\<lparr>Dma_Rx_Tail := t + length bs\<rparr>"
      "Wups_Rx ?s = fst (deframe ch32_step (Wups_Rx s) bs)" "ring ! (t + length bs) = c"
    using it [of "length bs"] at_ring_take [OF assms(5), of "length bs"] assms(5)
    by (simp_all add: e Let_def at_ring_def)
  have r: "snd (deframe ch32_step (Wups_Rx s) ?e) = [f]" "hunting (fst (deframe ch32_step (Wups_Rx s) ?e))"
    using ch32.round_trip [of "Wups_Rx s" f] ch32.ok_deframe [of "Wups_Rx s" ?e] assms(3) fits
    by (simp_all add: hunting_def del: rx_view.simps)
  obtain rx out where o: "wups_rx_byte c (Wups_Rx ?s) = (rx, out)" by (metis surj_pair)
  have quiet: "snd (deframe ch32_step (Wups_Rx s) bs) = []"
    using ping_prefix_silent [OF assms(3) fits, of "length bs"] by (simp add: e)
  have out: "out = Some f" "hunting rx"
    using r o quiet bs(3) by (simp_all add: e snd_deframe_append deframe_append split_beta ch32_step_def split: option.splits)
  let ?u = "(uart s)\<lparr>Dma_Rx_Tail := t + length ?e\<rparr>"
  have s': "s' = drain_byte b ring ?s" using assms(7) by (simp add: e)
  have pong: "sys_pong x \<noteq> []" for x by (simp add: sys_pong_def)
  have u: "uart s' = (expire_once ^^ 3) ?u" and rx: "Wups_Rx s' = rx"
    using assms(1,2) bs o len out(1) unfolding s'
    by (auto simp: drain_byte_def Let_def wups_handle_frame_def is_ping_def for_this_node_def e mute_frame pong)
  have t8: "Usart2_Tc_Timeouts ?u < 8" "tally ?u = tally (uart s)" using assms(6) by (simp_all add: tally_def)
  show ?thesis
    using expire_many [OF t8(1), of 3] expire_tail_many [OF t8(1), of 3] out(2) it
    by (simp add: u rx t8(2) Let_def)
qed

lemma drain_guard:
  assumes "hunting (Wups_Rx s)" and "Dma_Rx_Tail (uart s) = t" and "at_ring ring t [WUPS_GUARD_BYTE]"
  shows "hunting (Wups_Rx (drain_byte b ring s)) \<and> uart (drain_byte b ring s) = (uart s)\<lparr>Dma_Rx_Tail := t + 1\<rparr>"
proof -
  have "ring ! t = 0" "t + 1 < 256" using assms(3) by (auto simp: at_ring_def)
  then show ?thesis
    using ch32.guard_ignored [of "Wups_Rx s"] assms(1,2)
    by (simp add: hunting_def drain_byte_def Let_def split_beta ch32_step_def del: rx_view.simps)
qed

text \<open>The loop gets from one state to another, in at least one step, without meeting its end.\<close>

definition reaches :: "board \<Rightarrow> bytes \<Rightarrow> nat \<Rightarrow> main_state \<Rightarrow> main_state \<Rightarrow> bool" where
  "reaches b ring h s s' \<longleftrightarrow> (\<exists>n>0. s' = (drain_byte b ring ^^ n) s
     \<and> (\<forall>m<n. Dma_Rx_Tail (uart ((drain_byte b ring ^^ m) s)) \<noteq> h))"

lemma reaches_trans:
  assumes "reaches b ring h s s'" and "reaches b ring h s' s''"
  shows "reaches b ring h s s''"
proof -
  obtain n where n: "n > 0" "s' = (drain_byte b ring ^^ n) s"
      "\<And>m. m < n \<Longrightarrow> Dma_Rx_Tail (uart ((drain_byte b ring ^^ m) s)) \<noteq> h"
    using assms(1) by (auto simp: reaches_def)
  obtain k where k: "s'' = (drain_byte b ring ^^ k) s'"
      "\<And>m. m < k \<Longrightarrow> Dma_Rx_Tail (uart ((drain_byte b ring ^^ m) s')) \<noteq> h"
    using assms(2) by (auto simp: reaches_def)
  have "Dma_Rx_Tail (uart ((drain_byte b ring ^^ m) s)) \<noteq> h" if "m < n + k" for m
  proof (cases "m < n")
    case False
    then have "(drain_byte b ring ^^ m) s = (drain_byte b ring ^^ (m - n)) s'"
      by (simp add: n(2) funpow_add [symmetric, THEN fun_cong, unfolded comp_def])
    then show ?thesis using k(2) [of "m - n"] that False by simp
  qed (rule n(3))
  moreover have "s'' = (drain_byte b ring ^^ (n + k)) s"
    using k(1) n(2) by (metis add.commute comp_apply funpow_add)
  ultimately show ?thesis using n(1) by (auto simp: reaches_def intro!: exI [of _ "n + k"])
qed

lemma drain_never_ends:
  assumes "I s" and "\<And>s. I s \<Longrightarrow> \<exists>s'. reaches b ring h s s' \<and> I s'"
  shows "drain_loop b ring h s = None"
proof -
  define J where "J s = (I s \<or> (\<exists>s'. reaches b ring h s s' \<and> I s'))" for s
  have J: "Dma_Rx_Tail (uart s) \<noteq> h \<and> J (drain_byte b ring s)" if Js: "J s" for s
  proof -
    obtain s' n where n: "n > 0" "s' = (drain_byte b ring ^^ n) s" "I s'"
        "\<And>m. m < n \<Longrightarrow> Dma_Rx_Tail (uart ((drain_byte b ring ^^ m) s)) \<noteq> h"
      using Js assms(2) unfolding J_def reaches_def by metis
    obtain k where k: "n = Suc k" using n(1) by (cases n) auto
    have "J (drain_byte b ring s)"
    proof (cases k)
      case (Suc j)
      have shift: "(drain_byte b ring ^^ m) (drain_byte b ring s) = (drain_byte b ring ^^ Suc m) s" for m
        by (simp only: funpow_Suc_right comp_apply)
      have "reaches b ring h (drain_byte b ring s) s'"
        unfolding reaches_def shift using n(2) n(4) k Suc by (intro exI [of _ k]) blast
      then show ?thesis using n(3) by (auto simp: J_def)
    qed (use n(2,3) k in \<open>simp add: J_def\<close>)
    then show ?thesis using n(4) [of 0] n(1) by simp
  qed
  have "b' = b \<longrightarrow> r' = ring \<longrightarrow> h' = h \<longrightarrow> \<not> J s" if "drain_loop b' r' h' s = Some y" for b' r' h' s y
    using _ that
  proof (rule drain_loop.raw_induct [where P = "\<lambda>b' r' h' s y. b' = b \<longrightarrow> r' = ring \<longrightarrow> h' = h \<longrightarrow> \<not> J s"])
    fix dl b' r' h' s y
    assume "\<And>b' r' h' s y. dl b' r' h' s = Some y \<Longrightarrow> b' = b \<longrightarrow> r' = ring \<longrightarrow> h' = h \<longrightarrow> \<not> J s"
      and "(if Dma_Rx_Tail (uart s) = h' then Some s else dl b' r' h' (drain_byte b' r' s)) = Some y"
    then show "b' = b \<longrightarrow> r' = ring \<longrightarrow> h' = h \<longrightarrow> \<not> J s"
      using J [of s] by (auto split: if_splits)
  qed
  then show ?thesis using assms(1) by (cases "drain_loop b ring h s") (auto simp: J_def)
qed

definition at_start :: "main_state \<Rightarrow> bool" where
  "at_start s \<longleftrightarrow> Dma_Rx_Tail (uart s) = 0 \<and> hunting (Wups_Rx s) \<and> Usart2_Tc_Timeouts (uart s) < 8"

lemma ping_round:
  assumes "b_tc b = mute" and "is_ping f" and "hunting (Wups_Rx s)" and "Dma_Rx_Tail (uart s) = t"
    and "at_ring ring t (encode f @ [WUPS_GUARD_BYTE])" and "Usart2_Tc_Timeouts (uart s) < 8"
    and "t + length (encode f) < h"
  shows "\<exists>s'. reaches b ring h s s' \<and> (at_start s'
    \<or> Dma_Rx_Tail (uart s') = t + length (encode f) + 1 \<and> hunting (Wups_Rx s')
      \<and> Usart2_Tc_Timeouts (uart s') < 8 \<and> tally (uart s') = tally (uart s) + 3
      \<and> (3 + tally (uart s)) div 8 \<le> tally (uart s) div 8)"
proof -
  let ?L = "length (encode f)"
  have r: "at_ring ring t (encode f)" "at_ring ring (t + ?L) [WUPS_GUARD_BYTE]"
    using at_ring_append [OF assms(5)] by simp_all
  define s1 where "s1 = (drain_byte b ring ^^ ?L) s"
  note p = drain_ping [OF assms(1-4) r(1) assms(6) s1_def]
  have L: "0 < ?L" by (simp add: encode_length)
  have reach: "reaches b ring h s s1"
    using p assms(7) L unfolding reaches_def s1_def by (intro exI [of _ ?L]) auto
  show ?thesis
  proof (cases "tally (uart s) div 8 < (3 + tally (uart s)) div 8")
    case True
    then have "at_start s1" using p by (simp add: at_start_def)
    with reach show ?thesis by blast
  next
    case False
    then have t1: "Dma_Rx_Tail (uart s1) = t + ?L" using p by simp
    note g = drain_guard [of s1 "t + ?L" ring b, OF _ t1 r(2)]
    have "reaches b ring h s1 (drain_byte b ring s1)"
      using t1 assms(7) unfolding reaches_def by (intro exI [of _ 1]) simp
    with reach have "reaches b ring h s (drain_byte b ring s1)" by (rule reaches_trans)
    then show ?thesis using p g False
      by (intro exI [of _ "drain_byte b ring s1"]) (simp add: tally_def)
  qed
qed

lemma stream_parts:
  assumes "at_ring ring t (stream (f # fs))"
  shows "at_ring ring t (encode f @ [WUPS_GUARD_BYTE])" "at_ring ring (t + length (encode f) + 1) (stream fs)"
  using at_ring_append [of ring t "encode f @ [WUPS_GUARD_BYTE]" "stream fs"] assms by (simp_all add: stream_def)

lemma three_of_eight:
  assumes "(3 + x) div 8 \<le> x div 8" and "(3 + (x + 3)) div 8 \<le> (x + 3) div 8"
  shows "\<not> (3 + (x + 3 + 3)) div 8 \<le> (x + 3 + 3) div (8 :: nat)"
proof
  assume "(3 + (x + 3 + 3)) div 8 \<le> (x + 3 + 3) div 8"
  also have "(x + 3 + 3) div 8 = (3 + (x + 3)) div 8" by (simp add: add.commute)
  also have "\<dots> \<le> (x + 3) div 8" by (rule assms(2))
  also have "(x + 3) div 8 = (3 + x) div 8" by (simp add: add.commute)
  also have "\<dots> \<le> x div 8" by (rule assms(1))
  finally have "(3 + (x + 3 + 3)) div 8 < Suc (x div 8)" by simp
  then have "3 + (x + 3 + 3) < Suc (x div 8) * 8" by (subst (asm) div_less_iff_less_mult) simp_all
  moreover have "x div 8 * 8 \<le> x" by (rule div_times_less_eq_dividend)
  ultimately show False by simp
qed

lemma pings_cycle:
  assumes "b_tc b = mute" and "is_ping p1" "is_ping p2" "is_ping p3"
    and "at_ring ring 0 (stream [p1, p2, p3])" and "h = length (stream [p1, p2, p3])" and "at_start s"
  shows "\<exists>s'. reaches b ring h s s' \<and> at_start s'"
proof -
  note r1 = stream_parts [OF assms(5)]
  note r2 = stream_parts [OF r1(2)]
  note r3 = stream_parts [OF r2(2)]
  have h: "h = length (encode p1) + length (encode p2) + length (encode p3) + 3"
    by (simp add: assms(6) stream_def)
  have s: "hunting (Wups_Rx s)" "Dma_Rx_Tail (uart s) = 0" "Usart2_Tc_Timeouts (uart s) < 8"
    using assms(7) by (simp_all add: at_start_def)
  from ping_round [OF assms(1,2) s(1,2) r1(1) s(3), of h] h
  obtain s1 where 1: "reaches b ring h s s1" "at_start s1 \<or> Dma_Rx_Tail (uart s1) = 0 + length (encode p1) + 1
      \<and> hunting (Wups_Rx s1) \<and> Usart2_Tc_Timeouts (uart s1) < 8 \<and> tally (uart s1) = tally (uart s) + 3
      \<and> (3 + tally (uart s)) div 8 \<le> tally (uart s) div 8"
    by auto
  show ?thesis
  proof (cases "at_start s1")
    case False
    with 1(2) have s1: "hunting (Wups_Rx s1)" "Dma_Rx_Tail (uart s1) = 0 + length (encode p1) + 1"
        "Usart2_Tc_Timeouts (uart s1) < 8" "tally (uart s1) = tally (uart s) + 3"
        "(3 + tally (uart s)) div 8 \<le> tally (uart s) div 8" by simp_all
    from ping_round [OF assms(1,3) s1(1,2) r2(1) s1(3), of h] h
    obtain s2 where 2: "reaches b ring h s1 s2" "at_start s2
        \<or> Dma_Rx_Tail (uart s2) = 0 + length (encode p1) + 1 + length (encode p2) + 1
          \<and> hunting (Wups_Rx s2) \<and> Usart2_Tc_Timeouts (uart s2) < 8 \<and> tally (uart s2) = tally (uart s1) + 3
          \<and> (3 + tally (uart s1)) div 8 \<le> tally (uart s1) div 8"
      by auto
    note r12 = reaches_trans [OF 1(1) 2(1)]
    show ?thesis
    proof (cases "at_start s2")
      case False
      with 2(2) have s2: "hunting (Wups_Rx s2)" "Dma_Rx_Tail (uart s2) = 0 + length (encode p1) + 1 + length (encode p2) + 1"
          "Usart2_Tc_Timeouts (uart s2) < 8" "tally (uart s2) = tally (uart s1) + 3"
          "(3 + tally (uart s1)) div 8 \<le> tally (uart s1) div 8" by simp_all
      from ping_round [OF assms(1,4) s2(1,2) r3(1) s2(3), of h] h
      obtain s3 where 3: "reaches b ring h s2 s3" "at_start s3 \<or> (3 + tally (uart s2)) div 8 \<le> tally (uart s2) div 8"
        by auto
      have "\<not> (3 + tally (uart s2)) div 8 \<le> tally (uart s2) div 8"
        using s1(5) s2(5) unfolding s2(4) s1(4) by (rule three_of_eight)
      with 3 reaches_trans [OF r12 3(1)] show ?thesis by blast
    qed (use r12 in blast)
  qed (use 1 in blast)
qed

text \<open>
  C38. Draining the receive ring can fail to end: when the transmitter is mute and three ping requests
  lie at the start of the ring, answering them re-initialises the serial port, which moves the
  read position back to the start while the loop still runs to the write position read
  before; the same requests are then answered again, and again. (With a working transmitter
  the loop always ends, as the previous property shows.)
\<close>

theorem mute_ring_never_drained:
  assumes "b_tc b = mute" and "is_ping p1" "is_ping p2" "is_ping p3"
    and "at_ring (i_ring i) 0 (stream [p1, p2, p3])" and "i_head i = length (stream [p1, p2, p3])"
    and "Dma_Rx_Tail (uart s) = 0" and "hunting (Wups_Rx s)" and "Usart2_Tc_Timeouts (uart s) < 8"
  shows "Cmd_Rx_Drain b i s = None \<and> main_iteration b i s = None"
proof -
  have d: "drain_loop b (i_ring i) (i_head i) s = None"
    if "Dma_Rx_Tail (uart s) = 0" "hunting (Wups_Rx s)" "Usart2_Tc_Timeouts (uart s) < 8" for s
  proof (rule drain_never_ends [where I = at_start])
    show "at_start s" using that by (simp add: at_start_def)
  qed (rule pings_cycle [OF assms(1-6)])
  show ?thesis
    using assms(7-9) by (simp add: main_iteration_def Cmd_Rx_Drain_def loop_top_def d)
qed

section \<open>A concrete controller\<close>

definition tx_ready :: "nat \<Rightarrow> nat \<Rightarrow> bool" where
  "tx_ready n k = True"

lemma ready_healthy: "healthy tx_ready"
  by (simp add: healthy_def tx_ready_def TC_GUARD_def) (rule exI [of _ 0], simp)

definition idle_board :: "(nat \<Rightarrow> nat \<Rightarrow> bool) \<Rightarrow> board" where
  "idle_board tc = \<lparr>b_tc = tc, b_pd = no_answer, b_pin = bus_pin converter_bus\<rparr>"

definition rx_idle :: wups_rx where
  "rx_idle = \<lparr>wx_state = WUPS_RX_SYNC1, wx_dst = 0, wx_src = 0, wx_cls = 0, wx_op = 0, wx_flags = 0, wx_seq = 0,
     wx_len = 0, wx_pidx = 0, wx_payload = replicate 240 0, wx_ck_a = 0, wx_ck_b = 0, wx_exp_a = 0, wx_exp_b = 0\<rparr>"

definition main_boot :: main_state where
  "main_boot = \<lparr>pd = plugged, uart = uart_boot, Wups_Rx = rx_idle, bat = bat_boot, husb = unnegotiated,
     Chg_Data = \<lparr>chg_state = CHG_STATE_NOT_CHARGING, power_good = False, vin_mv = 0, iin_ma = 0, vbat_mv = 0,
       ichg_ma = 0, vsys_mv = 0, tjunc_c10 = - 32768, fault = 0\<rparr>,
     evs = evt_boot, DC_INP_EN_SRC = False, LED = False, Tim_Ms_Cnt = 0, Tmr_Ms_Cnt_Last = 0, Tmr_Ms_Dlt = 0,
     pd_last_ms = 0, Led_Cnt = 0, Uptime_Sec = 77, Ms_Sub_Cnt = 0, Adc_RR_Cnt = 0, DC_Inp_ADC_Val = 0,
     Vbat_ADC_Val = 0, Vbus_Out_ADC_Val = 0, DC_Inp_Voltage_mV = 12000, Vbat_Voltage_mV = 8100,
     Vbus_Out_Voltage_mV = 0, Json_Timer_Ms = 0, Temp_Timer_Ms = 0, Chg_Timer_Ms = 0, Tps_Timer_Ms = 0,
     Bat_Timer_Ms = 0, Diag_Log_Timer_Ms = 0, Pd_Evt_Timer_Ms = 0, Board_Temp_c10 = 253, Diag_Toggle = False,
     Powercycle_State = POWERCYCLE_IDLE, Powercycle_Timer_Ms = 0, evt_rd = 0, Uart_Rx_Total = 0,
     Uart_Ore_Count = 0, Cmd_Frames_Dispatched = 0, iwdg_kicks = 0, reset_requested = False\<rparr>"

lemma rx_idle_hunting: "hunting rx_idle"
  by (simp add: hunting_def rx_idle_def wx_core_def rx_ok_def)

lemma main_boot_fields:
  "Dma_Rx_Tail (uart main_boot) = 0" "Wups_Rx main_boot = rx_idle" "Usart2_Tc_Timeouts (uart main_boot) = 0"
  "VBUS_OUT_EN (pd main_boot)" "hunting (Wups_Rx main_boot)"
  by (simp_all add: main_boot_def uart_boot_def plugged_fields rx_idle_hunting)

definition cmd_frame :: "u8 \<Rightarrow> u8 \<Rightarrow> wups_frame" where
  "cmd_frame cls op = \<lparr>f_dst = 3, f_src = 2, f_cls = cls, f_op = op, f_flags = 1, f_seq = 9, f_payload = []\<rparr>"

definition ring_input :: "bytes \<Rightarrow> inputs" where
  "ring_input bs = \<lparr>i_cc = open_levels, i_ring = bs @ replicate (256 - length bs) 0, i_head = length bs,
     i_ore = False, i_now = \<lambda>_. 0\<rparr>"

lemma ring_input_bytes:
  "length bs < 256 \<Longrightarrow> ring_bytes (i_ring (ring_input bs)) 0 (pending 0 (i_head (ring_input bs))) = bs"
  by (rule nth_equalityI) (simp_all add: ring_bytes_def ring_input_def pending_alt nth_append)

lemma ring_input_at: "length bs < 256 \<Longrightarrow> at_ring (i_ring (ring_input bs)) 0 bs"
  by (simp add: at_ring_def ring_input_def nth_append)


theorem mute_ring_never_drained_witness:
  "main_iteration (idle_board mute) (ring_input (stream (replicate 3 (cmd_frame 1 1)))) main_boot = None"
proof -
  let ?f = "cmd_frame 1 1"
  have len: "length (stream [?f, ?f, ?f]) < 256" by (simp add: stream_def encode_length cmd_frame_def)
  have p: "is_ping ?f" by (simp add: is_ping_def for_this_node_def cmd_frame_def frame_fits_def)
  have "replicate 3 ?f = [?f, ?f, ?f]" by (simp add: numeral_3_eq_3)
  then show ?thesis
    using mute_ring_never_drained [OF _ p p p, of "idle_board mute" "ring_input (stream [?f, ?f, ?f])" main_boot]
      ring_input_at [OF len]
    by (simp add: main_boot_fields rx_idle_hunting idle_board_def) (simp add: ring_input_def)
qed

section \<open>Power cycle\<close>

definition cycle_ticks :: "main_state \<Rightarrow> u8 list \<Rightarrow> main_state" where
  "cycle_ticks s ds = foldl (\<lambda>s d. powercycle_block (s\<lparr>Tmr_Ms_Dlt := d\<rparr>)) s ds"

lemma cycle_ticks_Cons: "cycle_ticks s (d # ds) = cycle_ticks (powercycle_block (s\<lparr>Tmr_Ms_Dlt := d\<rparr>)) ds"
  by (simp add: cycle_ticks_def)

lemma cycle_idle:
  "Powercycle_State s = POWERCYCLE_IDLE \<Longrightarrow> pd (cycle_ticks s ds) = pd s \<and> Powercycle_State (cycle_ticks s ds) = POWERCYCLE_IDLE"
  by (induction ds arbitrary: s) (simp_all add: cycle_ticks_Cons powercycle_block_def, simp add: cycle_ticks_def)

lemma timer_add:
  assumes "unat (t :: u16) < 1500"
  shows "unat (t + ucast (d :: u8)) = unat t + unat d"
proof -
  have "unat d < 256" using unat_bound [of d] by simp
  moreover have "unat (ucast d :: u16) = unat d"
    by (simp add: unsigned_ucast_eq take_bit_nat_eq_self_iff) (use calculation in linarith)
  ultimately show ?thesis using assms by (simp add: unat_word_ariths)
qed

lemma cycle_wait:
  assumes "Powercycle_State s = POWERCYCLE_OFF_WAIT" and "unat (Powercycle_Timer_Ms s) < 1500"
  shows "if unat (Powercycle_Timer_Ms s) + sum_list (map unat ds) < 1500
    then pd (cycle_ticks s ds) = pd s \<and> Powercycle_State (cycle_ticks s ds) = POWERCYCLE_OFF_WAIT
    else pd (cycle_ticks s ds) = Power_Output_Restart (pd s) \<and> Powercycle_State (cycle_ticks s ds) = POWERCYCLE_IDLE"
  using assms
proof (induction ds arbitrary: s)
  case Nil
  then show ?case by (simp add: cycle_ticks_def)
next
  case (Cons d ds)
  let ?t = "Powercycle_Timer_Ms s + ucast d"
  have t: "unat ?t = unat (Powercycle_Timer_Ms s) + unat d" by (rule timer_add [OF Cons.prems(2)])
  show ?case
  proof (cases "unat ?t < 1500")
    case True
    then have "powercycle_block (s\<lparr>Tmr_Ms_Dlt := d\<rparr>) = s\<lparr>Tmr_Ms_Dlt := d, Powercycle_Timer_Ms := ?t\<rparr>"
      using Cons.prems by (simp add: powercycle_block_def timer_tick_def Let_def word_le_nat_alt)
    then show ?thesis
      using Cons.IH [of "s\<lparr>Tmr_Ms_Dlt := d, Powercycle_Timer_Ms := ?t\<rparr>"] Cons.prems(1) True t
      by (simp add: cycle_ticks_Cons add.assoc)
  next
    case False
    then have "powercycle_block (s\<lparr>Tmr_Ms_Dlt := d\<rparr>) = s\<lparr>Tmr_Ms_Dlt := d, Powercycle_Timer_Ms := ?t,
        pd := Power_Output_Restart (pd s), Powercycle_State := POWERCYCLE_IDLE\<rparr>"
      using Cons.prems by (simp add: powercycle_block_def timer_tick_def Let_def word_le_nat_alt)
    then show ?thesis
      using cycle_idle [of "s\<lparr>Tmr_Ms_Dlt := d, Powercycle_Timer_Ms := ?t, pd := Power_Output_Restart (pd s),
          Powercycle_State := POWERCYCLE_IDLE\<rparr>" ds] False t
      by (simp add: cycle_ticks_Cons)
  qed
qed

text \<open>
  A power cycle request opens the output and closes it again once, 1500 ms of loop time later:
  whatever the lengths of the loop iterations, the port is left as the request left it while less
  time has passed, and is restarted exactly once when that much has.
\<close>

theorem power_cycle_timing:
  assumes "power_request WUPS_OP_PWR_CYCLE f" and "s' = wups_handle_frame b f s"
  shows "\<not> VBUS_OUT_EN (pd s')
    \<and> (if sum_list (map unat ds) < 1500
       then pd (cycle_ticks s' ds) = VBUS_disable (pd s) \<and> Powercycle_State (cycle_ticks s' ds) = POWERCYCLE_OFF_WAIT
       else pd (cycle_ticks s' ds) = Power_Output_Restart (VBUS_disable (pd s))
         \<and> Powercycle_State (cycle_ticks s' ds) = POWERCYCLE_IDLE \<and> VBUS_OUT_EN (pd (cycle_ticks s' ds)))"
proof -
  have s': "s' = s\<lparr>pd := VBUS_disable (pd s), Powercycle_Timer_Ms := 0, Powercycle_State := POWERCYCLE_OFF_WAIT\<rparr>"
    using assms by (auto simp: wups_handle_frame_def power_request_def for_this_node_def)
  have "VBUS_OUT_EN (Power_Output_Restart p)" for p
    by (simp add: Power_Output_Restart_def VBUS_set_5V_def VBUS_enable_def PD_DataRole_Reset_def Let_def)
  moreover have "\<not> VBUS_OUT_EN (VBUS_disable p)" for p by (simp add: VBUS_disable_def Let_def)
  moreover have "pd s' = VBUS_disable (pd s)" "Powercycle_State s' = POWERCYCLE_OFF_WAIT" "Powercycle_Timer_Ms s' = 0"
    by (simp_all add: s')
  ultimately show ?thesis using cycle_wait [of s' ds] by simp
qed

theorem power_cycle_timing_witness:
  "VBUS_OUT_EN (pd (cycle_ticks (wups_handle_frame (idle_board tx_ready) (cmd_frame 2 4) main_boot) (replicate 15 100)))"
proof -
  have p: "power_request WUPS_OP_PWR_CYCLE (cmd_frame 2 4)" by (simp add: power_request_def for_this_node_def cmd_frame_def)
  have n: "\<not> sum_list (map unat (replicate 15 (100 :: u8))) < 1500" by (simp add: sum_list_replicate)
  from power_cycle_timing [OF p refl, of "idle_board tx_ready" main_boot "replicate 15 100", unfolded if_not_P [OF n]]
  show ?thesis by blast
qed

text \<open>A disable request during the off time does not cancel the restart.\<close>

theorem disable_does_not_cancel_cycle:
  assumes "power_request WUPS_OP_PWR_CYCLE f" and "power_request WUPS_OP_PWR_DISABLE g"
    and "sum_list (map unat ds) \<ge> 1500"
  shows "VBUS_OUT_EN (pd (cycle_ticks (wups_handle_frame b g (wups_handle_frame b f s)) ds))"
proof -
  let ?s = "wups_handle_frame b g (wups_handle_frame b f s)"
  have "Powercycle_State ?s = POWERCYCLE_OFF_WAIT" "Powercycle_Timer_Ms ?s = 0"
    using assms(1,2) by (auto simp: wups_handle_frame_def power_request_def for_this_node_def)
  then show ?thesis using cycle_wait [of ?s ds] assms(3)
    by (simp add: Power_Output_Restart_def VBUS_set_5V_def VBUS_enable_def PD_DataRole_Reset_def Let_def)
qed

section \<open>Telemetry from end to end\<close>



end
