(* ===== verification/Nvs_Store.thy ===== *)
theory Nvs_Store
  imports Prelude
begin

text \<open>
  The non-volatile storage of the ESP32 (ESP-IDF \<open>nvs.h\<close>) is not part of the repository: its
  functions are fields of a record that the modules that use the storage take as a parameter.
  A handle is the partition and the namespace it was opened with.  Reading functions deliver
  the value or an error code; the others deliver the new storage and an error code.  \<open>power_cycle\<close> is
  what a loss of power does to the storage: writes that were not committed may be lost.
\<close>

type_synonym esp_err = int
type_synonym nvs_handle = "string \<times> string"

definition ESP_OK :: esp_err where [simp]: "ESP_OK = 0"
definition ESP_FAIL :: esp_err where [simp]: "ESP_FAIL = - 1"
definition ESP_ERR_INVALID_ARG :: esp_err where [simp]: "ESP_ERR_INVALID_ARG = 0x102"
definition ESP_ERR_INVALID_STATE :: esp_err where [simp]: "ESP_ERR_INVALID_STATE = 0x103"
definition ESP_ERR_INVALID_SIZE :: esp_err where [simp]: "ESP_ERR_INVALID_SIZE = 0x104"
definition ESP_ERR_NOT_FOUND :: esp_err where [simp]: "ESP_ERR_NOT_FOUND = 0x105"
definition ESP_ERR_INVALID_RESPONSE :: esp_err where [simp]: "ESP_ERR_INVALID_RESPONSE = 0x108"

record 'n nvs_api =
  nvs_flash_init_partition :: "'n \<Rightarrow> string \<Rightarrow> 'n \<times> esp_err"
  nvs_open :: "'n \<Rightarrow> nvs_handle \<Rightarrow> bool \<Rightarrow> 'n \<times> esp_err"
  nvs_get_u8 :: "'n \<Rightarrow> nvs_handle \<Rightarrow> string \<Rightarrow> esp_err + u8"
  nvs_get_u32 :: "'n \<Rightarrow> nvs_handle \<Rightarrow> string \<Rightarrow> esp_err + u32"
  nvs_get_u64 :: "'n \<Rightarrow> nvs_handle \<Rightarrow> string \<Rightarrow> esp_err + u64"
  nvs_get_blob :: "'n \<Rightarrow> nvs_handle \<Rightarrow> string \<Rightarrow> nat \<Rightarrow> esp_err + bytes"
  nvs_set_u8 :: "'n \<Rightarrow> nvs_handle \<Rightarrow> string \<Rightarrow> u8 \<Rightarrow> 'n \<times> esp_err"
  nvs_set_u32 :: "'n \<Rightarrow> nvs_handle \<Rightarrow> string \<Rightarrow> u32 \<Rightarrow> 'n \<times> esp_err"
  nvs_set_u64 :: "'n \<Rightarrow> nvs_handle \<Rightarrow> string \<Rightarrow> u64 \<Rightarrow> 'n \<times> esp_err"
  nvs_set_blob :: "'n \<Rightarrow> nvs_handle \<Rightarrow> string \<Rightarrow> bytes \<Rightarrow> 'n \<times> esp_err"
  nvs_erase_key :: "'n \<Rightarrow> nvs_handle \<Rightarrow> string \<Rightarrow> 'n"
  nvs_commit :: "'n \<Rightarrow> nvs_handle \<Rightarrow> 'n \<times> esp_err"
  power_cycle :: "'n \<Rightarrow> 'n"

text \<open>
  What is relied on of the storage, for one 64-bit key: a write that reports success is read
  back, a commit that reports success makes it survive a power cycle, and opening, writing another key
  or a power cycle do not change what has been committed.
\<close>

definition counter_store :: "'n nvs_api \<Rightarrow> nvs_handle \<Rightarrow> string \<Rightarrow> bool" where
  "counter_store api h k \<longleftrightarrow>
     (\<forall>n p. nvs_get_u64 api (fst (nvs_flash_init_partition api n p)) h k = nvs_get_u64 api n h k \<and>
        nvs_get_u64 api (power_cycle api (fst (nvs_flash_init_partition api n p))) h k
          = nvs_get_u64 api (power_cycle api n) h k) \<and>
     (\<forall>n g w. nvs_get_u64 api (fst (nvs_open api n g w)) h k = nvs_get_u64 api n h k \<and>
        nvs_get_u64 api (power_cycle api (fst (nvs_open api n g w))) h k
          = nvs_get_u64 api (power_cycle api n) h k) \<and>
     (\<forall>n v. snd (nvs_set_u64 api n h k v) = ESP_OK \<longrightarrow> nvs_get_u64 api (fst (nvs_set_u64 api n h k v)) h k = Inr v) \<and>
     (\<forall>n k' v. k' \<noteq> k \<longrightarrow> nvs_get_u64 api (fst (nvs_set_u32 api n h k' v)) h k = nvs_get_u64 api n h k) \<and>
     (\<forall>n. snd (nvs_commit api n h) = ESP_OK \<longrightarrow>
        nvs_get_u64 api (fst (nvs_commit api n h)) h k = nvs_get_u64 api n h k \<and>
        nvs_get_u64 api (power_cycle api (fst (nvs_commit api n h))) h k = nvs_get_u64 api n h k) \<and>
     (\<forall>n. nvs_get_u64 api (power_cycle api (power_cycle api n)) h k = nvs_get_u64 api (power_cycle api n) h k)"

text \<open>The storage accepts every write of a namespace.\<close>

definition store_writable :: "'n nvs_api \<Rightarrow> nvs_handle \<Rightarrow> bool" where
  "store_writable api h \<longleftrightarrow>
     (\<forall>n. snd (nvs_open api n h True) = ESP_OK) \<and>
     (\<forall>n k v. snd (nvs_set_u64 api n h k v) = ESP_OK) \<and>
     (\<forall>n. snd (nvs_commit api n h) = ESP_OK)"

section \<open>A storage in memory\<close>

text \<open>
  A storage that satisfies both, used for concrete runs: a map from keys to values for each
  type, with the committed and the pending contents.
\<close>

record ram =
  ram_u8 :: "nvs_handle \<times> string \<Rightarrow> u8 option"
  ram_u32 :: "nvs_handle \<times> string \<Rightarrow> u32 option"
  ram_u64 :: "nvs_handle \<times> string \<Rightarrow> u64 option"
  ram_blob :: "nvs_handle \<times> string \<Rightarrow> bytes option"

definition empty_ram :: ram where
  "empty_ram = \<lparr>ram_u8 = Map.empty, ram_u32 = Map.empty, ram_u64 = Map.empty, ram_blob = Map.empty\<rparr>"

fun found :: "'v option \<Rightarrow> esp_err + 'v" where
  "found None = Inl ESP_ERR_NOT_FOUND"
| "found (Some v) = Inr v"

text \<open>The parameter says whether commits work; without, they fail and a power cycle loses all writes.\<close>

definition ram_api :: "bool \<Rightarrow> (ram \<times> ram) nvs_api" where
  "ram_api works = \<lparr>
     nvs_flash_init_partition = (\<lambda>n p. (n, ESP_OK)),
     nvs_open = (\<lambda>n h w. (n, ESP_OK)),
     nvs_get_u8 = (\<lambda>n h k. found (ram_u8 (fst n) (h, k))),
     nvs_get_u32 = (\<lambda>n h k. found (ram_u32 (fst n) (h, k))),
     nvs_get_u64 = (\<lambda>n h k. found (ram_u64 (fst n) (h, k))),
     nvs_get_blob = (\<lambda>n h k cap. case ram_blob (fst n) (h, k) of
        None \<Rightarrow> Inl ESP_ERR_NOT_FOUND
      | Some b \<Rightarrow> if length b \<le> cap then Inr b else Inl ESP_ERR_INVALID_SIZE),
     nvs_set_u8 = (\<lambda>n h k v. ((fst n\<lparr>ram_u8 := (ram_u8 (fst n))((h, k) \<mapsto> v)\<rparr>, snd n), ESP_OK)),
     nvs_set_u32 = (\<lambda>n h k v. ((fst n\<lparr>ram_u32 := (ram_u32 (fst n))((h, k) \<mapsto> v)\<rparr>, snd n), ESP_OK)),
     nvs_set_u64 = (\<lambda>n h k v. ((fst n\<lparr>ram_u64 := (ram_u64 (fst n))((h, k) \<mapsto> v)\<rparr>, snd n), ESP_OK)),
     nvs_set_blob = (\<lambda>n h k v. ((fst n\<lparr>ram_blob := (ram_blob (fst n))((h, k) \<mapsto> v)\<rparr>, snd n), ESP_OK)),
     nvs_erase_key = (\<lambda>n h k. (\<lparr>ram_u8 = (ram_u8 (fst n))((h, k) := None), ram_u32 = (ram_u32 (fst n))((h, k) := None),
        ram_u64 = (ram_u64 (fst n))((h, k) := None), ram_blob = (ram_blob (fst n))((h, k) := None)\<rparr>, snd n)),
     nvs_commit = (\<lambda>n h. if works then ((fst n, fst n), ESP_OK) else (n, ESP_FAIL)),
     power_cycle = (\<lambda>n. (snd n, snd n))\<rparr>"

lemmas ram_simps = ram_api_def empty_ram_def

lemma ram_counter_store: "counter_store (ram_api works) h k"
  by (simp add: counter_store_def ram_api_def)

lemma ram_writable: "store_writable (ram_api True) h"
  by (simp add: store_writable_def ram_api_def)

end
