(* ===== verification/Cmd_Auth.thy ===== *)
theory Cmd_Auth
  imports Nvs_Store Wire_Protocol
begin

text \<open>
  Command authentication of the MQTT downlink, \<open>cmdauth.c\<close>: a command is a frame in a signed
  envelope with an epoch, a counter and an expiry time.  The module state is a record; the
  storage, the hash, the signature check and the clock are parameters.

  The locale \<open>replay_guard\<close> is the contract of a verifier that never goes back behind a message it
  accepted; both verifiers of the firmware interpret it, this one with power cycles in the run.
\<close>

section \<open>Verifiers with a monotonic counter\<close>

fun verified :: "('s \<Rightarrow> 'm \<Rightarrow> 's \<times> 'f option) \<Rightarrow> 's \<Rightarrow> 'm list \<Rightarrow> 'm list" where
  "verified verify s [] = []"
| "verified verify s (m # ms) = (case verify s m of
     (s', Some f) \<Rightarrow> m # verified verify s' ms
   | (s', None) \<Rightarrow> verified verify s' ms)"

text \<open>
  \<open>above s k\<close>: a message with key \<open>k\<close> may still be accepted in state \<open>s\<close>.  Accepting a message leaves
  only keys that follow its own key, and no step brings a key back.
\<close>

locale replay_guard =
  fixes verify :: "'s \<Rightarrow> 'm \<Rightarrow> 's \<times> 'f option"
    and key :: "'m \<Rightarrow> 'k" and above :: "'s \<Rightarrow> 'k \<Rightarrow> bool" and follows :: "'k \<Rightarrow> 'k \<Rightarrow> bool"
    and good :: "'s \<Rightarrow> bool"
  assumes good_verify: "good s \<Longrightarrow> good (fst (verify s m))"
    and accepted: "good s \<Longrightarrow> verify s m = (s', Some f) \<Longrightarrow> above s (key m)"
    and retired: "good s \<Longrightarrow> verify s m = (s', Some f) \<Longrightarrow> above s' k \<Longrightarrow> follows (key m) k"
    and kept: "good s \<Longrightarrow> verify s m = (s', r) \<Longrightarrow> above s' k \<Longrightarrow> above s k"
begin

lemma verified_above: "good s \<Longrightarrow> x \<in> set (verified verify s ms) \<Longrightarrow> above s (key x)"
proof (induction ms arbitrary: s)
  case (Cons m ms)
  obtain s' r where v: "verify s m = (s', r)" by fastforce
  have g: "good s'" using good_verify [OF Cons.prems(1), of m] v by simp
  show ?case
    using Cons.IH [OF g] Cons.prems accepted [OF Cons.prems(1)] kept [OF Cons.prems(1) v] v
    by (cases r) auto
qed simp

theorem increasing: "good s \<Longrightarrow> sorted_wrt follows (map key (verified verify s ms))"
proof (induction ms arbitrary: s)
  case (Cons m ms)
  obtain s' r where v: "verify s m = (s', r)" by fastforce
  have g: "good s'" using good_verify [OF Cons.prems, of m] v by simp
  show ?case
    using Cons.IH [OF g] retired [OF Cons.prems] verified_above [OF g, of _ ms] v
    by (cases r) auto
qed simp

end

section \<open>State and start-up\<close>

definition PROV :: nvs_handle where "PROV = (''prov'', ''w3pups'')"
definition STATE :: nvs_handle where "STATE = (''nvs'', ''w3wsec'')"

definition ENV_MAGIC :: bytes where [simp]: "ENV_MAGIC = [0x57, 0x41, 0x45, 0x31]"
definition ENV_HEAD_LEN :: nat where [simp]: "ENV_HEAD_LEN = 26"
definition ENV_SIG_LEN :: nat where [simp]: "ENV_SIG_LEN = 64"
definition PUBKEY_XY_LEN :: nat where [simp]: "PUBKEY_XY_LEN = 64"

record 'n cmdauth =
  s_ready :: bool
  s_op_pub :: bytes
  s_cur_epoch :: u32
  s_last_ctr :: u64
  store :: 'n

record 'n auth_env =
  api :: "'n nvs_api"
  psa_sha256 :: "bytes \<Rightarrow> bytes option"
  uECC_verify :: "bytes \<Rightarrow> bytes \<Rightarrow> bytes \<Rightarrow> bool"

definition cmdauth_boot :: "'n \<Rightarrow> 'n cmdauth" where
  "cmdauth_boot n = \<lparr>s_ready = False, s_op_pub = replicate PUBKEY_XY_LEN 0, s_cur_epoch = 0,
     s_last_ctr = 0, store = n\<rparr>"

definition state_load :: "'n nvs_api \<Rightarrow> u32 \<Rightarrow> 'n cmdauth \<Rightarrow> 'n cmdauth" where
  "state_load a prov_epoch s =
     (let s = (case nvs_get_u32 a (store s) STATE ''cur_epoch'' of
            Inr e \<Rightarrow> s\<lparr>s_cur_epoch := e\<rparr>
          | Inl _ \<Rightarrow> s\<lparr>s_cur_epoch := prov_epoch,
              store := fst (nvs_set_u32 a (store s) STATE ''cur_epoch'' prov_epoch)\<rparr>);
          s = (case nvs_get_u64 a (store s) STATE ''last_ctr'' of
            Inr c \<Rightarrow> s\<lparr>s_last_ctr := c\<rparr>
          | Inl _ \<Rightarrow> s\<lparr>s_last_ctr := 0,
              store := fst (nvs_set_u64 a (store s) STATE ''last_ctr'' 0)\<rparr>) in
      s\<lparr>store := fst (nvs_commit a (store s) STATE), s_ready := True\<rparr>)"

definition cmdauth_init :: "'n nvs_api \<Rightarrow> 'n cmdauth \<Rightarrow> 'n cmdauth \<times> esp_err" where
  "cmdauth_init a s =
     (let (n, err) = nvs_flash_init_partition a (store s) ''prov''; s = s\<lparr>store := n\<rparr> in
      if err \<noteq> ESP_OK then (s, err)
      else let (n, err) = nvs_open a (store s) PROV False; s = s\<lparr>store := n\<rparr> in
      if err \<noteq> ESP_OK then (s, err)
      else case nvs_get_blob a (store s) PROV ''bk_op_pub'' 65 of
        Inl err \<Rightarrow> (s, err)
      | Inr op_pub \<Rightarrow>
          if length op_pub \<noteq> 65 \<or> op_pub ! 0 \<noteq> 0x04 then (s, ESP_ERR_INVALID_SIZE)
          else let s = s\<lparr>s_op_pub := drop 1 op_pub\<rparr> in
          case nvs_get_u32 a (store s) PROV ''bk_epoch'' of
            Inl err \<Rightarrow> (s, err)
          | Inr prov_epoch \<Rightarrow>
              let (n, err) = nvs_open a (store s) STATE True; s = s\<lparr>store := n\<rparr> in
              if err \<noteq> ESP_OK then (s, err)
              else (state_load a prov_epoch s, ESP_OK))"

section \<open>Verification\<close>

definition persist_last_ctr :: "'n nvs_api \<Rightarrow> u64 \<Rightarrow> 'n \<Rightarrow> 'n \<times> bool" where
  "persist_last_ctr a ctr n =
     (let (n, err) = nvs_open a n STATE True in
      if err \<noteq> ESP_OK then (n, False)
      else let (n, e) = nvs_set_u64 a n STATE ''last_ctr'' ctr in
      if e \<noteq> ESP_OK then (n, False)
      else let (n, e) = nvs_commit a n STATE in (n, e = ESP_OK))"

definition env_epoch :: "bytes \<Rightarrow> u32" where "env_epoch buf = rd_u32le (drop 4 buf)"
definition env_counter :: "bytes \<Rightarrow> u64" where "env_counter buf = rd_u64le (drop 8 buf)"
definition env_expiry :: "bytes \<Rightarrow> u64" where "env_expiry buf = rd_u64le (drop 16 buf)"
definition env_flen :: "bytes \<Rightarrow> nat" where "env_flen buf = unat (rd_u16le (drop 24 buf))"

text \<open>\<open>now\<close> is a signed 64-bit time in seconds; the comparison with the expiry is unsigned.\<close>

definition env_expired :: "u64 \<Rightarrow> u64 \<Rightarrow> bool" where
  "env_expired now expiry \<longleftrightarrow> expiry \<noteq> 0 \<and> 1700000000 < sint now \<and> expiry < now"

definition cmdauth_check_and_strip ::
  "'n auth_env \<Rightarrow> u64 \<Rightarrow> 'n cmdauth \<Rightarrow> bytes \<Rightarrow> 'n cmdauth \<times> bytes option" where
  "cmdauth_check_and_strip env now s buf =
     (if \<not> s_ready s then (s, None)
      else if length buf < ENV_HEAD_LEN + ENV_SIG_LEN then (s, None)
      else if take 4 buf \<noteq> ENV_MAGIC then (s, None)
      else let epoch = env_epoch buf; counter = env_counter buf; expiry = env_expiry buf;
               flen = env_flen buf in
      if ENV_HEAD_LEN + flen + ENV_SIG_LEN \<noteq> length buf then (s, None)
      else if epoch \<noteq> s_cur_epoch s then (s, None)
      else let sig = drop (ENV_HEAD_LEN + flen) buf in
      case psa_sha256 env (take (ENV_HEAD_LEN + flen) buf) of
        None \<Rightarrow> (s, None)
      | Some digest \<Rightarrow>
          if length digest \<noteq> 32 then (s, None)
          else if \<not> uECC_verify env (s_op_pub s) digest sig then (s, None)
          else if counter \<le> s_last_ctr s then (s, None)
          else if env_expired now expiry then (s, None)
          else (s\<lparr>s_last_ctr := counter, store := fst (persist_last_ctr (api env) counter (store s))\<rparr>,
                Some (take flen (drop ENV_HEAD_LEN buf))))"

section \<open>Envelopes\<close>

definition wae1 :: "u32 \<Rightarrow> u64 \<Rightarrow> u64 \<Rightarrow> bytes \<Rightarrow> bytes" where
  "wae1 epoch ctr expiry frame =
     ENV_MAGIC @ le32 epoch @ le64 ctr @ le64 expiry @ le16 (of_nat (length frame)) @ frame"

lemma wae1_length [simp]: "length (wae1 epoch ctr expiry frame) = ENV_HEAD_LEN + length frame"
  by (simp add: wae1_def)

lemma wae1_fields:
  assumes "length frame < 2 ^ 16"
  shows "take 4 (wae1 epoch ctr expiry frame) = ENV_MAGIC"
    and "env_epoch (wae1 epoch ctr expiry frame @ sig) = epoch"
    and "env_counter (wae1 epoch ctr expiry frame @ sig) = ctr"
    and "env_expiry (wae1 epoch ctr expiry frame @ sig) = expiry"
    and "env_flen (wae1 epoch ctr expiry frame @ sig) = length frame"
    and "drop ENV_HEAD_LEN (wae1 epoch ctr expiry frame) = frame"
  using assms by (simp_all add: wae1_def env_epoch_def env_counter_def env_expiry_def env_flen_def
      rd_u32le_le32 rd_u64le_le64 rd_u16le_le16 unat_of_nat_small)

lemma wae1_decode:
  assumes "take 4 buf = ENV_MAGIC" and "ENV_HEAD_LEN + env_flen buf + ENV_SIG_LEN = length buf"
  shows "take (ENV_HEAD_LEN + env_flen buf) buf =
     wae1 (env_epoch buf) (env_counter buf) (env_expiry buf) (take (env_flen buf) (drop ENV_HEAD_LEN buf))"
proof -
  have len: "90 \<le> length buf" using assms(2) by simp
  have fl: "le16 (of_nat (env_flen buf)) = take 2 (drop 24 buf)"
    using len by (simp add: env_flen_def le16_rd)
  have f: "length (take (env_flen buf) (drop ENV_HEAD_LEN buf)) = env_flen buf" using assms(2) by simp
  have "take (ENV_HEAD_LEN + env_flen buf) buf = take 4 buf @ take 4 (drop 4 buf) @ take 8 (drop 8 buf) @
      take 8 (drop 16 buf) @ take 2 (drop 24 buf) @ take (env_flen buf) (drop 26 buf)"
  proof -
    have "ENV_HEAD_LEN + env_flen buf = 4 + (4 + (8 + (8 + (2 + env_flen buf))))" by simp
    then show ?thesis by (simp only: take_add drop_drop) simp
  qed
  then show ?thesis unfolding wae1_def f fl using len assms(1)
    by (simp add: env_epoch_def env_counter_def env_expiry_def le32_rd le64_rd)
qed
text \<open>What the signature covers, the frame it carries and the signature.\<close>

definition signed_by :: "'n auth_env \<Rightarrow> bytes \<Rightarrow> bytes \<Rightarrow> bytes \<Rightarrow> bool" where
  "signed_by env pub text sig \<longleftrightarrow>
     (\<exists>digest. psa_sha256 env text = Some digest \<and> length digest = 32 \<and> uECC_verify env pub digest sig)"

lemma check_wae1:
  assumes "length frame < 2 ^ 16"
  shows "cmdauth_check_and_strip env now s (wae1 epoch ctr expiry frame @ sig) =
     (if s_ready s \<and> length sig = ENV_SIG_LEN \<and> epoch = s_cur_epoch s \<and>
         signed_by env (s_op_pub s) (wae1 epoch ctr expiry frame) sig \<and>
         s_last_ctr s < ctr \<and> \<not> env_expired now expiry
      then (s\<lparr>s_last_ctr := ctr, store := fst (persist_last_ctr (api env) ctr (store s))\<rparr>, Some frame)
      else (s, None))"
  by (auto simp: cmdauth_check_and_strip_def Let_def wae1_fields [OF assms, simplified] signed_by_def
      split: option.splits)

text \<open>
  C18. A downlink message is accepted with a frame exactly when the module is ready and the message
  is the envelope of that frame under the current epoch, signed with the provisioned key, with
  a counter above the highest accepted one and not expired; nothing else of the message is
  forwarded.
\<close>

theorem command_accepted_iff:
  "snd (cmdauth_check_and_strip env now s buf) = Some frame \<longleftrightarrow>
     s_ready s \<and>
     (\<exists>ctr expiry sig. buf = wae1 (s_cur_epoch s) ctr expiry frame @ sig \<and> length sig = ENV_SIG_LEN \<and>
        length frame < 2 ^ 16 \<and> signed_by env (s_op_pub s) (wae1 (s_cur_epoch s) ctr expiry frame) sig \<and>
        s_last_ctr s < ctr \<and> \<not> env_expired now expiry)" (is "?L \<longleftrightarrow> ?R")
proof
  assume ?L
  then have r: "s_ready s" and m: "take 4 buf = ENV_MAGIC"
    and l: "ENV_HEAD_LEN + env_flen buf + ENV_SIG_LEN = length buf" and e: "env_epoch buf = s_cur_epoch s"
    and f: "frame = take (env_flen buf) (drop ENV_HEAD_LEN buf)"
    and sg: "signed_by env (s_op_pub s) (take (ENV_HEAD_LEN + env_flen buf) buf) (drop (ENV_HEAD_LEN + env_flen buf) buf)"
    and c: "s_last_ctr s < env_counter buf" and x: "\<not> env_expired now (env_expiry buf)"
    by (auto simp: cmdauth_check_and_strip_def Let_def signed_by_def not_le split: if_splits option.splits)
  note t = wae1_decode [OF m l, folded f, unfolded e]
  have "buf = wae1 (s_cur_epoch s) (env_counter buf) (env_expiry buf) frame @ drop (ENV_HEAD_LEN + env_flen buf) buf"
    unfolding t [symmetric] by simp
  moreover have "length frame < 2 ^ 16"
    using unat_bound [of "rd_u16le (drop 24 buf)"] unfolding f env_flen_def by simp
  ultimately show ?R using r l c x sg unfolding t by (intro conjI exI) (assumption | simp)+
next
  assume ?R
  then obtain ctr expiry sig where b: "buf = wae1 (s_cur_epoch s) ctr expiry frame @ sig"
    and l: "length frame < 2 ^ 16" and rest: "s_ready s" "length sig = ENV_SIG_LEN"
      "signed_by env (s_op_pub s) (wae1 (s_cur_epoch s) ctr expiry frame) sig" "s_last_ctr s < ctr" "\<not> env_expired now expiry"
    by blast
  show ?L unfolding b using rest by (simp add: check_wae1 [OF l])
qed

section \<open>Runs with power cycles\<close>

datatype auth_event = Downlink u64 bytes | Power_Cycle

definition auth_start :: "'n nvs_api \<Rightarrow> 'n \<Rightarrow> 'n cmdauth" where
  "auth_start a n = fst (cmdauth_init a (cmdauth_boot (power_cycle a n)))"

fun auth_step :: "'n auth_env \<Rightarrow> 'n cmdauth \<Rightarrow> auth_event \<Rightarrow> 'n cmdauth \<times> bytes option" where
  "auth_step env s (Downlink now buf) = cmdauth_check_and_strip env now s buf"
| "auth_step env s Power_Cycle = (auth_start (api env) (store s), None)"

fun event_counter :: "auth_event \<Rightarrow> u64" where
  "event_counter (Downlink now buf) = env_counter buf"
| "event_counter Power_Cycle = 0"

abbreviation stored_ctr :: "'n nvs_api \<Rightarrow> 'n \<Rightarrow> esp_err + u64" where
  "stored_ctr a n \<equiv> nvs_get_u64 a n STATE ''last_ctr''"

definition ctr_value :: "esp_err + u64 \<Rightarrow> u64" where
  "ctr_value r = (case r of Inr c \<Rightarrow> c | Inl _ \<Rightarrow> 0)"

definition keeps_counter :: "'n nvs_api \<Rightarrow> bool" where
  "keeps_counter a \<longleftrightarrow> counter_store a STATE ''last_ctr'' \<and> store_writable a STATE"

definition durable :: "'n nvs_api \<Rightarrow> 'n \<Rightarrow> bool" where
  "durable a n \<longleftrightarrow> stored_ctr a (power_cycle a n) = stored_ctr a n"

definition auth_good :: "'n auth_env \<Rightarrow> 'n cmdauth \<Rightarrow> bool" where
  "auth_good env s \<longleftrightarrow> keeps_counter (api env) \<and> durable (api env) (store s) \<and>
     (s_ready s \<longrightarrow> stored_ctr (api env) (store s) = Inr (s_last_ctr s))"

definition stored_counter :: "'n auth_env \<Rightarrow> 'n cmdauth \<Rightarrow> u64" where
  "stored_counter env s = ctr_value (stored_ctr (api env) (store s))"

lemma store_laws:
  assumes "keeps_counter a"
  shows "stored_ctr a (fst (nvs_flash_init_partition a n p)) = stored_ctr a n"
    and "stored_ctr a (power_cycle a (fst (nvs_flash_init_partition a n p))) = stored_ctr a (power_cycle a n)"
    and "stored_ctr a (fst (nvs_open a n g w)) = stored_ctr a n"
    and "stored_ctr a (power_cycle a (fst (nvs_open a n g w))) = stored_ctr a (power_cycle a n)"
    and "stored_ctr a (fst (nvs_set_u64 a n STATE ''last_ctr'' v)) = Inr v"
    and "stored_ctr a (fst (nvs_set_u32 a n STATE ''cur_epoch'' e)) = stored_ctr a n"
    and "stored_ctr a (fst (nvs_commit a n STATE)) = stored_ctr a n"
    and "stored_ctr a (power_cycle a (fst (nvs_commit a n STATE))) = stored_ctr a n"
    and "stored_ctr a (power_cycle a (power_cycle a n)) = stored_ctr a (power_cycle a n)"
  using assms unfolding keeps_counter_def counter_store_def store_writable_def
  by (simp_all del: split_paired_All)

lemma persist_kept:
  assumes "keeps_counter a"
  shows "stored_ctr a (fst (persist_last_ctr a c n)) = Inr c"
    and "durable a (fst (persist_last_ctr a c n))"
  using assms by (simp_all add: persist_last_ctr_def split_beta durable_def store_laws)
    (simp_all add: keeps_counter_def store_writable_def)

lemma state_load_kept:
  assumes "keeps_counter a"
  shows "s_ready (state_load a e s)" 
    and "stored_ctr a (store (state_load a e s)) = Inr (s_last_ctr (state_load a e s))"
    and "durable a (store (state_load a e s))"
    and "s_last_ctr (state_load a e s) = ctr_value (stored_ctr a (store s))"
  using assms by (auto simp: state_load_def Let_def durable_def store_laws ctr_value_def split: sum.splits)

text \<open>A start keeps the stored counter, and is in step with it when it succeeds.\<close>

lemma init_kept:
  assumes k: "keeps_counter a" and d: "durable a (store s)" and r: "\<not> s_ready s"
    and i: "fst (cmdauth_init a s) = s'"
  shows "durable a (store s')" and "s_ready s' \<Longrightarrow> stored_ctr a (store s') = Inr (s_last_ctr s')"
    and "ctr_value (stored_ctr a (store s')) = ctr_value (stored_ctr a (store s))"
  unfolding i [symmetric] using d r
  by (auto simp: cmdauth_init_def split_beta Let_def durable_def store_laws [OF k] state_load_kept [OF k]
      state_load_kept(3) [OF k, unfolded durable_def] ctr_value_def [of "Inr _"] split: sum.splits if_splits)

lemma start_kept:
  assumes "keeps_counter (api env)"
  shows "auth_good env (auth_start (api env) n)"
    and "stored_counter env (auth_start (api env) n) = ctr_value (stored_ctr (api env) (power_cycle (api env) n))"
  using init_kept [OF assms, of "cmdauth_boot (power_cycle (api env) n)"] assms
  by (simp_all add: auth_start_def auth_good_def stored_counter_def durable_def cmdauth_boot_def store_laws)

lemma check_accepted:
  assumes "cmdauth_check_and_strip env now s buf = (s', Some frame)"
  shows "s_ready s" "s_last_ctr s < env_counter buf"
    "s' = s\<lparr>s_last_ctr := env_counter buf, store := fst (persist_last_ctr (api env) (env_counter buf) (store s))\<rparr>"
  using assms by (auto simp: cmdauth_check_and_strip_def Let_def not_le split: if_splits option.splits)

lemma check_refused: "cmdauth_check_and_strip env now s buf = (s', None) \<Longrightarrow> s' = s"
  by (auto simp: cmdauth_check_and_strip_def Let_def split: if_splits option.splits)

lemma auth_step_good: "auth_good env s \<Longrightarrow> auth_good env (fst (auth_step env s e))"
proof (cases e)
  case (Downlink now buf)
  assume g: "auth_good env s"
  obtain s' r where c: "cmdauth_check_and_strip env now s buf = (s', r)" by fastforce
  show ?thesis
  proof (cases r)
    case None
    then show ?thesis using g c check_refused [of env now s buf] by (simp add: Downlink)
  next
    case (Some f)
    then show ?thesis using g check_accepted(3) [of env now s buf s' f] c
      by (simp add: Downlink auth_good_def persist_kept)
  qed
next
  case Power_Cycle
  assume "auth_good env s"
  then show ?thesis by (simp add: Power_Cycle start_kept auth_good_def [of env s])
qed

lemma auth_step_counter:
  assumes g: "auth_good env s" and a: "auth_step env s e = (s', r)"
  shows "r = Some f \<Longrightarrow> stored_counter env s < event_counter e \<and> stored_counter env s' = event_counter e"
    and "r = None \<Longrightarrow> stored_counter env s' = stored_counter env s"
proof -
  assume r: "r = Some f"
  then obtain now buf where e: "e = Downlink now buf" using a by (cases e) auto
  show "stored_counter env s < event_counter e \<and> stored_counter env s' = event_counter e"
    using a g r check_accepted [of env now s buf s' f] persist_kept(1) [of "api env"]
    by (simp add: e auth_good_def stored_counter_def ctr_value_def)
next
  assume r: "r = None"
  show "stored_counter env s' = stored_counter env s"
  proof (cases e)
    case (Downlink now buf)
    then show ?thesis using a r check_refused by fastforce
  next
    case Power_Cycle
    then show ?thesis using a g start_kept(2) [of env "store s"]
      by (auto simp: auth_good_def durable_def stored_counter_def)
  qed
qed

interpretation auth: replay_guard "auth_step env" event_counter "\<lambda>s k. stored_counter env s < k" "(<)" "auth_good env"
  for env
proof
  fix s e s' r f k
  assume g: "auth_good env s"
  show "auth_good env (fst (auth_step env s e))" by (rule auth_step_good [OF g])
  show "stored_counter env s < event_counter e" if "auth_step env s e = (s', Some f)"
    using auth_step_counter(1) [OF g that] by simp
  show "event_counter e < k" if "auth_step env s e = (s', Some f)" and "stored_counter env s' < k"
    using auth_step_counter(1) [OF g that(1)] that(2) by simp
  show "stored_counter env s < k" if "auth_step env s e = (s', r)" and "stored_counter env s' < k"
    using auth_step_counter [OF g that(1)] that(2) by (cases r) (auto intro: less_trans)
qed


text \<open>
  A provisioned device on a storage in memory, with a signature check that accepts one signature,
  and two commands for it.
\<close>

definition sample_env :: "bool \<Rightarrow> (ram \<times> ram) auth_env" where
  "sample_env works = \<lparr>api = ram_api works, psa_sha256 = (\<lambda>m. Some (replicate 32 (sum_list m))),
     uECC_verify = (\<lambda>pub digest sig. pub = replicate 64 7 \<and> sig = digest @ digest)\<rparr>"

definition sample_store :: ram where
  "sample_store = empty_ram\<lparr>ram_u32 := [(PROV, ''bk_epoch'') \<mapsto> 3],
     ram_blob := [(PROV, ''bk_op_pub'') \<mapsto> 0x04 # replicate 64 7]\<rparr>"

definition sample_command :: "u64 \<Rightarrow> bytes" where
  "sample_command ctr = (let w = wae1 3 ctr 0 [1, 2] in w @ replicate 64 (sum_list w))"

lemma sample_api [simp]: "api (sample_env works) = ram_api works"
  by (simp add: sample_env_def)

lemma sample_counter: "env_counter (sample_command ctr) = ctr"
  by (simp add: sample_command_def Let_def wae1_fields)

lemma sample_check:
  "cmdauth_check_and_strip (sample_env works) now s (sample_command ctr) =
     (if s_ready s \<and> s_cur_epoch s = 3 \<and> s_op_pub s = replicate 64 7 \<and> s_last_ctr s < ctr
      then (s\<lparr>s_last_ctr := ctr, store := fst (persist_last_ctr (ram_api works) ctr (store s))\<rparr>, Some [1, 2])
      else (s, None))"
  unfolding sample_command_def Let_def
  by (simp add: check_wae1 signed_by_def sample_env_def env_expired_def flip: replicate_add)


text \<open>
  The storage has to keep its promise: the result of \<open>persist_last_ctr\<close> is ignored, and when commits
  fail the same command is accepted again after a power cycle.
\<close>

lemma replay_without_commit:
  "verified (auth_step (sample_env False)) (auth_start (ram_api False) (sample_store, sample_store))
     [Downlink 0 (sample_command 5), Power_Cycle, Downlink 0 (sample_command 5)] =
   [Downlink 0 (sample_command 5), Downlink 0 (sample_command 5)]"
  by (simp add: sample_check auth_start_def cmdauth_init_def cmdauth_boot_def state_load_def
      persist_last_ctr_def ram_simps sample_store_def PROV_def STATE_def Let_def)

text \<open>Any failure to read the stored counter at start-up, not only its absence, resets it to zero.\<close>

lemma unreadable_counter_reset:
  assumes "\<And>n. \<exists>err. nvs_get_u64 a n STATE ''last_ctr'' = Inl err"
  shows "s_last_ctr (state_load a e s) = 0"
  unfolding state_load_def Let_def by (simp split: sum.splits) (metis assms sum.simps(4) Inl_Inr_False)

end
