(* ===== verification/Cmd_Arkiv.thy ===== *)
theory Cmd_Arkiv
  imports Cmd_Auth
begin

text \<open>
  The owner's command authority, \<open>cmdauth_arkiv.c\<close>: the device is bound to an owner key, and a
  command entity read from the chain is executed only if the owner wrote and signed it for
  this device, epoch and counter.  The storage, the hash, the signature scheme and the random
  source are parameters.
\<close>

section \<open>State\<close>

definition ARKIV_STATE :: nvs_handle where "ARKIV_STATE = (''nvs'', ''w3arkiv'')"

definition ADDR_LEN :: nat where [simp]: "ADDR_LEN = 20"
definition PUB_LEN :: nat where [simp]: "PUB_LEN = 64"
definition ARKIV_COMMAND_ID_LEN :: nat where [simp]: "ARKIV_COMMAND_ID_LEN = 36"
definition ARKIV_SECP256K1_PRIVKEY_LEN :: nat where [simp]: "ARKIV_SECP256K1_PRIVKEY_LEN = 32"

definition ARKIV_UNCLAIMED :: u8 where [simp]: "ARKIV_UNCLAIMED = 0"
definition ARKIV_MQTT_CLAIMED :: u8 where [simp]: "ARKIV_MQTT_CLAIMED = 1"
definition ARKIV_CLAIMED :: u8 where [simp]: "ARKIV_CLAIMED = 2"

record 'n arkiv =
  ak_ready :: bool
  s_dev_addr :: bytes
  s_dev_pub :: bytes
  s_owner_pub :: bytes
  s_owner_addr :: bytes
  s_have_owner :: bool
  s_enc_pub :: bytes
  s_have_enc :: bool
  s_binding_gen :: u32
  s_key_epoch :: u32
  ak_last_ctr :: u64
  s_cur_block :: u64
  s_claim_state :: u8
  ak_store :: 'n

record 'n arkiv_env =
  ak_api :: "'n nvs_api"
  arkiv_keccak256 :: "bytes \<Rightarrow> bytes"
  arkiv_secp256k1_verify :: "bytes \<Rightarrow> bytes \<Rightarrow> bytes \<Rightarrow> bool"
  arkiv_secp256k1_valid_pubkey :: "bytes \<Rightarrow> bool"
  arkiv_secp256k1_derive_address :: "bytes \<Rightarrow> bytes option"
  arkiv_secp256k1_derive_pubkey :: "bytes \<Rightarrow> bytes option"

record arkiv_cmd =
  cmd_writer :: bytes
  cmd_epoch :: u32
  cmd_counter :: u64
  cmd_block :: u64
  cmd_device_id :: "string option"
  cmd_command_id :: "string option"
  cmd_frame :: "bytes option"
  cmd_sig :: "bytes option"

text \<open>The variables of a device after power-up.\<close>

definition arkiv_boot :: "'n \<Rightarrow> 'n arkiv" where
  "arkiv_boot n = \<lparr>ak_ready = False, s_dev_addr = replicate ADDR_LEN 0, s_dev_pub = replicate PUB_LEN 0,
     s_owner_pub = replicate PUB_LEN 0, s_owner_addr = replicate ADDR_LEN 0, s_have_owner = False,
     s_enc_pub = replicate PUB_LEN 0, s_have_enc = False, s_binding_gen = 0, s_key_epoch = 0,
     ak_last_ctr = 0, s_cur_block = 0, s_claim_state = 0, ak_store = n\<rparr>"

definition pub_to_addr :: "'n arkiv_env \<Rightarrow> bytes \<Rightarrow> bytes" where
  "pub_to_addr env pub = take ADDR_LEN (drop 12 (arkiv_keccak256 env pub))"

section \<open>Start-up\<close>

definition stored_or :: "'v \<Rightarrow> esp_err + 'v \<Rightarrow> 'v" where
  "stored_or d r = (case r of Inr v \<Rightarrow> v | Inl _ \<Rightarrow> d)"

text \<open>A shorter blob overwrites the front of the buffer it is read into.\<close>

definition load_owner :: "'n arkiv_env \<Rightarrow> 'n arkiv \<Rightarrow> 'n arkiv" where
  "load_owner env s =
     (case nvs_get_blob (ak_api env) (ak_store s) ARKIV_STATE ''owner_pub'' PUB_LEN of
        Inl _ \<Rightarrow> s
      | Inr b \<Rightarrow> let s = s\<lparr>s_owner_pub := b @ drop (length b) (s_owner_pub s)\<rparr> in
          if length b = PUB_LEN then s\<lparr>s_owner_addr := pub_to_addr env (s_owner_pub s), s_have_owner := True\<rparr> else s)"

definition load_enc :: "'n arkiv_env \<Rightarrow> 'n arkiv \<Rightarrow> 'n arkiv" where
  "load_enc env s =
     (case nvs_get_blob (ak_api env) (ak_store s) ARKIV_STATE ''enc_pub'' PUB_LEN of
        Inl _ \<Rightarrow> s
      | Inr b \<Rightarrow> let s = s\<lparr>s_enc_pub := b @ drop (length b) (s_enc_pub s)\<rparr> in
          if length b = PUB_LEN then s\<lparr>s_have_enc := True\<rparr> else s)"

definition load_progress :: "'n arkiv_env \<Rightarrow> 'n arkiv \<Rightarrow> 'n arkiv" where
  "load_progress env s = (let a = ak_api env; n = ak_store s in
     s\<lparr>s_key_epoch := stored_or 0 (nvs_get_u32 a n ARKIV_STATE ''key_epoch''),
       ak_last_ctr := stored_or 0 (nvs_get_u64 a n ARKIV_STATE ''last_ctr''),
       s_cur_block := stored_or 0 (nvs_get_u64 a n ARKIV_STATE ''cur_block''),
       s_claim_state := stored_or ARKIV_UNCLAIMED (nvs_get_u8 a n ARKIV_STATE ''claim_state''),
       ak_ready := True\<rparr>)"

definition cmdauth_arkiv_init :: "'n arkiv_env \<Rightarrow> 'n arkiv \<Rightarrow> 'n arkiv \<times> esp_err" where
  "cmdauth_arkiv_init env s =
     (let a = ak_api env;
          s = s\<lparr>ak_ready := False, s_have_owner := False, s_claim_state := ARKIV_UNCLAIMED\<rparr>;
          (n, err) = nvs_flash_init_partition a (ak_store s) ''prov''; s = s\<lparr>ak_store := n\<rparr> in
      if err \<noteq> ESP_OK then (s, err)
      else let (n, err) = nvs_open a (ak_store s) PROV False; s = s\<lparr>ak_store := n\<rparr> in
      if err \<noteq> ESP_OK then (s, err)
      else case nvs_get_blob a (ak_store s) PROV ''ak_dev_priv'' ARKIV_SECP256K1_PRIVKEY_LEN of
        Inl _ \<Rightarrow> (s, ESP_ERR_NOT_FOUND)
      | Inr dev_priv \<Rightarrow>
          if length dev_priv \<noteq> ARKIV_SECP256K1_PRIVKEY_LEN then (s, ESP_ERR_NOT_FOUND)
          else case arkiv_secp256k1_derive_address env dev_priv of
            None \<Rightarrow> (s, ESP_FAIL)
          | Some addr \<Rightarrow> let s = s\<lparr>s_dev_addr := addr\<rparr> in
              case arkiv_secp256k1_derive_pubkey env dev_priv of
                None \<Rightarrow> (s, ESP_FAIL)
              | Some pub \<Rightarrow>
                  let s = s\<lparr>s_dev_pub := pub\<rparr>;
                      (n, err) = nvs_open a (ak_store s) ARKIV_STATE True; s = s\<lparr>ak_store := n\<rparr> in
                  if err \<noteq> ESP_OK then (s, err)
                  else (load_progress env (load_enc env (load_owner env s)), ESP_OK))"

section \<open>Command verification\<close>

definition persist_progress :: "'n nvs_api \<Rightarrow> u64 \<Rightarrow> u64 \<Rightarrow> 'n \<Rightarrow> 'n \<times> bool" where
  "persist_progress a ctr block n =
     (let (n, err) = nvs_open a n ARKIV_STATE True in
      if err \<noteq> ESP_OK then (n, False)
      else let (n, e) = nvs_set_u64 a n ARKIV_STATE ''last_ctr'' ctr in
      if e \<noteq> ESP_OK then (n, False)
      else let (n, e) = nvs_set_u64 a n ARKIV_STATE ''cur_block'' block in
      if e \<noteq> ESP_OK then (n, False)
      else let (n, e) = nvs_commit a n ARKIV_STATE in (n, e = ESP_OK))"

definition chars :: "string \<Rightarrow> bytes" where
  "chars = map of_char"

text \<open>The text that the owner signs, with the terminating zero of the tag.\<close>

definition bind_text :: "string \<Rightarrow> u32 \<Rightarrow> u64 \<Rightarrow> string \<Rightarrow> bytes \<Rightarrow> bytes" where
  "bind_text device_id epoch counter command_id frame =
     chars ''w3pups-cmd'' @ [0] @ chars device_id @ le32 epoch @ le64 counter @ chars command_id @ frame"

definition eip191_wrap :: "'n arkiv_env \<Rightarrow> bytes \<Rightarrow> bytes" where
  "eip191_wrap env digest =
     arkiv_keccak256 env (0x19 # chars ''Ethereum Signed Message:'' @ [0x0A] @ chars ''32'' @ digest)"

definition cmdauth_arkiv_check :: "'n arkiv_env \<Rightarrow> 'n arkiv \<Rightarrow> arkiv_cmd \<Rightarrow> 'n arkiv \<times> bytes option" where
  "cmdauth_arkiv_check env s cmd =
     (if \<not> ak_ready s then (s, None)
      else if s_claim_state s \<noteq> ARKIV_CLAIMED \<or> \<not> s_have_owner s then (s, None)
      else case (cmd_frame cmd, cmd_sig cmd) of
        (Some frame, Some sig) \<Rightarrow>
          if frame = [] then (s, None)
          else if cmd_writer cmd \<noteq> s_owner_addr s then (s, None)
          else if cmd_epoch cmd \<noteq> s_key_epoch s then (s, None)
          else if cmd_counter cmd \<le> ak_last_ctr s then (s, None)
          else if cmd_block cmd < s_cur_block s then (s, None)
          else (case (cmd_device_id cmd, cmd_command_id cmd) of
            (Some device_id, Some command_id) \<Rightarrow>
              if length command_id \<noteq> ARKIV_COMMAND_ID_LEN then (s, None)
              else let digest = arkiv_keccak256 env
                         (bind_text device_id (cmd_epoch cmd) (cmd_counter cmd) command_id frame) in
              if \<not> arkiv_secp256k1_verify env (s_owner_pub s) (eip191_wrap env digest) sig then (s, None)
              else let s = s\<lparr>ak_last_ctr := cmd_counter cmd,
                     s_cur_block := (if cmd_block cmd > s_cur_block s then cmd_block cmd else s_cur_block s)\<rparr> in
              (s\<lparr>ak_store := fst (persist_progress (ak_api env) (ak_last_ctr s) (s_cur_block s) (ak_store s))\<rparr>,
               Some frame)
          | _ \<Rightarrow> (s, None))
      | _ \<Rightarrow> (s, None))"

section \<open>Binding\<close>

text \<open>A sequence of writes stops at the first that fails; its storage and error are the result.\<close>

fun nvs_writes :: "('n \<Rightarrow> 'n \<times> esp_err) list \<Rightarrow> 'n \<Rightarrow> 'n \<times> esp_err" where
  "nvs_writes [] n = (n, ESP_OK)"
| "nvs_writes (w # ws) n = (let (n, e) = w n in if e = ESP_OK then nvs_writes ws n else (n, e))"

definition cmdauth_arkiv_bind_owner :: "'n arkiv_env \<Rightarrow> bytes \<Rightarrow> bytes \<Rightarrow> u32 \<Rightarrow> 'n arkiv \<Rightarrow> 'n arkiv \<times> esp_err" where
  "cmdauth_arkiv_bind_owner env owner_pub enc_pub epoch s =
     (if \<not> ak_ready s then (s, ESP_ERR_INVALID_STATE)
      else if \<not> arkiv_secp256k1_valid_pubkey env owner_pub \<or> \<not> arkiv_secp256k1_valid_pubkey env enc_pub
      then (s, ESP_ERR_INVALID_ARG)
      else let a = ak_api env; (n, err) = nvs_open a (ak_store s) ARKIV_STATE True; s = s\<lparr>ak_store := n\<rparr> in
      if err \<noteq> ESP_OK then (s, err)
      else let (n, err) = nvs_writes
            [\<lambda>n. nvs_set_blob a n ARKIV_STATE ''owner_pub'' owner_pub,
             \<lambda>n. nvs_set_blob a n ARKIV_STATE ''enc_pub'' enc_pub,
             \<lambda>n. nvs_set_u32 a n ARKIV_STATE ''key_epoch'' epoch,
             \<lambda>n. nvs_set_u64 a n ARKIV_STATE ''last_ctr'' 0,
             \<lambda>n. nvs_set_u8 a n ARKIV_STATE ''claim_state'' ARKIV_CLAIMED,
             \<lambda>n. nvs_commit a n ARKIV_STATE] (ak_store s);
           s = s\<lparr>ak_store := n\<rparr> in
      if err \<noteq> ESP_OK then (s, err)
      else (s\<lparr>s_owner_pub := owner_pub, s_owner_addr := pub_to_addr env owner_pub, s_enc_pub := enc_pub,
              s_have_owner := True, s_have_enc := True, s_key_epoch := epoch, ak_last_ctr := 0,
              s_claim_state := ARKIV_CLAIMED, s_binding_gen := s_binding_gen s + 1\<rparr>, ESP_OK))"

definition cmdauth_arkiv_set_epoch :: "'n arkiv_env \<Rightarrow> u32 \<Rightarrow> 'n arkiv \<Rightarrow> 'n arkiv \<times> esp_err" where
  "cmdauth_arkiv_set_epoch env epoch s =
     (if \<not> ak_ready s then (s, ESP_ERR_INVALID_STATE)
      else if epoch \<le> s_key_epoch s then (s, ESP_ERR_INVALID_ARG)
      else let a = ak_api env; (n, err) = nvs_open a (ak_store s) ARKIV_STATE True; s = s\<lparr>ak_store := n\<rparr> in
      if err \<noteq> ESP_OK then (s, err)
      else let (n, err) = nvs_writes [\<lambda>n. nvs_set_u32 a n ARKIV_STATE ''key_epoch'' epoch,
             \<lambda>n. nvs_commit a n ARKIV_STATE] (ak_store s); s = s\<lparr>ak_store := n\<rparr> in
      if err \<noteq> ESP_OK then (s, err)
      else (s\<lparr>s_key_epoch := epoch, s_binding_gen := s_binding_gen s + 1\<rparr>, ESP_OK))"

definition cmdauth_arkiv_clear :: "'n arkiv_env \<Rightarrow> 'n arkiv \<Rightarrow> 'n arkiv \<times> esp_err" where
  "cmdauth_arkiv_clear env s =
     (let a = ak_api env; (n, err) = nvs_open a (ak_store s) ARKIV_STATE True; s = s\<lparr>ak_store := n\<rparr> in
      if err \<noteq> ESP_OK then (s, err)
      else let n = foldl (\<lambda>n k. nvs_erase_key a n ARKIV_STATE k) (ak_store s)
             [''owner_pub'', ''enc_pub'', ''key_epoch'', ''last_ctr'', ''cur_block''];
           (n, err) = nvs_writes [\<lambda>n. nvs_set_u8 a n ARKIV_STATE ''claim_state'' ARKIV_UNCLAIMED,
             \<lambda>n. nvs_commit a n ARKIV_STATE] n in
      (s\<lparr>ak_store := n, s_owner_pub := replicate PUB_LEN 0, s_owner_addr := replicate ADDR_LEN 0,
         s_enc_pub := replicate PUB_LEN 0, s_have_owner := False, s_have_enc := False, s_key_epoch := 0,
         ak_last_ctr := 0, s_cur_block := 0, s_claim_state := ARKIV_UNCLAIMED,
         s_binding_gen := s_binding_gen s + 1\<rparr>, err))"

section \<open>A new device key\<close>

definition SECP256K1_N_BE :: bytes where
  "SECP256K1_N_BE =
     [0xFF, 0xFF, 0xFF, 0xFF, 0xFF, 0xFF, 0xFF, 0xFF, 0xFF, 0xFF, 0xFF, 0xFF, 0xFF, 0xFF, 0xFF, 0xFE,
      0xBA, 0xAE, 0xDC, 0xE6, 0xAF, 0x48, 0xA0, 0x3B, 0xBF, 0xD2, 0x5E, 0x8C, 0xD0, 0x36, 0x41, 0x41]"

fun be_cmp32 :: "bytes \<Rightarrow> bytes \<Rightarrow> int" where
  "be_cmp32 (a # as) (b # bs) = (if a < b then - 1 else if a > b then 1 else be_cmp32 as bs)"
| "be_cmp32 _ _ = 0"

definition is_zero32 :: "bytes \<Rightarrow> bool" where
  "is_zero32 a = list_all (\<lambda>b. b = 0) a"

text \<open>\<open>draws i\<close> is what the random source delivers in attempt \<open>i\<close>; at most 16 attempts.\<close>

fun draw_key :: "(nat \<Rightarrow> bytes) \<Rightarrow> nat \<Rightarrow> nat \<Rightarrow> bytes option" where
  "draw_key draws attempt 0 = None"
| "draw_key draws attempt (Suc left) =
     (let k = draws attempt in
      if \<not> is_zero32 k \<and> be_cmp32 k SECP256K1_N_BE < 0 then Some k else draw_key draws (Suc attempt) left)"

definition cmdauth_arkiv_regenerate_wallet ::
  "'n arkiv_env \<Rightarrow> (nat \<Rightarrow> bytes) \<Rightarrow> 'n arkiv \<Rightarrow> 'n arkiv \<times> esp_err" where
  "cmdauth_arkiv_regenerate_wallet env draws s =
     (case draw_key draws 0 16 of
        None \<Rightarrow> (s, ESP_ERR_INVALID_RESPONSE)
      | Some new_priv \<Rightarrow>
          if arkiv_secp256k1_derive_pubkey env new_priv = None \<or> arkiv_secp256k1_derive_address env new_priv = None
          then (s, ESP_FAIL)
          else let a = ak_api env; (n, err) = nvs_open a (ak_store s) PROV True; s = s\<lparr>ak_store := n\<rparr> in
          if err \<noteq> ESP_OK then (s, err)
          else let (n, err) = nvs_writes [\<lambda>n. nvs_set_blob a n PROV ''ak_dev_priv'' new_priv,
                 \<lambda>n. nvs_commit a n PROV] (ak_store s); s = s\<lparr>ak_store := n\<rparr> in
          if err \<noteq> ESP_OK then (s, err)
          else (fst (cmdauth_arkiv_clear env s), ESP_OK))"

section \<open>Who may command the device\<close>

datatype arkiv_event = Command arkiv_cmd | Epoch_Bump u32 | Unbind

fun arkiv_step :: "'n arkiv_env \<Rightarrow> 'n arkiv \<Rightarrow> arkiv_event \<Rightarrow> 'n arkiv \<times> bytes option" where
  "arkiv_step env s (Command c) = cmdauth_arkiv_check env s c"
| "arkiv_step env s (Epoch_Bump e) = (fst (cmdauth_arkiv_set_epoch env e s), None)"
| "arkiv_step env s Unbind = (fst (cmdauth_arkiv_clear env s), None)"

definition signed_command :: "'n arkiv_env \<Rightarrow> bytes \<Rightarrow> arkiv_cmd \<Rightarrow> bool" where
  "signed_command env pub c \<longleftrightarrow> (\<exists>d i f sig. cmd_device_id c = Some d \<and> cmd_command_id c = Some i \<and>
     cmd_frame c = Some f \<and> cmd_sig c = Some sig \<and> length i = ARKIV_COMMAND_ID_LEN \<and>
     arkiv_secp256k1_verify env pub
       (eip191_wrap env (arkiv_keccak256 env (bind_text d (cmd_epoch c) (cmd_counter c) i f))) sig)"

fun authorised :: "'n arkiv_env \<Rightarrow> bytes \<Rightarrow> arkiv_event \<Rightarrow> bool" where
  "authorised env pub (Command c) \<longleftrightarrow> cmd_writer c = pub_to_addr env pub \<and> signed_command env pub c"
| "authorised env pub _ \<longleftrightarrow> False"

fun event_key :: "arkiv_event \<Rightarrow> u32 \<times> u64 \<times> u64" where
  "event_key (Command c) = (cmd_epoch c, cmd_counter c, cmd_block c)"
| "event_key _ = (0, 0, 0)"

text \<open>The epoch and the block do not fall and the counter grows.\<close>

definition later :: "u32 \<times> u64 \<times> u64 \<Rightarrow> u32 \<times> u64 \<times> u64 \<Rightarrow> bool" where
  "later x y \<longleftrightarrow> fst x \<le> fst y \<and> fst (snd x) < fst (snd y) \<and> snd (snd x) \<le> snd (snd y)"

definition admits :: "'n arkiv \<Rightarrow> u32 \<times> u64 \<times> u64 \<Rightarrow> bool" where
  "admits s k \<longleftrightarrow> s_claim_state s = ARKIV_CLAIMED \<and> later (s_key_epoch s, ak_last_ctr s, s_cur_block s) k"

lemma check_accepts:
  assumes "cmdauth_arkiv_check env s c = (s', Some f)"
  shows "s_claim_state s = ARKIV_CLAIMED" "cmd_epoch c = s_key_epoch s" "ak_last_ctr s < cmd_counter c"
    "s_cur_block s \<le> cmd_block c" "cmd_writer c = s_owner_addr s" "signed_command env (s_owner_pub s) c"
    "s_claim_state s' = s_claim_state s" "s_owner_pub s' = s_owner_pub s" "s_owner_addr s' = s_owner_addr s"
    "s_key_epoch s' = s_key_epoch s" "ak_last_ctr s' = cmd_counter c" "s_cur_block s' = cmd_block c"
  using assms by (auto simp: cmdauth_arkiv_check_def Let_def signed_command_def not_le not_less
      split: if_splits option.splits prod.splits)

lemma check_refuses: "cmdauth_arkiv_check env s c = (s', None) \<Longrightarrow> s' = s"
  by (auto simp: cmdauth_arkiv_check_def Let_def split: if_splits option.splits prod.splits)

lemma set_epoch_frame:
  "s_claim_state (fst (cmdauth_arkiv_set_epoch env e s)) = s_claim_state s"
  "s_owner_pub (fst (cmdauth_arkiv_set_epoch env e s)) = s_owner_pub s"
  "s_owner_addr (fst (cmdauth_arkiv_set_epoch env e s)) = s_owner_addr s"
  "ak_last_ctr (fst (cmdauth_arkiv_set_epoch env e s)) = ak_last_ctr s"
  "s_cur_block (fst (cmdauth_arkiv_set_epoch env e s)) = s_cur_block s"
  "s_key_epoch s \<le> s_key_epoch (fst (cmdauth_arkiv_set_epoch env e s))"
  by (simp_all add: cmdauth_arkiv_set_epoch_def split_beta Let_def less_imp_le)

lemma clear_cases:
  "fst (cmdauth_arkiv_clear env s) = s\<lparr>ak_store := fst (nvs_open (ak_api env) (ak_store s) ARKIV_STATE True)\<rparr> \<or>
   s_claim_state (fst (cmdauth_arkiv_clear env s)) = ARKIV_UNCLAIMED"
  by (simp add: cmdauth_arkiv_clear_def split_beta Let_def)

lemma admits_step:
  assumes "arkiv_step env s e = (s', r)" and "admits s' k"
  shows "admits s k"
proof (cases e)
  case (Command c)
  show ?thesis
  proof (cases r)
    case None
    then show ?thesis using assms Command check_refuses by fastforce
  next
    case (Some f)
    note a = check_accepts [of env s c s' f]
    show ?thesis using assms a
      by (auto simp: Command Some admits_def later_def intro: order_trans less_trans)
  qed
next
  case (Epoch_Bump e)
  then show ?thesis using assms set_epoch_frame [where env = env and e = e and s = s]
    by (auto simp: admits_def later_def intro: order_trans)
next
  case Unbind
  then show ?thesis using assms clear_cases [of env s] by (auto simp: admits_def)
qed

interpretation arkiv: replay_guard "arkiv_step env" event_key admits later "\<lambda>s. True" for env
proof
  fix s e s' f k r
  show "admits s (event_key e)" if "arkiv_step env s e = (s', Some f)"
    using that check_accepts(1-4) [of env s _ s' f] by (cases e) (auto simp: admits_def later_def)
  show "later (event_key e) k" if "arkiv_step env s e = (s', Some f)" and "admits s' k"
    using that check_accepts(2,8-12) [of env s _ s' f] by (cases e) (auto simp: admits_def later_def)
  show "admits s k" if "arkiv_step env s e = (s', r)" and "admits s' k"
    using that by (rule admits_step)
qed simp

text \<open>As long as the device is claimed, its owner is the given one.\<close>

definition owned_by :: "'n arkiv_env \<Rightarrow> bytes \<Rightarrow> 'n arkiv \<Rightarrow> bool" where
  "owned_by env pub s \<longleftrightarrow> (s_claim_state s = ARKIV_CLAIMED \<longrightarrow>
     s_owner_pub s = pub \<and> s_owner_addr s = pub_to_addr env pub)"

lemma owned_step:
  assumes "owned_by env pub s" and "arkiv_step env s e = (s', r)"
  shows "owned_by env pub s'" and "r = Some f \<Longrightarrow> authorised env pub e"
proof -
  show "owned_by env pub s'"
  proof (cases e)
    case (Command c)
    then show ?thesis using assms check_accepts [of env s c s'] check_refuses [of env s c s']
      by (cases r) (auto simp: owned_by_def)
  next
    case (Epoch_Bump e)
    then show ?thesis using assms set_epoch_frame [where env = env and e = e and s = s] by (auto simp: owned_by_def)
  next
    case Unbind
    then show ?thesis using assms clear_cases [of env s] by (auto simp: owned_by_def)
  qed
  show "authorised env pub e" if "r = Some f"
    using assms that check_accepts [of env s _ s' f] by (cases e) (auto simp: owned_by_def)
qed

lemma owned_run:
  assumes "owned_by env pub s" and "x \<in> set (verified (arkiv_step env) s es)"
  shows "authorised env pub x"
  using assms
proof (induction es arbitrary: s)
  case (Cons e es)
  obtain s' r where v: "arkiv_step env s e = (s', r)" by fastforce
  then show ?case
    using Cons.IH [of s'] Cons.prems owned_step [OF Cons.prems(1) v] by (cases r) auto
qed simp

lemma bind_fields:
  assumes "cmdauth_arkiv_bind_owner env owner_pub enc_pub epoch s = (s', ESP_OK)"
  shows "owned_by env owner_pub s'" "s_key_epoch s' = epoch" "ak_last_ctr s' = 0" "s_cur_block s' = s_cur_block s"
    "arkiv_secp256k1_valid_pubkey env owner_pub"
  using assms by (auto simp: cmdauth_arkiv_bind_owner_def split_beta Let_def owned_by_def split: if_splits)

text \<open>
  C6. Only the bound owner commands the device, each command once: after an owner has been bound,
  along every sequence of commands, epoch bumps and unbindings, every command that is accepted was
  written and signed by that owner for this epoch, counter and command id, the epochs are not
  below the one the owner was bound with, the counters strictly increase, and neither epochs nor
  blocks ever go back.
\<close>

theorem only_owner_commands:
  assumes "cmdauth_arkiv_bind_owner env owner_pub enc_pub epoch s = (s', ESP_OK)"
  shows "list_all (authorised env owner_pub) (verified (arkiv_step env) s' es) \<and>
     sorted_wrt later ((epoch, 0, s_cur_block s) # map event_key (verified (arkiv_step env) s' es))"
proof
  note b = bind_fields [OF assms]
  show "list_all (authorised env owner_pub) (verified (arkiv_step env) s' es)"
    using owned_run [OF b(1)] by (simp add: list_all_iff)
  show "sorted_wrt later ((epoch, 0, s_cur_block s) # map event_key (verified (arkiv_step env) s' es))"
    using arkiv.increasing [where env = env and s = s' and ms = es]
      arkiv.verified_above [where env = env and s = s' and ms = es] b
    by (auto simp: admits_def)
qed

definition sample_arkiv_env :: "(ram \<times> ram) arkiv_env" where
  "sample_arkiv_env = \<lparr>ak_api = ram_api True, arkiv_keccak256 = (\<lambda>m. replicate 32 (sum_list m)),
     arkiv_secp256k1_verify = (\<lambda>pub digest sig. pub = replicate 64 9 \<and> sig = digest),
     arkiv_secp256k1_valid_pubkey = (\<lambda>pub. length pub = 64),
     arkiv_secp256k1_derive_address = (\<lambda>k. Some (take 20 k)), arkiv_secp256k1_derive_pubkey = (\<lambda>k. Some (k @ k))\<rparr>"

definition sample_owner_command :: "u64 \<Rightarrow> arkiv_cmd" where
  "sample_owner_command ctr = \<lparr>cmd_writer = pub_to_addr sample_arkiv_env (replicate 64 9), cmd_epoch = 4,
     cmd_counter = ctr, cmd_block = 100, cmd_device_id = Some ''8948'', cmd_command_id = Some (replicate 36 (CHR ''a'')),
     cmd_frame = Some [1, 2], cmd_sig = Some (eip191_wrap sample_arkiv_env (arkiv_keccak256 sample_arkiv_env
       (bind_text ''8948'' 4 ctr (replicate 36 (CHR ''a'')) [1, 2])))\<rparr>"

definition bound_device :: "(ram \<times> ram) arkiv" where
  "bound_device = fst (cmdauth_arkiv_bind_owner sample_arkiv_env (replicate 64 9) (replicate 64 8) 4
     ((arkiv_boot (empty_ram, empty_ram))\<lparr>ak_ready := True\<rparr>))"

lemma sample_bind:
  "cmdauth_arkiv_bind_owner sample_arkiv_env (replicate 64 9) (replicate 64 8) 4
     ((arkiv_boot (empty_ram, empty_ram))\<lparr>ak_ready := True\<rparr>) = (bound_device, ESP_OK)"
  by (simp add: bound_device_def cmdauth_arkiv_bind_owner_def sample_arkiv_env_def ram_api_def arkiv_boot_def)

lemma sample_owner_check:
  assumes "ak_ready s" "s_claim_state s = ARKIV_CLAIMED" "s_have_owner s" "s_owner_pub s = replicate 64 9"
    "s_owner_addr s = pub_to_addr sample_arkiv_env (replicate 64 9)" "s_key_epoch s = 4" "s_cur_block s \<le> 100"
  shows "cmdauth_arkiv_check sample_arkiv_env s (sample_owner_command ctr) =
     (if ak_last_ctr s < ctr then
        (s\<lparr>ak_last_ctr := ctr, s_cur_block := 100,
           ak_store := fst (persist_progress (ram_api True) ctr 100 (ak_store s))\<rparr>, Some [1, 2])
      else (s, None))"
  using assms
  by (auto simp: cmdauth_arkiv_check_def sample_owner_command_def Let_def sample_arkiv_env_def not_le not_less)

theorem only_owner_commands_witness:
  "map event_key (verified (arkiv_step sample_arkiv_env) bound_device
     [Command (sample_owner_command 1), Command (sample_owner_command 1), Command (sample_owner_command 2)]) =
     [(4, 1, 100), (4, 2, 100)] \<and>
   list_all (authorised sample_arkiv_env (replicate 64 9)) (verified (arkiv_step sample_arkiv_env) bound_device
     [Command (sample_owner_command 1), Command (sample_owner_command 1), Command (sample_owner_command 2)])"
proof
  show "list_all (authorised sample_arkiv_env (replicate 64 9)) (verified (arkiv_step sample_arkiv_env) bound_device
     [Command (sample_owner_command 1), Command (sample_owner_command 1), Command (sample_owner_command 2)])"
    using only_owner_commands [OF sample_bind] by blast
  have "ak_ready bound_device" "s_claim_state bound_device = ARKIV_CLAIMED" "s_have_owner bound_device"
    "s_owner_pub bound_device = replicate 64 9" "s_owner_addr bound_device = pub_to_addr sample_arkiv_env (replicate 64 9)"
    "s_key_epoch bound_device = 4" "s_cur_block bound_device = 0" "ak_last_ctr bound_device = 0"
    by (simp_all add: bound_device_def cmdauth_arkiv_bind_owner_def sample_arkiv_env_def ram_api_def arkiv_boot_def)
  then show "map event_key (verified (arkiv_step sample_arkiv_env) bound_device
     [Command (sample_owner_command 1), Command (sample_owner_command 1), Command (sample_owner_command 2)]) =
     [(4, 1, 100), (4, 2, 100)]"
    by (simp add: sample_owner_check) (simp add: sample_owner_command_def)
qed

section \<open>Device keys\<close>

text \<open>
  A regenerated device key is a valid private scalar: whatever the random source delivers, the key
  that is stored is 32 bytes of it that read, as a big-endian number, between 1 and the group
  order minus 1, and 16 bad draws are reported instead of stored.
\<close>

lemma be_cmp32_less:
  "length a = length b \<Longrightarrow> be_cmp32 a b < 0 \<longleftrightarrow> be_nat a < be_nat b"
proof (induction a b rule: be_cmp32.induct)
  case (1 a as b bs)
  have lead: "be_nat (x # xs) < be_nat (y # ys)" if "x < y" "length xs = length ys" for x y :: u8 and xs ys
  proof -
    have "unat x + 1 \<le> unat y" using that(1) by (simp add: word_less_nat_alt)
    then have "(unat x + 1) * 256 ^ length ys \<le> unat y * 256 ^ length ys" by (rule mult_le_mono1)
    then show ?thesis using be_nat_bound [of xs] that(2) by (simp add: be_nat.simps algebra_simps)
  qed
  show ?case
    using 1 lead [of a b as bs] lead [of b a bs as] by (auto simp: be_nat.simps not_less_iff_gr_or_eq)
qed auto

lemma be_nat_zero: "be_nat a = 0 \<longleftrightarrow> is_zero32 a"
  by (induction a) (auto simp: is_zero32_def unsigned_eq_0_iff)

lemma draw_key_valid:
  "draw_key draws i left = Some k \<Longrightarrow> \<exists>j. i \<le> j \<and> j < i + left \<and> k = draws j \<and> \<not> is_zero32 k \<and> be_cmp32 k SECP256K1_N_BE < 0"
proof (induction left arbitrary: i)
  case (Suc left)
  show ?case
  proof (cases "\<not> is_zero32 (draws i) \<and> be_cmp32 (draws i) SECP256K1_N_BE < 0")
    case True
    with Suc.prems show ?thesis by (auto simp: Let_def intro!: exI [of _ i])
  next
    case False
    with Suc.prems have "draw_key draws (Suc i) left = Some k" by (simp add: Let_def split: if_splits)
    from Suc.IH [OF this] show ?thesis by (auto intro: less_imp_le Suc_leD)
  qed
qed simp

lemma drawn_key_in_range:
  assumes "\<And>i. length (draws i) = 32" and "draw_key draws 0 16 = Some k"
  shows "0 < be_nat k" and "be_nat k < 0xFFFFFFFFFFFFFFFFFFFFFFFFFFFFFFFEBAAEDCE6AF48A03BBFD25E8CD0364141"
proof -
  obtain j where k: "k = draws j" "\<not> is_zero32 k" "be_cmp32 k SECP256K1_N_BE < 0"
    using draw_key_valid [OF assms(2)] by blast
  show "0 < be_nat k" using k(2) be_nat_zero by (metis gr0I)
  have "be_nat SECP256K1_N_BE = 0xFFFFFFFFFFFFFFFFFFFFFFFFFFFFFFFEBAAEDCE6AF48A03BBFD25E8CD0364141"
    by (simp add: SECP256K1_N_BE_def)
  moreover have "be_nat k < be_nat SECP256K1_N_BE"
    using k(3) assms(1) [of j] by (simp add: be_cmp32_less k(1) SECP256K1_N_BE_def)
  ultimately show "be_nat k < 0xFFFFFFFFFFFFFFFFFFFFFFFFFFFFFFFEBAAEDCE6AF48A03BBFD25E8CD0364141" by simp
qed

end
