(* ===== verification/Arkiv_Rlp.thy ===== *)
theory Arkiv_Rlp
  imports Prelude
begin

text \<open>
  The transaction encoder of the Arkiv backend, first layer: \<open>rlp.cpp\<close>.  Every function of the
  source appends to a vector; here it returns the bytes it appends.  The reference is a tree of
  byte strings and lists with a decoder, and the encoder is proved to be inverted by it.
\<close>

section \<open>The encoder\<close>

fun hex_nibble :: "char \<Rightarrow> int" where
  "hex_nibble c = (let v = of_char c :: int in
     if 48 \<le> v \<and> v \<le> 57 then v - 48
     else if 97 \<le> v \<and> v \<le> 102 then v - 97 + 10
     else if 65 \<le> v \<and> v \<le> 70 then v - 65 + 10
     else - 1)"

text \<open>The loop over the eight bytes of a 64-bit value that skips leading zeros.\<close>

definition minimal_be :: "u64 \<Rightarrow> bytes" where
  "minimal_be v = foldl (\<lambda>be i. let b = ucast (drop_bit (i * 8) v AND 0xff) in
     if be \<noteq> [] \<or> b \<noteq> 0 then be @ [b] else be) [] [7, 6, 5, 4, 3, 2, 1, 0]"

definition emit_length :: "nat \<Rightarrow> u8 \<Rightarrow> u8 \<Rightarrow> bytes" where
  "emit_length len short_base long_base =
     (if len < 56 then [short_base + of_nat len]
      else let be = minimal_be (of_nat len) in (long_base + of_nat (length be)) # be)"

definition encode_bytes :: "bytes \<Rightarrow> bytes" where
  "encode_bytes data =
     (if length data = 1 \<and> data ! 0 < 0x80 then [data ! 0]
      else emit_length (length data) 0x80 0xb7 @ data)"

definition encode_string :: "string \<Rightarrow> bytes" where
  "encode_string s = encode_bytes (map of_char s)"

definition encode_uint :: "u64 \<Rightarrow> bytes" where
  "encode_uint value = (if value = 0 then [0x80] else encode_bytes (minimal_be value))"

fun hex_pairs :: "string \<Rightarrow> bytes" where
  "hex_pairs (a # b # r) =
     (let hi = hex_nibble a; lo = hex_nibble b;
          (hi, lo) = (if hi < 0 \<or> lo < 0 then (0, 0) else (hi, lo)) in
      word_of_int (hi * 16 + lo) # hex_pairs r)"
| "hex_pairs _ = []"

definition encode_hex :: "string \<Rightarrow> bytes" where
  "encode_hex hex =
     (let hex = (if length hex \<ge> 2 \<and> hex ! 0 = CHR ''0'' \<and> (hex ! 1 = CHR ''x'' \<or> hex ! 1 = CHR ''X'')
                 then drop 2 hex else hex) in
      encode_bytes (if odd (length hex)
        then word_of_int (max 0 (hex_nibble (hex ! 0))) # hex_pairs (tl hex) else hex_pairs hex))"

definition encode_list_raw :: "bytes \<Rightarrow> bytes" where
  "encode_list_raw children = emit_length (length children) 0xc0 0xf7 @ children"

section \<open>Lengths\<close>

lemma be_nat_snoc: "be_nat (bs @ [b]) = be_nat bs * 256 + unat b"
  by (induction bs) (simp_all add: algebra_simps)

lemma minimal_be_fold:
  "foldl (\<lambda>be b. if be \<noteq> [] \<or> b \<noteq> (0 :: u8) then be @ [b] else be) acc bs =
     (if acc = [] then dropWhile (\<lambda>b. b = 0) bs else acc @ bs)"
  by (induction bs arbitrary: acc) simp_all

lemma low_byte: "ucast (x AND 0xff) = (ucast (x :: u64) :: u8)"
  unfolding byte_mask by (rule bit_word_eqI) (simp add: bit_simps)

lemma minimal_be_bytes: "minimal_be v = dropWhile (\<lambda>b. b = 0) (rev (le64 v))"
proof -
  have "rev (le64 v) = map (\<lambda>i. ucast (drop_bit (i * 8) v)) [7, 6, 5, 4, 3, 2, 1, 0]" by (simp add: le64_def)
  then show ?thesis using minimal_be_fold [of "[]" "rev (le64 v)"]
    unfolding minimal_be_def low_byte Let_def by (simp only: foldl_map if_True refl)
qed

lemma byte_of_u64: "unat (ucast (drop_bit n (v :: u64)) :: u8) = unat v div 2 ^ n mod 256"
proof -
  have "unat (ucast (drop_bit n v) :: u8) = unat (drop_bit n v) mod 256"
    by (simp add: unsigned_ucast_eq take_bit_eq_mod)
  then show ?thesis by (simp only: unat_drop_bit_eq drop_bit_eq_div [of n "unat v"])
qed

lemma be_nat_le64: "be_nat (rev (le64 v)) = unat v"
proof -
  have step: "unat v div 2 ^ m * 256 + unat v div 2 ^ n mod 256 = unat v div 2 ^ n" if "m = n + 8" for m n
  proof -
    have "unat v div 2 ^ m = unat v div 2 ^ n div 256" by (simp add: that power_add div_mult2_eq)
    then show ?thesis by (simp only: div_mult_mod_eq)
  qed
  have top: "unat v div 2 ^ 64 = 0" using unat_bound [of v] by simp
  have steps: "unat v div 2 ^ 64 * 256 + unat v div 2 ^ 56 mod 256 = unat v div 2 ^ 56"
    "unat v div 2 ^ 56 * 256 + unat v div 2 ^ 48 mod 256 = unat v div 2 ^ 48"
    "unat v div 2 ^ 48 * 256 + unat v div 2 ^ 40 mod 256 = unat v div 2 ^ 40"
    "unat v div 2 ^ 40 * 256 + unat v div 2 ^ 32 mod 256 = unat v div 2 ^ 32"
    "unat v div 2 ^ 32 * 256 + unat v div 2 ^ 24 mod 256 = unat v div 2 ^ 24"
    "unat v div 2 ^ 24 * 256 + unat v div 2 ^ 16 mod 256 = unat v div 2 ^ 16"
    "unat v div 2 ^ 16 * 256 + unat v div 2 ^ 8 mod 256 = unat v div 2 ^ 8"
    "unat v div 2 ^ 8 * 256 + unat v div 2 ^ 0 mod 256 = unat v div 2 ^ 0"
    by (rule step; simp)+
  have "rev (le64 v) = ((((((([] @ [ucast (drop_bit 56 v)]) @ [ucast (drop_bit 48 v)]) @ [ucast (drop_bit 40 v)])
      @ [ucast (drop_bit 32 v)]) @ [ucast (drop_bit 24 v)]) @ [ucast (drop_bit 16 v)]) @ [ucast (drop_bit 8 v)])
      @ [ucast (drop_bit 0 v)]" by (simp add: le64_def)
  then have "be_nat (rev (le64 v)) = (((((((unat v div 2 ^ 64 * 256 + unat v div 2 ^ 56 mod 256) * 256
      + unat v div 2 ^ 48 mod 256) * 256 + unat v div 2 ^ 40 mod 256) * 256 + unat v div 2 ^ 32 mod 256) * 256
      + unat v div 2 ^ 24 mod 256) * 256 + unat v div 2 ^ 16 mod 256) * 256 + unat v div 2 ^ 8 mod 256) * 256
      + unat v div 2 ^ 0 mod 256"
    unfolding top by (simp only: be_nat_snoc byte_of_u64 be_nat.simps mult_0)
  also have "\<dots> = unat v" by (simp only: steps) simp
  finally show ?thesis .
qed

lemma be_nat_dropWhile: "be_nat (dropWhile (\<lambda>b. b = 0) bs) = be_nat bs"
  by (induction bs) simp_all

lemma minimal_be_value: "be_nat (minimal_be v) = unat v"
  by (simp add: minimal_be_bytes be_nat_dropWhile be_nat_le64)

lemma minimal_be_length: "length (minimal_be v) \<le> 8"
  using length_dropWhile_le [of "\<lambda>b. b = 0" "rev (le64 v)"] by (simp add: minimal_be_bytes)

lemma minimal_be_nonempty: "v \<noteq> 0 \<Longrightarrow> minimal_be v \<noteq> []"
  using minimal_be_value [of v] by (auto simp: unsigned_eq_0_iff)

section \<open>The reference\<close>

datatype rlp = Str bytes | Lst "rlp list"

fun rlp_enc :: "rlp \<Rightarrow> bytes" where
  "rlp_enc (Str b) = encode_bytes b"
| "rlp_enc (Lst xs) = encode_list_raw (concat (map rlp_enc xs))"

text \<open>One item: whether it is a list, its contents and the rest of the input.\<close>

definition cut :: "bool \<Rightarrow> nat \<Rightarrow> bytes \<Rightarrow> (bool \<times> bytes \<times> bytes) option" where
  "cut l len bs = (if len \<le> length bs then Some (l, take len bs, drop len bs) else None)"

definition cut_long :: "bool \<Rightarrow> nat \<Rightarrow> bytes \<Rightarrow> (bool \<times> bytes \<times> bytes) option" where
  "cut_long l k bs = (if k \<le> length bs then cut l (be_nat (take k bs)) (drop k bs) else None)"

fun rlp_split :: "bytes \<Rightarrow> (bool \<times> bytes \<times> bytes) option" where
  "rlp_split [] = None"
| "rlp_split (b # bs) =
     (if unat b < 0x80 then Some (False, [b], bs)
      else if unat b \<le> 0xb7 then cut False (unat b - 0x80) bs
      else if unat b \<le> 0xbf then cut_long False (unat b - 0xb7) bs
      else if unat b \<le> 0xf7 then cut True (unat b - 0xc0) bs
      else cut_long True (unat b - 0xf7) bs)"

fun rlp_item :: "nat \<Rightarrow> bytes \<Rightarrow> (rlp \<times> bytes) option"
  and rlp_items :: "nat \<Rightarrow> bytes \<Rightarrow> rlp list option" where
  "rlp_item 0 bs = None"
| "rlp_item (Suc n) bs = (case rlp_split bs of
     None \<Rightarrow> None
   | Some (l, payload, rest) \<Rightarrow>
       if l then (case rlp_items n payload of None \<Rightarrow> None | Some xs \<Rightarrow> Some (Lst xs, rest))
       else Some (Str payload, rest))"
| "rlp_items n [] = Some []"
| "rlp_items 0 (b # bs) = None"
| "rlp_items (Suc n) (b # bs) = (case rlp_item n (b # bs) of
     None \<Rightarrow> None
   | Some (x, rest) \<Rightarrow> (case rlp_items n rest of None \<Rightarrow> None | Some xs \<Rightarrow> Some (x # xs)))"

definition rlp_decode :: "bytes \<Rightarrow> (rlp \<times> bytes) option" where
  "rlp_decode bs = rlp_item (2 * length bs) bs"

lemma long_header:
  assumes "56 \<le> len" and "len < 2 ^ 64"
  shows "length (minimal_be (of_nat len)) \<in> {1..8}" and "be_nat (minimal_be (of_nat len)) = len"
proof -
  have u: "unat (of_nat len :: u64) = len" using assms(2) by (simp add: unat_of_nat_small)
  then show "be_nat (minimal_be (of_nat len)) = len" by (simp add: minimal_be_value)
  have "(of_nat len :: u64) \<noteq> 0" using u assms(1) by auto
  then show "length (minimal_be (of_nat len)) \<in> {1..8}"
    using minimal_be_nonempty minimal_be_length [of "of_nat len"] by (auto simp: Suc_le_eq)
qed

lemma unat_header: "unat (b :: u8) + k < 256 \<Longrightarrow> unat (b + of_nat k) = unat b + k"
  by (simp add: unat_word_ariths unat_of_nat_small)

text \<open>A header written with the bases of a kind is read back as that kind and length.\<close>

lemma split_emit:
  assumes "length data < 2 ^ 64"
  shows "length data \<noteq> 1 \<or> 0x80 \<le> unat (data ! 0) \<Longrightarrow>
      rlp_split (emit_length (length data) 0x80 0xb7 @ data @ rest) = Some (False, data, rest)"
    and "rlp_split (emit_length (length data) 0xc0 0xf7 @ data @ rest) = Some (True, data, rest)"
proof -
  note l = long_header [OF _ assms]
  let ?m = "minimal_be (of_nat (length data))"
  have "unat (0xb7 + of_nat (length ?m) :: u8) = 0xb7 + length ?m" and
    "unat (0xf7 + of_nat (length ?m) :: u8) = 0xf7 + length ?m"
    using unat_header [of "0xb7" "length ?m"] unat_header [of "0xf7" "length ?m"] minimal_be_length [of "of_nat (length data)"]
    by simp_all
  moreover have "unat (0x80 + of_nat (length data) :: u8) = 0x80 + length data"
    "unat (0xc0 + of_nat (length data) :: u8) = 0xc0 + length data" if "length data < 56"
    using that unat_header [of "0x80" "length data"] unat_header [of "0xc0" "length data"] by simp_all
  ultimately show "rlp_split (emit_length (length data) 0x80 0xb7 @ data @ rest) = Some (False, data, rest)"
    and "rlp_split (emit_length (length data) 0xc0 0xf7 @ data @ rest) = Some (True, data, rest)"
    using l by (cases "length data < 56"; auto simp: emit_length_def cut_def cut_long_def Let_def)+
qed

lemma split_string:
  assumes "length data < 2 ^ 64"
  shows "rlp_split (encode_bytes data @ rest) = Some (False, data, rest)"
proof (cases "length data = 1 \<and> data ! 0 < 0x80")
  case True
  then obtain b where "data = [b]" "unat b < 0x80" by (auto simp: length_Suc_conv word_less_nat_alt)
  then show ?thesis by (simp add: encode_bytes_def word_less_nat_alt)
next
  case False
  then show ?thesis using split_emit(1) [OF assms] by (auto simp: encode_bytes_def word_less_nat_alt not_less)
qed

lemma enc_nonempty: "0 < length (rlp_enc x)"
  by (cases x) (auto simp: encode_bytes_def encode_list_raw_def emit_length_def Let_def)

lemma list_shorter: "length c < length (encode_list_raw c)"
  by (simp add: encode_list_raw_def emit_length_def Let_def)

lemma string_shorter: "length b \<le> length (encode_bytes b)"
  by (auto simp: encode_bytes_def)

lemma items_concat:
  assumes "\<And>x n rest. x \<in> set xs \<Longrightarrow> 2 * length (rlp_enc x) \<le> n \<Longrightarrow> rlp_item n (rlp_enc x @ rest) = Some (x, rest)"
    and "2 * length (concat (map rlp_enc xs)) < n"
  shows "rlp_items n (concat (map rlp_enc xs)) = Some xs"
  using assms
proof (induction xs arbitrary: n)
  case (Cons x xs)
  obtain m where n: "n = Suc m" using Cons.prems(2) by (cases n) auto
  let ?r = "concat (map rlp_enc xs)"
  have len: "2 * length (rlp_enc x) \<le> m" "2 * length ?r < m" using Cons.prems(2) enc_nonempty [of x] by (simp_all add: n del: length_greater_0_conv)
  obtain b bs where b: "rlp_enc x @ ?r = b # bs" using enc_nonempty [of x] by (cases "rlp_enc x") auto
  have "rlp_item m (b # bs) = Some (x, ?r)" unfolding b [symmetric] by (rule Cons.prems(1)) (use len in auto)
  moreover have "rlp_items m ?r = Some xs" by (rule Cons.IH) (use Cons.prems(1) len in auto)
  ultimately show ?case by (simp add: b n)
qed simp

lemma rlp_item_enc:
  "length (rlp_enc x) < 2 ^ 64 \<Longrightarrow> 2 * length (rlp_enc x) \<le> n \<Longrightarrow> rlp_item n (rlp_enc x @ rest) = Some (x, rest)"
proof (induction x arbitrary: n rest)
  case (Str b)
  obtain m where n: "n = Suc m" using Str.prems(2) enc_nonempty [of "Str b"] by (cases n) auto
  have "length b < 2 ^ 64" using string_shorter [of b] Str.prems(1) by simp
  then show ?case by (simp add: n split_string)
next
  case (Lst xs)
  let ?c = "concat (map rlp_enc xs)"
  obtain m where n: "n = Suc m" using Lst.prems(2) enc_nonempty [of "Lst xs"] by (cases n) auto
  have c: "length ?c < 2 ^ 64" "2 * length ?c < m" using list_shorter [of ?c] Lst.prems by (auto simp: n)
  have "rlp_items m ?c = Some xs"
  proof (rule items_concat [OF _ c(2)])
    fix x n rest assume x: "x \<in> set xs" and l: "2 * length (rlp_enc x) \<le> n"
    have "length (rlp_enc x) \<le> length ?c" using x by (auto simp: length_concat o_def intro: member_le_sum_list)
    then show "rlp_item n (rlp_enc x @ rest) = Some (x, rest)" using Lst.IH [OF x _ l] c(1) by simp
  qed
  then show ?case using split_emit(2) [OF c(1)] by (simp add: n encode_list_raw_def)
qed

text \<open>
  The RLP encoder is inverted by the decoder: every tree of byte strings and lists whose encoding
  is shorter than \<open>2^64\<close> bytes is read back from its encoding, with whatever follows it left over.
\<close>

theorem rlp_round_trip:
  assumes "length (rlp_enc x) < 2 ^ 64"
  shows "rlp_decode (rlp_enc x @ rest) = Some (x, rest)"
  unfolding rlp_decode_def by (rule rlp_item_enc [OF assms]) simp

lemma emit_bound: "length (emit_length len a b) \<le> 9"
  using minimal_be_length [of "of_nat len"] by (simp add: emit_length_def Let_def)

lemma string_bound: "length (encode_bytes b) \<le> length b + 9"
  using emit_bound [of "length b" "0x80" "0xb7"] by (simp add: encode_bytes_def)

theorem rlp_round_trip_witness:
  "rlp_enc (Lst [Str [0x7f], Lst [], Str [0x80, 1]]) = [0xc5, 0x7f, 0xc0, 0x82, 0x80, 1] \<and>
   rlp_decode (rlp_enc (Lst [Str [0x7f], Lst [], Str [0x80, 1]]) @ [9]) =
     Some (Lst [Str [0x7f], Lst [], Str [0x80, 1]], [9]) \<and>
   rlp_decode (rlp_enc (Str (replicate 60 1)) @ [9]) = Some (Str (replicate 60 1), [9])"
proof (intro conjI)
  show e: "rlp_enc (Lst [Str [0x7f], Lst [], Str [0x80, 1]]) = [0xc5, 0x7f, 0xc0, 0x82, 0x80, 1]"
    by (simp add: encode_bytes_def encode_list_raw_def emit_length_def)
  show "rlp_decode (rlp_enc (Lst [Str [0x7f], Lst [], Str [0x80, 1]]) @ [9]) =
     Some (Lst [Str [0x7f], Lst [], Str [0x80, 1]], [9])"
    by (rule rlp_round_trip) (simp only: e, simp)
  show "rlp_decode (rlp_enc (Str (replicate 60 1)) @ [9]) = Some (Str (replicate 60 1), [9])"
    by (rule rlp_round_trip) (rule le_less_trans, simp, rule string_bound, simp)
qed

end
