(* ===== verification/Brotli_Store.thy ===== *)
theory Brotli_Store
  imports Prelude
begin

text \<open>
  The transaction encoder of the Arkiv backend, second layer: \<open>brotli_store.cpp\<close>, which wraps bytes in
  a Brotli stream of uncompressed blocks.  The bit writer is a record; the bits it has
  written so far are its abstraction.  The reference is a reader of such streams after RFC 7932.
\<close>

section \<open>The bit writer\<close>

record bit_writer =
  bw_buf :: bytes
  bw_cur :: u8
  bw_bits :: nat

definition bw_start :: bit_writer where
  "bw_start = \<lparr>bw_buf = [], bw_cur = 0, bw_bits = 0\<rparr>"

definition flush_byte :: "bit_writer \<Rightarrow> bit_writer" where
  "flush_byte w = w\<lparr>bw_buf := bw_buf w @ [bw_cur w], bw_cur := 0, bw_bits := 0\<rparr>"

definition write_bit :: "bool \<Rightarrow> bit_writer \<Rightarrow> bit_writer" where
  "write_bit b w =
     (let w = w\<lparr>bw_cur := bw_cur w OR push_bit (bw_bits w) (of_bool b), bw_bits := bw_bits w + 1\<rparr> in
      if bw_bits w = 8 then flush_byte w else w)"

definition bw_write_bits :: "u32 \<Rightarrow> nat \<Rightarrow> bit_writer \<Rightarrow> bit_writer" where
  "bw_write_bits value n w = foldl (\<lambda>w i. write_bit (bit value i) w) w [0..<n]"

definition align_to_byte :: "bit_writer \<Rightarrow> bit_writer" where
  "align_to_byte w = (if bw_bits w \<noteq> 0 then flush_byte w else w)"

definition write_uncompressed_chunk :: "bytes \<Rightarrow> bit_writer \<Rightarrow> bit_writer" where
  "write_uncompressed_chunk data w =
     (let w = write_bit False w; w = bw_write_bits 0 2 w; w = bw_write_bits (of_nat (length data - 1)) 16 w;
          w = write_bit True w; w = align_to_byte w in
      w\<lparr>bw_buf := bw_buf w @ data\<rparr>)"

definition kMaxChunk :: nat where [simp]: "kMaxChunk = 65536"

function store_loop :: "bytes \<Rightarrow> bit_writer \<Rightarrow> bit_writer" where
  "store_loop input w = (if input = [] then w
     else store_loop (drop kMaxChunk input) (write_uncompressed_chunk (take kMaxChunk input) w))"
  by pat_completeness auto
termination by (relation "measure (length \<circ> fst)") auto

declare store_loop.simps [simp del]

definition brotli_store_encode :: "bytes \<Rightarrow> bytes" where
  "brotli_store_encode input =
     (let w = write_bit False bw_start in
      if input = [] then bw_buf (align_to_byte (write_bit True (write_bit True w)))
      else bw_buf (align_to_byte (write_bit True (write_bit True (store_loop input w)))))"

section \<open>The written bits\<close>

definition byte_bits :: "u8 \<Rightarrow> bool list" where
  "byte_bits c = map (bit c) [0..<8]"

definition stream_bits :: "bytes \<Rightarrow> bool list" where
  "stream_bits bs = concat (map byte_bits bs)"

definition written :: "bit_writer \<Rightarrow> bool list" where
  "written w = stream_bits (bw_buf w) @ map (bit (bw_cur w)) [0..<bw_bits w]"

definition bw_ok :: "bit_writer \<Rightarrow> bool" where
  "bw_ok w \<longleftrightarrow> bw_bits w < 8 \<and> (\<forall>i\<ge>bw_bits w. \<not> bit (bw_cur w) i)"

lemma stream_bits_simps [simp]:
  "stream_bits [] = []" "stream_bits (c # bs) = byte_bits c @ stream_bits bs"
  "stream_bits (as @ bs) = stream_bits as @ stream_bits bs"
  by (simp_all add: stream_bits_def)

lemma byte_bits_length [simp]: "length (byte_bits c) = 8"
  by (simp add: byte_bits_def)

lemma stream_bits_length [simp]: "length (stream_bits bs) = 8 * length bs"
  by (induction bs) auto

lemma written_length: "length (written w) = 8 * length (bw_buf w) + bw_bits w"
  by (simp add: written_def)

lemma bw_start_ok: "bw_ok bw_start" "written bw_start = []"
  by (simp_all add: bw_ok_def bw_start_def written_def)

lemma write_bit_ok:
  assumes "bw_ok w"
  shows "bw_ok (write_bit b w)" and "written (write_bit b w) = written w @ [b]"
proof -
  define c n where "c = bw_cur w OR push_bit (bw_bits w) (of_bool b)" and "n = bw_bits w"
  have n: "n < 8" and z: "\<And>i. n \<le> i \<Longrightarrow> \<not> bit (bw_cur w) i" using assms by (auto simp: bw_ok_def n_def)
  have c: "bit c i = (if i = n then b else bit (bw_cur w) i)" for i
    using n z by (auto simp: bit_simps c_def n_def)
  have m: "map (bit c) [0..<Suc n] = map (bit (bw_cur w)) [0..<n] @ [b]" by (auto simp: c)
  have e: "byte_bits c = map (bit (bw_cur w)) [0..<n] @ [b]" if "Suc n = 8"
    using m unfolding byte_bits_def that .
  have w: "write_bit b w = (if Suc n = 8 then \<lparr>bw_buf = bw_buf w @ [c], bw_cur = 0, bw_bits = 0\<rparr>
      else w\<lparr>bw_cur := c, bw_bits := Suc n\<rparr>)"
    by (simp add: write_bit_def flush_byte_def Let_def c_def n_def)
  show "bw_ok (write_bit b w)"
    using n z by (auto simp: w bw_ok_def c)
  show "written (write_bit b w) = written w @ [b]"
  proof (cases "Suc n = 8")
    case True
    with e [OF True] show ?thesis by (simp add: w written_def n_def [symmetric])
  next
    case False
    then show ?thesis using m by (simp add: w written_def n_def [symmetric] del: upt_Suc)
  qed
qed

lemma write_bits_ok:
  assumes "bw_ok w"
  shows "bw_ok (bw_write_bits v n w)" and "written (bw_write_bits v n w) = written w @ map (bit v) [0..<n]"
proof -
  have "bw_ok (foldl (\<lambda>w i. write_bit (bit v i) w) w is) \<and>
      written (foldl (\<lambda>w i. write_bit (bit v i) w) w is) = written w @ map (bit v) is" for "is"
    using assms by (induction "is" rule: rev_induct) (simp_all add: write_bit_ok)
  then show "bw_ok (bw_write_bits v n w)" and "written (bw_write_bits v n w) = written w @ map (bit v) [0..<n]"
    by (simp_all add: bw_write_bits_def)
qed

text \<open>The padding that brings a number of bits to a byte boundary.\<close>

definition pad :: "nat \<Rightarrow> bool list" where
  "pad n = replicate ((8 - n mod 8) mod 8) False"

lemma align_ok:
  assumes "bw_ok w"
  shows "bw_bits (align_to_byte w) = 0" "bw_cur (align_to_byte w) = 0"
    and "written (align_to_byte w) = written w @ pad (length (written w))"
proof -
  have n: "bw_bits w < 8" and z: "\<And>i. bw_bits w \<le> i \<Longrightarrow> \<not> bit (bw_cur w) i" using assms by (auto simp: bw_ok_def)
  have c0: "bw_cur w = 0" if "bw_bits w = 0" by (rule bit_word_eqI) (use z that in simp)
  show "bw_bits (align_to_byte w) = 0" "bw_cur (align_to_byte w) = 0"
    using c0 by (auto simp: align_to_byte_def flush_byte_def)
  have "byte_bits (bw_cur w) = map (bit (bw_cur w)) [0..<bw_bits w] @ replicate (8 - bw_bits w) False"
  proof -
    have "[0..<8] = [0..<bw_bits w] @ [bw_bits w..<8]" using n upt_add_eq_append [of 0 "bw_bits w" "8 - bw_bits w"] by simp
    moreover have "map (bit (bw_cur w)) [bw_bits w..<8] = replicate (8 - bw_bits w) False"
      using z map_cong [of "[bw_bits w..<8]" "[bw_bits w..<8]" "bit (bw_cur w)" "\<lambda>_. False"]
      by (simp add: map_replicate_const)
    ultimately show ?thesis unfolding byte_bits_def by (simp only: map_append)
  qed
  then show "written (align_to_byte w) = written w @ pad (length (written w))"
    using n by (auto simp: align_to_byte_def flush_byte_def written_def pad_def)
qed

lemma aligned_ok: "bw_bits w = 0 \<Longrightarrow> bw_cur w = 0 \<Longrightarrow> bw_ok w"
  by (simp add: bw_ok_def)

lemma pad_length: "length (pad n) < 8" "(n + length (pad n)) mod 8 = 0"
proof -
  show "length (pad n) < 8" by (simp add: pad_def)
  have "(n mod 8 + (8 - n mod 8) mod 8) mod 8 = 0" by (cases "n mod 8 = 0") auto
  then show "(n + length (pad n)) mod 8 = 0" by (simp only: pad_def length_replicate mod_add_left_eq)
qed

section \<open>The reference reader\<close>

fun bits_nat :: "bool list \<Rightarrow> nat" where
  "bits_nat [] = 0"
| "bits_nat (b # bs) = of_bool b + 2 * bits_nat bs"

fun bytes_of_bits :: "nat \<Rightarrow> bool list \<Rightarrow> bytes" where
  "bytes_of_bits 0 bits = []"
| "bytes_of_bits (Suc n) bits = of_nat (bits_nat (take 8 bits)) # bytes_of_bits n (drop 8 bits)"

text \<open>
  Blocks up to the empty last block.  An uncompressed block has a four-nibble length minus one,
  the uncompressed flag, padding to a byte boundary (the stream is a whole number of bytes,
  so the rest tells where that is) and its bytes.
\<close>

definition block_body :: "bool list \<Rightarrow> (bytes \<times> bool list) option" where
  "block_body r =
     (let len = bits_nat (take 16 r) + 1; r1 = drop 16 r in
      case r1 of
        True # r2 \<Rightarrow> let r3 = drop (length r2 mod 8) r2 in
          if 8 * len \<le> length r3 then Some (bytes_of_bits len r3, drop (8 * len) r3) else None
      | _ \<Rightarrow> None)"

fun read_blocks :: "nat \<Rightarrow> bool list \<Rightarrow> bytes option" where
  "read_blocks (Suc n) (True # True # r) = Some []"
| "read_blocks (Suc n) (False # False # False # r) =
     (case block_body r of None \<Rightarrow> None
      | Some (data, rest) \<Rightarrow> map_option (\<lambda>more. data @ more) (read_blocks n rest))"
| "read_blocks _ _ = None"

definition brotli_read :: "bytes \<Rightarrow> bytes option" where
  "brotli_read bs = (case stream_bits bs of False # r \<Rightarrow> read_blocks (length bs) r | _ \<Rightarrow> None)"

lemma bits_nat_word: "bits_nat (map (bit w) [0..<n]) = unat (take_bit n (w :: 'a::len word))"
proof -
  have "bits_nat bs = horner_sum of_bool 2 bs" for bs by (induction bs) simp_all
  then have "bits_nat (map (bit w) [0..<n]) = horner_sum of_bool 2 (map (bit (unat w)) [0..<n])"
    by (simp add: bit_unsigned_iff map_eq_conv cong: map_cong)
  then show ?thesis by (simp add: horner_sum_bit_eq_take_bit unsigned_take_bit_eq)
qed

lemma stream_byte: "of_nat (bits_nat (byte_bits c)) = c"
  by (simp add: byte_bits_def bits_nat_word take_bit_word_eq_self)

lemma bytes_of_stream: "bytes_of_bits (length data) (stream_bits data @ rest) = data"
  by (induction data) (simp_all add: stream_byte)

section \<open>Round trip\<close>

lemma block_body_read:
  assumes "data \<noteq> []" and "length data \<le> kMaxChunk" and "length p < 8" and "length rest mod 8 = 0"
  shows "block_body (map (bit (of_nat (length data - 1) :: u32)) [0..<16] @ True # p @ stream_bits data @ rest) =
     Some (data, rest)"
proof -
  have "unat (take_bit 16 (of_nat (length data - 1) :: u32)) = length data - 1"
    using assms(2) by (simp add: unsigned_take_bit_eq unat_of_nat_small take_bit_nat_eq_self)
  moreover have "(length p + (8 * length data + length rest)) mod 8 = length p"
  proof -
    have "(8 * length data + length rest) mod 8 = 0" using assms(4) by (simp only: mod_mult_self4)
    then show ?thesis using assms(3) by (metis mod_add_right_eq add_0_right mod_less)
  qed
  ultimately show ?thesis using assms(1)
    by (simp add: block_body_def Let_def bits_nat_word bytes_of_stream Suc_leI)
qed

lemma written_append:
  "bw_bits w = 0 \<Longrightarrow> written (w\<lparr>bw_buf := bw_buf w @ data\<rparr>) = written w @ stream_bits data"
  by (simp add: written_def)

text \<open>What a chunk adds to the written bits, from any writer.\<close>

lemma chunk_bits:
  assumes "bw_ok w"
  obtains p where "length p < 8" "bw_ok (write_uncompressed_chunk data w)"
    "bw_bits (write_uncompressed_chunk data w) = 0"
    "written (write_uncompressed_chunk data w) = written w @ False # False # False #
       map (bit (of_nat (length data - 1) :: u32)) [0..<16] @ True # p @ stream_bits data"
proof -
  define v where "v = write_bit True (bw_write_bits (of_nat (length data - 1)) 16 (bw_write_bits 0 2 (write_bit False w)))"
  have v: "bw_ok v" "written v = written w @ False # False # False #
      map (bit (of_nat (length data - 1) :: u32)) [0..<16] @ [True]"
    using assms by (simp_all add: v_def write_bit_ok write_bits_ok numeral_2_eq_2)
  have c: "write_uncompressed_chunk data w = (align_to_byte v)\<lparr>bw_buf := bw_buf (align_to_byte v) @ data\<rparr>"
    by (simp add: write_uncompressed_chunk_def v_def Let_def)
  have z: "bw_bits (write_uncompressed_chunk data w) = 0" "bw_cur (write_uncompressed_chunk data w) = 0"
    using align_ok(1,2) [OF v(1)] by (simp_all add: c)
  show thesis
  proof (rule that [of "pad (length (written v))"])
    show "written (write_uncompressed_chunk data w) = written w @ False # False # False #
       map (bit (of_nat (length data - 1) :: u32)) [0..<16] @ True # pad (length (written v)) @ stream_bits data"
      unfolding c written_append [OF align_ok(1) [OF v(1)]] align_ok(3) [OF v(1)] by (simp add: v(2))
  qed (use z pad_length aligned_ok in auto)
qed

lemma store_read:
  assumes "bw_ok w"
  obtains tail where "bw_ok (store_loop input w)" "written (store_loop input w) = written w @ tail"
    "8 * length input \<le> length tail"
    "\<And>n end. length input < n \<Longrightarrow> length (written w @ tail @ True # True # end) mod 8 = 0 \<Longrightarrow>
       read_blocks n (tail @ True # True # end) = Some input" 
  using assms
proof (induction input w arbitrary: thesis rule: store_loop.induct)
  case (1 input w)
  show ?case
  proof (cases "input = []")
    case True
    show ?thesis
    proof (rule "1.prems"(1))
      show "bw_ok (store_loop input w)" "written (store_loop input w) = written w @ []" "8 * length input \<le> length []"
        using "1.prems"(2) True by (simp_all add: store_loop.simps)
      fix n "end" assume "length input < n"
      then show "read_blocks n ([] @ True # True # end) = Some input" using True by (cases n) simp_all
    qed
  next
    case False
    let ?d = "take kMaxChunk input" and ?r = "drop kMaxChunk input"
    let ?v = "write_uncompressed_chunk ?d w"
    obtain p where p: "length p < 8" "bw_ok ?v" "bw_bits ?v = 0" "written ?v = written w @ False # False # False #
        map (bit (of_nat (length ?d - 1) :: u32)) [0..<16] @ True # p @ stream_bits ?d"
      using chunk_bits [OF "1.prems"(2), of ?d] by blast
    obtain t where t: "bw_ok (store_loop ?r ?v)" "written (store_loop ?r ?v) = written ?v @ t" "8 * length ?r \<le> length t"
      "\<And>n end. length ?r < n \<Longrightarrow> length (written ?v @ t @ True # True # end) mod 8 = 0 \<Longrightarrow>
         read_blocks n (t @ True # True # end) = Some ?r"
      using "1.IH" [OF False _ p(2)] by blast
    let ?tail = "False # False # False # map (bit (of_nat (length ?d - 1) :: u32)) [0..<16] @ True # p @ stream_bits ?d @ t"
    have l: "store_loop input w = store_loop ?r ?v" using False by (simp add: store_loop.simps [of input])
    show ?thesis
    proof (rule "1.prems"(1) [of ?tail])
      show "bw_ok (store_loop input w)" "written (store_loop input w) = written w @ ?tail"
        "8 * length input \<le> length ?tail"
        using t(1-3) p(4) by (simp_all add: l)
      fix n "end"
      assume n: "length input < n" and e: "length (written w @ ?tail @ True # True # end) mod 8 = 0"
      obtain m where m: "n = Suc m" using n by (cases n) auto
      have e': "length (written ?v @ t @ True # True # end) mod 8 = 0" using e unfolding p(4) by simp
      then have "length (t @ True # True # end) mod 8 = 0"
        using p(3) by (simp only: length_append written_length add_0_right mod_mult_self4)
      from block_body_read [OF _ _ p(1) this, of ?d] False
      have b: "block_body (map (bit (of_nat (length ?d - 1) :: u32)) [0..<16] @ True # p @ stream_bits ?d @
        (t @ True # True # end)) = Some (?d, t @ True # True # end)" by simp
      have "length ?r < m" using False n m by (cases input) auto
      then have r: "read_blocks m (t @ True # True # end) = Some ?r" by (rule t(4) [OF _ e'])
      show "read_blocks n (?tail @ True # True # end) = Some input"
        using b r by (simp add: m)
    qed
  qed
qed

text \<open>
  A stored stream reads back as the bytes that were stored, whatever their number: the encoder
  always produces a well-formed stream whose blocks carry exactly the input.
\<close>

theorem brotli_round_trip: "brotli_read (brotli_store_encode input) = Some input"
proof -
  define w where "w = write_bit False bw_start"
  have w: "bw_ok w" "written w = [False]" using bw_start_ok by (simp_all add: w_def write_bit_ok)
  define v where "v = (if input = [] then w else store_loop input w)"
  have vs: "v = store_loop input w" by (simp add: v_def store_loop.simps [of "[]"])
  obtain tail where v: "bw_ok v" "written v = written w @ tail" "8 * length input \<le> length tail"
    and r: "\<And>n end. length input < n \<Longrightarrow> length (written w @ tail @ True # True # end) mod 8 = 0 \<Longrightarrow>
       read_blocks n (tail @ True # True # end) = Some input"
    unfolding vs using store_read [OF w(1), of input] by blast
  define z where "z = write_bit True (write_bit True v)"
  have z: "bw_ok z" "written z = False # tail @ [True, True]" using v(1,2) w(2) by (simp_all add: z_def write_bit_ok)
  let ?out = "bw_buf (align_to_byte z)"
  have out: "brotli_store_encode input = ?out"
    by (simp add: brotli_store_encode_def w_def v_def z_def)
  have s: "stream_bits ?out = False # tail @ True # True # pad (length (written z))"
  proof -
    have "stream_bits ?out = written (align_to_byte z)" using align_ok(1) [OF z(1)] by (simp add: written_def)
    then show ?thesis unfolding align_ok(3) [OF z(1)] by (simp add: z(2))
  qed
  have l: "length (written w @ tail @ True # True # pad (length (written z))) mod 8 = 0"
    using arg_cong [OF s, of length] w(2) by (simp flip: s)
  have "read_blocks (length ?out) (tail @ True # True # pad (length (written z))) = Some input"
    by (rule r [OF _ l]) (use arg_cong [OF s, of length] v(3) in simp)
  then show ?thesis by (simp add: out brotli_read_def s)
qed

end
