(* ===== verification/Arkiv_Tx.thy ===== *)
theory Arkiv_Tx
  imports Arkiv_Rlp Brotli_Store
begin

text \<open>
  The transaction encoder of the Arkiv backend, last layer: the payload builder \<open>ops_tx_data.cpp\<close> and
  the signer \<open>tx_signer.cpp\<close>.  A \<open>ListEncoder\<close> is the bytes of its children.  Each operation has
  the tree it stands for, and the payload is proved to carry exactly that tree.
\<close>

section \<open>Operations\<close>

record attribute =
  at_key :: string
  stringValue :: string
  numericValue :: u64
  isNumeric :: bool

record create_op =
  cr_contentType :: string
  cr_payload :: bytes
  cr_attributes :: "attribute list"
  cr_expiresInSeconds :: u32

record update_op =
  up_entityKey :: bytes
  up_contentType :: string
  up_payload :: bytes
  up_attributes :: "attribute list"
  up_expiresInSeconds :: u32

record extension_op =
  ex_entityKey :: bytes
  ex_expiresInSeconds :: u32

record ownership_change_op =
  ow_entityKey :: bytes
  ow_newOwner :: bytes

record ops_tx_data =
  creates :: "create_op list"
  updates :: "update_op list"
  deletes :: "bytes list"
  extensions :: "extension_op list"
  ownershipChanges :: "ownership_change_op list"

definition BLOCK_TIME_SECONDS :: u32 where [simp]: "BLOCK_TIME_SECONDS = 2"

definition seconds_to_blocks :: "u32 \<Rightarrow> u32" where
  "seconds_to_blocks seconds = (seconds + BLOCK_TIME_SECONDS - 1) div BLOCK_TIME_SECONDS"

definition append_attribute_pair :: "attribute \<Rightarrow> bool \<Rightarrow> bytes" where
  "append_attribute_pair a numeric_variant =
     encode_list_raw (encode_string (at_key a) @
       (if numeric_variant then if numericValue a = 0 then encode_string '''' else encode_uint (numericValue a)
        else encode_string (stringValue a)))"

definition encode_attribute_list :: "attribute list \<Rightarrow> bool \<Rightarrow> bytes" where
  "encode_attribute_list attrs numeric =
     encode_list_raw (foldl (\<lambda>list a. if isNumeric a \<noteq> numeric then list
       else list @ append_attribute_pair a numeric) [] attrs)"

definition encode_create :: "create_op \<Rightarrow> bytes" where
  "encode_create c = encode_list_raw (encode_uint (ucast (seconds_to_blocks (cr_expiresInSeconds c))) @
     encode_string (cr_contentType c) @ encode_bytes (cr_payload c) @
     encode_attribute_list (cr_attributes c) False @ encode_attribute_list (cr_attributes c) True)"

definition encode_update :: "update_op \<Rightarrow> bytes" where
  "encode_update u = encode_list_raw (encode_bytes (up_entityKey u) @ encode_string (up_contentType u) @
     encode_uint (ucast (seconds_to_blocks (up_expiresInSeconds u))) @ encode_bytes (up_payload u) @
     encode_attribute_list (up_attributes u) False @ encode_attribute_list (up_attributes u) True)"

definition encode_extension :: "extension_op \<Rightarrow> bytes" where
  "encode_extension e = encode_list_raw (encode_bytes (ex_entityKey e) @
     encode_uint (ucast (seconds_to_blocks (ex_expiresInSeconds e))))"

definition encode_ownership_change :: "ownership_change_op \<Rightarrow> bytes" where
  "encode_ownership_change o' = encode_list_raw (encode_bytes (ow_entityKey o') @ encode_bytes (ow_newOwner o'))"

definition ops_rlp :: "ops_tx_data \<Rightarrow> bytes" where
  "ops_rlp ops =
     (let cb = encode_list_raw (concat (map encode_create (creates ops)));
          ub = encode_list_raw (concat (map encode_update (updates ops)));
          db = encode_list_raw (concat (map encode_bytes (deletes ops)));
          eb = encode_list_raw (concat (map encode_extension (extensions ops)));
          ob = encode_list_raw (concat (map encode_ownership_change (ownershipChanges ops))) in
      encode_list_raw (cb @ ub @ db @ eb @ ob))"

definition build_ops_tx_data :: "ops_tx_data \<Rightarrow> bytes" where
  "build_ops_tx_data ops = brotli_store_encode (ops_rlp ops)"

section \<open>Signed transactions\<close>

record legacy_tx =
  tx_nonce :: u64
  gas_price_wei :: u64
  gas_limit :: u64
  tx_to :: bytes
  value_wei :: u64
  tx_data :: bytes
  chain_id :: u64

definition encode_tx_fields :: "legacy_tx \<Rightarrow> bytes" where
  "encode_tx_fields tx = encode_uint (tx_nonce tx) @ encode_uint (gas_price_wei tx) @ encode_uint (gas_limit tx) @
     encode_bytes (tx_to tx) @ encode_uint (value_wei tx) @ encode_bytes (tx_data tx)"

definition strip_leading_zeros :: "bytes \<Rightarrow> bytes" where
  "strip_leading_zeros b = dropWhile (\<lambda>x. x = 0) b"

definition tx_preimage :: "legacy_tx \<Rightarrow> bytes" where
  "tx_preimage tx = encode_list_raw (encode_tx_fields tx @ encode_uint (chain_id tx) @ encode_uint 0 @ encode_uint 0)"

text \<open>\<open>sign_recoverable\<close> delivers the 64 signature bytes and the recovery id, or fails.\<close>

definition sign_legacy_tx ::
  "(bytes \<Rightarrow> bytes) \<Rightarrow> (bytes \<Rightarrow> bytes \<Rightarrow> (bytes \<times> nat) option) \<Rightarrow> legacy_tx \<Rightarrow> bytes \<Rightarrow> bytes" where
  "sign_legacy_tx keccak sign_recoverable tx priv =
     (case sign_recoverable priv (keccak (tx_preimage tx)) of
        None \<Rightarrow> []
      | Some (sig, recid) \<Rightarrow>
          encode_list_raw (encode_tx_fields tx @ encode_uint (chain_id tx * 2 + 35 + of_nat recid) @
            encode_bytes (strip_leading_zeros (take 32 sig)) @ encode_bytes (strip_leading_zeros (drop 32 sig))))"

section \<open>The trees\<close>

definition uint_tree :: "u64 \<Rightarrow> rlp" where
  "uint_tree v = Str (minimal_be v)"

definition text_tree :: "string \<Rightarrow> rlp" where
  "text_tree s = Str (map of_char s)"

definition blocks_tree :: "u32 \<Rightarrow> rlp" where
  "blocks_tree seconds = uint_tree (ucast (seconds_to_blocks seconds))"

definition attributes_tree :: "attribute list \<Rightarrow> bool \<Rightarrow> rlp" where
  "attributes_tree attrs numeric = Lst (map (\<lambda>a. Lst [text_tree (at_key a),
     if numeric then uint_tree (numericValue a) else text_tree (stringValue a)]) (filter (\<lambda>a. isNumeric a = numeric) attrs))"

definition create_tree :: "create_op \<Rightarrow> rlp" where
  "create_tree c = Lst [blocks_tree (cr_expiresInSeconds c), text_tree (cr_contentType c), Str (cr_payload c),
     attributes_tree (cr_attributes c) False, attributes_tree (cr_attributes c) True]"

definition update_tree :: "update_op \<Rightarrow> rlp" where
  "update_tree u = Lst [Str (up_entityKey u), text_tree (up_contentType u), blocks_tree (up_expiresInSeconds u),
     Str (up_payload u), attributes_tree (up_attributes u) False, attributes_tree (up_attributes u) True]"

definition ops_tree :: "ops_tx_data \<Rightarrow> rlp" where
  "ops_tree ops = Lst [Lst (map create_tree (creates ops)), Lst (map update_tree (updates ops)),
     Lst (map Str (deletes ops)),
     Lst (map (\<lambda>e. Lst [Str (ex_entityKey e), blocks_tree (ex_expiresInSeconds e)]) (extensions ops)),
     Lst (map (\<lambda>o'. Lst [Str (ow_entityKey o'), Str (ow_newOwner o')]) (ownershipChanges ops))]"

definition tx_fields_tree :: "legacy_tx \<Rightarrow> rlp list" where
  "tx_fields_tree tx = [uint_tree (tx_nonce tx), uint_tree (gas_price_wei tx), uint_tree (gas_limit tx),
     Str (tx_to tx), uint_tree (value_wei tx), Str (tx_data tx)]"

lemma enc_uint: "rlp_enc (uint_tree v) = encode_uint v"
proof (cases "v = 0")
  case True
  have "minimal_be 0 = []" by (simp add: minimal_be_def)
  then show ?thesis using True by (simp add: uint_tree_def encode_uint_def encode_bytes_def emit_length_def)
qed (simp add: uint_tree_def encode_uint_def)

lemma enc_text: "rlp_enc (text_tree s) = encode_string s"
  by (simp add: text_tree_def encode_string_def)

lemma enc_blocks: "rlp_enc (blocks_tree s) = encode_uint (ucast (seconds_to_blocks s))"
  by (simp add: blocks_tree_def enc_uint)

lemma enc_attributes: "rlp_enc (attributes_tree attrs numeric) = encode_attribute_list attrs numeric"
proof -
  have pair: "rlp_enc (Lst [text_tree (at_key a), if numeric then uint_tree (numericValue a) else text_tree (stringValue a)])
      = append_attribute_pair a numeric" for a
    by (auto simp: append_attribute_pair_def enc_text enc_uint encode_uint_def encode_string_def encode_bytes_def emit_length_def)
  have "foldl (\<lambda>list a. if isNumeric a \<noteq> numeric then list else list @ append_attribute_pair a numeric) acc as =
      acc @ concat (map (\<lambda>a. append_attribute_pair a numeric) (filter (\<lambda>a. isNumeric a = numeric) as))" for acc as
    by (induction as arbitrary: acc) auto
  then show ?thesis unfolding encode_attribute_list_def attributes_tree_def rlp_enc.simps map_map
    by (simp add: o_def pair del: rlp_enc.simps)
qed

lemmas enc_trees = enc_uint enc_text enc_blocks enc_attributes

lemma enc_ops: "rlp_enc (ops_tree ops) = ops_rlp ops"
  by (simp add: ops_tree_def ops_rlp_def create_tree_def update_tree_def enc_trees o_def Let_def
      encode_create_def [abs_def] encode_update_def [abs_def] encode_extension_def [abs_def]
      encode_ownership_change_def [abs_def])

lemma enc_tx_fields: "concat (map rlp_enc (tx_fields_tree tx)) = encode_tx_fields tx"
  by (simp add: tx_fields_tree_def encode_tx_fields_def enc_trees)


text \<open>
  The signed transaction decodes to the six fields that were signed, the replay-protected
  recovery value and the two halves of the signature as minimal integers; the signed preimage
  has the same six fields with the chain identifier.
\<close>

lemma signed_tx_decodes:
  assumes "sign_recoverable priv (keccak (tx_preimage tx)) = Some (sig, recid)"
    and "length (sign_legacy_tx keccak sign_recoverable tx priv) < 2 ^ 64"
  shows "rlp_decode (sign_legacy_tx keccak sign_recoverable tx priv) =
     Some (Lst (tx_fields_tree tx @ [uint_tree (chain_id tx * 2 + 35 + of_nat recid),
       Str (strip_leading_zeros (take 32 sig)), Str (strip_leading_zeros (drop 32 sig))]), [])"
proof -
  let ?t = "Lst (tx_fields_tree tx @ [uint_tree (chain_id tx * 2 + 35 + of_nat recid),
    Str (strip_leading_zeros (take 32 sig)), Str (strip_leading_zeros (drop 32 sig))])"
  have e: "rlp_enc ?t = sign_legacy_tx keccak sign_recoverable tx priv"
    using assms(1) by (simp add: sign_legacy_tx_def enc_trees flip: enc_tx_fields)
  show ?thesis using rlp_item_enc [of ?t _ "[]"] assms(2) unfolding e rlp_decode_def by simp
qed

lemma preimage_decodes:
  assumes "length (tx_preimage tx) < 2 ^ 64"
  shows "rlp_decode (tx_preimage tx) =
     Some (Lst (tx_fields_tree tx @ [uint_tree (chain_id tx), uint_tree 0, uint_tree 0]), [])"
proof -
  let ?t = "Lst (tx_fields_tree tx @ [uint_tree (chain_id tx), uint_tree 0, uint_tree 0])"
  have e: "rlp_enc ?t = tx_preimage tx" by (simp add: tx_preimage_def enc_trees flip: enc_tx_fields)
  show ?thesis using rlp_item_enc [of ?t _ "[]"] assms unfolding e rlp_decode_def by simp
qed

definition sample_ops :: ops_tx_data where
  "sample_ops = \<lparr>creates = [\<lparr>cr_contentType = ''text'', cr_payload = [1, 2, 3],
     cr_attributes = [\<lparr>at_key = ''type'', stringValue = ''ack'', numericValue = 0, isNumeric = False\<rparr>,
       \<lparr>at_key = ''seq'', stringValue = [], numericValue = 0, isNumeric = True\<rparr>], cr_expiresInSeconds = 0\<rparr>],
     updates = [], deletes = [replicate 32 5], extensions = [], ownershipChanges = []\<rparr>"


end
