(* ===== verification/Ota_Http.thy ===== *)
theory Ota_Http
  imports At_Text
begin

text \<open>
  The HTTP policy of the firmware download, \<open>fw_ota_http_policy.c\<close>: which response headers are
  accepted as describing exactly the missing part of the image, which errors are retried and when.
  A C string is the list of its characters; reading past its end reads the terminator.
\<close>

definition FW_OTA_MAX_ATTEMPTS :: nat where [simp]: "FW_OTA_MAX_ATTEMPTS = 5"
definition FW_OTA_RESUME_MIN :: u32 where [simp]: "FW_OTA_RESUME_MIN = 1024"

record fw_ota_http_response =
  http_status :: int
  http_invalid :: bool
  lengths :: u32
  ranges :: u32
  content_len :: u32
  range_first :: u32
  range_last :: u32
  range_total :: u32

definition response_start :: "int \<Rightarrow> fw_ota_http_response" where
  "response_start st = \<lparr>http_status = st, http_invalid = False, lengths = 0, ranges = 0, content_len = 0,
     range_first = 0, range_last = 0, range_total = 0\<rparr>"

definition blank :: "char \<Rightarrow> bool" where
  "blank c \<longleftrightarrow> c = CHR '' '' \<or> c = TAB"

definition http_skip_space :: "string \<Rightarrow> string" where
  "http_skip_space p = dropWhile blank p"

definition decimal :: "string \<Rightarrow> (u32 \<times> string) option" where
  "decimal p = (if p = [] \<or> \<not> is_digit (hd p) then None
     else map_option (\<lambda>(v, r). (word_of_int v, r)) (digit_loop 0 p))"

definition lower :: "char \<Rightarrow> char" where
  "lower c = (let v = of_char c :: nat in if 65 \<le> v \<and> v \<le> 90 then char_of (v + 32) else c)"

definition same_name :: "string \<Rightarrow> string \<Rightarrow> bool" where
  "same_name a b \<longleftrightarrow> map lower a = map lower b"

text \<open>The end of a header value: only blanks may follow.\<close>

definition header_end :: "string \<Rightarrow> fw_ota_http_response \<Rightarrow> fw_ota_http_response" where
  "header_end p r = (if http_skip_space p \<noteq> [] then r\<lparr>http_invalid := True\<rparr> else r)"

definition bad_header :: "fw_ota_http_response \<Rightarrow> fw_ota_http_response" where
  "bad_header r = r\<lparr>http_invalid := True\<rparr>"

definition length_header :: "string \<Rightarrow> fw_ota_http_response \<Rightarrow> fw_ota_http_response" where
  "length_header p r =
     (let r = r\<lparr>lengths := lengths r + 1\<rparr> in
      if lengths r \<noteq> 1 then bad_header r
      else case decimal p of None \<Rightarrow> bad_header r | Some (n, p) \<Rightarrow> header_end p (r\<lparr>content_len := n\<rparr>))"

text \<open>\<open>bytes first-last/total\<close>\<close>

definition range_header :: "string \<Rightarrow> fw_ota_http_response \<Rightarrow> fw_ota_http_response" where
  "range_header p r =
     (let r = r\<lparr>ranges := ranges r + 1\<rparr> in
      if ranges r \<noteq> 1 \<or> \<not> starts_with p ''bytes '' then bad_header r
      else case decimal (drop 6 p) of None \<Rightarrow> bad_header r
      | Some (n, p) \<Rightarrow> let r = r\<lparr>range_first := n\<rparr> in
          if p = [] \<or> hd p \<noteq> CHR ''-'' then bad_header r
          else case decimal (tl p) of None \<Rightarrow> bad_header r
          | Some (n, p) \<Rightarrow> let r = r\<lparr>range_last := n\<rparr> in
              if p = [] \<or> hd p \<noteq> CHR ''/'' then bad_header r
              else case decimal (tl p) of None \<Rightarrow> bad_header r
              | Some (n, p) \<Rightarrow> header_end p (r\<lparr>range_total := n\<rparr>))"

definition fw_ota_http_header ::
  "fw_ota_http_response \<Rightarrow> string option \<Rightarrow> string option \<Rightarrow> fw_ota_http_response" where
  "fw_ota_http_header r key value =
     (case (key, value) of
        (Some key, Some value) \<Rightarrow>
          let p = http_skip_space value in
          if same_name key ''Content-Length'' then length_header p r
          else if same_name key ''Content-Range'' then range_header p r
          else if same_name key ''Content-Encoding'' then
            if \<not> same_name (take 8 p) ''identity'' then bad_header r else header_end (drop 8 p) r
          else if same_name key ''Transfer-Encoding'' then bad_header r
          else r
      | _ \<Rightarrow> bad_header r)"

definition fw_ota_http_response_valid :: "fw_ota_http_response \<Rightarrow> u32 \<Rightarrow> u32 \<Rightarrow> bool" where
  "fw_ota_http_response_valid r offset image_len =
     (if http_invalid r \<or> image_len = 0 \<or> offset \<ge> image_len \<or> lengths r \<noteq> 1 \<or> content_len r \<noteq> image_len - offset
      then False
      else if offset = 0 then http_status r = 200 \<and> ranges r = 0
      else offset \<ge> FW_OTA_RESUME_MIN \<and> http_status r = 206 \<and> ranges r = 1 \<and> range_first r = offset \<and>
        range_last r = image_len - 1 \<and> range_total r = image_len)"

definition fw_ota_http_status_retryable :: "int \<Rightarrow> bool" where
  "fw_ota_http_status_retryable status \<longleftrightarrow> status = 408 \<or> status = 429 \<or> status = 500 \<or>
     status = 502 \<or> status = 503 \<or> status = 504"

definition fw_ota_retry_delay_s :: "nat \<Rightarrow> nat" where
  "fw_ota_retry_delay_s completed_attempts =
     (if completed_attempts \<noteq> 0 \<and> completed_attempts < FW_OTA_MAX_ATTEMPTS
      then [5, 15, 30, 60] ! (completed_attempts - 1) else 0)"

section \<open>What an accepted response says\<close>

type_synonym headers = "(string option \<times> string option) list"

definition receive :: "int \<Rightarrow> headers \<Rightarrow> fw_ota_http_response" where
  "receive st hs = foldl (\<lambda>r (k, v). fw_ota_http_header r k v) (response_start st) hs"

definition named :: "string \<Rightarrow> headers \<Rightarrow> string list" where
  "named name hs = [v. (Some k, Some v) \<leftarrow> hs, same_name k name]"

text \<open>A number in decimal, surrounded by blanks.\<close>

definition digits_of :: "string \<Rightarrow> u32 \<Rightarrow> bool" where
  "digits_of ds n \<longleftrightarrow> ds \<noteq> [] \<and> list_all is_digit ds \<and> dec_value ds = uint n"

definition is_number :: "string \<Rightarrow> u32 \<Rightarrow> bool" where
  "is_number v n \<longleftrightarrow> (\<exists>a ds b. v = a @ ds @ b \<and> list_all blank a \<and> list_all blank b \<and> digits_of ds n)"

definition is_range :: "string \<Rightarrow> u32 \<Rightarrow> u32 \<Rightarrow> u32 \<Rightarrow> bool" where
  "is_range v f l t \<longleftrightarrow> (\<exists>a x y z b. v = a @ ''bytes '' @ x @ ''-'' @ y @ ''/'' @ z @ b \<and>
     list_all blank a \<and> list_all blank b \<and> digits_of x f \<and> digits_of y l \<and> digits_of z t)"

definition is_identity :: "string \<Rightarrow> bool" where
  "is_identity v \<longleftrightarrow> (\<exists>a i b. v = a @ i @ b \<and> list_all blank a \<and> list_all blank b \<and> same_name i ''identity'')"

lemma skip_split: obtains a where "v = a @ http_skip_space v" and "list_all blank a"
proof
  show "v = takeWhile blank v @ http_skip_space v" by (simp add: http_skip_space_def)
  show "list_all blank (takeWhile blank v)" by (auto simp: list_all_iff dest: set_takeWhileD)
qed

lemma skip_all: "http_skip_space v = [] \<Longrightarrow> list_all blank v"
  by (simp add: http_skip_space_def list_all_iff dropWhile_eq_Nil_conv)

lemma decimal_split:
  assumes "decimal p = Some (n, r)"
  obtains ds where "p = ds @ r" and "digits_of ds n"
proof
  let ?ds = "takeWhile is_digit p"
  have p: "p \<noteq> []" "is_digit (hd p)" using assms by (auto simp: decimal_def split: if_splits)
  have s: "dec_value ?ds \<le> UINT_MAX" "r = dropWhile is_digit p" "n = word_of_int (dec_value ?ds)"
    using assms p digit_loop_spec [of 0 p] by (auto simp: decimal_def dec_value_def Let_def split: if_splits)
  show "p = ?ds @ r" by (simp add: s)
  have all: "list_all is_digit ?ds" by (auto simp: list_all_iff dest: set_takeWhileD)
  then have "0 \<le> dec_value ?ds" using foldl_dec_mono [of 0 ?ds] by (simp add: dec_value_def)
  then have "uint n = dec_value ?ds" using s by (simp add: uint_word_of_int)
  then show "digits_of ?ds n" using p all by (cases p) (auto simp: digits_of_def)
qed

lemma header_end_ok:
  assumes "\<not> http_invalid (header_end p r)"
  shows "header_end p r = r" and "list_all blank p"
  using assms skip_all by (auto simp: header_end_def split: if_splits)

lemma length_header_ok:
  assumes "\<not> http_invalid (length_header (http_skip_space v) r)"
  obtains n where "length_header (http_skip_space v) r = r\<lparr>lengths := 1, content_len := n\<rparr>" "lengths r = 0" "is_number v n"
proof -
  have l: "lengths r + 1 = 1" using assms by (auto simp: length_header_def Let_def bad_header_def split: if_splits)
  then have z: "lengths r = 0" by simp
  obtain n q where d: "decimal (http_skip_space v) = Some (n, q)"
    using assms z by (auto simp: length_header_def Let_def bad_header_def split: if_splits option.splits)
  have h: "length_header (http_skip_space v) r = header_end q (r\<lparr>lengths := 1, content_len := n\<rparr>)"
    by (simp add: length_header_def Let_def z d)
  note e = header_end_ok [of q "r\<lparr>lengths := 1, content_len := n\<rparr>", folded h, OF assms]
  obtain a where a: "v = a @ http_skip_space v" "list_all blank a" by (rule skip_split)
  obtain ds where ds: "http_skip_space v = ds @ q" "digits_of ds n" by (rule decimal_split [OF d])
  have "is_number v n" unfolding is_number_def using a ds e(2) by metis
  with e(1) z show thesis by (rule that)
qed

lemma range_header_ok:
  assumes "\<not> http_invalid (range_header (http_skip_space v) r)"
  obtains f l t where "range_header (http_skip_space v) r = r\<lparr>ranges := 1, range_first := f, range_last := l, range_total := t\<rparr>"
    "ranges r = 0" "is_range v f l t"
proof -
  let ?p = "http_skip_space v"
  have z: "ranges r = 0" and b: "starts_with ?p ''bytes ''"
    using assms by (auto simp: range_header_def Let_def bad_header_def split: if_splits)
  note asm = assms [unfolded range_header_def Let_def bad_header_def]
  obtain f p1 where d1: "decimal (drop 6 ?p) = Some (f, p1)"
    using asm z b by (cases "decimal (drop 6 ?p)") auto
  obtain q1 where p1: "p1 = CHR ''-'' # q1" using asm z b d1 by (cases p1) (auto split: if_splits)
  obtain l p2 where d2: "decimal q1 = Some (l, p2)" using asm z b d1 p1 by (cases "decimal q1") auto
  obtain q2 where p2: "p2 = CHR ''/'' # q2" using asm z b d1 p1 d2 by (cases p2) (auto split: if_splits)
  obtain t q where d3: "decimal q2 = Some (t, q)" using asm z b d1 p1 d2 p2 by (cases "decimal q2") auto
  have h: "range_header ?p r = header_end q (r\<lparr>ranges := 1, range_first := f, range_last := l, range_total := t\<rparr>)"
    using z b d1 p1 d2 p2 d3 by (simp add: range_header_def Let_def)
  note e = header_end_ok [of q "r\<lparr>ranges := 1, range_first := f, range_last := l, range_total := t\<rparr>", folded h, OF assms]
  obtain a where a: "v = a @ ?p" "list_all blank a" by (rule skip_split)
  obtain x where x: "drop 6 ?p = x @ p1" "digits_of x f" by (rule decimal_split [OF d1])
  obtain y where y: "q1 = y @ p2" "digits_of y l" by (rule decimal_split [OF d2])
  obtain w where w: "q2 = w @ q" "digits_of w t" by (rule decimal_split [OF d3])
  have "?p = ''bytes '' @ drop 6 ?p" using b append_take_drop_id [of "length ''bytes ''" ?p] unfolding starts_with_def
    by (simp add: numeral_eq_Suc)
  then have "v = a @ ''bytes '' @ x @ ''-'' @ y @ ''/'' @ w @ q" using a(1) x(1) y(1) w(1) p1 p2 by (metis append_Cons append_Nil append_assoc)
  then have "is_range v f l t" unfolding is_range_def using a(2) x(2) y(2) w(2) e(2) by blast
  with e(1) z show thesis by (rule that)
qed

lemma encoding_ok:
  assumes "same_name (take 8 (http_skip_space v)) ''identity''" and "\<not> http_invalid (header_end (drop 8 (http_skip_space v)) r)"
  shows "is_identity v"
proof -
  obtain a where "v = a @ http_skip_space v" "list_all blank a" by (rule skip_split)
  then have "v = a @ take 8 (http_skip_space v) @ drop 8 (http_skip_space v)" by simp
  then show ?thesis unfolding is_identity_def
    using assms(1) header_end_ok(2) [OF assms(2)] \<open>list_all blank a\<close> by blast
qed

lemma header_invalid: "http_invalid r \<Longrightarrow> http_invalid (fw_ota_http_header r k v)"
  by (auto simp: fw_ota_http_header_def length_header_def range_header_def header_end_def bad_header_def Let_def
      split: option.splits)

definition described :: "int \<Rightarrow> headers \<Rightarrow> fw_ota_http_response \<Rightarrow> bool" where
  "described st hs r \<longleftrightarrow> http_status r = st \<and>
     lengths r = of_nat (length (named ''Content-Length'' hs)) \<and> length (named ''Content-Length'' hs) \<le> 1 \<and>
     list_all (\<lambda>v. is_number v (content_len r)) (named ''Content-Length'' hs) \<and>
     ranges r = of_nat (length (named ''Content-Range'' hs)) \<and> length (named ''Content-Range'' hs) \<le> 1 \<and>
     list_all (\<lambda>v. is_range v (range_first r) (range_last r) (range_total r)) (named ''Content-Range'' hs) \<and>
     named ''Transfer-Encoding'' hs = [] \<and> list_all is_identity (named ''Content-Encoding'' hs)"

lemma names_differ:
  "same_name k ''Content-Length'' \<Longrightarrow> \<not> same_name k ''Content-Range'' \<and> \<not> same_name k ''Content-Encoding'' \<and> \<not> same_name k ''Transfer-Encoding''"
  "same_name k ''Content-Range'' \<Longrightarrow> \<not> same_name k ''Content-Length'' \<and> \<not> same_name k ''Content-Encoding'' \<and> \<not> same_name k ''Transfer-Encoding''"
  "same_name k ''Content-Encoding'' \<Longrightarrow> \<not> same_name k ''Content-Length'' \<and> \<not> same_name k ''Content-Range'' \<and> \<not> same_name k ''Transfer-Encoding''"
  by (auto simp: same_name_def lower_def Let_def)

lemma named_snoc: "named n (hs @ [(k, v)]) = named n hs @
  (case (k, v) of (Some k, Some v) \<Rightarrow> if same_name k n then [v] else [] | _ \<Rightarrow> [])"
  by (simp add: named_def split: option.splits)

lemma length_le_1: "(of_nat (length xs) :: u32) = 0 \<Longrightarrow> length xs \<le> 1 \<Longrightarrow> xs = []"
  by (cases xs) auto

lemma described_step:
  assumes d: "described st hs r" and v: "\<not> http_invalid (fw_ota_http_header r k v)"
  shows "described st (hs @ [(k, v)]) (fw_ota_http_header r k v)"
proof -
  obtain n w where kv: "k = Some n" "v = Some w"
    using v by (auto simp: fw_ota_http_header_def bad_header_def split: option.splits)
  consider (len) "same_name n ''Content-Length''" | (rng) "same_name n ''Content-Range''"
    | (enc) "same_name n ''Content-Encoding''" | (tra) "same_name n ''Transfer-Encoding''" 
      "\<not> same_name n ''Content-Length''" "\<not> same_name n ''Content-Range''" "\<not> same_name n ''Content-Encoding''"
    | (other) "\<not> same_name n ''Content-Length''" "\<not> same_name n ''Content-Range''" "\<not> same_name n ''Content-Encoding''"
      "\<not> same_name n ''Transfer-Encoding''" by blast
  then show ?thesis
  proof cases
    case len
    then have h: "fw_ota_http_header r k v = length_header (http_skip_space w) r"
      by (simp add: fw_ota_http_header_def kv Let_def)
    obtain m where "length_header (http_skip_space w) r = r\<lparr>lengths := 1, content_len := m\<rparr>" "lengths r = 0" "is_number w m"
      using length_header_ok v unfolding h by blast
    then show ?thesis using d len names_differ(1) [OF len] length_le_1 [of "named ''Content-Length'' hs"]
      unfolding h by (simp add: described_def kv named_snoc)
  next
    case rng
    then have h: "fw_ota_http_header r k v = range_header (http_skip_space w) r"
      using names_differ(2) [OF rng] by (simp add: fw_ota_http_header_def kv Let_def)
    obtain f l t where "range_header (http_skip_space w) r = r\<lparr>ranges := 1, range_first := f, range_last := l, range_total := t\<rparr>"
      "ranges r = 0" "is_range w f l t"
      using range_header_ok v unfolding h by blast
    then show ?thesis using d rng names_differ(2) [OF rng] length_le_1 [of "named ''Content-Range'' hs"]
      unfolding h by (simp add: described_def kv named_snoc)
  next
    case enc
    note n = names_differ(3) [OF enc]
    have i: "same_name (take 8 (http_skip_space w)) ''identity''"
      using v enc n by (auto simp: fw_ota_http_header_def kv Let_def bad_header_def split: if_splits)
    then have h: "fw_ota_http_header r k v = header_end (drop 8 (http_skip_space w)) r"
      using enc n by (simp add: fw_ota_http_header_def kv Let_def)
    have "is_identity w" using encoding_ok [OF i] v unfolding h by blast
    moreover have "header_end (drop 8 (http_skip_space w)) r = r" using header_end_ok(1) v unfolding h by blast
    ultimately show ?thesis using d enc n unfolding h by (simp add: described_def kv named_snoc)
  next
    case tra
    then show ?thesis using v by (simp add: fw_ota_http_header_def kv Let_def bad_header_def)
  next
    case other
    then show ?thesis using d by (simp add: fw_ota_http_header_def kv Let_def described_def named_snoc)
  qed
qed

lemma received_described: "\<not> http_invalid (receive st hs) \<Longrightarrow> described st hs (receive st hs)"
proof (induction hs rule: rev_induct)
  case Nil
  then show ?case by (simp add: receive_def response_start_def described_def named_def)
next
  case (snoc h hs)
  obtain k v where h: "h = (k, v)" by fastforce
  have r: "receive st (hs @ [(k, v)]) = fw_ota_http_header (receive st hs) k v" by (simp add: receive_def)
  show ?case using snoc described_step header_invalid unfolding h r by blast
qed

text \<open>
  A response is used for the download only if it announces exactly the missing bytes: whatever
  headers arrive, an accepted response has one Content-Length header with the number of missing
  bytes, no Transfer-Encoding and no encoding but identity; from the start it has status 200 and
  no Content-Range; as a resumption it has status 206 and one Content-Range header naming the
  first missing byte, the last byte and the length of the image.
\<close>

theorem accepted_response_exact:
  assumes "fw_ota_http_response_valid (receive st hs) offset image_len"
  shows "offset < image_len \<and>
     (\<exists>v. named ''Content-Length'' hs = [v] \<and> is_number v (image_len - offset)) \<and>
     named ''Transfer-Encoding'' hs = [] \<and> list_all is_identity (named ''Content-Encoding'' hs) \<and>
     (if offset = 0 then st = 200 \<and> named ''Content-Range'' hs = []
      else st = 206 \<and> 1024 \<le> offset \<and>
        (\<exists>v. named ''Content-Range'' hs = [v] \<and> is_range v offset (image_len - 1) image_len))"
proof -
  let ?r = "receive st hs"
  have i: "\<not> http_invalid ?r" using assms by (auto simp: fw_ota_http_response_valid_def split: if_splits)
  note d = received_described [OF i, unfolded described_def]
  have one: "\<exists>v. xs = [v]" if "(1 :: u32) = of_nat (length xs)" "length xs \<le> 1" for xs :: "string list"
    using that by (cases xs) auto
  have none: "xs = []" if "(0 :: u32) = of_nat (length xs)" "length xs \<le> 1" for xs :: "string list"
    using length_le_1 [of xs] that by simp
  show ?thesis
    using assms d one [of "named ''Content-Length'' hs"] one [of "named ''Content-Range'' hs"] none [of "named ''Content-Range'' hs"]
    by (auto simp: fw_ota_http_response_valid_def not_le split: if_splits)
qed

theorem accepted_response_exact_witness:
  "fw_ota_http_response_valid (receive 206
     [(Some ''content-length'', Some '' 3000''), (Some ''Content-Range'', Some ''bytes 2000-4999/5000 '')]) 2000 5000 \<and>
   (\<exists>v. named ''Content-Range'' [(Some ''content-length'', Some '' 3000''), (Some ''Content-Range'', Some ''bytes 2000-4999/5000 '')] = [v] \<and>
      is_range v 2000 4999 5000)"
proof
  show v: "fw_ota_http_response_valid (receive 206
     [(Some ''content-length'', Some '' 3000''), (Some ''Content-Range'', Some ''bytes 2000-4999/5000 '')]) 2000 5000"
    by code_simp
  show "\<exists>v. named ''Content-Range'' [(Some ''content-length'', Some '' 3000''), (Some ''Content-Range'', Some ''bytes 2000-4999/5000 '')] = [v] \<and>
      is_range v 2000 4999 5000"
    using accepted_response_exact [OF v] by (simp split: if_splits)
qed

text \<open>A download is given at most five attempts, with growing pauses that add up to 110 seconds.\<close>

lemma retry_schedule:
  "fw_ota_retry_delay_s n = 0 \<longleftrightarrow> n = 0 \<or> FW_OTA_MAX_ATTEMPTS \<le> n"
  "(\<Sum>n<m. fw_ota_retry_delay_s n) \<le> 110"
proof -
  have v: "fw_ota_retry_delay_s n = (if n = 1 then 5 else if n = 2 then 15 else if n = 3 then 30 else if n = 4 then 60 else 0)" for n
    by (auto simp: fw_ota_retry_delay_s_def numeral_eq_Suc less_Suc_eq)
  then show "fw_ota_retry_delay_s n = 0 \<longleftrightarrow> n = 0 \<or> FW_OTA_MAX_ATTEMPTS \<le> n" by auto
  have "(\<Sum>n<m. fw_ota_retry_delay_s n) \<le> (\<Sum>n<m + 5. fw_ota_retry_delay_s n)" by (rule sum_mono2) auto
  also have "\<dots> = 110" by (induction m) (simp_all add: v eval_nat_numeral)
  finally show "(\<Sum>n<m. fw_ota_retry_delay_s n) \<le> 110" .
qed

end
