(* ===== verification/Link_Watchdog.thy ===== *)
theory Link_Watchdog
  imports Wire_Deframer
begin

text \<open>
  The receive task of the ESP32 link, \<open>rx_task\<close> of \<open>wups_link.c\<close>: it feeds the deframer, ends
  half-received frames after silence, and supervises the link by frames addressed to this node,
  with pings, driver reinstalls and a restart as last resort.  One iteration of the loop is a
  function of what the read returned, the time, whether a firmware update runs and whether the
  driver comes up; the time is sampled once per iteration, in microseconds.  What the delivered
  frames make the node send is a parameter.
\<close>

definition WUPS_RX_IDLE_PING_MS :: u32 where [simp]: "WUPS_RX_IDLE_PING_MS = 60000"
definition WUPS_RX_PING_RETRY_MS :: int where [simp]: "WUPS_RX_PING_RETRY_MS = 15000"
definition WUPS_RX_REBOOT_GARBAGE_MIN :: u32 where [simp]: "WUPS_RX_REBOOT_GARBAGE_MIN = 4096"
definition WUPS_RX_REBOOT_CYCLE :: int where [simp]: "WUPS_RX_REBOOT_CYCLE = 6"

record rx_in =
  in_read :: "bytes option"
  in_now :: int
  in_ota :: bool
  in_uart_ok :: bool

record rx_task =
  last_ping_us :: int
  pings_sent :: int
  recovery_cycles :: int
  frames_seen :: u32
  wd_ref_ms :: u32
  bytes_at_last_frame :: u32
  s_bytes_rx :: u32
  s_rx_idle_resets :: u32
  s_rx_reinstalls :: u32
  deframer :: s_rx
  link_stats :: link_rx
  link_out :: link_tx
  restarted :: bool

definition now_ms32 :: "int \<Rightarrow> u32" where
  "now_ms32 now = word_of_int (now div 1000)"

definition wups_link_frame_age_s :: "int \<Rightarrow> link_rx \<Rightarrow> u32" where
  "wups_link_frame_age_s now k =
     (let delta = now_ms32 now - s_last_frame_ms k in if delta > 0x80000000 then 0 else delta div 1000)"

definition feed_byte :: "(wups_frame \<Rightarrow> link_tx \<Rightarrow> link_tx) \<Rightarrow> u32 \<Rightarrow> rx_task \<Rightarrow> u8 \<Rightarrow> rx_task" where
  "feed_byte on_local_frame ms s b =
     (let ((r, k), out) = rx_byte ms b (deframer s, link_stats s);
          s = s\<lparr>deframer := r, link_stats := k\<rparr> in
      case out of
        Deframed f (Some d) \<Rightarrow> s\<lparr>link_out := on_local_frame f (link_out s)\<rparr>
      | _ \<Rightarrow> s)"

definition rx_link_recover :: "bool \<Rightarrow> rx_task \<Rightarrow> rx_task" where
  "rx_link_recover uart_ok s =
     (let s = s\<lparr>deframer := rx_reset (deframer s)\<rparr> in if uart_ok then s else s\<lparr>restarted := True\<rparr>)"

definition rx_frames_seen :: "int \<Rightarrow> rx_task \<Rightarrow> rx_task" where
  "rx_frames_seen now s =
     (if s_frames_rx_unicast (link_stats s) \<noteq> frames_seen s
      then s\<lparr>frames_seen := s_frames_rx_unicast (link_stats s), bytes_at_last_frame := s_bytes_rx s,
             wd_ref_ms := now_ms32 now, pings_sent := 0, recovery_cycles := 0\<rparr>
      else s)"

definition rx_escalate :: "rx_in \<Rightarrow> rx_task \<Rightarrow> rx_task" where
  "rx_escalate i s =
     (let garbage = s_bytes_rx s - bytes_at_last_frame s;
          s = s\<lparr>recovery_cycles := recovery_cycles s + 1\<rparr> in
      if recovery_cycles s \<ge> WUPS_RX_REBOOT_CYCLE \<and>
         (s_frames_rx (link_stats s) > 0 \<or> garbage \<ge> WUPS_RX_REBOOT_GARBAGE_MIN)
      then s\<lparr>restarted := True\<rparr>
      else let s = rx_link_recover (in_uart_ok i) (s\<lparr>s_rx_reinstalls := s_rx_reinstalls s + 1\<rparr>) in
        s\<lparr>wd_ref_ms := now_ms32 (in_now i), pings_sent := 0\<rparr>)"

definition rx_supervise :: "rx_in \<Rightarrow> rx_task \<Rightarrow> rx_task" where
  "rx_supervise i s =
     (let now = in_now i in
      if in_ota i then s\<lparr>wd_ref_ms := now_ms32 now, pings_sent := 0\<rparr>
      else if now_ms32 now - wd_ref_ms s < WUPS_RX_IDLE_PING_MS then s
      else if pings_sent s < 2 then
        (if pings_sent s = 0 \<or> now - last_ping_us s \<ge> WUPS_RX_PING_RETRY_MS * 1000
         then s\<lparr>link_out := wups_link_send WUPS_ADDR_RP2040 WUPS_CLASS_SYSTEM WUPS_OP_SYS_PING WUPS_FLAG_REQ [] (link_out s),
                pings_sent := pings_sent s + 1, last_ping_us := now\<rparr>
         else s)
      else if now - last_ping_us s < WUPS_RX_PING_RETRY_MS * 1000 then s
      else rx_escalate i s)"

definition rx_read :: "(wups_frame \<Rightarrow> link_tx \<Rightarrow> link_tx) \<Rightarrow> rx_in \<Rightarrow> bytes \<Rightarrow> rx_task \<Rightarrow> rx_task" where
  "rx_read on_local_frame i bs s =
     (let s = s\<lparr>s_bytes_rx := s_bytes_rx s + of_nat (length bs)\<rparr>;
          s = foldl (feed_byte on_local_frame (now_ms32 (in_now i))) s bs in
      if bs = [] \<and> rx_state (deframer s) \<noteq> WUPS_RX_SYNC1
      then s\<lparr>s_rx_idle_resets := s_rx_idle_resets s + 1, deframer := rx_reset (deframer s)\<rparr> else s)"

text \<open>A read that fails ends the iteration; after a restart nothing happens.\<close>

definition rx_iteration :: "(wups_frame \<Rightarrow> link_tx \<Rightarrow> link_tx) \<Rightarrow> rx_task \<Rightarrow> rx_in \<Rightarrow> rx_task" where
  "rx_iteration on_local_frame s i =
     (if restarted s then s
      else case in_read i of
        None \<Rightarrow> s
      | Some bs \<Rightarrow> rx_supervise i (rx_frames_seen (in_now i) (rx_read on_local_frame i bs s)))"

definition rx_task_start :: "int \<Rightarrow> rx_task" where
  "rx_task_start now =
     \<lparr>last_ping_us = 0, pings_sent = 0, recovery_cycles = 0, frames_seen = 0, wd_ref_ms = now_ms32 now,
      bytes_at_last_frame = 0, s_bytes_rx = 0, s_rx_idle_resets = 0, s_rx_reinstalls = 0, deframer = rx_boot,
      link_stats = \<lparr>s_frames_rx = 0, s_rx_resync = 0, s_rx_bad = 0, s_frames_rx_unicast = 0, s_last_frame_ms = 0\<rparr>,
      link_out = \<lparr>s_tx_seq = 0, s_frames_tx = 0, s_bytes_tx = 0, uart_out = []\<rparr>, restarted = False\<rparr>"

section \<open>A silent or corrupted link\<close>

text \<open>
  The time since the start of the watchdog window, for each number of pings sent.  \<open>ref\<close> is the
  time the window started, \<open>d\<close> a bound on the time between iterations.
\<close>

definition ladder :: "int \<Rightarrow> int \<Rightarrow> int \<Rightarrow> rx_task \<Rightarrow> bool" where
  "ladder d ref now s \<longleftrightarrow> ref \<le> now \<and> wd_ref_ms s = now_ms32 ref \<and>
     (pings_sent s = 0 \<and> now div 1000 - ref div 1000 < 60000 \<or>
      now div 1000 - ref div 1000 \<ge> 60000 \<and> pings_sent s = 1 \<and> last_ping_us s - ref \<le> 60001000 + d \<and> now - last_ping_us s < 15000000 \<or>
      now div 1000 - ref div 1000 \<ge> 60000 \<and> pings_sent s = 2 \<and> last_ping_us s - ref \<le> 75001000 + 2 * d \<and> now - last_ping_us s < 15000000)"

lemma ladder_bound:
  assumes "ladder d ref now s" and "0 \<le> d"
  shows "now - ref < 90001000 + 2 * d"
proof -
  have "now - ref < 60001000" if "now div 1000 - ref div 1000 < 60000"
  proof -
    have "now < (now div 1000 + 1) * 1000" "(ref div 1000) * 1000 \<le> ref" by (simp_all add: algebra_simps)
    then show ?thesis using that by (simp add: algebra_simps)
  qed
  then show ?thesis using assms by (auto simp: ladder_def)
qed

lemma ms_elapsed:
  assumes "ref \<le> now" and "now - ref < 4294967000000"
  shows "now_ms32 now - now_ms32 ref < 60000 \<longleftrightarrow> now div 1000 - ref div 1000 < 60000"
proof -
  let ?e = "now div 1000 - ref div 1000"
  have e: "0 \<le> ?e" "?e < 4294967296"
    using assms zdiv_mono1 [of ref now 1000] by auto
  have "now_ms32 now - now_ms32 ref = word_of_int ?e" unfolding now_ms32_def wi_hom_sub ..
  then have "uint (now_ms32 now - now_ms32 ref) = ?e" using e by (simp only: uint_word_of_int) (simp add: take_bit_eq_mod)
  then show ?thesis by (simp add: word_less_def)
qed

lemma feed_byte_shape:
  obtains r k t where "feed_byte olf ms s b = s\<lparr>deframer := r, link_stats := k, link_out := t\<rparr>"
proof -
  obtain r k out where rx: "rx_byte ms b (deframer s, link_stats s) = ((r, k), out)"
    by (metis surj_pair)
  show thesis
  proof (cases "\<exists>f d. out = Deframed f (Some d)")
    case True
    then obtain f d where "out = Deframed f (Some d)" by blast
    with rx have "feed_byte olf ms s b = s\<lparr>deframer := r, link_stats := k, link_out := olf f (link_out s)\<rparr>"
      by (simp add: feed_byte_def del: rx_byte.simps)
    then show thesis by (rule that)
  next
    case False
    with rx have "feed_byte olf ms s b = s\<lparr>deframer := r, link_stats := k, link_out := link_out s\<rparr>"
      by (cases out) (auto simp: feed_byte_def Let_def simp del: rx_byte.simps split: option.split)
    then show thesis by (rule that)
  qed
qed

lemma feed_byte_keeps [simp]:
  "wd_ref_ms (feed_byte olf ms s b) = wd_ref_ms s" "pings_sent (feed_byte olf ms s b) = pings_sent s"
  "last_ping_us (feed_byte olf ms s b) = last_ping_us s" "frames_seen (feed_byte olf ms s b) = frames_seen s"
  "restarted (feed_byte olf ms s b) = restarted s" "s_rx_reinstalls (feed_byte olf ms s b) = s_rx_reinstalls s"
  "s_bytes_rx (feed_byte olf ms s b) = s_bytes_rx s"
  "bytes_at_last_frame (feed_byte olf ms s b) = bytes_at_last_frame s"
  by (rule feed_byte_shape [of olf ms s b]; simp)+

lemma feed_bytes_keep [simp]:
  "wd_ref_ms (foldl (feed_byte olf ms) s bs) = wd_ref_ms s" "pings_sent (foldl (feed_byte olf ms) s bs) = pings_sent s"
  "last_ping_us (foldl (feed_byte olf ms) s bs) = last_ping_us s" "frames_seen (foldl (feed_byte olf ms) s bs) = frames_seen s"
  "restarted (foldl (feed_byte olf ms) s bs) = restarted s" "s_rx_reinstalls (foldl (feed_byte olf ms) s bs) = s_rx_reinstalls s"
  "s_bytes_rx (foldl (feed_byte olf ms) s bs) = s_bytes_rx s"
  "bytes_at_last_frame (foldl (feed_byte olf ms) s bs) = bytes_at_last_frame s"
  by (induction bs arbitrary: s) simp_all

lemma rx_read_keeps [simp]:
  "wd_ref_ms (rx_read olf i bs s) = wd_ref_ms s" "pings_sent (rx_read olf i bs s) = pings_sent s"
  "last_ping_us (rx_read olf i bs s) = last_ping_us s" "frames_seen (rx_read olf i bs s) = frames_seen s"
  "restarted (rx_read olf i bs s) = restarted s" "s_rx_reinstalls (rx_read olf i bs s) = s_rx_reinstalls s"
  "s_bytes_rx (rx_read olf i bs s) = s_bytes_rx s + of_nat (length bs)"
  "bytes_at_last_frame (rx_read olf i bs s) = bytes_at_last_frame s"
  by (simp_all add: rx_read_def Let_def)

definition quiet_from :: "int \<Rightarrow> int \<Rightarrow> rx_in \<Rightarrow> bool" where
  "quiet_from d now i \<longleftrightarrow> now \<le> in_now i \<and> in_now i \<le> now + d \<and> in_read i \<noteq> None \<and> \<not> in_ota i"

lemma ladder_step:
  assumes l: "ladder d ref now s" and q: "quiet_from d now i" and d: "0 \<le> d" "d \<le> 1000000000"
    and live: "\<not> restarted s"
    and unseen: "s_frames_rx_unicast (link_stats (rx_read olf i (the (in_read i)) s)) = frames_seen s"
  defines "s' \<equiv> rx_iteration olf s i"
  shows "restarted s' \<or> s_rx_reinstalls s' = s_rx_reinstalls s + 1 \<or>
         ladder d ref (in_now i) s' \<and> s_rx_reinstalls s' = s_rx_reinstalls s"
proof -
  obtain bs where bs: "in_read i = Some bs" using q by (auto simp: quiet_from_def)
  let ?t = "rx_read olf i bs s"
  have s': "s' = rx_supervise i ?t"
    using bs live unseen by (simp add: s'_def rx_iteration_def rx_frames_seen_def)
  have ref: "ref \<le> in_now i" "in_now i - ref < 4294967000000"
    using l q d ladder_bound [OF l d(1)] by (auto simp: ladder_def quiet_from_def)
  have w: "wd_ref_ms s = now_ms32 ref" using l by (simp add: ladder_def)
  note window = ms_elapsed [OF ref]
  show ?thesis
    using l q d ref unfolding s'
    by (auto simp: rx_supervise_def rx_escalate_def rx_link_recover_def ladder_def quiet_from_def Let_def window w)
qed

text \<open>
  A run of iterations at most \<open>d\<close> microseconds apart, in none of which a frame addressed to this
  node arrives.
\<close>

fun quiet_run :: "int \<Rightarrow> int \<Rightarrow> rx_in list \<Rightarrow> bool" where
  "quiet_run d now [] = True"
| "quiet_run d now (i # ins) = (quiet_from d now i \<and> quiet_run d (in_now i) ins)"

fun unanswered :: "(wups_frame \<Rightarrow> link_tx \<Rightarrow> link_tx) \<Rightarrow> rx_task \<Rightarrow> rx_in list \<Rightarrow> bool" where
  "unanswered olf s [] = True"
| "unanswered olf s (i # ins) =
     ((case in_read i of None \<Rightarrow> True
       | Some bs \<Rightarrow> s_frames_rx_unicast (link_stats (rx_read olf i bs s)) = s_frames_rx_unicast (link_stats s))
      \<and> unanswered olf (rx_iteration olf s i) ins)"

definition recovered :: "u32 \<Rightarrow> rx_task \<Rightarrow> bool" where
  "recovered r0 s \<longleftrightarrow> restarted s \<or> s_rx_reinstalls s = r0 + 1"

lemma rx_supervise_keeps [simp]:
  "link_stats (rx_supervise i s) = link_stats s" "frames_seen (rx_supervise i s) = frames_seen s"
  by (simp_all add: rx_supervise_def rx_escalate_def rx_link_recover_def Let_def)

lemma unanswered_iteration:
  assumes "frames_seen s = s_frames_rx_unicast (link_stats s)" and "unanswered olf s (i # ins)"
  shows "frames_seen (rx_iteration olf s i) = s_frames_rx_unicast (link_stats (rx_iteration olf s i))"
  using assms by (auto simp: rx_iteration_def rx_frames_seen_def split: option.splits)

lemma ladder_run:
  assumes "ladder d ref now s" and "quiet_run d now ins" and "unanswered olf s ins"
    and "0 \<le> d" "d \<le> 1000000000" and "\<not> restarted s" and "s_rx_reinstalls s = r0"
    and "frames_seen s = s_frames_rx_unicast (link_stats s)"
  shows "(\<exists>k\<le>length ins. recovered r0 (foldl (rx_iteration olf) s (take k ins))) \<or>
         (ins \<noteq> [] \<longrightarrow> in_now (last ins) - ref < 90001000 + 2 * d)"
  using assms
proof (induction ins arbitrary: s now)
  case Nil
  then show ?case by simp
next
  case (Cons i ins)
  let ?s = "rx_iteration olf s i"
  have q: "quiet_from d now i" "quiet_run d (in_now i) ins" using Cons.prems(2) by simp_all
  have u: "unanswered olf ?s ins" using Cons.prems(3) by simp
  have unseen: "s_frames_rx_unicast (link_stats (rx_read olf i (the (in_read i)) s)) = frames_seen s"
    using Cons.prems(3,8) q(1) by (auto simp: quiet_from_def)
  from ladder_step [OF Cons.prems(1) q(1) Cons.prems(4,5,6) unseen] Cons.prems(7)
  consider "recovered r0 ?s" | "ladder d ref (in_now i) ?s" "s_rx_reinstalls ?s = r0" "\<not> restarted ?s"
    by (auto simp: recovered_def)
  then show ?case
  proof cases
    case 1
    then have "recovered r0 (foldl (rx_iteration olf) s (take 1 (i # ins)))" by simp
    then show ?thesis by (intro disjI1 exI [of _ 1]) simp
  next
    case 2
    from Cons.IH [OF 2(1) q(2) u Cons.prems(4,5) 2(3,2) unanswered_iteration [OF Cons.prems(8,3)]]
    show ?thesis
    proof
      assume "\<exists>k\<le>length ins. recovered r0 (foldl (rx_iteration olf) ?s (take k ins))"
      then obtain k where "k \<le> length ins" "recovered r0 (foldl (rx_iteration olf) ?s (take k ins))" by blast
      then show ?thesis by (intro disjI1 exI [of _ "Suc k"]) simp
    next
      assume "ins \<noteq> [] \<longrightarrow> in_now (last ins) - ref < 90001000 + 2 * d"
      then show ?thesis using ladder_bound [OF 2(1) Cons.prems(4)] by auto
    qed
  qed
qed

lemma silent_link_stats:
  assumes "in_read i = Some []"
  shows "link_stats (rx_read olf i [] s) = link_stats s" "link_stats (rx_iteration olf s i) = link_stats s"
  using assms by (simp_all add: rx_read_def rx_iteration_def rx_frames_seen_def)

lemma silent_unanswered: "\<forall>i\<in>set ins. in_read i = Some [] \<Longrightarrow> unanswered olf s ins"
  by (induction ins arbitrary: s) (simp_all add: silent_link_stats)


definition idle_read :: "int \<Rightarrow> rx_in" where
  "idle_read now = \<lparr>in_read = Some [], in_now = now, in_ota = False, in_uart_ok = True\<rparr>"


section \<open>A card with no peer attached\<close>

definition garbage :: "rx_task \<Rightarrow> u32" where
  "garbage s = s_bytes_rx s - bytes_at_last_frame s"

definition read_bytes :: "rx_in \<Rightarrow> nat" where
  "read_bytes i = (case in_read i of None \<Rightarrow> 0 | Some bs \<Rightarrow> length bs)"

fun frameless :: "(wups_frame \<Rightarrow> link_tx \<Rightarrow> link_tx) \<Rightarrow> rx_task \<Rightarrow> rx_in list \<Rightarrow> bool" where
  "frameless olf s [] = True"
| "frameless olf s (i # ins) =
     ((case in_read i of None \<Rightarrow> True | Some bs \<Rightarrow> s_frames_rx (link_stats (rx_read olf i bs s)) = 0)
      \<and> frameless olf (rx_iteration olf s i) ins)"

lemma rx_supervise_bytes [simp]:
  "s_bytes_rx (rx_supervise i s) = s_bytes_rx s"
  "bytes_at_last_frame (rx_supervise i s) = bytes_at_last_frame s"
  by (simp_all add: rx_supervise_def rx_escalate_def rx_link_recover_def Let_def)

lemma garbage_iteration:
  "unat (garbage (rx_iteration olf s i)) \<le> unat (garbage s) + read_bytes i"
proof (cases "in_read i")
  case (Some bs)
  have "unat (s_bytes_rx s + of_nat (length bs) - bytes_at_last_frame s) \<le> unat (garbage s) + length bs"
  proof -
    have "s_bytes_rx s + of_nat (length bs) - bytes_at_last_frame s = garbage s + of_nat (length bs)"
      by (simp add: garbage_def)
    then show ?thesis
      by (simp only: unat_word_ariths unat_of_nat) (metis mod_add_right_eq mod_less_eq_dividend)
  qed
  with Some show ?thesis
    by (simp add: rx_iteration_def rx_frames_seen_def garbage_def read_bytes_def)
qed (simp add: rx_iteration_def read_bytes_def garbage_def)

lemma iteration_no_restart:
  assumes "\<not> restarted s" and "in_uart_ok i" and "frameless olf s [i]"
    and "unat (garbage s) + read_bytes i < 4096"
  shows "\<not> restarted (rx_iteration olf s i)"
proof (cases "in_read i")
  case (Some bs)
  let ?t = "rx_frames_seen (in_now i) (rx_read olf i bs s)"
  have it: "rx_iteration olf s i = rx_supervise i ?t" using Some assms(1) by (simp add: rx_iteration_def)
  have "unat (garbage (rx_iteration olf s i)) < 4096"
    using garbage_iteration [of olf s i] assms(4) by linarith
  then have g: "unat (garbage ?t) < 4096" by (simp add: it garbage_def)
  have "\<not> WUPS_RX_REBOOT_GARBAGE_MIN \<le> garbage ?t"
  proof
    assume "WUPS_RX_REBOOT_GARBAGE_MIN \<le> garbage ?t"
    then show False using g by (simp add: word_le_nat_alt)
  qed
  moreover have "s_frames_rx (link_stats ?t) = 0" "\<not> restarted ?t"
    using assms(1,3) Some by (simp_all add: rx_frames_seen_def)
  ultimately show ?thesis
    using assms(2) unfolding it
    by (simp add: rx_supervise_def rx_escalate_def rx_link_recover_def garbage_def Let_def)
qed (use assms(1) in \<open>simp add: rx_iteration_def\<close>)

text \<open>
  A bench card never reboots.  With no RP2040 attached, so that no frame is ever deframed and
  less than 4096 bytes of noise arrive in all, and a driver that comes up, the receive task never
  restarts the node, however long it runs: it keeps reinstalling the driver.
\<close>

theorem bench_never_reboots:
  assumes "\<not> restarted s" and "\<forall>i\<in>set ins. in_uart_ok i" and "frameless olf s ins"
    and "unat (garbage s) + sum_list (map read_bytes ins) < 4096"
  shows "\<not> restarted (foldl (rx_iteration olf) s ins)"
  using assms
proof (induction ins arbitrary: s)
  case (Cons i ins)
  have "\<not> restarted (rx_iteration olf s i)"
    using Cons.prems by (intro iteration_no_restart) auto
  moreover have "unat (garbage (rx_iteration olf s i)) + sum_list (map read_bytes ins) < 4096"
    using Cons.prems(4) garbage_iteration [of olf s i] by simp
  ultimately show ?case using Cons.prems Cons.IH by simp
qed simp

lemma silent_frameless:
  "\<lbrakk>\<forall>i\<in>set ins. in_read i = Some []; s_frames_rx (link_stats s) = 0\<rbrakk> \<Longrightarrow> frameless olf s ins"
  by (induction ins arbitrary: s) (simp_all add: silent_link_stats)

theorem bench_never_reboots_witness:
  "\<not> restarted (foldl (rx_iteration (\<lambda>f t. t)) (rx_task_start 0)
     (map (\<lambda>n. idle_read (int n * 50000)) [0..<100000]))"
proof (rule bench_never_reboots)
  show "frameless (\<lambda>f t. t) (rx_task_start 0) (map (\<lambda>n. idle_read (int n * 50000)) [0..<100000])"
    by (rule silent_frameless) (auto simp: idle_read_def rx_task_start_def)
  have "sum_list (map read_bytes (map (\<lambda>n. idle_read (int n * 50000)) ns)) = 0" for ns
    by (induction ns) (simp_all add: read_bytes_def idle_read_def)
  then show "unat (garbage (rx_task_start 0))
    + sum_list (map read_bytes (map (\<lambda>n. idle_read (int n * 50000)) [0..<100000])) < 4096"
    by (simp only:) (simp add: garbage_def rx_task_start_def)
qed (auto simp: rx_task_start_def idle_read_def)

end
