(* ===== verification/Fw_Proto.thy ===== *)
theory Fw_Proto
  imports Wire_Protocol
begin

text \<open>
  The firmware transfer messages of \<open>common/protocol.h\<close> (\<open>net.fw_xfer_*\<close>): the packed payload
  structures as the sender writes them and as the receivers copy them out, and the result codes.
\<close>

definition WUPS_OP_NET_FW_UPDATE :: u8 where [simp]: "WUPS_OP_NET_FW_UPDATE = 0x22"
definition WUPS_OP_NET_FW_XFER_BEGIN :: u8 where [simp]: "WUPS_OP_NET_FW_XFER_BEGIN = 0x23"
definition WUPS_OP_NET_FW_XFER_DATA :: u8 where [simp]: "WUPS_OP_NET_FW_XFER_DATA = 0x24"
definition WUPS_OP_NET_FW_XFER_END :: u8 where [simp]: "WUPS_OP_NET_FW_XFER_END = 0x25"

definition WUPS_FW_TARGET_ESP32 :: u8 where [simp]: "WUPS_FW_TARGET_ESP32 = 1"
definition WUPS_FW_TARGET_RP2040 :: u8 where [simp]: "WUPS_FW_TARGET_RP2040 = 2"

definition WUPS_FW_XFER_CHUNK :: nat where [simp]: "WUPS_FW_XFER_CHUNK = WUPS_MAX_PAYLOAD - 4"

definition WUPS_FW_XFER_OK :: u8 where [simp]: "WUPS_FW_XFER_OK = 0"
definition WUPS_FW_XFER_BAD_REQ :: u8 where [simp]: "WUPS_FW_XFER_BAD_REQ = 1"
definition WUPS_FW_XFER_BUSY :: u8 where [simp]: "WUPS_FW_XFER_BUSY = 2"
definition WUPS_FW_XFER_SEQ_MISMATCH :: u8 where [simp]: "WUPS_FW_XFER_SEQ_MISMATCH = 3"
definition WUPS_FW_XFER_FLASH_ERR :: u8 where [simp]: "WUPS_FW_XFER_FLASH_ERR = 4"
definition WUPS_FW_XFER_VERIFY_FAIL :: u8 where [simp]: "WUPS_FW_XFER_VERIFY_FAIL = 5"
definition WUPS_FW_XFER_IDLE_TIMEOUT_S :: int where [simp]: "WUPS_FW_XFER_IDLE_TIMEOUT_S = 30"

definition WUPS_FW_UPDATE_RESULT_OK :: u8 where [simp]: "WUPS_FW_UPDATE_RESULT_OK = 0"
definition WUPS_FW_UPDATE_RESULT_BAD_REQ :: u8 where [simp]: "WUPS_FW_UPDATE_RESULT_BAD_REQ = 1"
definition WUPS_FW_UPDATE_RESULT_BUSY :: u8 where [simp]: "WUPS_FW_UPDATE_RESULT_BUSY = 2"
definition WUPS_FW_UPDATE_RESULT_NO_NET :: u8 where [simp]: "WUPS_FW_UPDATE_RESULT_NO_NET = 3"

text \<open>The packed structures; a receiver has checked the length before it copies one out.\<close>

record xfer_begin_msg =
  xb_version :: u8
  xb_target :: u8
  xb_image_len :: u32
  xb_sha256 :: bytes

record xfer_end_msg =
  xe_version :: u8
  xe_commit :: u8

definition sizeof_xfer_begin :: nat where [simp]: "sizeof_xfer_begin = 40"
definition sizeof_xfer_data_hdr :: nat where [simp]: "sizeof_xfer_data_hdr = 4"
definition sizeof_xfer_end :: nat where [simp]: "sizeof_xfer_end = 4"

definition load_begin :: "bytes \<Rightarrow> xfer_begin_msg" where
  "load_begin p = \<lparr>xb_version = p ! 0, xb_target = p ! 1, xb_image_len = rd_u32le (drop 4 p),
     xb_sha256 = take 32 (drop 8 p)\<rparr>"

definition load_end :: "bytes \<Rightarrow> xfer_end_msg" where
  "load_end p = \<lparr>xe_version = p ! 0, xe_commit = p ! 1\<rparr>"

definition begin_bytes :: "u8 \<Rightarrow> u32 \<Rightarrow> bytes \<Rightarrow> bytes" where
  "begin_bytes target image_len sha = [1, target, 0, 0] @ le32 image_len @ sha"

definition data_bytes :: "u32 \<Rightarrow> bytes \<Rightarrow> bytes" where
  "data_bytes offset chunk = le32 offset @ chunk"

definition end_bytes :: "u8 \<Rightarrow> bytes" where
  "end_bytes commit = [1, commit, 0, 0]"

lemma load_begin_bytes:
  assumes "length sha = 32"
  shows "load_begin (begin_bytes t n sha) = \<lparr>xb_version = 1, xb_target = t, xb_image_len = n, xb_sha256 = sha\<rparr>"
    and "length (begin_bytes t n sha) = 40"
proof -
  have "rd_u32le (le32 n @ sha) = n" by (rule rd_u32le_le32)
  then show "load_begin (begin_bytes t n sha) = \<lparr>xb_version = 1, xb_target = t, xb_image_len = n, xb_sha256 = sha\<rparr>"
    using assms by (simp add: load_begin_def begin_bytes_def)
  show "length (begin_bytes t n sha) = 40" using assms by (simp add: begin_bytes_def)
qed

lemma data_bytes_fields:
  "rd_u32le (data_bytes n c) = n" "drop 4 (data_bytes n c) = c" "length (data_bytes n c) = 4 + length c"
  by (simp_all add: data_bytes_def rd_u32le_le32)

lemma load_end_bytes: "load_end (end_bytes c) = \<lparr>xe_version = 1, xe_commit = c\<rparr>" "length (end_bytes c) = 4"
  by (simp_all add: load_end_def end_bytes_def)

end
