(* ===== verification/Fw_Ota.thy ===== *)
theory Fw_Ota
  imports Fw_Proto Nvs_Store
begin

text \<open>
  The update slot of the ESP32, \<open>fw_ota.c\<close>: the claims that keep updates, image confirmation,
  rollback and modem recovery apart, the receiver of images pushed over the link
  (\<open>net.fw_xfer_*\<close>), and the supervision of a freshly installed image.  The OTA and partition
  functions of the platform and SHA-256 are a parameter.  Requests run under the transfer lock and
  each critical section is atomic, so handlers are functions on the state; banners, status
  messages and replies are logged in the order they are sent.
\<close>

section \<open>Platform and state\<close>

definition ESP_ERR_NO_MEM :: esp_err where [simp]: "ESP_ERR_NO_MEM = 0x101"
definition ESP_ERR_OTA_VALIDATE_FAILED :: esp_err where [simp]: "ESP_ERR_OTA_VALIDATE_FAILED = 0x1503"

record part =
  part_label :: string
  part_size :: u32

record 'p ota_api =
  esp_ota_get_next_update_partition :: "'p \<Rightarrow> part option"
  esp_ota_begin :: "'p \<Rightarrow> part \<Rightarrow> 'p \<times> nat \<times> esp_err"
  esp_ota_write :: "'p \<Rightarrow> nat \<Rightarrow> bytes \<Rightarrow> 'p \<times> esp_err"
  esp_ota_end :: "'p \<Rightarrow> nat \<Rightarrow> 'p \<times> esp_err"
  esp_ota_abort :: "'p \<Rightarrow> nat \<Rightarrow> 'p"
  esp_partition_read :: "'p \<Rightarrow> part \<Rightarrow> nat \<Rightarrow> nat \<Rightarrow> bytes option"
  esp_ota_set_boot_partition :: "'p \<Rightarrow> part \<Rightarrow> 'p \<times> esp_err"
  esp_ota_mark_app_valid_cancel_rollback :: "'p \<Rightarrow> 'p \<times> esp_err"
  esp_ota_mark_app_invalid_rollback_and_reboot :: "'p \<Rightarrow> 'p \<times> bool"
  mbedtls_sha256 :: "bytes \<Rightarrow> bytes"
  readback_heap :: "'p \<Rightarrow> bool"

definition FW_OTA_READBACK_CHUNK :: nat where [simp]: "FW_OTA_READBACK_CHUNK = 4096"
definition FW_OTA_VERIFY_WINDOW_S :: int where [simp]: "FW_OTA_VERIFY_WINDOW_S = 600"
definition FW_OTA_URL_MAX :: nat where [simp]: "FW_OTA_URL_MAX = 168"
definition FW_RELAY_IMAGE_MAX :: u32 where [simp]: "FW_RELAY_IMAGE_MAX = 2097152"

datatype fw_status =
    St_Started u32
  | St_Progress int
  | St_Verifying
  | St_Rebooting
  | St_Done
  | St_Error string string

datatype fw_out =
    Ui_Banner "string option"
  | Emit_Status fw_status
  | Xfer_Resp u8 u8 u8 u8
  | Arkiv_Ack u8 u8
  | Cmd_Response bytes
  | Esp_Restart

record 'p fw_ota =
  s_in_progress :: bool
  s_modem_recovery_busy :: bool
  s_validation_busy :: bool
  s_pending_verify :: bool
  s_marked_valid :: bool
  s_url :: string
  s_sha_expected :: bytes
  s_image_len :: u32
  s_update_part :: "part option"
  s_xfer_open :: bool
  s_xfer_handle :: nat
  s_xfer_part :: part
  s_xfer_image_len :: u32
  s_xfer_received :: u32
  s_xfer_sha :: bytes
  s_xfer_last_us :: int
  mqtt_ota_state :: bool
  fw_log :: "fw_out list"
  flash :: 'p

definition emit :: "fw_out \<Rightarrow> 'p fw_ota \<Rightarrow> 'p fw_ota" where
  "emit e s = s\<lparr>fw_log := fw_log s @ [e]\<rparr>"

lemma emit_simps [simp]:
  "s_in_progress (emit e s) = s_in_progress s" "s_validation_busy (emit e s) = s_validation_busy s"
  "s_modem_recovery_busy (emit e s) = s_modem_recovery_busy s" "s_pending_verify (emit e s) = s_pending_verify s"
  "s_marked_valid (emit e s) = s_marked_valid s" "s_xfer_open (emit e s) = s_xfer_open s"
  "s_xfer_handle (emit e s) = s_xfer_handle s" "s_xfer_part (emit e s) = s_xfer_part s"
  "s_xfer_image_len (emit e s) = s_xfer_image_len s" "s_xfer_received (emit e s) = s_xfer_received s"
  "s_xfer_sha (emit e s) = s_xfer_sha s" "flash (emit e s) = flash s" "mqtt_ota_state (emit e s) = mqtt_ota_state s"
  "fw_log (emit e s) = fw_log s @ [e]"
  by (simp_all add: emit_def)

section \<open>Claims\<close>

definition fw_ota_try_modem_recovery :: "bool \<Rightarrow> 'p fw_ota \<Rightarrow> 'p fw_ota \<times> bool" where
  "fw_ota_try_modem_recovery commit s =
     (let ok = \<not> s_in_progress s \<and> \<not> s_validation_busy s \<and> \<not> s_modem_recovery_busy s \<and> commit in
      (if ok then s\<lparr>s_modem_recovery_busy := True\<rparr> else s, ok))"

definition fw_ota_finish_modem_recovery :: "'p fw_ota \<Rightarrow> 'p fw_ota" where
  "fw_ota_finish_modem_recovery s = s\<lparr>s_modem_recovery_busy := False\<rparr>"

definition claim_in_progress :: "'p fw_ota \<Rightarrow> 'p fw_ota \<times> bool" where
  "claim_in_progress s =
     (if \<not> s_in_progress s \<and> \<not> s_validation_busy s \<and> \<not> s_modem_recovery_busy s
      then (s\<lparr>s_in_progress := True, mqtt_ota_state := True\<rparr>, True) else (s, False))"

definition release_in_progress :: "'p fw_ota \<Rightarrow> 'p fw_ota" where
  "release_in_progress s = s\<lparr>s_in_progress := False, mqtt_ota_state := False\<rparr>"

section \<open>Confirmation and rollback\<close>

datatype ota_confirm_reason =
    OTA_CONFIRM_AUTOMATIC_UPLINK
  | OTA_CONFIRM_AUTHORIZED_NEXT_UPDATE
  | OTA_CONFIRM_PHYSICAL_TRANSFER

record conf_in =
  conf_now :: int
  conf_mqtt_mode :: bool
  conf_proof_fresh :: bool

datatype confirm_answer = Conf_No | Conf_Yes | Conf_Claimed

text \<open>The two critical sections of \<open>confirm_running_image\<close>, around the flash write.\<close>

definition confirm_enter :: "ota_confirm_reason \<Rightarrow> conf_in \<Rightarrow> 'p fw_ota \<Rightarrow> 'p fw_ota \<times> confirm_answer" where
  "confirm_enter reason i s =
     (let automatic = (reason = OTA_CONFIRM_AUTOMATIC_UPLINK) in
      if s_validation_busy s then (s, Conf_No)
      else if \<not> s_pending_verify s then (s, Conf_Yes)
      else if s_marked_valid s \<or> s_in_progress s \<or>
              automatic \<and> conf_now i \<ge> FW_OTA_VERIFY_WINDOW_S * 1000000 then (s, Conf_No)
      else if automatic \<and> conf_mqtt_mode i \<and> \<not> conf_proof_fresh i then (s, Conf_No)
      else (s\<lparr>s_validation_busy := True\<rparr>, Conf_Claimed))"

definition confirm_leave :: "esp_err \<Rightarrow> 'p fw_ota \<Rightarrow> 'p fw_ota" where
  "confirm_leave err s =
     (let s = (if err = ESP_OK then s\<lparr>s_marked_valid := True, s_pending_verify := False\<rparr> else s) in
      s\<lparr>s_validation_busy := False\<rparr>)"

definition confirm_running_image ::
  "'p ota_api \<Rightarrow> ota_confirm_reason \<Rightarrow> conf_in \<Rightarrow> 'p fw_ota \<Rightarrow> 'p fw_ota \<times> bool" where
  "confirm_running_image a reason i s =
     (case confirm_enter reason i s of
        (s, Conf_No) \<Rightarrow> (s, False)
      | (s, Conf_Yes) \<Rightarrow> (s, True)
      | (s, Conf_Claimed) \<Rightarrow>
          let (p, err) = esp_ota_mark_app_valid_cancel_rollback a (flash s) in
          (confirm_leave err (s\<lparr>flash := p\<rparr>), err = ESP_OK))"

definition fw_ota_mark_uplink_healthy :: "'p ota_api \<Rightarrow> conf_in \<Rightarrow> 'p fw_ota \<Rightarrow> 'p fw_ota" where
  "fw_ota_mark_uplink_healthy a i s = fst (confirm_running_image a OTA_CONFIRM_AUTOMATIC_UPLINK i s)"

definition rollback_enter :: "int \<Rightarrow> 'p fw_ota \<Rightarrow> 'p fw_ota \<times> bool" where
  "rollback_enter now s =
     (if \<not> s_pending_verify s \<or> s_marked_valid s \<or> s_validation_busy s \<or> s_in_progress s \<or>
         now < FW_OTA_VERIFY_WINDOW_S * 1000000
      then (s, False) else (s\<lparr>s_validation_busy := True\<rparr>, True))"

definition fw_ota_rollback_tick :: "'p ota_api \<Rightarrow> int \<Rightarrow> 'p fw_ota \<Rightarrow> 'p fw_ota" where
  "fw_ota_rollback_tick a now s =
     (case rollback_enter now s of
        (s, False) \<Rightarrow> s
      | (s, True) \<Rightarrow>
          let (p, rebooted) = esp_ota_mark_app_invalid_rollback_and_reboot a (flash s); s = s\<lparr>flash := p\<rparr> in
          if rebooted then emit Esp_Restart s
          else s\<lparr>s_marked_valid := True, s_validation_busy := False\<rparr>)"

section \<open>Reading an image back\<close>

text \<open>
  The offset is a natural number: it stays below the partition size plus one block.
\<close>

function read_back :: "'p ota_api \<Rightarrow> 'p \<Rightarrow> part \<Rightarrow> nat \<Rightarrow> nat \<Rightarrow> bytes option" where
  "read_back a p part len off =
     (if off \<ge> len then Some []
      else let n = min (len - off) FW_OTA_READBACK_CHUNK in
      case esp_partition_read a p part off n of
        None \<Rightarrow> None
      | Some c \<Rightarrow> map_option ((@) c) (read_back a p part len (off + FW_OTA_READBACK_CHUNK)))"
  by pat_completeness auto
termination by (relation "measure (\<lambda>(a, p, part, len, off). len - off)") auto

declare read_back.simps [simp del]

definition verify_written_image :: "'p ota_api \<Rightarrow> 'p \<Rightarrow> part \<Rightarrow> u32 \<Rightarrow> bytes \<Rightarrow> bool" where
  "verify_written_image a p part len expected =
     (readback_heap a p \<and>
      (case read_back a p part (unat len) 0 of
         None \<Rightarrow> False
       | Some content \<Rightarrow> mbedtls_sha256 a content = expected))"

section \<open>Receiving an image over the link\<close>

definition xfer_abort_locked :: "'p ota_api \<Rightarrow> 'p fw_ota \<Rightarrow> 'p fw_ota" where
  "xfer_abort_locked a s =
     (if \<not> s_xfer_open s then s
      else release_in_progress (emit (Ui_Banner None)
        (s\<lparr>flash := esp_ota_abort a (flash s) (s_xfer_handle s), s_xfer_open := False\<rparr>)))"

definition xfer_begin :: "'p ota_api \<Rightarrow> conf_in \<Rightarrow> bytes \<Rightarrow> 'p fw_ota \<Rightarrow> 'p fw_ota \<times> u8" where
  "xfer_begin a i payload s =
     (if length payload < sizeof_xfer_begin then (s, WUPS_FW_XFER_BAD_REQ)
      else let req = load_begin payload in
      if xb_version req \<noteq> 1 then (s, WUPS_FW_XFER_BAD_REQ)
      else if xb_target req \<noteq> WUPS_FW_TARGET_ESP32 then (s, WUPS_FW_XFER_BAD_REQ)
      else let s = (if s_xfer_open s then xfer_abort_locked a s else s) in
      if s_in_progress s then (s, WUPS_FW_XFER_BUSY)
      else case esp_ota_get_next_update_partition a (flash s) of
        None \<Rightarrow> (s, WUPS_FW_XFER_FLASH_ERR)
      | Some part \<Rightarrow>
          if xb_image_len req = 0 \<or> xb_image_len req > part_size part then (s, WUPS_FW_XFER_BAD_REQ)
          else case confirm_running_image a OTA_CONFIRM_PHYSICAL_TRANSFER i s of
            (s, False) \<Rightarrow> (s, WUPS_FW_XFER_BUSY)
          | (s, True) \<Rightarrow> (case claim_in_progress s of
              (s, False) \<Rightarrow> (s, WUPS_FW_XFER_BUSY)
            | (s, True) \<Rightarrow>
                let (p, handle, err) = esp_ota_begin a (flash s) part; s = s\<lparr>flash := p, s_xfer_handle := handle\<rparr> in
                if err \<noteq> ESP_OK then (release_in_progress s, WUPS_FW_XFER_FLASH_ERR)
                else let s = s\<lparr>s_xfer_part := part, s_xfer_image_len := xb_image_len req, s_xfer_received := 0,
                       s_xfer_sha := xb_sha256 req, s_xfer_open := True\<rparr> in
                (emit (Emit_Status (St_Started (xb_image_len req))) (emit (Ui_Banner (Some ''FW UPDATE'')) s),
                 WUPS_FW_XFER_OK)))"

definition xfer_data :: "'p ota_api \<Rightarrow> bytes \<Rightarrow> 'p fw_ota \<Rightarrow> 'p fw_ota \<times> u8" where
  "xfer_data a payload s =
     (if \<not> s_xfer_open s then (s, WUPS_FW_XFER_BAD_REQ)
      else if length payload < sizeof_xfer_data_hdr then (s, WUPS_FW_XFER_BAD_REQ)
      else let offset = rd_u32le payload; chunk = drop sizeof_xfer_data_hdr payload in
      if offset \<noteq> s_xfer_received s then (xfer_abort_locked a s, WUPS_FW_XFER_SEQ_MISMATCH)
      else if unat offset + length chunk > unat (s_xfer_image_len s)
      then (xfer_abort_locked a s, WUPS_FW_XFER_BAD_REQ)
      else if chunk \<noteq> [] then
        let (p, err) = esp_ota_write a (flash s) (s_xfer_handle s) chunk; s = s\<lparr>flash := p\<rparr> in
        if err \<noteq> ESP_OK then (xfer_abort_locked a s, WUPS_FW_XFER_FLASH_ERR)
        else (s\<lparr>s_xfer_received := s_xfer_received s + of_nat (length chunk)\<rparr>, WUPS_FW_XFER_OK)
      else (s, WUPS_FW_XFER_OK))"

text \<open>A failed end releases the slot and takes the banner down.\<close>

definition xfer_drop :: "'p fw_ota \<Rightarrow> 'p fw_ota" where
  "xfer_drop s = release_in_progress (emit (Ui_Banner None) s)"

definition xfer_end :: "'p ota_api \<Rightarrow> bytes \<Rightarrow> 'p fw_ota \<Rightarrow> 'p fw_ota \<times> u8 \<times> bool" where
  "xfer_end a payload s =
     (if \<not> s_xfer_open s then (s, WUPS_FW_XFER_BAD_REQ, False)
      else if length payload < sizeof_xfer_end then (s, WUPS_FW_XFER_BAD_REQ, False)
      else let req = load_end payload in
      if xe_version req \<noteq> 1 then (s, WUPS_FW_XFER_BAD_REQ, False)
      else if xe_commit req = 0 then (xfer_abort_locked a s, WUPS_FW_XFER_OK, False)
      else if s_xfer_received s \<noteq> s_xfer_image_len s
      then (xfer_abort_locked a s, WUPS_FW_XFER_BAD_REQ, False)
      else let s = s\<lparr>s_xfer_open := False\<rparr>;
               (p, err) = esp_ota_end a (flash s) (s_xfer_handle s); s = s\<lparr>flash := p\<rparr> in
      if err \<noteq> ESP_OK then
        (xfer_drop s, if err = ESP_ERR_OTA_VALIDATE_FAILED then WUPS_FW_XFER_VERIFY_FAIL else WUPS_FW_XFER_FLASH_ERR, False)
      else let s = emit (Emit_Status St_Verifying) s in
      if \<not> verify_written_image a (flash s) (s_xfer_part s) (s_xfer_image_len s) (s_xfer_sha s)
      then (xfer_drop s, WUPS_FW_XFER_VERIFY_FAIL, False)
      else let (p, err) = esp_ota_set_boot_partition a (flash s) (s_xfer_part s); s = s\<lparr>flash := p\<rparr> in
      if err \<noteq> ESP_OK then (xfer_drop s, WUPS_FW_XFER_FLASH_ERR, False)
      else (s, WUPS_FW_XFER_OK, True))"

definition fw_ota_xfer_on_req ::
  "'p ota_api \<Rightarrow> conf_in \<Rightarrow> u8 \<Rightarrow> u8 \<Rightarrow> u8 \<Rightarrow> bytes \<Rightarrow> 'p fw_ota \<Rightarrow> 'p fw_ota" where
  "fw_ota_xfer_on_req a i op src seq payload s =
     (let (s, result, reboot) =
        (if op = WUPS_OP_NET_FW_XFER_BEGIN then let (s, r) = xfer_begin a i payload s in (s, r, False)
         else if op = WUPS_OP_NET_FW_XFER_DATA then let (s, r) = xfer_data a payload s in (s, r, False)
         else if op = WUPS_OP_NET_FW_XFER_END then xfer_end a payload s
         else (s, WUPS_FW_XFER_BAD_REQ, False));
          s = s\<lparr>s_xfer_last_us := conf_now i\<rparr>;
          s = emit (Xfer_Resp src op seq result) s in
      if reboot then emit Esp_Restart (emit (Emit_Status St_Rebooting) s) else s)"

definition fw_ota_xfer_tick :: "'p ota_api \<Rightarrow> bool \<Rightarrow> int \<Rightarrow> 'p fw_ota \<Rightarrow> 'p fw_ota" where
  "fw_ota_xfer_tick a lock_free now s =
     (if \<not> s_xfer_open s \<or> \<not> lock_free then s
      else if now - s_xfer_last_us s > WUPS_FW_XFER_IDLE_TIMEOUT_S * 1000000
      then emit (Emit_Status (St_Error ''xfer'' ''idle timeout'')) (xfer_abort_locked a s)
      else s)"

section \<open>Requests for an update\<close>

definition fw_hex_nibble :: "char \<Rightarrow> u8 option" where
  "fw_hex_nibble c = (let v = of_char c :: u8 in
     if of_char (CHR ''0'') \<le> v \<and> v \<le> of_char (CHR ''9'') then Some (v - of_char (CHR ''0''))
     else if of_char (CHR ''a'') \<le> v \<and> v \<le> of_char (CHR ''f'') then Some (v - of_char (CHR ''a'') + 10)
     else if of_char (CHR ''A'') \<le> v \<and> v \<le> of_char (CHR ''F'') then Some (v - of_char (CHR ''A'') + 10)
     else None)"

text \<open>Bytes decoded before a bad character stay in the buffer.\<close>

fun sha256_hex_decode :: "string \<Rightarrow> nat \<Rightarrow> nat \<Rightarrow> bytes \<Rightarrow> bytes \<times> bool" where
  "sha256_hex_decode hex i 0 out = (out, True)"
| "sha256_hex_decode hex i (Suc left) out =
     (case (fw_hex_nibble (hex ! (2 * i)), fw_hex_nibble (hex ! (2 * i + 1))) of
        (Some hi, Some lo) \<Rightarrow> sha256_hex_decode hex (Suc i) left (out[i := push_bit 4 hi OR lo])
      | _ \<Rightarrow> (out, False))"

text \<open>The partition an accepted image goes to; none for an image that is relayed.\<close>

definition request_part ::
  "'p ota_api \<Rightarrow> conf_in \<Rightarrow> u32 \<Rightarrow> u8 \<Rightarrow> 'p fw_ota \<Rightarrow> 'p fw_ota \<times> part option \<times> esp_err" where
  "request_part a i image_len target s =
     (if target = WUPS_FW_TARGET_ESP32 then
        (case esp_ota_get_next_update_partition a (flash s) of
           None \<Rightarrow> (s, None, ESP_ERR_NOT_FOUND)
         | Some part \<Rightarrow>
             if image_len = 0 \<or> image_len > part_size part then (s, None, ESP_ERR_INVALID_ARG)
             else case confirm_running_image a OTA_CONFIRM_AUTHORIZED_NEXT_UPDATE i s of
               (s, False) \<Rightarrow> (s, None, ESP_ERR_INVALID_STATE)
             | (s, True) \<Rightarrow> (s, Some part, ESP_OK))
      else if image_len = 0 \<or> image_len > FW_RELAY_IMAGE_MAX then (s, None, ESP_ERR_INVALID_ARG)
      else (s, None, ESP_OK))"

definition fw_ota_request ::
  "'p ota_api \<Rightarrow> conf_in \<Rightarrow> bool \<Rightarrow> string option \<Rightarrow> string option \<Rightarrow> u32 \<Rightarrow> u8 \<Rightarrow>
   'p fw_ota \<Rightarrow> 'p fw_ota \<times> esp_err" where
  "fw_ota_request a i task_created url sha256_hex image_len target s =
     (if s_in_progress s then (s, ESP_ERR_INVALID_STATE)
      else if target \<noteq> WUPS_FW_TARGET_ESP32 \<and> target \<noteq> WUPS_FW_TARGET_RP2040 then (s, ESP_ERR_INVALID_ARG)
      else if url = None \<or> take 8 (the url) \<noteq> ''https://'' \<or> length (the url) > FW_OTA_URL_MAX
      then (s, ESP_ERR_INVALID_ARG)
      else if sha256_hex = None \<or> length (the sha256_hex) \<noteq> 64 then (s, ESP_ERR_INVALID_ARG)
      else let (out, ok) = sha256_hex_decode (the sha256_hex) 0 32 (s_sha_expected s);
               s = s\<lparr>s_sha_expected := out\<rparr> in
      if \<not> ok then (s, ESP_ERR_INVALID_ARG)
      else let (s, part, err) = request_part a i image_len target s in
      if err \<noteq> ESP_OK then (s, err)
      else let s = s\<lparr>s_url := the url, s_image_len := image_len, s_update_part := part\<rparr> in
      case claim_in_progress s of
        (s, False) \<Rightarrow> (s, ESP_ERR_INVALID_STATE)
      | (s, True) \<Rightarrow> if \<not> task_created then (release_in_progress s, ESP_ERR_NO_MEM) else (s, ESP_OK))"

text \<open>A zero byte ends a C string.\<close>

definition c_string :: "bytes \<Rightarrow> string" where
  "c_string bs = map (\<lambda>b. char_of (unat b)) (takeWhile (\<lambda>b. b \<noteq> 0) bs)"

definition encode_resp_frame :: "u8 \<Rightarrow> u8 \<Rightarrow> u8 \<Rightarrow> bytes" where
  "encode_resp_frame dst seq result =
     (let out = [WUPS_SYNC1, WUPS_SYNC2, dst, WUPS_ADDR_ESP32, WUPS_CLASS_NET, WUPS_OP_NET_FW_UPDATE, WUPS_FLAG_RESP,
                 seq, 1, 0, result];
          (a, b) = wups_fletcher8 (take 9 (drop 2 out)) in
      out @ [a, b, WUPS_END1, WUPS_END2])"

definition sizeof_fw_update_hdr :: nat where [simp]: "sizeof_fw_update_hdr = 72"

record downlink_in =
  dl_conf :: conf_in
  dl_ppp_up :: bool
  dl_task_created :: bool
  dl_ack_pending :: bool
  dl_topic :: bool

definition downlink_request ::
  "'p ota_api \<Rightarrow> downlink_in \<Rightarrow> bytes \<Rightarrow> 'p fw_ota \<Rightarrow> 'p fw_ota \<times> u8" where
  "downlink_request a i frame s =
     (let plen = unat (rd_u16le (drop 8 frame)); p = drop WUPS_HEADER_BYTES frame in
      if WUPS_FRAMING_BYTES + plen > length frame \<or> plen < sizeof_fw_update_hdr then (s, WUPS_FW_UPDATE_RESULT_BAD_REQ)
      else if p ! 0 \<noteq> 1 \<or> unat (p ! 1) + sizeof_fw_update_hdr > plen \<or> p ! 1 = 0
      then (s, WUPS_FW_UPDATE_RESULT_BAD_REQ)
      else let ul = min (unat (p ! 1)) FW_OTA_URL_MAX;
               url = c_string (take ul (drop sizeof_fw_update_hdr p));
               sha_hex = c_string (take 64 (drop 8 p));
               target = (if p ! 2 = 0 then WUPS_FW_TARGET_ESP32 else p ! 2) in
      if \<not> dl_ppp_up i then (s, WUPS_FW_UPDATE_RESULT_NO_NET)
      else let (s, err) = fw_ota_request a (dl_conf i) (dl_task_created i) (Some url) (Some sha_hex)
                            (rd_u32le (drop 4 p)) target s in
      (s, if err = ESP_OK then WUPS_FW_UPDATE_RESULT_OK
          else if err = ESP_ERR_INVALID_STATE then WUPS_FW_UPDATE_RESULT_BUSY else WUPS_FW_UPDATE_RESULT_BAD_REQ))"

definition fw_ota_try_handle_downlink ::
  "'p ota_api \<Rightarrow> downlink_in \<Rightarrow> bytes \<Rightarrow> 'p fw_ota \<Rightarrow> 'p fw_ota \<times> bool" where
  "fw_ota_try_handle_downlink a i frame s =
     (if length frame < WUPS_FRAMING_BYTES then (s, False)
      else if frame ! 0 \<noteq> WUPS_SYNC1 \<or> frame ! 1 \<noteq> WUPS_SYNC2 then (s, False)
      else if frame ! 4 \<noteq> WUPS_CLASS_NET \<or> frame ! 5 \<noteq> WUPS_OP_NET_FW_UPDATE then (s, False)
      else if frame ! 6 AND WUPS_FLAG_REQ = 0 then (s, True)
      else let (s, result) = downlink_request a i frame s; seq = frame ! 7 in
      (if dl_ack_pending i then emit (Arkiv_Ack seq result) s
       else if dl_topic i then emit (Cmd_Response (encode_resp_frame (frame ! 3) seq result)) s
       else s, True))"

end
