(* ===== verification/Fw_Session.thy ===== *)
theory Fw_Session
  imports Fw_Ota
begin

text \<open>
  What the update slot of the ESP32 guarantees: claims exclude each other under every
  interleaving of critical sections, an image under supervision is decided once, and an image that is
  committed is, byte for byte, one whose digest was announced.
\<close>

section \<open>Claims exclude each other\<close>

text \<open>
  The critical sections of the claim mutex, in any order.  Those of a confirmation or a rollback
  that hold the validation claim end with the corresponding leave step.
\<close>

inductive claim_step :: "'p fw_ota \<Rightarrow> 'p fw_ota \<Rightarrow> bool" where
  Modem_Try: "claim_step s (fst (fw_ota_try_modem_recovery commit s))"
| Modem_Finish: "claim_step s (fw_ota_finish_modem_recovery s)"
| Claim: "claim_step s (fst (claim_in_progress s))"
| Release: "claim_step s (release_in_progress s)"
| Confirm_Enter: "claim_step s (fst (confirm_enter reason i s))"
| Confirm_Leave: "s_validation_busy s \<Longrightarrow> claim_step s (confirm_leave err s)"
| Rollback_Enter: "claim_step s (fst (rollback_enter now s))"
| Rollback_Leave: "s_validation_busy s \<Longrightarrow> claim_step s (s\<lparr>s_marked_valid := True, s_validation_busy := False\<rparr>)"

inductive_cases claim_stepE: "claim_step s s'"

definition exclusive :: "'p fw_ota \<Rightarrow> bool" where
  "exclusive s \<longleftrightarrow> \<not> (s_in_progress s \<and> s_validation_busy s) \<and> \<not> (s_in_progress s \<and> s_modem_recovery_busy s) \<and>
     mqtt_ota_state s = s_in_progress s"

lemma exclusive_step:
  assumes "claim_step s s'" and "exclusive s"
  shows "exclusive s'"
  using assms
  by cases (auto simp: exclusive_def fw_ota_try_modem_recovery_def fw_ota_finish_modem_recovery_def
      claim_in_progress_def release_in_progress_def confirm_enter_def confirm_leave_def rollback_enter_def Let_def)


section \<open>One decision per image\<close>

text \<open>Everything that supervises the running image, with the outcome of each flash operation logged.\<close>

datatype sup_event =
    Uplink_Healthy conf_in
  | Explicit ota_confirm_reason conf_in
  | Rollback_Tick int
  | Slot_Claim
  | Slot_Release

datatype decision = Marked_Valid bool | Rolled_Back bool

fun sup_step :: "'p ota_api \<Rightarrow> 'p fw_ota \<Rightarrow> sup_event \<Rightarrow> 'p fw_ota \<times> decision list" where
  "sup_step a s (Uplink_Healthy i) = (fw_ota_mark_uplink_healthy a i s,
     case confirm_enter OTA_CONFIRM_AUTOMATIC_UPLINK i s of
       (t, Conf_Claimed) \<Rightarrow> [Marked_Valid (snd (esp_ota_mark_app_valid_cancel_rollback a (flash t)) = ESP_OK)] | _ \<Rightarrow> [])"
| "sup_step a s (Explicit r i) = (fst (confirm_running_image a r i s),
     case confirm_enter r i s of
       (t, Conf_Claimed) \<Rightarrow> [Marked_Valid (snd (esp_ota_mark_app_valid_cancel_rollback a (flash t)) = ESP_OK)] | _ \<Rightarrow> [])"
| "sup_step a s (Rollback_Tick now) = (fw_ota_rollback_tick a now s,
     if snd (rollback_enter now s) then [Rolled_Back (snd (esp_ota_mark_app_invalid_rollback_and_reboot a (flash s)))] else [])"
| "sup_step a s Slot_Claim = (fst (claim_in_progress s), [])"
| "sup_step a s Slot_Release = (release_in_progress s, [])"

fun sup_run :: "'p ota_api \<Rightarrow> 'p fw_ota \<Rightarrow> sup_event list \<Rightarrow> 'p fw_ota \<times> decision list" where
  "sup_run a s [] = (s, [])"
| "sup_run a s (e # es) = (let (s, ds) = sup_step a s e; (s, ds') = sup_run a s es in (s, ds @ ds'))"

definition decided :: "'p fw_ota \<Rightarrow> bool" where
  "decided s \<longleftrightarrow> \<not> s_pending_verify s \<or> s_marked_valid s \<or> s_validation_busy s"

lemma decided_quiet:
  assumes "decided s"
  shows "snd (sup_step a s e) = []" and "decided (fst (sup_step a s e))"
  using assms
  by (cases e; auto simp: decided_def fw_ota_mark_uplink_healthy_def confirm_running_image_def confirm_enter_def
      fw_ota_rollback_tick_def rollback_enter_def claim_in_progress_def release_in_progress_def Let_def)+

lemma decided_run: "decided s \<Longrightarrow> snd (sup_run a s es) = []"
proof (induction es arbitrary: s)
  case (Cons e es)
  obtain t ds where "sup_step a s e = (t, ds)" by fastforce
  with decided_quiet [OF Cons.prems, of a e] Cons.IH [of t] show ?case by (simp split: prod.splits)
qed simp

lemma sup_step_decides:
  assumes "snd (sup_step a s e) = ds" and "\<not> decided s"
  shows "ds = [] \<or> ds = [Marked_Valid False] \<or>
    (ds = [Marked_Valid True] \<or> ds = [Rolled_Back True] \<or> ds = [Rolled_Back False]) \<and> decided (fst (sup_step a s e))"
  using assms
  by (cases e; auto simp: decided_def fw_ota_mark_uplink_healthy_def confirm_running_image_def confirm_enter_def
      confirm_leave_def fw_ota_rollback_tick_def rollback_enter_def Let_def split: prod.splits)

text \<open>
  A fresh image is decided once.  Whatever supervision events and updates happen, the flash
  operations on the boot record are failed attempts to mark the image valid, followed by at most one
  decision: the image is marked valid or a rollback is started; after a decision there is no
  second one.
\<close>

theorem image_decided_once:
  "\<exists>n last. snd (sup_run a s es) = replicate n (Marked_Valid False) @ last \<and>
     last \<in> {[], [Marked_Valid True], [Rolled_Back True], [Rolled_Back False]}"
proof (induction es arbitrary: s)
  case Nil
  show ?case by (simp add: exI [of _ 0])
next
  case (Cons e es)
  obtain t ds where st: "sup_step a s e = (t, ds)" by fastforce
  have run: "snd (sup_run a s (e # es)) = ds @ snd (sup_run a t es)" by (simp add: st split: prod.split)
  show ?case
  proof (cases "decided s")
    case True
    then have "snd (sup_run a s (e # es)) = []" by (rule decided_run)
    then show ?thesis by (intro exI [of _ 0] exI [of _ "[]"]) simp
  next
    case False
    with sup_step_decides [of a s e ds] st
    consider "ds = []" | "ds = [Marked_Valid False]"
      | "ds \<in> {[Marked_Valid True], [Rolled_Back True], [Rolled_Back False]}" "decided t" by auto
    then show ?thesis
    proof cases
      case 1
      then show ?thesis using Cons.IH [of t] run by simp
    next
      case 2
      obtain n l where "snd (sup_run a t es) = replicate n (Marked_Valid False) @ l"
        and "l \<in> {[], [Marked_Valid True], [Rolled_Back True], [Rolled_Back False]}"
        using Cons.IH [of t] by blast
      then show ?thesis using 2 run by (intro exI [of _ "Suc n"] exI [of _ l]) simp
    next
      case 3
      then show ?thesis using run decided_run [of t a es] by (intro exI [of _ 0] exI [of _ ds]) auto
    qed
  qed
qed

text \<open>
  When a rollback fails, the image stays pending but counts as marked, so that every later
  confirmation fails, and with it every update of this controller until it is restarted.
\<close>

lemma update_locked_out:
  assumes "s_pending_verify s" and "s_marked_valid s"
  shows "\<not> snd (confirm_running_image a r i s)"
    and "snd (fw_ota_request a i tc url sha len WUPS_FW_TARGET_ESP32 s) \<noteq> ESP_OK"
    and "snd (xfer_begin a i payload s) \<noteq> WUPS_FW_XFER_OK"
proof -
  have no: "confirm_running_image a r i t = (t, False)" if "s_pending_verify t" "s_marked_valid t" for t r
    using that by (simp add: confirm_running_image_def confirm_enter_def Let_def)
  show "\<not> snd (confirm_running_image a r i s)" by (simp add: no assms)
  show "snd (fw_ota_request a i tc url sha len WUPS_FW_TARGET_ESP32 s) \<noteq> ESP_OK"
    using assms by (auto simp: fw_ota_request_def request_part_def no Let_def split: prod.split option.split)
  show "snd (xfer_begin a i payload s) \<noteq> WUPS_FW_XFER_OK"
    using assms by (simp add: xfer_begin_def xfer_abort_locked_def release_in_progress_def no Let_def split: option.split)
qed

section \<open>The rollback slot is never overwritten while it is needed\<close>

lemma confirmed_not_pending:
  "confirm_running_image a r i s = (t, True) \<Longrightarrow> \<not> s_pending_verify t"
  by (auto simp: confirm_running_image_def confirm_enter_def confirm_leave_def Let_def split: if_splits prod.splits)

lemma claimed_fields:
  "claim_in_progress s = (t, True) \<Longrightarrow> \<not> s_in_progress s \<and> s_in_progress t \<and> s_pending_verify t = s_pending_verify s"
  by (auto simp: claim_in_progress_def split: if_splits)

lemma request_part_ok:
  "request_part a i n 1 s = (s', part, 0) \<Longrightarrow> \<not> s_pending_verify s'"
  by (auto simp: request_part_def dest: confirmed_not_pending split: if_splits option.splits prod.splits bool.splits)

text \<open>
  An unconfirmed image keeps its way back.  If an update of this controller is accepted, from
  the network or over the link, then no other update was running, the slot is claimed, and the running
  image is not waiting for verification any more, so the slot that is overwritten is not a rollback target.
\<close>

theorem accepted_update_not_pending:
  "(snd (fw_ota_request a i tc url sha len WUPS_FW_TARGET_ESP32 s) = ESP_OK \<longrightarrow>
     (let s' = fst (fw_ota_request a i tc url sha len WUPS_FW_TARGET_ESP32 s) in
      \<not> s_in_progress s \<and> s_in_progress s' \<and> \<not> s_pending_verify s')) \<and>
   (snd (xfer_begin a i payload s) = WUPS_FW_XFER_OK \<longrightarrow>
     (let s' = fst (xfer_begin a i payload s) in
      (\<not> s_in_progress s \<or> s_xfer_open s) \<and> s_in_progress s' \<and> \<not> s_pending_verify s'))"
proof (intro conjI impI)
  assume ok: "snd (fw_ota_request a i tc url sha len WUPS_FW_TARGET_ESP32 s) = ESP_OK"
  then obtain s' where req: "fw_ota_request a i tc url sha len WUPS_FW_TARGET_ESP32 s = (s', ESP_OK)"
    by (metis prod.collapse)
  obtain u part v where "request_part a i len WUPS_FW_TARGET_ESP32 u = (v, part, ESP_OK)"
    and "claim_in_progress (v\<lparr>s_url := the url, s_image_len := len, s_update_part := part\<rparr>) = (s', True)"
    and "\<not> s_in_progress s"
    using req by (simp add: fw_ota_request_def Let_def split: if_splits prod.splits bool.splits)
  then show "let s' = fst (fw_ota_request a i tc url sha len WUPS_FW_TARGET_ESP32 s) in
      \<not> s_in_progress s \<and> s_in_progress s' \<and> \<not> s_pending_verify s'"
    unfolding req Let_def fst_conv by (auto dest!: claimed_fields dest: request_part_ok)
next
  assume ok: "snd (xfer_begin a i payload s) = WUPS_FW_XFER_OK"
  then obtain t where beg: "xfer_begin a i payload s = (t, WUPS_FW_XFER_OK)" by (metis prod.collapse)
  let ?s = "if s_xfer_open s then xfer_abort_locked a s else s"
  obtain u v where "confirm_running_image a OTA_CONFIRM_PHYSICAL_TRANSFER i ?s = (u, True)"
    and "claim_in_progress u = (v, True)" and "\<not> s_in_progress ?s"
    and "s_in_progress t = s_in_progress v" "s_pending_verify t = s_pending_verify v"
    using beg by (auto simp: xfer_begin_def Let_def split: if_splits option.splits prod.splits bool.splits)
  then show "let s' = fst (xfer_begin a i payload s) in
      (\<not> s_in_progress s \<or> s_xfer_open s) \<and> s_in_progress s' \<and> \<not> s_pending_verify s'"
    unfolding beg Let_def fst_conv by (auto dest!: confirmed_not_pending claimed_fields split: if_splits)
qed

section \<open>What is committed is what was announced\<close>

text \<open>
  Everything that can happen while a transfer is going on.  The task of an update that was
  requested by command owns the slot until it ends; what it does to the flash is arbitrary.
\<close>

datatype 'p fw_event =
    Xfer_Req conf_in u8 u8 u8 bytes
  | Xfer_Tick bool int
  | Supervise sup_event
  | Modem_Recover bool
  | Downlink_Frame downlink_in bytes
  | Update_Task_End 'p

fun fw_step :: "'p ota_api \<Rightarrow> 'p fw_ota \<Rightarrow> 'p fw_event \<Rightarrow> 'p fw_ota" where
  "fw_step a s (Xfer_Req i op src seq p) = fw_ota_xfer_on_req a i op src seq p s"
| "fw_step a s (Xfer_Tick free now) = fw_ota_xfer_tick a free now s"
| "fw_step a s (Supervise (Uplink_Healthy i)) = fw_ota_mark_uplink_healthy a i s"
| "fw_step a s (Supervise (Rollback_Tick now)) = fw_ota_rollback_tick a now s"
| "fw_step a s (Supervise _) = s"
| "fw_step a s (Modem_Recover commit) = fst (fw_ota_try_modem_recovery commit s)"
| "fw_step a s (Downlink_Frame i f) = fst (fw_ota_try_handle_downlink a i f s)"
| "fw_step a s (Update_Task_End p) = (if s_in_progress s \<and> \<not> s_xfer_open s then release_in_progress (s\<lparr>flash := p\<rparr>) else s)"

text \<open>What the sender of the open session has announced and what was accepted from it.\<close>

type_synonym session = "bytes \<times> bytes"

fun session_step :: "'p ota_api \<Rightarrow> 'p fw_ota \<Rightarrow> session \<Rightarrow> 'p fw_event \<Rightarrow> session" where
  "session_step a s g (Xfer_Req i op src seq p) =
     (if op = WUPS_OP_NET_FW_XFER_BEGIN \<and> snd (xfer_begin a i p s) = WUPS_FW_XFER_OK then (p, [])
      else if op = WUPS_OP_NET_FW_XFER_DATA \<and> snd (xfer_data a p s) = WUPS_FW_XFER_OK then (fst g, snd g @ drop 4 p)
      else g)"
| "session_step a s g _ = g"

fun fw_run :: "'p ota_api \<Rightarrow> 'p fw_ota \<Rightarrow> session \<Rightarrow> 'p fw_event list \<Rightarrow> 'p fw_ota \<times> session" where
  "fw_run a s g [] = (s, g)"
| "fw_run a s g (e # es) = fw_run a (fw_step a s e) (session_step a s g e) es"

text \<open>
  What the platform documents of a sequential write session: it starts empty, a successful write
  appends, and after a successful end the partition reads as what was written.
\<close>

definition ota_appends :: "'p ota_api \<Rightarrow> ('p \<Rightarrow> nat \<Rightarrow> part \<times> bytes) \<Rightarrow> bool" where
  "ota_appends a content \<longleftrightarrow>
     (\<forall>p part p' h. esp_ota_begin a p part = (p', h, ESP_OK) \<longrightarrow> content p' h = (part, [])) \<and>
     (\<forall>p h bs p'. esp_ota_write a p h bs = (p', ESP_OK) \<longrightarrow> content p' h = (fst (content p h), snd (content p h) @ bs)) \<and>
     (\<forall>p h p' off n. esp_ota_end a p h = (p', ESP_OK) \<longrightarrow> off + n \<le> length (snd (content p h)) \<longrightarrow>
        esp_partition_read a p' (fst (content p h)) off n = Some (take n (drop off (snd (content p h)))))"

definition session_ok :: "('p \<Rightarrow> nat \<Rightarrow> part \<times> bytes) \<Rightarrow> 'p fw_ota \<Rightarrow> session \<Rightarrow> bool" where
  "session_ok content s g \<longleftrightarrow> (s_xfer_open s \<longrightarrow>
     s_in_progress s \<and> content (flash s) (s_xfer_handle s) = (s_xfer_part s, snd g) \<and>
     unat (s_xfer_received s) = length (snd g) \<and> length (snd g) \<le> unat (s_xfer_image_len s) \<and>
     s_xfer_image_len s = xb_image_len (load_begin (fst g)) \<and> s_xfer_sha s = xb_sha256 (load_begin (fst g)))"

lemma session_ok_closed: "\<not> s_xfer_open s \<Longrightarrow> session_ok content s g"
  by (simp add: session_ok_def)

lemma read_back_content:
  assumes "\<And>off n. off + n \<le> length c \<Longrightarrow> esp_partition_read a p part off n = Some (take n (drop off c))"
  shows "read_back a p part (length c) off = Some (drop off c)"
proof (induction "length c - off" arbitrary: off rule: less_induct)
  case less
  show ?case
  proof (cases "off \<ge> length c")
    case True
    then show ?thesis by (subst read_back.simps) simp
  next
    case False
    let ?n = "min (length c - off) 4096"
    have IH: "read_back a p part (length c) (off + 4096) = Some (drop (off + 4096) c)"
      using less False by simp
    have split: "take ?n (drop off c) @ drop (off + 4096) c = drop off c"
      by (simp add: min_def) (metis add.commute append_take_drop_id drop_drop)
    show ?thesis using False assms [of off ?n] IH split
      by (subst read_back.simps) simp
  qed
qed

lemma confirm_keeps_xfer [simp]:
  "s_xfer_open (fst (confirm_running_image a r i s)) = s_xfer_open s"
  "s_in_progress (fst (confirm_running_image a r i s)) = s_in_progress s"
  by (simp_all add: confirm_running_image_def confirm_enter_def confirm_leave_def Let_def split: prod.split)

lemma begin_ok:
  assumes "xfer_begin a i p s = (s', r)" and "ota_appends a content" and "session_ok content s g"
  shows "r = WUPS_FW_XFER_OK \<and> session_ok content s' (p, []) \<or> r \<noteq> WUPS_FW_XFER_OK \<and> session_ok content s' g"
proof -
  let ?t = "if s_xfer_open s then xfer_abort_locked a s else s"
  have closed: "\<not> s_xfer_open ?t" by (simp add: xfer_abort_locked_def release_in_progress_def)
  show ?thesis
  proof (cases "r = WUPS_FW_XFER_OK")
    case False
    have "\<not> s_xfer_open s' \<or> s' = s"
      using assms(1) closed False
      by (auto simp: xfer_begin_def xfer_abort_locked_def release_in_progress_def claim_in_progress_def Let_def
          dest!: arg_cong [of "confirm_running_image _ _ _ _" _ fst]
          split: if_splits option.splits prod.splits bool.splits)
    then show ?thesis using False assms(3) by (auto simp: session_ok_closed)
  next
    case True
    obtain part t1 t2 f h where claim: "claim_in_progress t1 = (t2, True)"
      and init: "esp_ota_begin a (flash t2) part = (f, h, ESP_OK)"
      and s': "s' = emit (Emit_Status (St_Started (xb_image_len (load_begin p)))) (emit (Ui_Banner (Some ''FW UPDATE''))
        (t2\<lparr>flash := f, s_xfer_handle := h, s_xfer_part := part, s_xfer_image_len := xb_image_len (load_begin p),
           s_xfer_received := 0, s_xfer_sha := xb_sha256 (load_begin p), s_xfer_open := True\<rparr>))"
      using assms(1) True
      by (auto simp: xfer_begin_def Let_def split: if_splits option.splits prod.splits bool.splits)
    have "s_in_progress t2" using claim by (auto simp: claim_in_progress_def split: if_splits)
    moreover have "content f h = (part, [])" using assms(2) init by (auto simp: ota_appends_def)
    ultimately show ?thesis using True by (simp add: s' session_ok_def)
  qed
qed

lemma data_ok:
  assumes "xfer_data a p s = (s', r)" and "ota_appends a content" and "session_ok content s g"
  shows "r = WUPS_FW_XFER_OK \<and> session_ok content s' (fst g, snd g @ drop 4 p) \<or>
         r \<noteq> WUPS_FW_XFER_OK \<and> session_ok content s' g"
proof -
  have step: "unat (s_xfer_received s + of_nat (length c)) = unat (s_xfer_received s) + length c"
    if "unat (s_xfer_received s) + length c \<le> unat (s_xfer_image_len s)" for c :: bytes
  proof -
    have "unat (s_xfer_received s) + length c < 2 ^ 32"
      using that unat_bound [of "s_xfer_image_len s"] by simp
    then show ?thesis by (simp add: unat_word_ariths unat_of_nat)
  qed
  have step4: "unat (s_xfer_received s + (of_nat (length p) - 4)) = unat (s_xfer_received s) + length p - 4"
    if "4 \<le> length p" "unat (s_xfer_received s) + length p - 4 \<le> unat (s_xfer_image_len s)"
    using step [of "drop 4 p"] that by (simp add: of_nat_diff)
  have app: "content f h = (fst (content q h), snd (content q h) @ c)"
    if "esp_ota_write a q h c = (f, 0)" for q h c f using assms(2) that by (auto simp: ota_appends_def)
  show ?thesis
    using assms(1,3)
    by (auto simp: xfer_data_def xfer_abort_locked_def release_in_progress_def session_ok_def Let_def step4
        dest!: app split: if_splits prod.splits)
qed

lemma end_ok:
  assumes "xfer_end a p s = (s', r, reboot)" and "session_ok content s g"
  shows "session_ok content s' g"
  using assms
  by (auto simp: xfer_end_def xfer_abort_locked_def release_in_progress_def xfer_drop_def session_ok_def Let_def
      split: if_splits prod.splits)

lemma end_commits:
  assumes "xfer_end a p s = (s', r, True)" and "ota_appends a content" and "session_ok content s g"
  shows "mbedtls_sha256 a (snd g) = xb_sha256 (load_begin (fst g))"
    and "length (snd g) = unat (xb_image_len (load_begin (fst g)))"
    and "\<exists>f f'. esp_ota_set_boot_partition a f (s_xfer_part s) = (f', ESP_OK) \<and> flash s' = f'"
proof -
  obtain f f' where op: "s_xfer_open s" and full: "s_xfer_received s = s_xfer_image_len s"
    and fin: "esp_ota_end a (flash s) (s_xfer_handle s) = (f, ESP_OK)"
    and ver: "verify_written_image a f (s_xfer_part s) (s_xfer_image_len s) (s_xfer_sha s)"
    and boot: "esp_ota_set_boot_partition a f (s_xfer_part s) = (f', ESP_OK)" "flash s' = f'"
    using assms(1) by (auto simp: xfer_end_def Let_def split: if_splits prod.splits)
  have g: "content (flash s) (s_xfer_handle s) = (s_xfer_part s, snd g)"
    "unat (s_xfer_image_len s) = length (snd g)" "s_xfer_image_len s = xb_image_len (load_begin (fst g))"
    "s_xfer_sha s = xb_sha256 (load_begin (fst g))"
    using assms(3) op full by (auto simp: session_ok_def)
  have "esp_partition_read a f (s_xfer_part s) off n = Some (take n (drop off (snd g)))"
    if "off + n \<le> length (snd g)" for off n
    using assms(2) fin g(1) that unfolding ota_appends_def by (metis fst_conv snd_conv)
  then have "read_back a f (s_xfer_part s) (length (snd g)) 0 = Some (snd g)"
    using read_back_content [of "snd g" a f "s_xfer_part s" 0] by simp
  then show "mbedtls_sha256 a (snd g) = xb_sha256 (load_begin (fst g))"
    using ver g by (simp add: verify_written_image_def)
  show "length (snd g) = unat (xb_image_len (load_begin (fst g)))" using g by simp
  show "\<exists>f f'. esp_ota_set_boot_partition a f (s_xfer_part s) = (f', ESP_OK) \<and> flash s' = f'"
    using boot by blast
qed

lemma open_same [simp]:
  "s_xfer_open (release_in_progress s) = s_xfer_open s"
  "s_xfer_open (fst (claim_in_progress s)) = s_xfer_open s"
  "s_xfer_open (fst (fw_ota_try_modem_recovery commit s)) = s_xfer_open s"
  "s_xfer_open (fw_ota_rollback_tick a now s) = s_xfer_open s"
  by (simp_all add: release_in_progress_def claim_in_progress_def fw_ota_try_modem_recovery_def
      fw_ota_rollback_tick_def rollback_enter_def Let_def split: prod.split)

lemma confirm_open:
  "confirm_running_image a r i s = (t, b) \<Longrightarrow> s_xfer_open t = s_xfer_open s"
  "claim_in_progress s = (t, b) \<Longrightarrow> s_xfer_open t = s_xfer_open s"
  using confirm_keeps_xfer(1) [of a r i s] open_same(2) [of s] by simp_all

lemma request_open:
  "request_part a i n t s = (s', part, err) \<Longrightarrow> s_xfer_open s' = s_xfer_open s"
  "s_xfer_open (fst (fw_ota_request a i tc url sha n t s)) = s_xfer_open s"
proof -
  show part: "request_part a i n t s = (s', part, err) \<Longrightarrow> s_xfer_open s' = s_xfer_open s" for t s s' part err
    by (auto simp: request_part_def dest: confirm_open split: prod.splits option.splits bool.splits if_splits)
  have "s_xfer_open (fst (request_part a i n t s)) = s_xfer_open s" for t s
    using part by (metis prod.collapse)
  then show "s_xfer_open (fst (fw_ota_request a i tc url sha n t s)) = s_xfer_open s"
    by (simp add: fw_ota_request_def Let_def case_prod_beta split: bool.split)
qed

lemma downlink_open: "s_xfer_open (fst (fw_ota_try_handle_downlink a i f s)) = s_xfer_open s"
proof -
  have "s_xfer_open (fst (downlink_request a i f s)) = s_xfer_open s"
    by (simp add: downlink_request_def Let_def case_prod_beta request_open(2))
  then show ?thesis by (simp add: fw_ota_try_handle_downlink_def Let_def case_prod_beta)
qed

lemma downlink_busy:
  assumes "s_in_progress s"
  shows "\<exists>l. fst (fw_ota_try_handle_downlink a i f s) = s\<lparr>fw_log := l\<rparr>"
proof -
  have "fst (downlink_request a i f s) = s"
    using assms by (simp add: downlink_request_def fw_ota_request_def Let_def)
  then have "fst (fw_ota_try_handle_downlink a i f s) = s \<or> (\<exists>e. fst (fw_ota_try_handle_downlink a i f s) = emit e s)"
    by (auto simp: fw_ota_try_handle_downlink_def Let_def case_prod_beta)
  then show ?thesis by (auto simp: emit_def intro: exI [of _ "fw_log s"])
qed

lemma busy_same:
  assumes "s_in_progress s"
  shows "fst (confirm_running_image a r i s) = s" "fw_ota_rollback_tick a now s = s"
    "fst (fw_ota_try_modem_recovery commit s) = s"
  using assms by (auto simp: confirm_running_image_def confirm_enter_def fw_ota_rollback_tick_def rollback_enter_def
      fw_ota_try_modem_recovery_def Let_def)

lemma session_ok_log: "session_ok content (s\<lparr>fw_log := l\<rparr>) g = session_ok content s g"
  "session_ok content (emit e s) g = session_ok content s g"
  "session_ok content (s\<lparr>s_xfer_last_us := t\<rparr>) g = session_ok content s g"
  by (simp_all add: session_ok_def)

lemma session_ok_step:
  assumes "ota_appends a content" and "session_ok content s g"
  shows "session_ok content (fw_step a s e) (session_step a s g e)"
proof (cases e)
  case (Xfer_Req i op src seq p)
  obtain s1 r1 where b: "xfer_begin a i p s = (s1, r1)" by fastforce
  obtain s2 r2 where d: "xfer_data a p s = (s2, r2)" by fastforce
  obtain s3 r3 b3 where n: "xfer_end a p s = (s3, r3, b3)" by (metis prod_cases3)
  show ?thesis
    using begin_ok [OF b assms] data_ok [OF d assms] end_ok [OF n assms(2)] assms(2)
    by (auto simp: Xfer_Req fw_ota_xfer_on_req_def b d n session_ok_log Let_def)
next
  case (Xfer_Tick free now)
  show ?thesis using assms(2)
    by (auto simp: Xfer_Tick fw_ota_xfer_tick_def session_ok_log xfer_abort_locked_def session_ok_closed)
next
  case (Downlink_Frame i f)
  show ?thesis
  proof (cases "s_xfer_open s")
    case True
    then have "s_in_progress s" using assms(2) by (simp add: session_ok_def)
    then show ?thesis using downlink_busy [of s a i f] assms(2) by (auto simp: Downlink_Frame session_ok_log)
  qed (simp add: Downlink_Frame downlink_open session_ok_closed)
next
  case (Supervise v)
  have "s_xfer_open s \<Longrightarrow> s_in_progress s" using assms(2) by (simp add: session_ok_def)
  then have "fw_step a s e = s \<or> \<not> s_xfer_open (fw_step a s e)"
    by (cases v) (auto simp: Supervise fw_ota_mark_uplink_healthy_def busy_same)
  then show ?thesis using assms(2) by (auto simp: Supervise session_ok_closed)
next
  case (Modem_Recover commit)
  show ?thesis using assms(2) busy_same(3) [of s commit]
    by (cases "s_xfer_open s") (auto simp: Modem_Recover session_ok_def)
next
  case (Update_Task_End p)
  show ?thesis using assms(2) by (simp add: Update_Task_End session_ok_closed)
qed

lemma session_ok_run:
  assumes "ota_appends a content" and "session_ok content s g"
  shows "session_ok content (fst (fw_run a s g es)) (snd (fw_run a s g es))"
  using assms(2) by (induction es arbitrary: s g) (simp_all add: session_ok_step [OF assms(1)])

text \<open>
  C4. What is committed is what was announced.  Starting without a session, after any requests,
  timeouts, supervision, modem recoveries, commanded updates and damaged or repeated messages, an END
  that leads to the restart boots a slot whose content is the concatenation of the chunks accepted
  since the last accepted BEGIN; it has the announced length and its SHA-256 is the announced digest.
\<close>

theorem committed_image_announced:
  assumes "ota_appends a content" and "\<not> s_xfer_open s" and "fw_run a s g es = (s1, (begin_msg, image_bytes))"
    and "xfer_end a p s1 = (s2, r, True)"
  shows "mbedtls_sha256 a image_bytes = xb_sha256 (load_begin begin_msg) \<and>
    length image_bytes = unat (xb_image_len (load_begin begin_msg)) \<and>
    (\<exists>f. esp_ota_set_boot_partition a f (s_xfer_part s1) = (flash s2, ESP_OK))"
proof -
  have "session_ok content s1 (begin_msg, image_bytes)"
    using session_ok_run [OF assms(1) session_ok_closed [OF assms(2)], of g es] assms(3) by simp
  from end_commits [OF assms(4,1) this] show ?thesis by auto
qed

definition ram_part :: part where
  "ram_part = \<lparr>part_label = ''ota_1'', part_size = 1000\<rparr>"

text \<open>A slot in memory, with a checksum in place of the digest.\<close>

definition ram_ota :: "(part \<times> bytes) ota_api" where
  "ram_ota = \<lparr>esp_ota_get_next_update_partition = (\<lambda>p. Some ram_part),
     esp_ota_begin = (\<lambda>p part. ((part, []), 1, 0)), esp_ota_write = (\<lambda>p h bs. ((fst p, snd p @ bs), 0)),
     esp_ota_end = (\<lambda>p h. (p, 0)), esp_ota_abort = (\<lambda>p h. p),
     esp_partition_read = (\<lambda>p part off n.
       if part = fst p \<and> off + n \<le> length (snd p) then Some (take n (drop off (snd p))) else None),
     esp_ota_set_boot_partition = (\<lambda>p part. (p, 0)), esp_ota_mark_app_valid_cancel_rollback = (\<lambda>p. (p, 0)),
     esp_ota_mark_app_invalid_rollback_and_reboot = (\<lambda>p. (p, True)), mbedtls_sha256 = (\<lambda>bs. replicate 32 (sum_list bs)),
     readback_heap = (\<lambda>p. True)\<rparr>"

definition fw_boot :: "'p \<Rightarrow> bool \<Rightarrow> 'p fw_ota" where
  "fw_boot p pending = \<lparr>s_in_progress = False, s_modem_recovery_busy = False, s_validation_busy = False,
     s_pending_verify = pending, s_marked_valid = False, s_url = [], s_sha_expected = replicate 32 0, s_image_len = 0,
     s_update_part = None, s_xfer_open = False, s_xfer_handle = 0, s_xfer_part = ram_part, s_xfer_image_len = 0,
     s_xfer_received = 0, s_xfer_sha = replicate 32 0, s_xfer_last_us = 0, mqtt_ota_state = False, fw_log = [], flash = p\<rparr>"

definition sample_conf :: conf_in where
  "sample_conf = \<lparr>conf_now = 5, conf_mqtt_mode = True, conf_proof_fresh = False\<rparr>"

abbreviation ram_boot :: "(part \<times> bytes) fw_ota" where
  "ram_boot \<equiv> fw_boot (ram_part, []) False"

lemma ram_ota_fields:
  "esp_ota_end ram_ota p h = (p, 0)" "esp_ota_set_boot_partition ram_ota p part = (p, 0)"
  "mbedtls_sha256 ram_ota bs = replicate 32 (sum_list bs)" "readback_heap ram_ota p"
  by (simp_all add: ram_ota_def)

lemma fw_boot_fields: "s_xfer_received (fw_boot p b) = 0" "flash (fw_boot p b) = p" "\<not> s_xfer_open (fw_boot p b)"
  "\<not> s_in_progress (fw_boot p b)" "\<not> mqtt_ota_state (fw_boot p b)"
  by (simp_all add: fw_boot_def)

lemma ram_begin:
  "xfer_begin ram_ota i (begin_bytes 1 3 (replicate 32 6)) ram_boot =
     (emit (Emit_Status (St_Started 3)) (emit (Ui_Banner (Some ''FW UPDATE''))
       (ram_boot\<lparr>s_in_progress := True, mqtt_ota_state := True, s_xfer_handle := 1, s_xfer_part := ram_part,
          s_xfer_image_len := 3, s_xfer_sha := replicate 32 6, s_xfer_open := True\<rparr>)), 0)"
  using load_begin_bytes [of "replicate 32 6" 1 3]
  by (simp add: xfer_begin_def ram_ota_def fw_boot_def confirm_running_image_def confirm_enter_def claim_in_progress_def
      ram_part_def Let_def)

lemma ram_data:
  assumes "s_xfer_open s" "s_xfer_received s = n" "unat n + length c \<le> unat (s_xfer_image_len s)" "c \<noteq> []"
  shows "xfer_data ram_ota (data_bytes n c) s = (s\<lparr>flash := (fst (flash s), snd (flash s) @ c),
     s_xfer_received := n + of_nat (length c)\<rparr>, 0)"
  using assms by (simp add: xfer_data_def data_bytes_fields ram_ota_def)

lemma ram_appends: "ota_appends ram_ota (\<lambda>p h. p)"
  by (auto simp: ota_appends_def ram_ota_def)

theorem committed_image_announced_witness:
  "mbedtls_sha256 ram_ota [1, 2, 3] = xb_sha256 (load_begin (begin_bytes 1 3 (replicate 32 6)))"
proof -
  let ?b = "begin_bytes 1 3 (replicate 32 6)"
  let ?es = "[Xfer_Req sample_conf 0x23 2 1 ?b, Xfer_Req sample_conf 0x24 2 2 (data_bytes 0 [1, 2]),
              Xfer_Req sample_conf 0x24 2 3 (data_bytes 2 [3])]"
  obtain s1 where run: "fw_run ram_ota ram_boot ([], []) ?es = (s1, (?b, [1, 2, 3]))"
    and s1: "s_xfer_open s1" "s_xfer_received s1 = 3" "s_xfer_image_len s1 = 3" "flash s1 = (ram_part, [1, 2, 3])"
      "s_xfer_sha s1 = replicate 32 6" "s_xfer_part s1 = ram_part"
    by (simp add: fw_ota_xfer_on_req_def ram_begin ram_data data_bytes_fields fw_boot_fields Let_def)
  have "read_back ram_ota (ram_part, [1, 2, 3]) ram_part (length [1, 2, 3::u8]) 0 = Some (drop 0 [1, 2, 3])"
    by (rule read_back_content) (simp add: ram_ota_def)
  then have "read_back ram_ota (ram_part, [1, 2, 3]) ram_part 3 0 = Some [1, 2, 3]"
    by (simp add: numeral_3_eq_3)
  then have "verify_written_image ram_ota (ram_part, [1, 2, 3]) ram_part 3 (replicate 32 6)"
    by (simp add: verify_written_image_def ram_ota_fields)
  then obtain s2 r where "xfer_end ram_ota (end_bytes 1) s1 = (s2, r, True)"
    using s1 by (simp add: xfer_end_def load_end_bytes ram_ota_fields Let_def)
  with committed_image_announced [OF ram_appends _ run] show ?thesis by (simp add: fw_boot_def)
qed

theorem accepted_update_not_pending_witness:
  "\<not> s_pending_verify (fst (xfer_begin ram_ota sample_conf (begin_bytes 1 3 (replicate 32 6)) ram_boot))"
  using accepted_update_not_pending [of ram_ota sample_conf _ _ _ _ ram_boot "begin_bytes 1 3 (replicate 32 6)"]
  by (simp add: ram_begin)


end
