(* ===== verification/Rp_Sha256.thy ===== *)
theory Rp_Sha256
  imports Prelude
begin

text \<open>
  The SHA-256 of the RP2040 firmware, \<open>sha256.cpp\<close>: a context that takes the message in pieces of
  any length and processes each block when it is full.  The theorem says that the pieces do not
  matter: the digest is the one of the padded message cut into blocks, as the standard defines it.
\<close>

definition ROTR :: "u32 \<Rightarrow> nat \<Rightarrow> u32" where
  "ROTR x n = drop_bit n x OR push_bit (32 - n) x"

definition CH :: "u32 \<Rightarrow> u32 \<Rightarrow> u32 \<Rightarrow> u32" where "CH x y z = (x AND y) XOR (NOT x AND z)"
definition MAJ :: "u32 \<Rightarrow> u32 \<Rightarrow> u32 \<Rightarrow> u32" where "MAJ x y z = (x AND y) XOR (x AND z) XOR (y AND z)"
definition EP0 :: "u32 \<Rightarrow> u32" where "EP0 x = ROTR x 2 XOR ROTR x 13 XOR ROTR x 22"
definition EP1 :: "u32 \<Rightarrow> u32" where "EP1 x = ROTR x 6 XOR ROTR x 11 XOR ROTR x 25"
definition SIG0 :: "u32 \<Rightarrow> u32" where "SIG0 x = ROTR x 7 XOR ROTR x 18 XOR drop_bit 3 x"
definition SIG1 :: "u32 \<Rightarrow> u32" where "SIG1 x = ROTR x 17 XOR ROTR x 19 XOR drop_bit 10 x"

definition K256 :: "u32 list" where
  "K256 = concat [
    [0x428a2f98, 0x71374491, 0xb5c0fbcf, 0xe9b5dba5],
    [0x3956c25b, 0x59f111f1, 0x923f82a4, 0xab1c5ed5],
    [0xd807aa98, 0x12835b01, 0x243185be, 0x550c7dc3],
    [0x72be5d74, 0x80deb1fe, 0x9bdc06a7, 0xc19bf174],
    [0xe49b69c1, 0xefbe4786, 0x0fc19dc6, 0x240ca1cc],
    [0x2de92c6f, 0x4a7484aa, 0x5cb0a9dc, 0x76f988da],
    [0x983e5152, 0xa831c66d, 0xb00327c8, 0xbf597fc7],
    [0xc6e00bf3, 0xd5a79147, 0x06ca6351, 0x14292967],
    [0x27b70a85, 0x2e1b2138, 0x4d2c6dfc, 0x53380d13],
    [0x650a7354, 0x766a0abb, 0x81c2c92e, 0x92722c85],
    [0xa2bfe8a1, 0xa81a664b, 0xc24b8b70, 0xc76c51a3],
    [0xd192e819, 0xd6990624, 0xf40e3585, 0x106aa070],
    [0x19a4c116, 0x1e376c08, 0x2748774c, 0x34b0bcb5],
    [0x391c0cb3, 0x4ed8aa4a, 0x5b9cca4f, 0x682e6ff3],
    [0x748f82ee, 0x78a5636f, 0x84c87814, 0x8cc70208],
    [0x90befffa, 0xa4506ceb, 0xbef9a3f7, 0xc67178f2]]"

record sha_ctx =
  sha_state :: "u32 list"
  sha_bitlen :: u64
  sha_data :: bytes
  sha_datalen :: u32

definition be32_rd :: "bytes \<Rightarrow> u32" where
  "be32_rd p = push_bit 24 (ucast (p ! 0)) OR push_bit 16 (ucast (p ! 1)) OR push_bit 8 (ucast (p ! 2)) OR ucast (p ! 3)"

fun expand :: "nat \<Rightarrow> u32 list \<Rightarrow> u32 list" where
  "expand 0 m = m"
| "expand (Suc k) m = (let i = length m in
     expand k (m @ [SIG1 (m ! (i - 2)) + m ! (i - 7) + SIG0 (m ! (i - 15)) + m ! (i - 16)]))"

type_synonym working = "u32 \<times> u32 \<times> u32 \<times> u32 \<times> u32 \<times> u32 \<times> u32 \<times> u32"

fun sha_round :: "working \<Rightarrow> u32 \<times> u32 \<Rightarrow> working" where
  "sha_round (a, b, c, d, e, f, g, h) (k, m) =
     (let t1 = h + EP1 e + CH e f g + k + m; t2 = EP0 a + MAJ a b c in
      (t1 + t2, a, b, c, d + t1, e, f, g))"

definition sha256_transform :: "u32 list \<Rightarrow> bytes \<Rightarrow> u32 list" where
  "sha256_transform st data =
     (let m = expand 48 (map (\<lambda>i. be32_rd (drop (i * 4) data)) [0..<16]);
          (a, b, c, d, e, f, g, h) = foldl sha_round (st ! 0, st ! 1, st ! 2, st ! 3, st ! 4, st ! 5, st ! 6, st ! 7)
                                       (zip K256 m) in
      [st ! 0 + a, st ! 1 + b, st ! 2 + c, st ! 3 + d, st ! 4 + e, st ! 5 + f, st ! 6 + g, st ! 7 + h])"

definition sha_init_state :: "u32 list" where
  "sha_init_state = [0x6a09e667, 0xbb67ae85, 0x3c6ef372, 0xa54ff53a, 0x510e527f, 0x9b05688c, 0x1f83d9ab, 0x5be0cd19]"

text \<open>The data buffer is not initialised: its content is a parameter.\<close>

definition fw_sha256_init :: "bytes \<Rightarrow> sha_ctx" where
  "fw_sha256_init junk = \<lparr>sha_state = sha_init_state, sha_bitlen = 0, sha_data = junk, sha_datalen = 0\<rparr>"

definition sha_byte :: "sha_ctx \<Rightarrow> u8 \<Rightarrow> sha_ctx" where
  "sha_byte c b =
     (let c = c\<lparr>sha_data := (sha_data c)[unat (sha_datalen c) := b], sha_datalen := sha_datalen c + 1\<rparr> in
      if sha_datalen c = 64
      then c\<lparr>sha_state := sha256_transform (sha_state c) (sha_data c), sha_bitlen := sha_bitlen c + 512, sha_datalen := 0\<rparr>
      else c)"

definition fw_sha256_update :: "sha_ctx \<Rightarrow> bytes \<Rightarrow> sha_ctx" where
  "fw_sha256_update c data = foldl sha_byte c data"

text \<open>Bytes \<open>i\<close> to \<open>n - 1\<close> of a buffer set to zero.\<close>

definition zero_fill :: "nat \<Rightarrow> nat \<Rightarrow> bytes \<Rightarrow> bytes" where
  "zero_fill i n data = foldl (\<lambda>d j. d[j := 0]) data [i..<n]"

definition put_bitlen :: "u64 \<Rightarrow> bytes \<Rightarrow> bytes" where
  "put_bitlen n data = foldl (\<lambda>d j. d[63 - j := ucast (drop_bit (8 * j) n)]) data [0..<8]"

definition be32 :: "u32 \<Rightarrow> bytes" where
  "be32 x = [ucast (drop_bit 24 x), ucast (drop_bit 16 x), ucast (drop_bit 8 x), ucast x]"

definition fw_sha256_final :: "sha_ctx \<Rightarrow> bytes" where
  "fw_sha256_final c =
     (let i = unat (sha_datalen c); data = (sha_data c)[i := 0x80]; i = i + 1;
          (st, data, i) = (if i > 56 then let data = zero_fill i 64 data in (sha256_transform (sha_state c) data, data, 0)
                           else (sha_state c, data, i));
          data = zero_fill i 56 data;
          data = put_bitlen (sha_bitlen c + ucast (sha_datalen c) * 8) data;
          st = sha256_transform st data in
      concat (map (\<lambda>j. be32 (st ! j)) [0..<8]))"

section \<open>The standard\<close>

definition be64 :: "u64 \<Rightarrow> bytes" where
  "be64 n = map (\<lambda>j. ucast (drop_bit (8 * (7 - j)) n)) [0..<8]"

definition sha_pad :: "bytes \<Rightarrow> bytes" where
  "sha_pad m = m @ [0x80] @ replicate ((119 - length m mod 64) mod 64) 0 @ be64 (of_nat (length m) * 8)"

function blocks :: "bytes \<Rightarrow> bytes list" where
  "blocks m = (if length m < 64 then [] else take 64 m # blocks (drop 64 m))"
  by pat_completeness auto
termination by (relation "measure length") auto

declare blocks.simps [simp del]

definition sha256 :: "bytes \<Rightarrow> bytes" where
  "sha256 m = concat (map be32 (foldl sha256_transform sha_init_state (blocks (sha_pad m))))"

section \<open>Pieces do not matter\<close>

lemma blocks_short: "length m < 64 \<Longrightarrow> blocks m = []"
  by (subst blocks.simps) simp

lemma blocks_one: "length m = 64 \<Longrightarrow> blocks m = [m]"
  by (subst blocks.simps) (simp add: blocks_short)

lemma blocks_append: "64 dvd length a \<Longrightarrow> blocks (a @ b) = blocks a @ blocks b"
proof (induction a rule: blocks.induct)
  case (1 m)
  show ?case
  proof (cases "length m < 64")
    case True
    with 1(2) have "m = []" by (cases m) (auto dest: dvd_imp_le)
    then show ?thesis by (simp add: blocks_short)
  next
    case False
    have "64 dvd length (drop 64 m)" using 1(2) False by (simp add: dvd_minus_self)
    then have IH: "blocks (drop 64 m @ b) = blocks (drop 64 m) @ blocks b" using 1(1) False by blast
    have "blocks (m @ b) = take 64 m # blocks (drop 64 m @ b)"
      using False by (subst blocks.simps) simp
    moreover have "blocks m = take 64 m # blocks (drop 64 m)"
      using False by (subst blocks.simps) simp
    ultimately show ?thesis using IH by simp
  qed
qed

definition sha_ok :: "sha_ctx \<Rightarrow> bytes \<Rightarrow> bytes \<Rightarrow> bool" where
  "sha_ok c full rest \<longleftrightarrow> 64 dvd length full \<and> length rest < 64 \<and> length (sha_data c) = 64 \<and>
     sha_state c = foldl sha256_transform sha_init_state (blocks full) \<and> sha_bitlen c = of_nat (8 * length full) \<and>
     sha_datalen c = of_nat (length rest) \<and> take (length rest) (sha_data c) = rest"

lemma sha_ok_init: "length junk = 64 \<Longrightarrow> sha_ok (fw_sha256_init junk) [] []"
  by (simp add: sha_ok_def fw_sha256_init_def blocks_short)

lemma datalen_value: "sha_ok c full rest \<Longrightarrow> unat (sha_datalen c) = length rest"
  by (simp add: sha_ok_def unat_of_nat)

lemma sha_ok_byte:
  assumes "sha_ok c full rest"
  shows "\<exists>full' rest'. full' @ rest' = full @ rest @ [b] \<and> sha_ok (sha_byte c b) full' rest'"
proof -
  let ?d = "(sha_data c)[length rest := b]"
  have len: "length rest < 64" "length (sha_data c) = 64" and pre: "take (length rest) (sha_data c) = rest"
    using assms by (simp_all add: sha_ok_def)
  have d: "take (Suc (length rest)) ?d = rest @ [b]"
    using len pre by (simp add: take_Suc_conv_app_nth)
  have next_len: "sha_datalen c + 1 = 64 \<longleftrightarrow> length rest = 63"
  proof -
    have "unat (sha_datalen c + 1) = Suc (length rest)"
      using len datalen_value [OF assms] by (simp add: unat_word_ariths)
    then show ?thesis by (simp only: word_unat_eq_iff) simp
  qed
  show ?thesis
  proof (cases "length rest = 63")
    case True
    then have "?d = rest @ [b]" using d len by simp
    then have "sha_ok (sha_byte c b) (full @ rest @ [b]) []"
      using assms True next_len datalen_value [OF assms]
      by (simp add: sha_ok_def sha_byte_def Let_def blocks_append blocks_one dvd_add)
    then show ?thesis by (intro exI [of _ "full @ rest @ [b]"] exI [of _ "[]"]) simp
  next
    case False
    then have "sha_ok (sha_byte c b) full (rest @ [b])"
      using assms next_len datalen_value [OF assms] d len
      by (simp add: sha_ok_def sha_byte_def Let_def)
    then show ?thesis by (intro exI [of _ full] exI [of _ "rest @ [b]"]) simp
  qed
qed

lemma sha_ok_update:
  assumes "sha_ok c full rest"
  shows "\<exists>full' rest'. full' @ rest' = full @ rest @ data \<and> sha_ok (fw_sha256_update c data) full' rest'"
  using assms
proof (induction data arbitrary: c full rest)
  case Nil
  then show ?case by (auto simp: fw_sha256_update_def)
next
  case (Cons b data)
  obtain full' rest' where st: "full' @ rest' = full @ rest @ [b]" "sha_ok (sha_byte c b) full' rest'"
    using sha_ok_byte [OF Cons.prems] by blast
  obtain full'' rest'' where run: "full'' @ rest'' = full' @ rest' @ data"
    "sha_ok (fw_sha256_update (sha_byte c b) data) full'' rest''" using Cons.IH [OF st(2)] by blast
  have "full'' @ rest'' = (full' @ rest') @ data" using run(1) by simp
  then have "full'' @ rest'' = full @ rest @ b # data" by (simp only: st(1)) simp
  then show ?case using run(2) by (auto simp: fw_sha256_update_def)
qed

lemma zero_fill_eq:
  "\<lbrakk>i \<le> n; n \<le> length d\<rbrakk> \<Longrightarrow> zero_fill i n d = take i d @ replicate (n - i) 0 @ drop n d"
proof (induction "n - i" arbitrary: n)
  case 0
  then show ?case by (simp add: zero_fill_def)
next
  case (Suc k)
  then obtain m where n: "n = Suc m" "i \<le> m" by (cases n) auto
  have "zero_fill i n d = (zero_fill i m d)[m := 0]" using n by (simp add: zero_fill_def)
  also have "zero_fill i m d = take i d @ replicate (m - i) 0 @ drop m d" using Suc n by simp
  also have "(take i d @ replicate (m - i) 0 @ drop m d)[m := 0] = take i d @ replicate (m - i) 0 @ (drop m d)[0 := 0]"
    using n Suc.prems by (simp add: list_update_append min_def)
  also have "(drop m d)[0 := 0] = 0 # drop n d" using n Suc.prems by (simp add: Cons_nth_drop_Suc [symmetric])
  also have "replicate (m - i) 0 @ 0 # drop n d = replicate (n - i) 0 @ drop n d"
    using n by (simp add: Suc_diff_le replicate_append_same [symmetric])
  finally show ?case by simp
qed

lemma put_bitlen_eq:
  assumes "length d = 64" shows "put_bitlen n d = take 56 d @ be64 n"
proof (rule nth_equalityI)
  show "length (put_bitlen n d) = length (take 56 d @ be64 n)"
    using assms by (simp add: put_bitlen_def be64_def upt_rec)
next
  fix k assume "k < length (put_bitlen n d)"
  then have "k < 64" using assms by (simp add: put_bitlen_def upt_rec)
  then consider "k < 56" | "k \<in> {56, 57, 58, 59, 60, 61, 62, 63}" by force
  then show "put_bitlen n d ! k = (take 56 d @ be64 n) ! k"
    using assms by cases (auto simp: put_bitlen_def be64_def upt_rec nth_append nth_list_update)
qed

lemma put_bitlen_split:
  "\<lbrakk>length p = 56; length t = 8\<rbrakk> \<Longrightarrow> put_bitlen n (p @ t) = p @ be64 n"
  by (simp add: put_bitlen_eq)

lemma be64_length [simp]: "length (be64 n) = 8"
  by (simp add: be64_def)

lemma transform_length [simp]: "length (sha256_transform st d) = 8"
  by (simp add: sha256_transform_def Let_def split: prod.split)

lemma concat_be32:
  assumes "length st = 8" shows "concat (map (\<lambda>j. be32 (st ! j)) [0..<8]) = concat (map be32 st)"
proof -
  have "map (\<lambda>j. be32 (st ! j)) [0..<8] = map be32 (map (nth st) [0..<length st])"
    by (simp only: assms map_map comp_def)
  then show ?thesis by (simp only: map_nth)
qed

lemma pad_zeros:
  assumes "64 dvd length full" and "length rest < 64"
  shows "(119 - length (full @ rest) mod 64) mod 64 =
    (if length rest < 56 then 55 - length rest else 119 - length rest)"
proof -
  have "length (full @ rest) mod 64 = length rest" using assms by (auto elim!: dvdE)
  then show ?thesis using assms(2) by (simp add: mod_if)
qed

lemma total_bits:
  assumes "sha_ok c full rest"
  shows "sha_bitlen c + ucast (sha_datalen c) * 8 = of_nat (length (full @ rest)) * 8"
proof -
  have "ucast (sha_datalen c) = (of_nat (length rest) :: u64)"
    using assms by (simp add: sha_ok_def unsigned_of_nat take_bit_nat_eq_self)
  then show ?thesis using assms by (simp add: sha_ok_def algebra_simps)
qed

lemma final_digest:
  assumes ok: "sha_ok c full rest"
  shows "fw_sha256_final c = sha256 (full @ rest)"
proof -
  let ?n = "of_nat (length (full @ rest)) * 8 :: u64"
  let ?st = "foldl sha256_transform sha_init_state (blocks full)"
  let ?d = "(sha_data c)[length rest := 0x80]"
  have len: "64 dvd length full" "length rest < 64" "length (sha_data c) = 64" and st: "sha_state c = ?st"
    and pre: "take (length rest) (sha_data c) = rest"
    using ok by (simp_all add: sha_ok_def)
  have d: "take (Suc (length rest)) ?d = rest @ [0x80]" "length ?d = 64"
    using len pre by (simp_all add: take_Suc_conv_app_nth)
  note bits = total_bits [OF ok, simplified]
  note zeros = pad_zeros [OF len(1,2)]
  show ?thesis
  proof (cases "length rest < 56")
    case True
    let ?b = "rest @ [0x80] @ replicate (55 - length rest) 0 @ be64 ?n"
    have "zero_fill (Suc (length rest)) 56 ?d = rest @ [0x80] @ replicate (55 - length rest) 0 @ drop 56 ?d"
      using zero_fill_eq [of "Suc (length rest)" 56 ?d] True d by simp
    then have "put_bitlen ?n (zero_fill (Suc (length rest)) 56 ?d) = ?b"
      using put_bitlen_split [of "rest @ [0x80] @ replicate (55 - length rest) 0" "drop 56 ?d" ?n] True len by simp
    then have "fw_sha256_final c = concat (map be32 (sha256_transform ?st ?b))"
      using True by (simp add: fw_sha256_final_def Let_def datalen_value [OF ok] st bits concat_be32)
    moreover have "sha_pad (full @ rest) = full @ ?b" using True zeros by (simp add: sha_pad_def)
    moreover have "blocks (full @ ?b) = blocks full @ [?b]" using True len by (simp add: blocks_append blocks_one)
    ultimately show ?thesis by (simp add: sha256_def)
  next
    case False
    let ?b1 = "rest @ [0x80] @ replicate (63 - length rest) 0" and ?b2 = "replicate 56 0 @ be64 ?n"
    have b1: "zero_fill (Suc (length rest)) 64 ?d = ?b1"
      using zero_fill_eq [of "Suc (length rest)" 64 ?d] len d by simp
    have "zero_fill 0 56 ?b1 = replicate 56 0 @ drop 56 ?b1"
      using zero_fill_eq [of 0 56 ?b1] len by simp
    then have b2: "put_bitlen ?n (zero_fill 0 56 ?b1) = ?b2"
      using put_bitlen_eq [of "zero_fill 0 56 ?b1" ?n] len by simp
    have "fw_sha256_final c = concat (map be32 (sha256_transform (sha256_transform ?st ?b1) ?b2))"
      using False by (simp add: fw_sha256_final_def Let_def datalen_value [OF ok] st bits b1 [simplified] b2 [simplified] concat_be32)
    moreover have "sha_pad (full @ rest) = full @ ?b1 @ ?b2"
    proof -
      have "replicate (119 - length rest) (0::u8) = replicate (63 - length rest) 0 @ replicate 56 0"
        using len by (simp add: replicate_add [symmetric])
      then show ?thesis using False zeros by (simp add: sha_pad_def)
    qed
    moreover have "blocks (full @ ?b1 @ ?b2) = blocks full @ [?b1, ?b2]"
      using len blocks_append [of ?b1 ?b2] by (simp add: blocks_append blocks_one)
    ultimately show ?thesis by (simp add: sha256_def)
  qed
qed

lemma sha256_length: "length (sha256 bs) = 32"
proof -
  have "length (foldl sha256_transform st bls) = 8" if "length st = 8" for st bls
    using that by (induction bls arbitrary: st) simp_all
  moreover have "length (concat (map be32 ws)) = 4 * length ws" for ws
    by (induction ws) (simp_all add: be32_def)
  moreover have "length sha_init_state = 8" by (simp add: sha_init_state_def)
  ultimately show ?thesis by (simp only: sha256_def)
qed

lemma stream_digest:
  assumes "length junk = 64"
  shows "fw_sha256_final (foldl fw_sha256_update (fw_sha256_init junk) pieces) = sha256 (concat pieces)"
proof -
  have fold: "foldl fw_sha256_update c pieces = fw_sha256_update c (concat pieces)" for c
    by (induction pieces arbitrary: c) (simp_all add: fw_sha256_update_def)
  obtain full rest where "full @ rest = concat pieces"
    and "sha_ok (fw_sha256_update (fw_sha256_init junk) (concat pieces)) full rest"
    using sha_ok_update [OF sha_ok_init [OF assms], of "concat pieces"] by auto
  then show ?thesis using final_digest by (simp add: fold)
qed



end
