(* ===== verification/Rp_Update.thy ===== *)
theory Rp_Update
  imports Fw_Proto Rp_Sha256
begin

text \<open>
  The receiver of firmware images in the RP2040, \<open>fw_update.cpp\<close>: an image is staged as a file,
  checked, and handed to the boot loader; the next boots decide whether it stays.  The file system
  and the boot loader are a parameter; digests are computed by \<open>Rp_Sha256\<close>.  The accumulator
  \<open>S.buf\<close> is the list of its used bytes.
\<close>

section \<open>Platform and state\<close>

record 'f lfs =
  lfs_begin :: "'f \<Rightarrow> 'f \<times> bool"
  lfs_exists :: "'f \<Rightarrow> string \<Rightarrow> bool"
  lfs_remove :: "'f \<Rightarrow> string \<Rightarrow> 'f"
  lfs_create :: "'f \<Rightarrow> string \<Rightarrow> 'f \<times> bool"
  lfs_write :: "'f \<Rightarrow> string \<Rightarrow> bytes \<Rightarrow> 'f \<times> nat"
  lfs_read :: "'f \<Rightarrow> string \<Rightarrow> bytes option"
  lfs_rewrite :: "'f \<Rightarrow> string \<Rightarrow> bytes \<Rightarrow> 'f"
  lfs_free :: "'f \<Rightarrow> nat"
  ota_begin :: "'f \<Rightarrow> 'f"
  ota_addFile :: "'f \<Rightarrow> string \<Rightarrow> 'f \<times> bool"
  ota_commit :: "'f \<Rightarrow> 'f \<times> bool"

definition kStageFile :: string where "kStageFile = ''fwstage.bin''"
definition kPrevFile :: string where "kPrevFile = ''fwprev.bin''"
definition kPendingFile :: string where "kPendingFile = ''fwpending.bin''"
definition OTA_COMMAND_FILE :: string where "OTA_COMMAND_FILE = ''otacommand.bin''"

definition FW_APP_VECTORS_OFF :: u32 where [simp]: "FW_APP_VECTORS_OFF = 0x3000"
definition FW_IMAGE_MIN_LEN :: u32 where [simp]: "FW_IMAGE_MIN_LEN = 0x4000"
definition FW_IMAGE_MAX_LEN :: u32 where [simp]: "FW_IMAGE_MAX_LEN = 655360"
definition FW_FS_SLACK :: nat where [simp]: "FW_FS_SLACK = 32768"
definition FW_VERIFY_WINDOW_MS :: u32 where [simp]: "FW_VERIFY_WINDOW_MS = 300000"
definition FW_PENDING_MAX_BOOTS :: u32 where [simp]: "FW_PENDING_MAX_BOOTS = 8"
definition FW_XFER_IDLE_MS :: u32 where [simp]: "FW_XFER_IDLE_MS = 30000"
definition FW_PENDING_MAGIC :: u32 where [simp]: "FW_PENDING_MAGIC = 0x46575550"
definition XIP_BASE :: u32 where [simp]: "XIP_BASE = 0x10000000"
definition STAGE_BUF :: nat where [simp]: "STAGE_BUF = 4096"

record 'f rp_update =
  s_fs_ok :: bool
  S_open :: bool
  S_image_len :: u32
  S_received :: u32
  S_sha :: bytes
  S_last_req_ms :: u32
  S_buf :: bytes
  s_pending :: bool
  s_pending_boot_ms :: u32
  fs :: 'f
  fw_logged :: "nat list"
  rp_rebooted :: bool

definition fw_note :: "nat \<Rightarrow> 'f rp_update \<Rightarrow> 'f rp_update" where
  "fw_note level s = s\<lparr>fw_logged := fw_logged s @ [level]\<rparr>"

lemma fw_note_simps [simp]:
  "S_open (fw_note l s) = S_open s" "S_image_len (fw_note l s) = S_image_len s" "S_received (fw_note l s) = S_received s"
  "S_sha (fw_note l s) = S_sha s" "S_buf (fw_note l s) = S_buf s" "fs (fw_note l s) = fs s" "s_fs_ok (fw_note l s) = s_fs_ok s"
  "s_pending (fw_note l s) = s_pending s" "rp_rebooted (fw_note l s) = rp_rebooted s"
  "S_last_req_ms (fw_note l s) = S_last_req_ms s" "s_pending_boot_ms (fw_note l s) = s_pending_boot_ms s"
  by (simp_all add: fw_note_def)

section \<open>Staging\<close>

definition flush_stage_buf :: "'f lfs \<Rightarrow> 'f rp_update \<Rightarrow> 'f rp_update \<times> bool" where
  "flush_stage_buf a s =
     (if S_buf s = [] then (s, True)
      else let (f, n) = lfs_write a (fs s) kStageFile (S_buf s); s = s\<lparr>fs := f\<rparr> in
      if n \<noteq> length (S_buf s) then (s, False) else (s\<lparr>S_buf := []\<rparr>, True))"

definition remove_if :: "'f lfs \<Rightarrow> string \<Rightarrow> 'f rp_update \<Rightarrow> 'f rp_update" where
  "remove_if a path s = (if lfs_exists a (fs s) path then s\<lparr>fs := lfs_remove a (fs s) path\<rparr> else s)"

definition session_abort :: "'f lfs \<Rightarrow> 'f rp_update \<Rightarrow> 'f rp_update" where
  "session_abort a s =
     (let s = s\<lparr>S_open := False, S_buf := []\<rparr> in if s_fs_ok s then remove_if a kStageFile s else s)"

definition cleanup_pending_files :: "'f lfs \<Rightarrow> 'f rp_update \<Rightarrow> 'f rp_update" where
  "cleanup_pending_files a s =
     (if \<not> s_fs_ok s then s
      else let s = remove_if a kPendingFile s; s = remove_if a kPrevFile s in
      if \<not> S_open s then remove_if a kStageFile s else s)"

text \<open>The staged file is hashed in pieces of the accumulator's size.\<close>

function slices :: "nat \<Rightarrow> bytes \<Rightarrow> bytes list" where
  "slices n bs = (if n = 0 \<or> bs = [] then [] else take n bs # slices n (drop n bs))"
  by pat_completeness auto
termination by (relation "measure (\<lambda>(n, bs). length bs)") auto

declare slices.simps [simp del]

definition verify_stage_sha :: "'f lfs \<Rightarrow> bytes \<Rightarrow> 'f rp_update \<Rightarrow> bool" where
  "verify_stage_sha a junk s =
     (case lfs_read a (fs s) kStageFile of
        None \<Rightarrow> False
      | Some content \<Rightarrow>
          fw_sha256_final (foldl fw_sha256_update (fw_sha256_init junk) (slices STAGE_BUF content)) = S_sha s)"

definition sane_vectors :: "u32 \<Rightarrow> bytes \<Rightarrow> bool" where
  "sane_vectors image_len content =
     (let off = unat FW_APP_VECTORS_OFF in
      if length content < off + 8 then False
      else let sp = rd_u32le (drop off content); rst = rd_u32le (drop (off + 4) content) in
      if sp < 0x20000000 \<or> sp > 0x20042000 then False
      else if rst AND 1 = 0 then False
      else let rst_addr = rst AND NOT 1 in
      if rst_addr < XIP_BASE + FW_APP_VECTORS_OFF then False
      else if rst_addr \<ge> XIP_BASE + image_len then False
      else True)"

definition sanity_check_image :: "'f lfs \<Rightarrow> 'f rp_update \<Rightarrow> bool" where
  "sanity_check_image a s =
     (case lfs_read a (fs s) kStageFile of None \<Rightarrow> False | Some content \<Rightarrow> sane_vectors (S_image_len s) content)"

text \<open>\<open>run_img\<close> is the running image in flash.\<close>

fun snapshot_loop :: "'f lfs \<Rightarrow> bytes list \<Rightarrow> 'f \<Rightarrow> 'f \<times> bool" where
  "snapshot_loop a [] f = (f, True)"
| "snapshot_loop a (p # ps) f =
     (let (f, n) = lfs_write a f kPrevFile p in if n \<noteq> length p then (f, False) else snapshot_loop a ps f)"

definition snapshot_running_image :: "'f lfs \<Rightarrow> bytes \<Rightarrow> 'f rp_update \<Rightarrow> 'f rp_update \<times> bool" where
  "snapshot_running_image a run_img s =
     (if length run_img < unat FW_IMAGE_MIN_LEN \<or> length run_img > unat FW_IMAGE_MAX_LEN then (s, False)
      else let (f, ok) = lfs_create a (fs s) kPrevFile; s = s\<lparr>fs := f\<rparr> in
      if \<not> ok then (s, False)
      else let (f, ok) = snapshot_loop a (slices STAGE_BUF run_img) (fs s); s = s\<lparr>fs := f\<rparr> in
      (if \<not> ok then s\<lparr>fs := lfs_remove a (fs s) kPrevFile\<rparr> else s, ok))"

definition write_pending_marker :: "'f lfs \<Rightarrow> 'f rp_update \<Rightarrow> 'f rp_update \<times> bool" where
  "write_pending_marker a s =
     (let (f, ok) = lfs_create a (fs s) kPendingFile; s = s\<lparr>fs := f\<rparr> in
      if \<not> ok then (s, False)
      else let (f, n) = lfs_write a (fs s) kPendingFile (le32 FW_PENDING_MAGIC @ le32 0); s = s\<lparr>fs := f\<rparr> in
      if n \<noteq> 8 then (s\<lparr>fs := lfs_remove a (fs s) kPendingFile\<rparr>, False) else (s, True))"

section \<open>Boot and supervision\<close>

definition restage_previous_and_reboot :: "'f lfs \<Rightarrow> 'f rp_update \<Rightarrow> 'f rp_update" where
  "restage_previous_and_reboot a s =
     (if \<not> s_fs_ok s \<or> \<not> lfs_exists a (fs s) kPrevFile then s
      else let (f, ok) = ota_addFile a (ota_begin a (fs s)) kPrevFile; s = s\<lparr>fs := f\<rparr> in
      if \<not> ok then s
      else let (f, ok) = ota_commit a (fs s); s = s\<lparr>fs := f\<rparr> in
      if \<not> ok then s
      else (fw_note 1 (s\<lparr>fs := lfs_remove a (fs s) kPendingFile\<rparr>))\<lparr>rp_rebooted := True\<rparr>)"

definition fw_update_boot_init :: "'f lfs \<Rightarrow> u32 \<Rightarrow> 'f rp_update \<Rightarrow> 'f rp_update" where
  "fw_update_boot_init a now s =
     (let s = s\<lparr>S_open := False\<rparr>;
          (f, ok) = lfs_begin a (fs s); s = s\<lparr>fs := f, s_fs_ok := ok\<rparr> in
      if \<not> s_fs_ok s then fw_note 1 s
      else let s = remove_if a OTA_COMMAND_FILE s in
      if lfs_exists a (fs s) kPendingFile then
        (case lfs_read a (fs s) kPendingFile of
           None \<Rightarrow> cleanup_pending_files a s
         | Some m \<Rightarrow>
             if length m \<ge> 8 \<and> rd_u32le m = FW_PENDING_MAGIC then
               let boots = rd_u32le (drop 4 m) + 1;
                   s = s\<lparr>fs := lfs_rewrite a (fs s) kPendingFile (le32 FW_PENDING_MAGIC @ le32 boots)\<rparr> in
               if boots > FW_PENDING_MAX_BOOTS then
                 let s = restage_previous_and_reboot a s in
                 if rp_rebooted s then s else cleanup_pending_files a s
               else fw_note 2 (s\<lparr>s_pending := True, s_pending_boot_ms := now\<rparr>)
             else cleanup_pending_files a s)
      else remove_if a kPrevFile (remove_if a kStageFile s))"

definition fw_update_tick :: "'f lfs \<Rightarrow> u32 \<Rightarrow> 'f rp_update \<Rightarrow> 'f rp_update" where
  "fw_update_tick a now s =
     (let s = (if S_open s \<and> now - S_last_req_ms s > FW_XFER_IDLE_MS then fw_note 1 (session_abort a s) else s) in
      if s_pending s \<and> now - s_pending_boot_ms s > FW_VERIFY_WINDOW_MS then
        let s = restage_previous_and_reboot a s in
        if rp_rebooted s then s else cleanup_pending_files a (s\<lparr>s_pending := False\<rparr>)
      else s)"

definition fw_update_note_frame_ok :: "'f lfs \<Rightarrow> 'f rp_update \<Rightarrow> 'f rp_update" where
  "fw_update_note_frame_ok a s =
     (if \<not> s_pending s then s else fw_note 2 (cleanup_pending_files a (s\<lparr>s_pending := False\<rparr>)))"

definition fw_update_progress_pct :: "'f rp_update \<Rightarrow> nat" where
  "fw_update_progress_pct s =
     (if \<not> S_open s \<or> S_image_len s = 0 then 0
      else min 100 (unat (S_received s) * 100 div unat (S_image_len s)))"

section \<open>Requests\<close>

definition fw_update_handle_begin :: "'f lfs \<Rightarrow> u32 \<Rightarrow> bytes \<Rightarrow> bytes \<Rightarrow> 'f rp_update \<Rightarrow> 'f rp_update \<times> u8" where
  "fw_update_handle_begin a now run_img payload s =
     (if length payload < sizeof_xfer_begin then (s, WUPS_FW_XFER_BAD_REQ)
      else let b = load_begin payload in
      if xb_version b \<noteq> 1 then (s, WUPS_FW_XFER_BAD_REQ)
      else if xb_target b \<noteq> WUPS_FW_TARGET_RP2040 then (s, WUPS_FW_XFER_BAD_REQ)
      else if xb_image_len b < FW_IMAGE_MIN_LEN \<or> xb_image_len b > FW_IMAGE_MAX_LEN then (s, WUPS_FW_XFER_BAD_REQ)
      else if \<not> s_fs_ok s then (s, WUPS_FW_XFER_FLASH_ERR)
      else let s = session_abort a s in
      if unat (xb_image_len b) + length run_img + FW_FS_SLACK > lfs_free a (fs s) then (s, WUPS_FW_XFER_FLASH_ERR)
      else let (f, ok) = lfs_create a (fs s) kStageFile; s = s\<lparr>fs := f\<rparr> in
      if \<not> ok then (s, WUPS_FW_XFER_FLASH_ERR)
      else (fw_note 2 (s\<lparr>S_open := True, S_image_len := xb_image_len b, S_received := 0, S_buf := [],
              S_sha := xb_sha256 b, S_last_req_ms := now\<rparr>), WUPS_FW_XFER_OK))"

text \<open>
  The copy loop of a DATA request.  Every pass consumes a byte at least while the accumulator is
  not full, so as many passes as bytes are enough.
\<close>

fun stage_loop :: "'f lfs \<Rightarrow> nat \<Rightarrow> bytes \<Rightarrow> 'f rp_update \<Rightarrow> 'f rp_update \<times> bool" where
  "stage_loop a 0 p s = (s, True)"
| "stage_loop a (Suc passes) p s =
     (if p = [] then (s, True)
      else let n = min (STAGE_BUF - length (S_buf s)) (length p);
               s = s\<lparr>S_buf := S_buf s @ take n p\<rparr> in
      if length (S_buf s) = STAGE_BUF then
        (case flush_stage_buf a s of
           (s, False) \<Rightarrow> (session_abort a s, False)
         | (s, True) \<Rightarrow> stage_loop a passes (drop n p) s)
      else stage_loop a passes (drop n p) s)"

definition fw_update_handle_data :: "'f lfs \<Rightarrow> u32 \<Rightarrow> bytes \<Rightarrow> 'f rp_update \<Rightarrow> 'f rp_update \<times> u8" where
  "fw_update_handle_data a now payload s =
     (if \<not> S_open s then (s, WUPS_FW_XFER_BAD_REQ)
      else let s = s\<lparr>S_last_req_ms := now\<rparr> in
      if length payload < sizeof_xfer_data_hdr + 1 then (s, WUPS_FW_XFER_BAD_REQ)
      else let offset = rd_u32le payload; chunk = drop sizeof_xfer_data_hdr payload in
      if length chunk > WUPS_FW_XFER_CHUNK then (s, WUPS_FW_XFER_BAD_REQ)
      else if offset \<noteq> S_received s then (s, WUPS_FW_XFER_SEQ_MISMATCH)
      else if unat (S_received s) + length chunk > unat (S_image_len s) then (s, WUPS_FW_XFER_BAD_REQ)
      else case stage_loop a (length chunk) chunk s of
        (s, False) \<Rightarrow> (s, WUPS_FW_XFER_FLASH_ERR)
      | (s, True) \<Rightarrow> (s\<lparr>S_received := S_received s + of_nat (length chunk)\<rparr>, WUPS_FW_XFER_OK))"

definition take_snapshot :: "'f lfs \<Rightarrow> bytes \<Rightarrow> 'f rp_update \<Rightarrow> 'f rp_update" where
  "take_snapshot a run_img s =
     (let (s, have_snapshot) = snapshot_running_image a run_img s;
          (s, have_snapshot) =
            (if have_snapshot then
               (case write_pending_marker a s of
                  (s, True) \<Rightarrow> (s, True)
                | (s, False) \<Rightarrow> (s\<lparr>fs := lfs_remove a (fs s) kPrevFile\<rparr>, False))
             else (s, False)) in
      if \<not> have_snapshot then fw_note 1 s else s)"

definition fw_update_handle_end ::
  "'f lfs \<Rightarrow> u32 \<Rightarrow> bytes \<Rightarrow> bytes \<Rightarrow> bytes \<Rightarrow> 'f rp_update \<Rightarrow> 'f rp_update \<times> u8 \<times> bool" where
  "fw_update_handle_end a now junk run_img payload s =
     (if \<not> S_open s then (s, WUPS_FW_XFER_BAD_REQ, False)
      else let s = s\<lparr>S_last_req_ms := now\<rparr> in
      if length payload < sizeof_xfer_end then (s, WUPS_FW_XFER_BAD_REQ, False)
      else let e = load_end payload in
      if xe_version e \<noteq> 1 then (s, WUPS_FW_XFER_BAD_REQ, False)
      else if xe_commit e = 0 then (fw_note 2 (session_abort a s), WUPS_FW_XFER_OK, False)
      else if S_received s \<noteq> S_image_len s then (session_abort a s, WUPS_FW_XFER_BAD_REQ, False)
      else let (s, ok) = flush_stage_buf a s in
      if \<not> ok then (session_abort a s, WUPS_FW_XFER_FLASH_ERR, False)
      else let s = s\<lparr>S_open := False\<rparr> in
      if \<not> verify_stage_sha a junk s
      then (fw_note 1 (s\<lparr>fs := lfs_remove a (fs s) kStageFile\<rparr>), WUPS_FW_XFER_VERIFY_FAIL, False)
      else if \<not> sanity_check_image a s
      then (fw_note 1 (s\<lparr>fs := lfs_remove a (fs s) kStageFile\<rparr>), WUPS_FW_XFER_BAD_REQ, False)
      else let s = take_snapshot a run_img s;
               (f, ok) = ota_addFile a (ota_begin a (fs s)) kStageFile; s = s\<lparr>fs := f\<rparr>;
               (f, ok) = (if ok then ota_commit a (fs s) else (fs s, False)); s = s\<lparr>fs := f\<rparr> in
      if \<not> ok then
        (let s = cleanup_pending_files a s in
         (s\<lparr>fs := lfs_remove a (fs s) kStageFile\<rparr>, WUPS_FW_XFER_FLASH_ERR, False))
      else (fw_note 2 s, WUPS_FW_XFER_OK, True))"

text \<open>
  The dispatcher of \<open>main.cpp\<close>: an addressed request confirms a pending image, is handled and
  answered, and a commit ends in a restart.  Answers go out only to a known sender.
\<close>

definition xfer_handle ::
  "'f lfs \<Rightarrow> u32 \<Rightarrow> bytes \<Rightarrow> bytes \<Rightarrow> u8 \<Rightarrow> bytes \<Rightarrow> 'f rp_update \<Rightarrow> 'f rp_update \<times> u8 \<times> bool" where
  "xfer_handle a now junk run_img op payload s =
     (if op = WUPS_OP_NET_FW_XFER_BEGIN then let (s, r) = fw_update_handle_begin a now run_img payload s in (s, r, False)
      else if op = WUPS_OP_NET_FW_XFER_DATA then let (s, r) = fw_update_handle_data a now payload s in (s, r, False)
      else fw_update_handle_end a now junk run_img payload s)"

definition xfer_dispatch ::
  "'f lfs \<Rightarrow> u32 \<Rightarrow> bytes \<Rightarrow> bytes \<Rightarrow> u8 \<Rightarrow> bytes \<Rightarrow> 'f rp_update \<Rightarrow> 'f rp_update \<times> u8" where
  "xfer_dispatch a now junk run_img op payload s =
     (let (s, result, reboot_after) = xfer_handle a now junk run_img op payload (fw_update_note_frame_ok a s) in
      (if reboot_after then s\<lparr>rp_rebooted := True\<rparr> else s, result))"

section \<open>The staged file\<close>

text \<open>
  What the file system documents: a created file is empty, a full write appends, and every operation
  leaves the other files alone.
\<close>

definition fs_appends :: "'f lfs \<Rightarrow> bool" where
  "fs_appends a \<longleftrightarrow>
     (\<forall>f p f'. lfs_create a f p = (f', True) \<longrightarrow> lfs_read a f' p = Some []) \<and>
     (\<forall>f p c bs f'. lfs_read a f p = Some c \<longrightarrow> lfs_write a f p bs = (f', length bs) \<longrightarrow> lfs_read a f' p = Some (c @ bs)) \<and>
     (\<forall>f p q. q \<noteq> p \<longrightarrow> lfs_read a (lfs_remove a f p) q = lfs_read a f q) \<and>
     (\<forall>f p q. q \<noteq> p \<longrightarrow> lfs_read a (fst (lfs_create a f p)) q = lfs_read a f q) \<and>
     (\<forall>f p q bs. q \<noteq> p \<longrightarrow> lfs_read a (fst (lfs_write a f p bs)) q = lfs_read a f q)"

text \<open>The bytes of the open session, in the file and the accumulator.\<close>

definition staged :: "'f lfs \<Rightarrow> 'f rp_update \<Rightarrow> u32 \<Rightarrow> bytes \<Rightarrow> bytes \<Rightarrow> bool" where
  "staged a s n sha img \<longleftrightarrow> S_open s \<and> S_image_len s = n \<and> S_sha s = sha \<and> unat (S_received s) = length img \<and>
     length img \<le> unat n \<and> length (S_buf s) < 4096 \<and> s_fs_ok s \<and> \<not> rp_rebooted s \<and> \<not> s_pending s \<and>
     (\<exists>c. lfs_read a (fs s) kStageFile = Some c \<and> c @ S_buf s = img)"

lemma slices_concat: "0 < n \<Longrightarrow> concat (slices n bs) = bs"
  by (induction n bs rule: slices.induct) (subst slices.simps, simp)

lemma abort_fields [simp]:
  "\<not> S_open (session_abort a s)" "s_fs_ok (session_abort a s) = s_fs_ok s" "s_pending (session_abort a s) = s_pending s"
  "rp_rebooted (session_abort a s) = rp_rebooted s"
  by (simp_all add: session_abort_def remove_if_def Let_def)

text \<open>Everything but the file system, the accumulator and the request time is as before.\<close>

definition same_session :: "'f rp_update \<Rightarrow> 'f rp_update \<Rightarrow> bool" where
  "same_session s t \<longleftrightarrow> S_open t = S_open s \<and> S_image_len t = S_image_len s \<and> S_received t = S_received s \<and>
     S_sha t = S_sha s \<and> s_pending t = s_pending s \<and> rp_rebooted t = rp_rebooted s \<and> s_fs_ok t = s_fs_ok s"

lemma flush_ok:
  assumes "flush_stage_buf a s = (t, ok)"
  shows "same_session s t"
    and "ok \<Longrightarrow> fs_appends a \<Longrightarrow> lfs_read a (fs s) kStageFile = Some c \<Longrightarrow>
      S_buf t = [] \<and> lfs_read a (fs t) kStageFile = Some (c @ S_buf s)"
  using assms by (auto simp: flush_stage_buf_def fs_appends_def same_session_def Let_def split: if_splits prod.splits)

lemma stage_loop_ok:
  assumes "stage_loop a passes p s = (t, ok)" and "length p \<le> passes" and "length (S_buf s) < 4096"
    and "fs_appends a" and "lfs_read a (fs s) kStageFile = Some c"
  shows "if ok then same_session s t \<and> length (S_buf t) < 4096 \<and>
           (\<exists>c'. lfs_read a (fs t) kStageFile = Some c' \<and> c' @ S_buf t = c @ S_buf s @ p)
         else \<not> S_open t \<and> s_pending t = s_pending s \<and> rp_rebooted t = rp_rebooted s \<and> s_fs_ok t = s_fs_ok s"
  using assms
proof (induction passes arbitrary: p s c)
  case 0
  then show ?case by (simp add: same_session_def)
next
  case (Suc k)
  show ?case
  proof (cases "p = []")
    case True
    then show ?thesis using Suc.prems by (auto simp: same_session_def)
  next
    case False
    define n where "n = min (4096 - length (S_buf s)) (length p)"
    define u where "u = s\<lparr>S_buf := S_buf s @ take n p\<rparr>"
    have n: "0 < n" "n \<le> length p" using False Suc.prems(3) by (cases p; simp add: n_def)+
    have step: "stage_loop a (Suc k) p s = (if length (S_buf u) = 4096 then
        (case flush_stage_buf a u of (s, False) \<Rightarrow> (session_abort a s, False)
         | (s, True) \<Rightarrow> stage_loop a k (drop n p) s) else stage_loop a k (drop n p) u)"
      by (simp only: stage_loop.simps Let_def STAGE_BUF_def False if_False n_def u_def)
    have shorter: "length (drop n p) \<le> k" using n Suc.prems(2) by simp
    have u: "same_session s u" "fs u = fs s" "S_buf u = S_buf s @ take n p"
      by (simp_all add: u_def same_session_def)
    show ?thesis
    proof (cases "length (S_buf u) = 4096")
      case full: True
      obtain v b where f: "flush_stage_buf a u = (v, b)" by fastforce
      have uv: "same_session u v" by (rule flush_ok(1) [OF f])
      show ?thesis
      proof (cases b)
        case False
        then have "t = session_abort a v" "\<not> ok" using Suc.prems(1) step full f by simp_all
        then show ?thesis using u(1) uv by (simp add: same_session_def)
      next
        case True
        have v: "S_buf v = []" "lfs_read a (fs v) kStageFile = Some (c @ S_buf s @ take n p)"
          using flush_ok(2) [OF f True Suc.prems(4), of c] Suc.prems(5) u by simp_all
        have run: "stage_loop a k (drop n p) v = (t, ok)" using Suc.prems(1) step full f True by simp
        from Suc.IH [OF run shorter _ Suc.prems(4) v(2)] v(1) u(1) uv show ?thesis
          by (auto simp: same_session_def split: if_splits)
      qed
    next
      case False
      then have run: "stage_loop a k (drop n p) u = (t, ok)" using Suc.prems(1) step by simp
      have small: "length (S_buf u) < 4096" using False Suc.prems(3) u(3) by (simp add: n_def min_def split: if_splits)
      from Suc.IH [OF run shorter small Suc.prems(4), of c] Suc.prems(5) u show ?thesis
        by (auto simp: same_session_def split: if_splits)
    qed
  qed
qed

lemma remove_if_read:
  "fs_appends a \<Longrightarrow> q \<noteq> p \<Longrightarrow> lfs_read a (fs (remove_if a p s)) q = lfs_read a (fs s) q"
  by (auto simp: remove_if_def fs_appends_def)

lemma remove_if_same [simp]: "same_session s (remove_if a p s)" "S_buf (remove_if a p s) = S_buf s"
  by (simp_all add: remove_if_def same_session_def)

lemma begin_staged:
  assumes b: "fw_update_handle_begin a now run_img p s = (t, r)" and law: "fs_appends a"
    and live: "\<not> rp_rebooted s" "\<not> s_pending s"
  shows "r = WUPS_FW_XFER_OK \<Longrightarrow> staged a t (xb_image_len (load_begin p)) (xb_sha256 (load_begin p)) []"
    and "\<not> rp_rebooted t" "\<not> s_pending t"
proof -
  let ?u = "session_abort a s"
  obtain f ok where c: "lfs_create a (fs ?u) kStageFile = (f, ok)" by fastforce
  define v where "v = fw_note 2 (?u\<lparr>fs := f, S_open := True, S_image_len := xb_image_len (load_begin p), S_received := 0,
      S_buf := [], S_sha := xb_sha256 (load_begin p), S_last_req_ms := now\<rparr>)"
  have t: "t = s \<or> t = ?u \<or> t = ?u\<lparr>fs := f\<rparr> \<or> t = v" and ok: "r = 0 \<Longrightarrow> t = v \<and> ok \<and> s_fs_ok s"
    using b by (auto simp: fw_update_handle_begin_def c v_def Let_def split: if_splits)
  show "\<not> rp_rebooted t" "\<not> s_pending t" using t live by (auto simp: v_def)
  show "r = WUPS_FW_XFER_OK \<Longrightarrow> staged a t (xb_image_len (load_begin p)) (xb_sha256 (load_begin p)) []"
  proof -
    assume "r = WUPS_FW_XFER_OK"
    then have tv: "t = v" ok "s_fs_ok s" using ok by simp_all
    then have "lfs_read a f kStageFile = Some []" using law c by (simp add: fs_appends_def)
    then show ?thesis using tv live by (simp add: v_def staged_def)
  qed
qed

lemma data_staged:
  assumes d: "fw_update_handle_data a now p s = (t, r)" and law: "fs_appends a" and st: "staged a s n sha img"
  shows "r = WUPS_FW_XFER_OK \<Longrightarrow> staged a t n sha (img @ drop 4 p) \<and> unat (rd_u32le p) = length img"
    and "r \<noteq> WUPS_FW_XFER_OK \<Longrightarrow> staged a t n sha img \<or> \<not> S_open t \<and> \<not> rp_rebooted t \<and> \<not> s_pending t"
proof -
  let ?u = "s\<lparr>S_last_req_ms := now\<rparr>"
  obtain v ok where run: "stage_loop a (length (drop 4 p)) (drop 4 p) ?u = (v, ok)" by fastforce
  obtain c where c: "lfs_read a (fs s) kStageFile = Some c" "c @ S_buf s = img" "length (S_buf s) < 4096"
    using st by (auto simp: staged_def)
  note loop = stage_loop_ok [OF run order_refl _ law, of c, simplified, OF c(3,1)]
  have keep: "staged a ?u n sha img" using st by (simp add: staged_def)
  have dec: "(t, r) = (if length p < 5 then (?u, 1)
      else if length (drop 4 p) > 236 then (?u, 1)
      else if rd_u32le p \<noteq> S_received s then (?u, 3)
      else if unat (S_received s) + length (drop 4 p) > unat (S_image_len s) then (?u, 1)
      else if ok then (v\<lparr>S_received := S_received v + of_nat (length (drop 4 p))\<rparr>, 0) else (v, 4))"
    using d st run by (auto simp: fw_update_handle_data_def staged_def Let_def split: if_splits bool.splits)
  show "r = WUPS_FW_XFER_OK \<Longrightarrow> staged a t n sha (img @ drop 4 p) \<and> unat (rd_u32le p) = length img"
  proof -
    assume "r = WUPS_FW_XFER_OK"
    then have ok: ok and t: "t = v\<lparr>S_received := S_received v + of_nat (length (drop 4 p))\<rparr>"
      and off: "rd_u32le p = S_received s" and fits: "unat (S_received s) + length (drop 4 p) \<le> unat (S_image_len s)"
      using dec by (auto split: if_splits)
    have same: "same_session ?u v" and len: "length (S_buf v) < 4096"
      and content: "\<exists>c'. lfs_read a (fs v) kStageFile = Some c' \<and> c' @ S_buf v = img @ drop 4 p"
      using loop ok c by auto
    have "unat (S_received s) + length (drop 4 p) < 2 ^ 32"
      using fits unat_bound [of "S_image_len s"] by simp
    then have "unat (S_received s + of_nat (length (drop 4 p))) = length (img @ drop 4 p)"
      using st by (simp add: staged_def unat_word_ariths unat_of_nat del: length_drop)
    then show ?thesis using same len content st fits off
      by (simp add: t staged_def same_session_def del: length_drop)
  qed
  show "r \<noteq> WUPS_FW_XFER_OK \<Longrightarrow> staged a t n sha img \<or> \<not> S_open t \<and> \<not> rp_rebooted t \<and> \<not> s_pending t"
    using dec keep loop st by (auto simp: staged_def split: if_splits)
qed

lemma snapshot_loop_read:
  "fs_appends a \<Longrightarrow> snapshot_loop a ps f = (f', ok) \<Longrightarrow> q \<noteq> kPrevFile \<Longrightarrow> lfs_read a f' q = lfs_read a f q"
proof (induction ps arbitrary: f)
  case (Cons p ps)
  obtain g n where w: "lfs_write a f kPrevFile p = (g, n)" by fastforce
  have "lfs_read a (fst (lfs_write a f kPrevFile p)) q = lfs_read a f q"
    using Cons.prems(1,3) by (simp add: fs_appends_def)
  then show ?case using Cons w by (auto split: if_splits)
qed simp

lemma snapshot_read:
  assumes "fs_appends a" and "snapshot_running_image a run_img s = (t, ok)"
  shows "lfs_read a (fs t) kStageFile = lfs_read a (fs s) kStageFile"
proof -
  have other: "kStageFile \<noteq> kPrevFile" by (simp add: kStageFile_def kPrevFile_def)
  obtain f b where c: "lfs_create a (fs s) kPrevFile = (f, b)" by fastforce
  obtain g b' where l: "snapshot_loop a (slices STAGE_BUF run_img) f = (g, b')" by fastforce
  have "lfs_read a (fst (lfs_create a (fs s) kPrevFile)) kStageFile = lfs_read a (fs s) kStageFile"
    using assms(1) other by (simp add: fs_appends_def)
  moreover have "lfs_read a g kStageFile = lfs_read a f kStageFile"
    by (rule snapshot_loop_read [OF assms(1) l other])
  moreover have "lfs_read a (lfs_remove a g kPrevFile) kStageFile = lfs_read a g kStageFile"
    using assms(1) other by (simp add: fs_appends_def)
  ultimately show ?thesis
    using assms(2) c l by (auto simp: snapshot_running_image_def Let_def split: if_splits)
qed

lemma marker_read:
  assumes "fs_appends a" and "write_pending_marker a s = (t, ok)"
  shows "lfs_read a (fs t) kStageFile = lfs_read a (fs s) kStageFile"
proof -
  have other: "kStageFile \<noteq> kPendingFile" by (simp add: kStageFile_def kPendingFile_def)
  let ?m = "le32 FW_PENDING_MAGIC @ le32 0"
  obtain f b where c: "lfs_create a (fs s) kPendingFile = (f, b)" by fastforce
  obtain g n where w: "lfs_write a f kPendingFile ?m = (g, n)" by fastforce
  have "lfs_read a (fst (lfs_create a (fs s) kPendingFile)) kStageFile = lfs_read a (fs s) kStageFile"
    "lfs_read a (fst (lfs_write a f kPendingFile ?m)) kStageFile = lfs_read a f kStageFile"
    "lfs_read a (lfs_remove a g kPendingFile) kStageFile = lfs_read a g kStageFile"
    using assms(1) other by (simp_all add: fs_appends_def)
  then show ?thesis
    using assms(2) c w by (auto simp: write_pending_marker_def Let_def split: if_splits)
qed

lemma take_snapshot_read:
  assumes law: "fs_appends a"
  shows "lfs_read a (fs (take_snapshot a run_img s)) kStageFile = lfs_read a (fs s) kStageFile"
proof -
  obtain u b where sn: "snapshot_running_image a run_img s = (u, b)" by fastforce
  obtain v b' where m: "write_pending_marker a u = (v, b')" by fastforce
  have "lfs_read a (lfs_remove a (fs v) kPrevFile) kStageFile = lfs_read a (fs v) kStageFile"
    using law by (simp add: fs_appends_def kStageFile_def kPrevFile_def)
  then show ?thesis
    using snapshot_read [OF law sn] marker_read [OF law m]
    by (auto simp: take_snapshot_def sn m Let_def split: bool.split)
qed

lemma take_snapshot_keeps:
  "S_open (take_snapshot a run_img s) = S_open s" "s_pending (take_snapshot a run_img s) = s_pending s"
  "rp_rebooted (take_snapshot a run_img s) = rp_rebooted s"
  by (simp_all add: take_snapshot_def snapshot_running_image_def write_pending_marker_def Let_def
      split: prod.split bool.split)

lemma cleanup_keeps:
  "S_open (cleanup_pending_files a s) = S_open s" "s_pending (cleanup_pending_files a s) = s_pending s"
  "rp_rebooted (cleanup_pending_files a s) = rp_rebooted s"
  by (simp_all add: cleanup_pending_files_def remove_if_def Let_def)

text \<open>A commit that is refused gives the session up.\<close>

lemma end_refused:
  assumes "fw_update_handle_end a now junk run_img p s = (t, r, False)" and "staged a s n sha img"
    and "4 \<le> length p" and "xe_version (load_end p) = 1" and "xe_commit (load_end p) \<noteq> 0"
  shows "r \<noteq> WUPS_FW_XFER_OK" and "\<not> S_open t" "\<not> rp_rebooted t" "\<not> s_pending t"
proof -
  obtain u ok where fl: "flush_stage_buf a (s\<lparr>S_last_req_ms := now\<rparr>) = (u, ok)" by fastforce
  have u: "\<not> rp_rebooted u" "\<not> s_pending u"
    using flush_ok(1) [OF fl] assms(2) by (simp_all add: same_session_def staged_def)
  have "r \<noteq> 0 \<and> \<not> S_open t \<and> \<not> rp_rebooted t \<and> \<not> s_pending t"
    using assms fl u by (auto simp: fw_update_handle_end_def staged_def Let_def take_snapshot_keeps cleanup_keeps
      split: if_splits prod.splits)
  then show "r \<noteq> WUPS_FW_XFER_OK" and "\<not> S_open t" "\<not> rp_rebooted t" "\<not> s_pending t" by simp_all
qed

text \<open>
  What a commit means: an image of the announced length and digest with vectors of its own was in the
  staged file when the boot loader was armed with it.
\<close>

definition committed :: "'f lfs \<Rightarrow> u32 \<Rightarrow> bytes \<Rightarrow> bytes \<Rightarrow> 'f \<Rightarrow> bool" where
  "committed a n sha img g \<longleftrightarrow> length img = unat n \<and> sha256 img = sha \<and> sane_vectors n img \<and>
     (\<exists>f f'. lfs_read a f kStageFile = Some img \<and> ota_addFile a (ota_begin a f) kStageFile = (f', True) \<and>
        ota_commit a f' = (g, True))"

lemma end_staged:
  assumes e: "fw_update_handle_end a now junk run_img p s = (t, r, True)" and law: "fs_appends a"
    and st: "staged a s n sha img" and junk: "length junk = 64"
  shows "committed a n sha img (fs t)" and "r = WUPS_FW_XFER_OK"
proof -
  obtain u where fl: "flush_stage_buf a (s\<lparr>S_last_req_ms := now\<rparr>) = (u, True)"
    and full: "S_received s = S_image_len s" and sha: "verify_stage_sha a junk (u\<lparr>S_open := False\<rparr>)"
    and sane: "sanity_check_image a (u\<lparr>S_open := False\<rparr>)" and r: "r = WUPS_FW_XFER_OK"
    and arm: "\<exists>f'. ota_addFile a (ota_begin a (fs (take_snapshot a run_img (u\<lparr>S_open := False\<rparr>)))) kStageFile = (f', True) \<and>
      ota_commit a f' = (fs t, True)"
  proof -
    assume that: "\<And>u. \<lbrakk>flush_stage_buf a (s\<lparr>S_last_req_ms := now\<rparr>) = (u, True); S_received s = S_image_len s;
      verify_stage_sha a junk (u\<lparr>S_open := False\<rparr>); sanity_check_image a (u\<lparr>S_open := False\<rparr>); r = WUPS_FW_XFER_OK;
      \<exists>f'. ota_addFile a (ota_begin a (fs (take_snapshot a run_img (u\<lparr>S_open := False\<rparr>)))) kStageFile = (f', True) \<and>
        ota_commit a f' = (fs t, True)\<rbrakk> \<Longrightarrow> thesis"
    obtain u ok where "flush_stage_buf a (s\<lparr>S_last_req_ms := now\<rparr>) = (u, ok)" by fastforce
    then show thesis
      using e by (intro that [of u]) (auto simp: fw_update_handle_end_def Let_def split: if_splits prod.splits)
  qed
  obtain c where c: "lfs_read a (fs s) kStageFile = Some c" "c @ S_buf s = img" using st by (auto simp: staged_def)
  have read: "lfs_read a (fs u) kStageFile = Some img"
    using flush_ok(2) [OF fl TrueI law, of c] c by simp
  have u: "S_sha u = sha" "S_image_len u = n" using flush_ok(1) [OF fl] st by (simp_all add: same_session_def staged_def)
  have "concat (slices STAGE_BUF img) = img" by (rule slices_concat) simp
  then have "sha256 img = sha"
    using sha read u stream_digest [OF junk, of "slices STAGE_BUF img"] by (simp add: verify_stage_sha_def)
  moreover have "length img = unat n" using st full by (auto simp: staged_def)
  moreover have "sane_vectors n img" using sane read u by (simp add: sanity_check_image_def)
  moreover obtain f' where "ota_addFile a (ota_begin a (fs (take_snapshot a run_img (u\<lparr>S_open := False\<rparr>)))) kStageFile = (f', True)"
      "ota_commit a f' = (fs t, True)" using arm by blast
  moreover have "lfs_read a (fs (take_snapshot a run_img (u\<lparr>S_open := False\<rparr>))) kStageFile = Some img"
    using read take_snapshot_read [OF law, of run_img "u\<lparr>S_open := False\<rparr>"] by simp
  ultimately show "committed a n sha img (fs t)" by (auto simp: committed_def)
  show "r = WUPS_FW_XFER_OK" by (rule r)
qed

section \<open>A new image that never says a word\<close>

text \<open>A restart clears the memory and keeps the files.\<close>

definition power_on :: "'f \<Rightarrow> 'f rp_update" where
  "power_on f = \<lparr>s_fs_ok = False, S_open = False, S_image_len = 0, S_received = 0, S_sha = replicate 32 0,
     S_last_req_ms = 0, S_buf = [], s_pending = False, s_pending_boot_ms = 0, fs = f, fw_logged = [], rp_rebooted = False\<rparr>"

text \<open>Boots of an image that crashes before a frame or the window, until one restarts into the old image.\<close>

fun crash_boots :: "'f lfs \<Rightarrow> nat \<Rightarrow> 'f rp_update \<Rightarrow> 'f rp_update" where
  "crash_boots a 0 s = s"
| "crash_boots a (Suc k) s =
     (let s = fw_update_boot_init a 0 (power_on (fs s)) in if rp_rebooted s then s else crash_boots a k s)"

definition fs_files :: "'f lfs \<Rightarrow> bool" where
  "fs_files a \<longleftrightarrow>
     (\<forall>f. snd (lfs_begin a f) \<and> lfs_read a (fst (lfs_begin a f)) = lfs_read a f) \<and>
     (\<forall>f p. lfs_exists a f p = (lfs_read a f p \<noteq> None)) \<and>
     (\<forall>f p q. q \<noteq> p \<longrightarrow> lfs_read a (lfs_remove a f p) q = lfs_read a f q) \<and>
     (\<forall>f p bs. lfs_read a (lfs_rewrite a f p bs) = (lfs_read a f)(p := Some bs)) \<and>
     (\<forall>f. snd (ota_addFile a f kPrevFile)) \<and> (\<forall>f. snd (ota_commit a f))"

definition on_trial :: "'f lfs \<Rightarrow> nat \<Rightarrow> 'f \<Rightarrow> bool" where
  "on_trial a k f \<longleftrightarrow> lfs_read a f kPrevFile \<noteq> None \<and>
     lfs_read a f kPendingFile = Some (le32 FW_PENDING_MAGIC @ le32 (of_nat k))"

lemma boot_on_trial:
  assumes law: "fs_files a" and trial: "on_trial a k (fs s)" and k: "k \<le> 8" and live: "\<not> rp_rebooted s"
  shows "if k < 8 then on_trial a (Suc k) (fs (fw_update_boot_init a now s)) \<and>
           s_pending (fw_update_boot_init a now s) \<and> \<not> rp_rebooted (fw_update_boot_init a now s)
         else rp_rebooted (fw_update_boot_init a now s)"
proof -
  obtain g ok where b: "lfs_begin a (fs s) = (g, ok)" by fastforce
  have ok: ok and g: "lfs_read a g = lfs_read a (fs s)" using law b by (auto simp: fs_files_def dest!: spec [of _ "fs s"])
  let ?s = "s\<lparr>S_open := False, fs := g, s_fs_ok := True\<rparr>"
  define u where "u = remove_if a OTA_COMMAND_FILE ?s"
  define boots :: u32 where "boots = of_nat k + 1"
  define h where "h = lfs_rewrite a (fs u) kPendingFile (le32 0x46575550 @ le32 boots)"
  have names: "kPendingFile \<noteq> OTA_COMMAND_FILE" "kPrevFile \<noteq> OTA_COMMAND_FILE" "kPrevFile \<noteq> kPendingFile"
    by (simp_all add: kPendingFile_def OTA_COMMAND_FILE_def kPrevFile_def)
  have u: "lfs_read a (fs u) kPendingFile = Some (le32 0x46575550 @ le32 (of_nat k))" "lfs_read a (fs u) kPrevFile \<noteq> None"
    "lfs_exists a (fs u) kPendingFile" and keep: "s_fs_ok u" "\<not> S_open u" "\<not> rp_rebooted u"
    using law trial names g live by (auto simp: u_def remove_if_def fs_files_def on_trial_def)
  have h: "lfs_read a h kPendingFile = Some (le32 0x46575550 @ le32 boots)" "lfs_read a h kPrevFile \<noteq> None" "lfs_exists a h kPrevFile"
    using law u names by (auto simp: h_def fs_files_def)
  have marker: "length (le32 0x46575550 @ le32 (of_nat k :: u32)) \<ge> 8" "rd_u32le (le32 0x46575550 @ le32 (of_nat k)) = (0x46575550 :: u32)"
    "rd_u32le (drop 4 (le32 0x46575550 @ le32 (of_nat k))) + 1 = boots"
    using rd_u32le_le32 [of "of_nat k" "[]"] by (simp_all add: rd_u32le_le32 boots_def)
  have run: "fw_update_boot_init a now s =
      (if boots > 8 then let t = restage_previous_and_reboot a (u\<lparr>fs := h\<rparr>) in if rp_rebooted t then t else cleanup_pending_files a t
       else fw_note 2 (u\<lparr>fs := h, s_pending := True, s_pending_boot_ms := now\<rparr>))"
    using b ok u marker by (simp add: fw_update_boot_init_def Let_def u_def [symmetric] h_def)
  have many: "boots > 8 \<longleftrightarrow> \<not> k < 8" using k by (cases "k = 8") (auto simp: boots_def word_less_nat_alt unat_word_ariths unat_of_nat)
  show ?thesis
  proof (cases "k < 8")
    case True
    then show ?thesis using run many h keep by (simp add: on_trial_def boots_def add.commute)
  next
    case False
    have "rp_rebooted (restage_previous_and_reboot a (u\<lparr>fs := h\<rparr>))"
      using law h keep by (auto simp: restage_previous_and_reboot_def fs_files_def Let_def split: prod.split)
        (metis snd_conv)+
    then show ?thesis using run many False by (simp add: Let_def)
  qed
qed

lemma crash_boots_count:
  "\<lbrakk>fs_files a; on_trial a k (fs s); k \<le> 8; \<not> rp_rebooted s\<rbrakk> \<Longrightarrow>
    rp_rebooted (crash_boots a (Suc m) s) \<longleftrightarrow> 8 \<le> k + m"
proof (induction m arbitrary: k s)
  case 0
  then show ?case using boot_on_trial [of a k "power_on (fs s)" 0] by (cases "k < 8") (auto simp: Let_def power_on_def)
next
  case (Suc m)
  let ?t = "fw_update_boot_init a 0 (power_on (fs s))"
  have "on_trial a k (fs (power_on (fs s)))" "\<not> rp_rebooted (power_on (fs s))" using Suc.prems by (simp_all add: power_on_def)
  note boot = boot_on_trial [OF Suc.prems(1) this(1) Suc.prems(3) this(2), of 0]
  show ?case
  proof (cases "k < 8")
    case True
    then show ?thesis using boot Suc.IH [OF Suc.prems(1), of "Suc k" ?t] by (auto simp: Let_def)
  next
    case False
    then show ?thesis using boot Suc.prems(3) by (simp add: Let_def)
  qed
qed


text \<open>A file system in memory.\<close>

definition ram_lfs :: "(string \<Rightarrow> bytes option) lfs" where
  "ram_lfs = \<lparr>lfs_begin = (\<lambda>f. (f, True)), lfs_exists = (\<lambda>f p. f p \<noteq> None), lfs_remove = (\<lambda>f p. f(p := None)),
     lfs_create = (\<lambda>f p. (f(p := Some []), True)),
     lfs_write = (\<lambda>f p bs. (f(p := Some (case f p of None \<Rightarrow> bs | Some c \<Rightarrow> c @ bs)), length bs)),
     lfs_read = (\<lambda>f p. f p), lfs_rewrite = (\<lambda>f p bs. f(p := Some bs)), lfs_free = (\<lambda>f. 1000000),
     ota_begin = (\<lambda>f. f), ota_addFile = (\<lambda>f p. (f, True)), ota_commit = (\<lambda>f. (f(OTA_COMMAND_FILE := Some []), True))\<rparr>"

lemma ram_lfs_laws: "fs_appends ram_lfs" "fs_files ram_lfs"
  by (auto simp: ram_lfs_def fs_appends_def fs_files_def)


end
