(* ===== verification/Fw_Relay.thy ===== *)
theory Fw_Relay
  imports Fw_Ota Rp_Update
begin

text \<open>
  The relay of an image to the RP2040, \<open>relay_task\<close> of \<open>fw_ota.c\<close>, against the receiver of
  \<open>Rp_Update\<close>: stop-and-wait requests over a link that may lose a request or its answer, with one
  retry.  The link, the download and the times are parameters: for every attempt the environment says what
  happens to it and whether the receiver had already given the session up.
\<close>

section \<open>The link\<close>

datatype delivery = Request_Lost | Response_Lost | Delivered

record attempt =
  at_idle_expired :: bool
  at_now :: u32
  at_delivery :: delivery

text \<open>
  A receiver that has restarted has no session and says so.  \<open>peer_env\<close> is its platform, its
  running image, its uninitialised buffer.
\<close>

record 'f peer_env =
  peer_fs :: "'f lfs"
  peer_image :: bytes
  peer_junk :: bytes

definition peer_answer :: "'f peer_env \<Rightarrow> attempt \<Rightarrow> u8 \<Rightarrow> bytes \<Rightarrow> 'f rp_update \<Rightarrow> 'f rp_update \<times> u8 option" where
  "peer_answer e at op payload s =
     (let s = (if at_idle_expired at \<and> S_open s then fw_note 1 (session_abort (peer_fs e) s) else s) in
      if rp_rebooted s then (s, if at_delivery at = Delivered then Some WUPS_FW_XFER_BAD_REQ else None)
      else case at_delivery at of
        Request_Lost \<Rightarrow> (s, None)
      | Response_Lost \<Rightarrow> (fst (xfer_dispatch (peer_fs e) (at_now at) (peer_junk e) (peer_image e) op payload s), None)
      | Delivered \<Rightarrow> (case xfer_dispatch (peer_fs e) (at_now at) (peer_junk e) (peer_image e) op payload s of
                       (s, r) \<Rightarrow> (s, Some r)))"

text \<open>
  The sender side of one request; \<open>0xFF\<close> stands for two timeouts.  Attempts the environment does not
  describe are lost.
\<close>

type_synonym 'f link = "'f rp_update \<times> attempt list"

fun xfer_try :: "'f peer_env \<Rightarrow> u8 \<Rightarrow> bytes \<Rightarrow> nat \<Rightarrow> 'f link \<Rightarrow> 'f link \<times> u8" where
  "xfer_try e op payload 0 l = (l, 0xFF)"
| "xfer_try e op payload (Suc n) (s, []) = ((s, []), 0xFF)"
| "xfer_try e op payload (Suc n) (s, at # ats) =
     (case peer_answer e at op payload s of
        (s, Some r) \<Rightarrow> ((s, ats), r)
      | (s, None) \<Rightarrow> xfer_try e op payload n (s, ats))"

definition xfer_send_req :: "'f peer_env \<Rightarrow> u8 \<Rightarrow> bytes \<Rightarrow> 'f link \<Rightarrow> 'f link \<times> u8" where
  "xfer_send_req e op payload l = xfer_try e op payload 2 l"

definition relay_send_abort :: "'f peer_env \<Rightarrow> 'f link \<Rightarrow> 'f link" where
  "relay_send_abort e l = fst (xfer_send_req e WUPS_OP_NET_FW_XFER_END (end_bytes 0) l)"

section \<open>The relay task\<close>

definition FW_RELAY_HTTP_BUF :: nat where [simp]: "FW_RELAY_HTTP_BUF = 2048"

text \<open>
  The download: what every attempt to open it delivers (redirections are followed by hand), what the
  reads deliver (an error, or bytes, never more than were asked for), and the pass in which the time
  cap is exceeded.
\<close>

record hop =
  hop_open :: bool
  hop_status :: int
  hop_redirect :: bool

record relay_in =
  rl_image_len :: u32
  rl_sha :: bytes
  rl_http_init :: bool
  rl_hops :: "hop list"
  rl_heap_ok :: bool
  rl_reads :: "bytes option list"
  rl_deadline_pass :: nat
  rl_hello :: bool
  rl_digest :: "bytes \<Rightarrow> bytes"

datatype relay_status = Rs_Started | Rs_Progress nat | Rs_Verifying | Rs_Rebooting | Rs_Done | Rs_Error string

fun http_status :: "nat \<Rightarrow> hop list \<Rightarrow> int \<Rightarrow> int option" where
  "http_status 0 hops status = Some status"
| "http_status (Suc n) [] status = None"
| "http_status (Suc n) (h # hops) status =
     (if \<not> hop_open h then None
      else if hop_status h \<notin> {301, 302, 303, 307, 308} then Some (hop_status h)
      else if \<not> hop_redirect h then None
      else http_status n hops (hop_status h))"

fun send_chunks :: "'f peer_env \<Rightarrow> nat \<Rightarrow> u32 \<Rightarrow> bytes \<Rightarrow> 'f link \<Rightarrow> 'f link \<times> u8" where
  "send_chunks e 0 sent buf l = (l, 0)"
| "send_chunks e (Suc n) sent buf l =
     (if buf = [] then (l, 0)
      else let chunk = take WUPS_FW_XFER_CHUNK buf;
               (l, r) = xfer_send_req e WUPS_OP_NET_FW_XFER_DATA (data_bytes sent chunk) l in
      if r \<noteq> WUPS_FW_XFER_OK then (l, r)
      else send_chunks e n (sent + of_nat (length chunk)) (drop WUPS_FW_XFER_CHUNK buf) l)"

text \<open>
  Passes of the download loop, with the last progress step and the status messages so far; the result
  is the bytes hashed, or the stage that failed.
\<close>

definition progress :: "relay_in \<Rightarrow> nat \<Rightarrow> nat \<times> relay_status list \<Rightarrow> nat \<times> relay_status list" where
  "progress i sent rs =
     (let (last_step_pct, out) = rs; pct = sent * 100 div unat (rl_image_len i) in
      if pct \<ge> last_step_pct + 25 \<and> pct < 100
      then (pct - pct mod 25, out @ [Rs_Progress (pct - pct mod 25)]) else (last_step_pct, out))"

fun relay_loop ::
  "'f peer_env \<Rightarrow> relay_in \<Rightarrow> nat \<Rightarrow> nat \<times> relay_status list \<Rightarrow> bytes option list \<Rightarrow> bytes \<Rightarrow> 'f link \<Rightarrow>
     'f link \<times> relay_status list \<times> (string + bytes)" where
  "relay_loop e i pass rs reads got l =
     (if length got \<ge> unat (rl_image_len i) then (l, snd rs, Inr got)
      else if pass = rl_deadline_pass i then (l, snd rs, Inl ''timeout'')
      else case reads of
        [] \<Rightarrow> (l, snd rs, Inl ''download'')
      | None # _ \<Rightarrow> (l, snd rs, Inl ''download'')
      | Some bs # reads \<Rightarrow>
          let want = min (unat (rl_image_len i) - length got) FW_RELAY_HTTP_BUF; buf = take want bs in
          if buf = [] then (l, snd rs, Inl ''download'')
          else let (l, r) = send_chunks e (length buf) (of_nat (length got)) buf l in
          if r \<noteq> WUPS_FW_XFER_OK then (l, snd rs, Inl ''download'')
          else relay_loop e i (pass + 1) (progress i (length (got @ buf)) rs) reads (got @ buf) l)"

declare relay_loop.simps [simp del]

text \<open>\<open>begun\<close> says whether the receiver's session must be aborted on failure.\<close>

definition relay_fail ::
  "'f peer_env \<Rightarrow> bool \<Rightarrow> string \<Rightarrow> relay_status list \<Rightarrow> 'f link \<Rightarrow> 'f link \<times> relay_status list" where
  "relay_fail e begun stage out l = (if begun then relay_send_abort e l else l, out @ [Rs_Error stage])"

definition relay_task :: "'f peer_env \<Rightarrow> relay_in \<Rightarrow> 'f link \<Rightarrow> 'f link \<times> relay_status list" where
  "relay_task e i l =
     (let out = [Rs_Started];
          (l, r) = xfer_send_req e WUPS_OP_NET_FW_XFER_BEGIN
                     (begin_bytes WUPS_FW_TARGET_RP2040 (rl_image_len i) (rl_sha i)) l in
      if r \<noteq> WUPS_FW_XFER_OK then relay_fail e False ''begin'' out l
      else if \<not> rl_http_init i \<or> http_status 4 (rl_hops i) 0 \<noteq> Some 200 \<or> \<not> rl_heap_ok i
      then relay_fail e True ''download'' out l
      else case relay_loop e i 0 (0, out) (rl_reads i) [] l of
        (l, out, Inl stage) \<Rightarrow> relay_fail e True stage out l
      | (l, out, Inr got) \<Rightarrow>
          if rl_digest i got \<noteq> rl_sha i then relay_fail e True ''verify'' out l
          else let out = out @ [Rs_Verifying];
                   (l, r) = xfer_send_req e WUPS_OP_NET_FW_XFER_END (end_bytes 1) l in
          if r \<noteq> WUPS_FW_XFER_OK then relay_fail e False ''commit'' out l
          else let out = out @ [Rs_Rebooting] in
          if \<not> rl_hello i then relay_fail e False ''hello'' out l
          else (l, out @ [Rs_Done]))"

section \<open>What the receiver has after each request\<close>

definition quiet :: "'f rp_update \<Rightarrow> bool" where
  "quiet s \<longleftrightarrow> \<not> rp_rebooted s \<and> \<not> s_pending s"

definition no_session :: "'f rp_update \<Rightarrow> bool" where
  "no_session s \<longleftrightarrow> \<not> S_open s \<and> quiet s"

lemma staged_quiet: "staged a s n sha img \<Longrightarrow> quiet s \<and> S_open s"
  by (simp add: staged_def quiet_def)

lemma dispatch_quiet:
  assumes "quiet s"
  shows "xfer_dispatch a now junk run_img 0x23 p s = fw_update_handle_begin a now run_img p s"
    and "xfer_dispatch a now junk run_img 0x24 p s = fw_update_handle_data a now p s"
    and "xfer_dispatch a now junk run_img 0x25 p s = (case fw_update_handle_end a now junk run_img p s of
           (t, r, b) \<Rightarrow> (if b then t\<lparr>rp_rebooted := True\<rparr> else t, r))"
  using assms by (simp_all add: xfer_dispatch_def xfer_handle_def fw_update_note_frame_ok_def quiet_def split: prod.split)

text \<open>
  The retry argument, once for all requests: if every attempt from a state in \<open>P\<close> ends in \<open>P\<close> or is
  answered, and answered with OK only in \<open>Q\<close>, then a request from \<open>P\<close> that is answered with OK ends in \<open>Q\<close>.
\<close>

lemma try_keeps:
  assumes "xfer_try e op payload n (s, ats) = ((t, ats'), r)" and "P s"
    and "\<And>s at t r. \<lbrakk>P s; peer_answer e at op payload s = (t, r)\<rbrakk> \<Longrightarrow>
      (if r = Some 0 then Q t else P t)"
  shows "if r = 0 then Q t else P t"
  using assms(1,2)
proof (induction n arbitrary: s ats)
  case 0
  then show ?case by auto
next
  case (Suc n)
  show ?case
  proof (cases ats)
    case Nil
    then show ?thesis using Suc.prems by auto
  next
    case (Cons at ats1)
    obtain u q where a: "peer_answer e at op payload s = (u, q)" by fastforce
    note st = assms(3) [OF Suc.prems(2) a]
    show ?thesis
    proof (cases q)
      case None
      then show ?thesis using Suc.IH [of u ats1] Suc.prems(1) st a Cons by simp
    next
      case (Some r')
      then have "u = t" "r' = r" using Suc.prems(1) a Cons by simp_all
      then show ?thesis using st Some by (simp split: if_splits)
    qed
  qed
qed

text \<open>What an attempt does to a quiet receiver, with the session it may have given up.\<close>

lemma answer_quiet:
  assumes "peer_answer e at op payload s = (t, r)" and "quiet s"
  obtains u where "u = s \<or> no_session u"
    "t = u \<and> r = None \<or> (\<exists>q. xfer_dispatch (peer_fs e) (at_now at) (peer_junk e) (peer_image e) op payload u = (t, q) \<and> (r = None \<or> r = Some q))"
proof -
  define u where "u = (if at_idle_expired at \<and> S_open s then fw_note 1 (session_abort (peer_fs e) s) else s)"
  have eq: "peer_answer e at op payload s =
      (if rp_rebooted u then (u, if at_delivery at = Delivered then Some 1 else None)
       else case at_delivery at of
         Request_Lost \<Rightarrow> (u, None)
       | Response_Lost \<Rightarrow> (fst (xfer_dispatch (peer_fs e) (at_now at) (peer_junk e) (peer_image e) op payload u), None)
       | Delivered \<Rightarrow> (case xfer_dispatch (peer_fs e) (at_now at) (peer_junk e) (peer_image e) op payload u of (s, r) \<Rightarrow> (s, Some r)))"
    by (simp only: peer_answer_def u_def Let_def WUPS_FW_XFER_BAD_REQ_def)
  have u: "u = s \<or> no_session u" "\<not> rp_rebooted u" using assms(2) by (simp_all add: u_def no_session_def quiet_def)
  obtain v q where v: "xfer_dispatch (peer_fs e) (at_now at) (peer_junk e) (peer_image e) op payload u = (v, q)" by fastforce
  have "t = u \<and> r = None \<or> t = v \<and> (r = None \<or> r = Some q)"
    using assms(1) u(2) eq v by (cases "at_delivery at") auto
  then show thesis using that [of u] u(1) v by auto
qed

text \<open>BEGIN, from any quiet receiver.\<close>

lemma send_begin:
  assumes "xfer_send_req e WUPS_OP_NET_FW_XFER_BEGIN (begin_bytes WUPS_FW_TARGET_RP2040 n sha) (s, ats) = ((t, ats'), r)"
    and "quiet s" and law: "fs_appends (peer_fs e)" and sha: "length sha = 32" and "r = 0"
  shows "staged (peer_fs e) t n sha []"
proof -
  note load = load_begin_bytes [OF sha, of 2 n]
  have "if r = 0 then staged (peer_fs e) t n sha [] else quiet t"
  proof (rule try_keeps [where P = quiet, OF assms(1) [unfolded xfer_send_req_def] assms(2)])
    fix s at t r
    assume s: "quiet s" and a: "peer_answer e at WUPS_OP_NET_FW_XFER_BEGIN (begin_bytes WUPS_FW_TARGET_RP2040 n sha) s = (t, r)"
    obtain u where u: "quiet u" and t: "t = u \<and> r = None \<or>
        (\<exists>q. fw_update_handle_begin (peer_fs e) (at_now at) (peer_image e) (begin_bytes 2 n sha) u = (t, q) \<and> (r = None \<or> r = Some q))"
    proof (rule answer_quiet [OF a s])
      fix u
      assume u: "u = s \<or> no_session u" and t: "t = u \<and> r = None \<or> (\<exists>q. xfer_dispatch (peer_fs e) (at_now at) (peer_junk e)
        (peer_image e) WUPS_OP_NET_FW_XFER_BEGIN (begin_bytes WUPS_FW_TARGET_RP2040 n sha) u = (t, q) \<and> (r = None \<or> r = Some q))"
      have "quiet u" using u s by (auto simp: no_session_def)
      then show thesis using that [of u] t by (simp add: dispatch_quiet(1))
    qed
    then show "if r = Some 0 then staged (peer_fs e) t n sha [] else quiet t"
      using begin_staged [OF _ law, of "at_now at" "peer_image e" "begin_bytes 2 n sha" u t] load
      by (auto simp: quiet_def)
  qed
  then show ?thesis using assms(5) by simp
qed

text \<open>DATA: the answer OK means that the chunk was taken once, at its place.\<close>

lemma no_session_data: "no_session u \<Longrightarrow> fw_update_handle_data a now p u = (u, 1)"
  by (simp add: no_session_def fw_update_handle_data_def)

lemma send_data:
  assumes "xfer_send_req e WUPS_OP_NET_FW_XFER_DATA (data_bytes (of_nat (length img)) c) (s, ats) = ((t, ats'), r)"
    and law: "fs_appends (peer_fs e)" and st: "staged (peer_fs e) s n sha img" and c: "c \<noteq> []" and "r = 0"
  shows "staged (peer_fs e) t n sha (img @ c)"
proof -
  define P where "P = (\<lambda>s. staged (peer_fs e) s n sha img \<or> staged (peer_fs e) s n sha (img @ c) \<or> no_session s)"
  have off: "unat (of_nat (length img) :: u32) = length img"
    using st unat_bound [of n] by (auto simp: staged_def unat_of_nat)
  note fields = data_bytes_fields [of "of_nat (length img)" c]
  have "if r = 0 then staged (peer_fs e) t n sha (img @ c) else P t"
  proof (rule try_keeps [where P = P, OF assms(1) [unfolded xfer_send_req_def]])
    show "P s" using st by (simp add: P_def)
  next
    fix s at t r
    assume s: "P s" and a: "peer_answer e at WUPS_OP_NET_FW_XFER_DATA (data_bytes (of_nat (length img)) c) s = (t, r)"
    have "quiet s" using s by (auto simp: P_def no_session_def dest: staged_quiet)
    obtain u where u: "P u" and t: "t = u \<and> r = None \<or>
        (\<exists>q. fw_update_handle_data (peer_fs e) (at_now at) (data_bytes (of_nat (length img)) c) u = (t, q) \<and> (r = None \<or> r = Some q))"
    proof (rule answer_quiet [OF a \<open>quiet s\<close>])
      fix u
      assume u: "u = s \<or> no_session u" and t: "t = u \<and> r = None \<or> (\<exists>q. xfer_dispatch (peer_fs e) (at_now at) (peer_junk e)
        (peer_image e) WUPS_OP_NET_FW_XFER_DATA (data_bytes (of_nat (length img)) c) u = (t, q) \<and> (r = None \<or> r = Some q))"
      have "quiet u" using u \<open>quiet s\<close> by (auto simp: no_session_def)
      moreover have "P u" using u s by (auto simp: P_def)
      ultimately show thesis using that [of u] t by (simp add: dispatch_quiet(2))
    qed
    have handled: "if q = 0 then staged (peer_fs e) t n sha (img @ c) else P t"
      if d: "fw_update_handle_data (peer_fs e) (at_now at) (data_bytes (of_nat (length img)) c) u = (t, q)" for q
      using u [unfolded P_def]
    proof (elim disjE)
      assume "staged (peer_fs e) u n sha img"
      from data_staged [OF d law this] show ?thesis
        by (auto simp: P_def no_session_def quiet_def fields)
    next
      assume "staged (peer_fs e) u n sha (img @ c)"
      from data_staged [OF d law this] show ?thesis
        using off c by (auto simp: P_def no_session_def quiet_def fields)
    next
      assume "no_session u"
      then show ?thesis using d by (auto simp: P_def no_session_data)
    qed
    show "if r = Some 0 then staged (peer_fs e) t n sha (img @ c) else P t"
      using t u handled by (auto simp: P_def split: if_splits)
  qed
  then show ?thesis using assms(5) by simp
qed

lemma send_chunks_staged:
  assumes "send_chunks e k (of_nat (length img)) buf (s, ats) = ((t, ats'), r)" and "length buf \<le> k"
    and "fs_appends (peer_fs e)" and "staged (peer_fs e) s n sha img" and "r = 0"
  shows "staged (peer_fs e) t n sha (img @ buf)"
  using assms
proof (induction k arbitrary: img buf s ats)
  case 0
  then show ?case by simp
next
  case (Suc k)
  show ?case
  proof (cases "buf = []")
    case True
    then show ?thesis using Suc.prems by simp
  next
    case False
    let ?c = "take WUPS_FW_XFER_CHUNK buf" and ?d = "drop WUPS_FW_XFER_CHUNK buf"
    obtain u ats1 q where sent: "xfer_send_req e WUPS_OP_NET_FW_XFER_DATA (data_bytes (of_nat (length img)) ?c) (s, ats) = ((u, ats1), q)"
      by (metis surj_pair)
    have q: "q = 0" and rest: "send_chunks e k (of_nat (length (img @ ?c))) ?d (u, ats1) = ((t, ats'), r)"
      using Suc.prems(1,5) False sent by (auto split: if_splits)
    have "?c \<noteq> []" using False by simp
    then have "staged (peer_fs e) u n sha (img @ ?c)"
      using send_data [OF sent Suc.prems(3,4)] q by simp
    then have "staged (peer_fs e) t n sha ((img @ ?c) @ ?d)"
      using Suc.IH [OF rest _ Suc.prems(3)] Suc.prems(2,5) False by (cases buf) auto
    then show ?thesis by (simp only: append_assoc append_take_drop_id)
  qed
qed

lemma relay_loop_staged:
  assumes "relay_loop e i k rs reads got (s, ats) = ((t, ats'), out, Inr img)"
    and "fs_appends (peer_fs e)" and "staged (peer_fs e) s (rl_image_len i) sha got"
  shows "staged (peer_fs e) t (rl_image_len i) sha img \<and> length img = unat (rl_image_len i)"
  using assms
proof (induction reads arbitrary: k rs got s ats)
  case Nil
  then show ?case by (auto simp: relay_loop.simps [of e i k rs "[]"] staged_def split: if_splits)
next
  case (Cons rd reads)
  show ?case
  proof (cases "length got \<ge> unat (rl_image_len i)")
    case True
    then show ?thesis using Cons.prems by (auto simp: relay_loop.simps [of e i k rs "rd # reads"] staged_def)
  next
    case False
    then obtain bs where rd: "rd = Some bs"
      using Cons.prems(1) by (cases rd) (auto simp: relay_loop.simps [of e i k rs "None # reads"] split: if_splits)
    define buf where "buf = take (min (unat (rl_image_len i) - length got) FW_RELAY_HTTP_BUF) bs"
    obtain u ats1 q where sent: "send_chunks e (length buf) (of_nat (length got)) buf (s, ats) = ((u, ats1), q)"
      by (metis surj_pair)
    have "relay_loop e i k rs (Some bs # reads) got (s, ats) =
       (if k = rl_deadline_pass i \<or> buf = []
        then ((s, ats), snd rs, Inl (if k = rl_deadline_pass i then ''timeout'' else ''download''))
        else if q \<noteq> 0 then ((u, ats1), snd rs, Inl ''download'')
        else relay_loop e i (k + 1) (progress i (length (got @ buf)) rs) reads (got @ buf) (u, ats1))"
      using False by (simp only: relay_loop.simps [of e i k rs "Some bs # reads"] list.case option.case Let_def
        buf_def [symmetric] sent prod.case WUPS_FW_XFER_OK_def if_False) simp
    then have q: "q = 0" and rest: "relay_loop e i (k + 1) (progress i (length (got @ buf)) rs) reads (got @ buf) (u, ats1) = ((t, ats'), out, Inr img)"
      using Cons.prems(1) rd by (simp_all split: if_splits)
    show ?thesis
      by (rule Cons.IH [OF rest Cons.prems(2) send_chunks_staged [OF sent order_refl Cons.prems(2,3) q]])
  qed
qed

text \<open>END: the answer OK comes only from the commit that restarts the receiver.\<close>

lemma no_session_end: "no_session u \<Longrightarrow> fw_update_handle_end a now junk run_img p u = (u, 1, False)"
  by (simp add: no_session_def fw_update_handle_end_def)

lemma answer_rebooted:
  assumes "peer_answer e at op payload s = (t, r)" and "rp_rebooted s"
  shows "rp_rebooted t \<and> r \<noteq> Some 0"
  using assms by (auto simp: peer_answer_def Let_def split: if_splits)

lemma send_end:
  assumes "xfer_send_req e WUPS_OP_NET_FW_XFER_END (end_bytes 1) (s, ats) = ((t, ats'), r)"
    and law: "fs_appends (peer_fs (e :: 'f peer_env))" and junk: "length (peer_junk e) = 64"
    and st: "staged (peer_fs e) s n sha img" and "r = 0"
  shows "rp_rebooted t \<and> committed (peer_fs e) n sha img (fs t)"
proof -
  define P where "P = (\<lambda>s. staged (peer_fs e) s n sha img \<or> no_session s \<or> rp_rebooted s)"
  define Q where "Q = (\<lambda>t :: 'f rp_update. rp_rebooted t \<and> committed (peer_fs e) n sha img (fs t))"
  have "if r = 0 then Q t else P t"
  proof (rule try_keeps [where P = P, OF assms(1) [unfolded xfer_send_req_def]])
    show "P s" using st by (simp add: P_def)
  next
    fix s at t r
    assume s: "P s" and a: "peer_answer e at WUPS_OP_NET_FW_XFER_END (end_bytes 1) s = (t, r)"
    show "if r = Some 0 then Q t else P t"
    proof (cases "rp_rebooted s")
      case True
      then show ?thesis using answer_rebooted [OF a] by (simp add: P_def)
    next
      case False
      then have "quiet s" using s by (auto simp: P_def no_session_def dest: staged_quiet)
      obtain u where u: "staged (peer_fs e) u n sha img \<or> no_session u" and t: "t = u \<and> r = None \<or>
          (\<exists>v q b. fw_update_handle_end (peer_fs e) (at_now at) (peer_junk e) (peer_image e) (end_bytes 1) u = (v, q, b) \<and>
             t = (if b then v\<lparr>rp_rebooted := True\<rparr> else v) \<and> (r = None \<or> r = Some q))"
      proof (rule answer_quiet [OF a \<open>quiet s\<close>])
        fix u
        assume u: "u = s \<or> no_session u" and t: "t = u \<and> r = None \<or> (\<exists>q. xfer_dispatch (peer_fs e) (at_now at) (peer_junk e)
          (peer_image e) WUPS_OP_NET_FW_XFER_END (end_bytes 1) u = (t, q) \<and> (r = None \<or> r = Some q))"
        have "quiet u" using u \<open>quiet s\<close> by (auto simp: no_session_def)
        moreover have "staged (peer_fs e) u n sha img \<or> no_session u" using u s False by (auto simp: P_def)
        ultimately show thesis using that [of u] t by (auto simp: dispatch_quiet(3) split: prod.splits)
      qed
      have handled: "if q = 0 then Q t else P t"
        if d: "fw_update_handle_end (peer_fs e) (at_now at) (peer_junk e) (peer_image e) (end_bytes 1) u = (v, q, b)"
          and t: "t = (if b then v\<lparr>rp_rebooted := True\<rparr> else v)" for v q b
        using u
      proof
        assume su: "staged (peer_fs e) u n sha img"
        show ?thesis
        proof (cases b)
          case True
          then show ?thesis using end_staged [OF _ law su junk] d t by (auto simp: Q_def)
        next
          case False
          then have "fw_update_handle_end (peer_fs e) (at_now at) (peer_junk e) (peer_image e) (end_bytes 1) u = (v, q, False)"
            using d by simp
          from end_refused [OF this su] show ?thesis using t False by (auto simp: P_def no_session_def quiet_def load_end_bytes)
        qed
      next
        assume "no_session u"
        then show ?thesis using d t by (auto simp: P_def no_session_end)
      qed
      show ?thesis
        using t
      proof (elim disjE exE conjE)
        assume "t = u" and "r = None"
        then show ?thesis using u by (auto simp: P_def)
      next
        fix v q b
        assume "fw_update_handle_end (peer_fs e) (at_now at) (peer_junk e) (peer_image e) (end_bytes 1) u = (v, q, b)"
          and "t = (if b then v\<lparr>rp_rebooted := True\<rparr> else v)"
        from handled [OF this] have h: "if q = 0 then Q t else P t" .
        assume "r = None"
        then show ?thesis using h by (cases "q = 0") (simp_all add: P_def Q_def)
      next
        fix v q b
        assume "fw_update_handle_end (peer_fs e) (at_now at) (peer_junk e) (peer_image e) (end_bytes 1) u = (v, q, b)"
          and "t = (if b then v\<lparr>rp_rebooted := True\<rparr> else v)"
        from handled [OF this] have h: "if q = 0 then Q t else P t" .
        assume "r = Some q"
        then show ?thesis using h by simp
      qed
    qed
  qed
  then show ?thesis using assms(5) by (simp add: Q_def)
qed

text \<open>
  C3. An update of the RP2040 that the relay reports as done was committed exactly: over a link that
  may lose any request or answer, and against a receiver that may give the session up at any time, the
  staged file was armed with an image of the announced length, whose digest both sides have found to
  be the announced one, whose vectors point into it, and the receiver has restarted.
\<close>

theorem relay_exact:
  assumes "relay_task e i (s, ats) = ((t, ats'), out)" and fin: "last out = Rs_Done"
    and "fs_appends (peer_fs e)" and "length (peer_junk e) = 64"
    and "length (rl_sha i) = 32" and "quiet s"
  shows "\<exists>img. rl_digest i img = rl_sha i \<and> committed (peer_fs e) (rl_image_len i) (rl_sha i) img (fs t) \<and> rp_rebooted t"
proof -
  obtain u1 a1 r1 where b: "xfer_send_req e WUPS_OP_NET_FW_XFER_BEGIN
      (begin_bytes WUPS_FW_TARGET_RP2040 (rl_image_len i) (rl_sha i)) (s, ats) = ((u1, a1), r1)" by (metis surj_pair)
  obtain u2 a2 o2 x where l: "relay_loop e i 0 (0, [Rs_Started]) (rl_reads i) [] (u1, a1) = ((u2, a2), o2, x)" by (metis surj_pair)
  obtain u3 a3 r3 where c: "xfer_send_req e WUPS_OP_NET_FW_XFER_END (end_bytes 1) (u2, a2) = ((u3, a3), r3)"
    by (metis surj_pair)
  have r1: "r1 = 0" using assms(1) fin b by (auto simp: relay_task_def relay_fail_def Let_def split: if_splits)
  then obtain img where x: "x = Inr img" and digest: "rl_digest i img = rl_sha i"
    using assms(1) fin b l by (auto simp: relay_task_def relay_fail_def Let_def split: if_splits sum.splits)
  have "r3 = 0" and t: "t = u3" using assms(1) fin b l c r1 x by (auto simp: relay_task_def relay_fail_def Let_def split: if_splits)
  have "staged (peer_fs e) u1 (rl_image_len i) (rl_sha i) []" by (rule send_begin [OF b assms(6,3,5) r1])
  then have "staged (peer_fs e) u2 (rl_image_len i) (rl_sha i) img"
    using relay_loop_staged [OF l [unfolded x] assms(3)] by simp
  from send_end [OF c assms(3,4) this \<open>r3 = 0\<close>] digest t show ?thesis by blast
qed

section \<open>A relay over a working link\<close>

text \<open>A link that delivers, and a receiver whose flash works and has room.\<close>

definition link_up :: "attempt list \<Rightarrow> bool" where
  "link_up ats \<longleftrightarrow> (\<forall>at\<in>set ats. \<not> at_idle_expired at \<and> at_delivery at = Delivered)"

definition fs_works :: "'f lfs \<Rightarrow> nat \<Rightarrow> bool" where
  "fs_works a room \<longleftrightarrow> (\<forall>f p. snd (lfs_create a f p)) \<and> (\<forall>f p bs. snd (lfs_write a f p bs) = length bs) \<and>
     (\<forall>f p. snd (ota_addFile a f p)) \<and> (\<forall>f. snd (ota_commit a f)) \<and> (\<forall>f. room \<le> lfs_free a f)"

lemma send_up:
  assumes "link_up ats" and "ats \<noteq> []" and "quiet s"
    and "\<And>now. xfer_dispatch (peer_fs e) now (peer_junk e) (peer_image e) op p s = (t now, r)"
  shows "xfer_send_req e op p (s, ats) = ((t (at_now (hd ats)), tl ats), r)"
proof -
  obtain at rest where ats: "ats = at # rest" using assms(2) by (cases ats) auto
  have "xfer_try e op p (Suc 1) (s, at # rest) = ((t (at_now at), rest), r)"
    using assms(1,3,4) by (simp add: ats link_up_def peer_answer_def quiet_def)
  then show ?thesis by (simp add: ats xfer_send_req_def numeral_2_eq_2)
qed

lemma flush_works:
  assumes "fs_works a room" and "flush_stage_buf a s = (t, ok)"
  shows ok
proof -
  obtain f m where w: "lfs_write a (fs s) kStageFile (S_buf s) = (f, m)" by fastforce
  have "snd (lfs_write a (fs s) kStageFile (S_buf s)) = length (S_buf s)" using assms(1) by (simp add: fs_works_def)
  then show ?thesis using assms(2) w by (auto simp: flush_stage_buf_def split: if_splits)
qed

lemma stage_loop_works:
  "\<lbrakk>fs_works a room; stage_loop a k p s = (t, ok)\<rbrakk> \<Longrightarrow> ok"
proof (induction k arbitrary: p s)
  case (Suc k)
  then show ?case by (auto simp: Let_def split: if_splits prod.splits bool.splits dest: flush_works)
qed simp

lemma begin_works:
  assumes "fs_works a (unat n + length run_img + 32768)" and "s_fs_ok s" and "length sha = 32"
    and "0x4000 \<le> n" and "n \<le> 655360"
  shows "snd (fw_update_handle_begin a now run_img (begin_bytes 2 n sha) s) = 0"
proof -
  let ?u = "session_abort a s"
  obtain f ok where c: "lfs_create a (fs ?u) kStageFile = (f, ok)" by fastforce
  have "snd (lfs_create a (fs ?u) kStageFile)" and "unat n + length run_img + 32768 \<le> lfs_free a (fs ?u)"
    using assms(1) by (simp_all add: fs_works_def)
  then show ?thesis
    using c assms(2-5) load_begin_bytes [OF assms(3), of 2 n] by (simp add: fw_update_handle_begin_def Let_def not_less)
qed

lemma data_works:
  assumes "fs_works a room" and st: "staged a s n sha img" and c: "c \<noteq> []" "length c \<le> 236"
    and fits: "length img + length c \<le> unat n"
  shows "snd (fw_update_handle_data a now (data_bytes (of_nat (length img)) c) s) = 0"
proof -
  obtain v ok where run: "stage_loop a (length c) c (s\<lparr>S_last_req_ms := now\<rparr>) = (v, ok)" by fastforce
  have ok using stage_loop_works [OF assms(1) run] .
  moreover have len: "unat (S_received s) = length img" using st by (simp add: staged_def)
  moreover have "of_nat (length img) = S_received s" unfolding len [symmetric] by simp
  moreover have "S_open s" "S_image_len s = n" using st by (simp_all add: staged_def)
  ultimately show ?thesis
    using run c fits data_bytes_fields [of "of_nat (length img)" c] by (cases c) (simp_all add: fw_update_handle_data_def Let_def)
qed

lemma end_works:
  assumes works: "fs_works a room" and law: "fs_appends a" and st: "staged a s n (sha256 img) img"
    and full: "length img = unat n" and sane: "sane_vectors n img" and junk: "length junk = 64"
  shows "\<exists>t. fw_update_handle_end a now junk run_img (end_bytes 1) s = (t, 0, True)"
proof -
  obtain u ok where fl: "flush_stage_buf a (s\<lparr>S_last_req_ms := now\<rparr>) = (u, ok)" by fastforce
  have ok using flush_works [OF works fl] .
  obtain c where c: "lfs_read a (fs s) kStageFile = Some c" "c @ S_buf s = img" using st by (auto simp: staged_def)
  have read: "lfs_read a (fs u) kStageFile = Some img" using flush_ok(2) [OF fl \<open>ok\<close> law, of c] c by simp
  have same: "same_session s u" using flush_ok(1) [OF fl] by (simp add: same_session_def)
  have "concat (slices STAGE_BUF img) = img" by (rule slices_concat) simp
  then have sha: "verify_stage_sha a junk (u\<lparr>S_open := False\<rparr>)"
    using read same st stream_digest [OF junk, of "slices STAGE_BUF img"]
    by (simp add: verify_stage_sha_def same_session_def staged_def)
  have vec: "sanity_check_image a (u\<lparr>S_open := False\<rparr>)"
    using read sane same st by (simp add: sanity_check_image_def same_session_def staged_def)
  define v where "v = take_snapshot a run_img (u\<lparr>S_open := False\<rparr>)"
  obtain f b where add: "ota_addFile a (ota_begin a (fs v)) kStageFile = (f, b)" by fastforce
  obtain g b' where com: "ota_commit a f = (g, b')" by fastforce
  have "snd (ota_addFile a (ota_begin a (fs v)) kStageFile)" "snd (ota_commit a f)" using works by (simp_all add: fs_works_def)
  then have b: b b' using add com by simp_all
  have "S_received s = S_image_len s" "S_open s"
    using st full by (auto simp: staged_def intro: word_unat_eq_iff [THEN iffD2])
  then have "fw_update_handle_end a now junk run_img (end_bytes 1) s = (fw_note 2 (v\<lparr>fs := f, fs := g\<rparr>), 0, True)"
    using fl \<open>ok\<close> sha vec b by (simp add: fw_update_handle_end_def load_end_bytes Let_def v_def [symmetric] add com)
  then show ?thesis by blast
qed

lemma up_data:
  assumes "link_up ats" and "ats \<noteq> []" and "fs_works (peer_fs e) room" and "fs_appends (peer_fs e)"
    and st: "staged (peer_fs e) s n sha img" and c: "c \<noteq> []" "length c \<le> 236" and fits: "length img + length c \<le> unat n"
  shows "\<exists>t. xfer_send_req e WUPS_OP_NET_FW_XFER_DATA (data_bytes (of_nat (length img)) c) (s, ats) = ((t, tl ats), 0) \<and>
    staged (peer_fs e) t n sha (img @ c)"
proof -
  define t where "t = (\<lambda>now. fst (fw_update_handle_data (peer_fs e) now (data_bytes (of_nat (length img)) c) s))"
  have d: "fw_update_handle_data (peer_fs e) now (data_bytes (of_nat (length img)) c) s = (t now, 0)" for now
    using data_works [OF assms(3) st c fits, of now] by (simp add: t_def prod_eq_iff)
  have q: "quiet s" using staged_quiet [OF st] by simp
  have x: "xfer_send_req e WUPS_OP_NET_FW_XFER_DATA (data_bytes (of_nat (length img)) c) (s, ats) = ((t (at_now (hd ats)), tl ats), 0)"
    by (rule send_up [OF assms(1,2) q]) (simp add: dispatch_quiet(2) [OF q] d)
  show ?thesis using x send_data [OF x assms(4) st c(1) refl] by blast
qed

lemma up_chunks:
  assumes "fs_works (peer_fs e) room" and "fs_appends (peer_fs e)"
  shows "\<lbrakk>link_up ats; length buf \<le> k; length buf \<le> length ats; staged (peer_fs e) s n sha img; length img + length buf \<le> unat n\<rbrakk> \<Longrightarrow>
    \<exists>t ats'. send_chunks e k (of_nat (length img)) buf (s, ats) = ((t, ats'), 0) \<and> staged (peer_fs e) t n sha (img @ buf) \<and>
      link_up ats' \<and> length ats \<le> length ats' + length buf"
proof (induction k arbitrary: ats buf s img)
  case (Suc k)
  show ?case
  proof (cases "buf = []")
    case True
    then show ?thesis using Suc.prems by simp
  next
    case False
    let ?c = "take 236 buf" and ?d = "drop 236 buf"
    have "ats \<noteq> []" "?c \<noteq> []" "length ?c \<le> 236" "length img + length ?c \<le> unat n" using Suc.prems False by auto
    from up_data [OF Suc.prems(1) this(1) assms Suc.prems(4) this(2-4)]
    obtain t where x: "xfer_send_req e WUPS_OP_NET_FW_XFER_DATA (data_bytes (of_nat (length img)) ?c) (s, ats) = ((t, tl ats), 0)"
      and t: "staged (peer_fs e) t n sha (img @ ?c)" by blast
    have tl: "link_up (tl ats)" "length ?d \<le> k" "length ?d \<le> length (tl ats)" "length (img @ ?c) + length ?d \<le> unat n"
      using Suc.prems False by (cases ats; cases buf; simp add: link_up_def)+
    from Suc.IH [OF tl(1-3) t tl(4)] obtain v ats' where
      rest: "send_chunks e k (of_nat (length (img @ ?c))) ?d (t, tl ats) = ((v, ats'), 0)"
      and v: "staged (peer_fs e) v n sha ((img @ ?c) @ ?d)" "link_up ats'" "length (tl ats) \<le> length ats' + length ?d" by blast
    have "send_chunks e (Suc k) (of_nat (length img)) buf (s, ats) = ((v, ats'), 0)"
      using x rest False by simp
    moreover have "length ats \<le> length ats' + length buf" using v(3) False by (cases ats; cases buf) auto
    moreover have "(img @ ?c) @ ?d = img @ buf" by simp
    ultimately show ?thesis using v(1,2) by metis
  qed
qed simp

lemma up_loop:
  assumes works: "fs_works (peer_fs e) room" "fs_appends (peer_fs e)" and n: "n = rl_image_len i"
  shows "\<lbrakk>link_up ats; length (concat ps) \<le> length ats; staged (peer_fs e) s n sha got;
      length got + length (concat ps) = unat n; \<forall>p\<in>set ps. p \<noteq> [] \<and> length p \<le> 2048; k + length ps \<le> rl_deadline_pass i\<rbrakk> \<Longrightarrow>
    \<exists>t ats' out. relay_loop e i k rs (map Some ps) got (s, ats) = ((t, ats'), out, Inr (got @ concat ps)) \<and>
      staged (peer_fs e) t n sha (got @ concat ps) \<and> link_up ats' \<and> length ats \<le> length ats' + length (concat ps)"
proof (induction ps arbitrary: k rs ats s got)
  case Nil
  then show ?case using n by (simp add: relay_loop.simps [of e i k rs "[]"])
next
  case (Cons p ps)
  have p: "p \<noteq> []" "length p \<le> 2048" using Cons.prems(5) by simp_all
  have want: "take (min (unat (rl_image_len i) - length got) FW_RELAY_HTTP_BUF) p = p"
    using Cons.prems(4) p(2) n by simp
  obtain t ats1 where sent: "send_chunks e (length p) (of_nat (length got)) p (s, ats) = ((t, ats1), 0)"
    and t: "staged (peer_fs e) t n sha (got @ p)" and up: "link_up ats1" "length ats \<le> length ats1 + length p"
  proof -
    have "length p \<le> length ats" "length got + length p \<le> unat n" using Cons.prems(2,4) by simp_all
    from up_chunks [OF works Cons.prems(1) order_refl this(1) Cons.prems(3) this(2)] show thesis using that by blast
  qed
  have "length (concat ps) \<le> length ats1" "length (got @ p) + length (concat ps) = unat n"
    "\<forall>p\<in>set ps. p \<noteq> [] \<and> length p \<le> 2048" "k + 1 + length ps \<le> rl_deadline_pass i"
    using Cons.prems up(2) by simp_all
  from Cons.IH [OF up(1) this(1) t this(2-4)] obtain v ats' out where
    rest: "relay_loop e i (k + 1) (progress i (length (got @ p)) rs) (map Some ps) (got @ p) (t, ats1) = ((v, ats'), out, Inr ((got @ p) @ concat ps))"
    and v: "staged (peer_fs e) v n sha ((got @ p) @ concat ps)" "link_up ats'" "length ats1 \<le> length ats' + length (concat ps)"
    by blast
  have "\<not> length got \<ge> unat (rl_image_len i)" "k \<noteq> rl_deadline_pass i"
    using Cons.prems(4,6) p(1) n by (cases p; simp)+
  then have "relay_loop e i k rs (map Some (p # ps)) got (s, ats) = ((v, ats'), out, Inr ((got @ p) @ concat ps))"
    using rest p(1) by (simp only: relay_loop.simps [of e i k rs "Some p # map Some ps"] list.map list.case option.case Let_def want sent
      prod.case WUPS_FW_XFER_OK_def if_False simp_thms)
  then show ?case using v up(2) by simp
qed

text \<open>
  When the answer to END is lost, the receiver has committed and restarts, while the relay, whose
  retry no session can answer with OK, reports a failed commit.
\<close>

lemma end_answer_lost:
  assumes works: "fs_works (peer_fs e) room" "fs_appends (peer_fs e)" and st: "staged (peer_fs e) s n (sha256 img) img"
    and "length img = unat n" and "sane_vectors n img" and "length (peer_junk e) = 64"
    and lost: "at_delivery at1 = Response_Lost" "\<not> at_idle_expired at1"
  shows "\<exists>t r. xfer_send_req e WUPS_OP_NET_FW_XFER_END (end_bytes 1) (s, [at1, at2]) = ((t, []), r) \<and> r \<noteq> WUPS_FW_XFER_OK \<and>
    rp_rebooted t"
proof -
  have q: "quiet s" using staged_quiet [OF st] by simp
  obtain v where v: "fw_update_handle_end (peer_fs e) (at_now at1) (peer_junk e) (peer_image e) (end_bytes 1) s = (v, 0, True)"
    using end_works [OF works st assms(4-6)] by blast
  obtain t r where a: "peer_answer e at2 WUPS_OP_NET_FW_XFER_END (end_bytes 1) (v\<lparr>rp_rebooted := True\<rparr>) = (t, r)" by fastforce
  have t: "rp_rebooted t" "r \<noteq> Some 0" using answer_rebooted [OF a] by simp_all
  have "xfer_try e WUPS_OP_NET_FW_XFER_END (end_bytes 1) (Suc (Suc 0)) (s, [at1, at2]) = ((t, []), case r of None \<Rightarrow> 0xFF | Some q \<Rightarrow> q)"
    using q v lost a by (simp add: peer_answer_def quiet_def fw_update_note_frame_ok_def xfer_dispatch_def xfer_handle_def split: option.split)
  moreover have "(case r of None \<Rightarrow> 0xFF | Some q \<Rightarrow> q) \<noteq> (0::u8)" using t by (cases r) auto
  ultimately show ?thesis using t(1) unfolding xfer_send_req_def numeral_2_eq_2 WUPS_FW_XFER_OK_def by blast
qed

text \<open>An image of admissible size with vectors of its own and the announced digest, downloaded in pieces.\<close>

definition good_download :: "relay_in \<Rightarrow> bytes list \<Rightarrow> bool" where
  "good_download i ps \<longleftrightarrow> 0x4000 \<le> rl_image_len i \<and> rl_image_len i \<le> 655360 \<and> unat (rl_image_len i) = length (concat ps) \<and>
     rl_reads i = map Some ps \<and> (\<forall>p\<in>set ps. p \<noteq> [] \<and> length p \<le> 2048) \<and> length ps \<le> rl_deadline_pass i \<and>
     sane_vectors (rl_image_len i) (concat ps) \<and> rl_sha i = sha256 (concat ps) \<and> rl_digest i = sha256 \<and>
     rl_http_init i \<and> http_status 4 (rl_hops i) 0 = Some 200 \<and> rl_heap_ok i \<and> rl_hello i"

definition peer_ready :: "'f peer_env \<Rightarrow> nat \<Rightarrow> 'f rp_update \<Rightarrow> bool" where
  "peer_ready e n s \<longleftrightarrow> fs_works (peer_fs e) (n + length (peer_image e) + 32768) \<and> fs_appends (peer_fs e) \<and>
     length (peer_junk e) = 64 \<and> quiet s \<and> s_fs_ok s"

lemma relay_runs:
  assumes "link_up ats" and "2 + length (concat ps) \<le> length ats"
    and "peer_ready e (length (concat ps)) s" and "good_download i ps"
  shows "\<exists>t ats' out. relay_task e i (s, ats) = ((t, ats'), out) \<and> last out = Rs_Done"
proof -
  let ?a = "peer_fs e" and ?n = "rl_image_len i" and ?img = "concat ps"
  let ?b = "begin_bytes WUPS_FW_TARGET_RP2040 ?n (rl_sha i)"
  have works: "fs_works ?a (length ?img + length (peer_image e) + 32768)" and law: "fs_appends ?a"
    and junk: "length (peer_junk e) = 64" and s: "quiet s" and ok: "s_fs_ok s"
    using assms(3) by (simp_all add: peer_ready_def)
  have n: "0x4000 \<le> ?n" "?n \<le> 655360" "unat ?n = length ?img" and reads: "rl_reads i = map Some ps"
    and ps: "\<forall>p\<in>set ps. p \<noteq> [] \<and> length p \<le> 2048" and cap: "length ps \<le> rl_deadline_pass i"
    and sane: "sane_vectors ?n ?img" and digest: "rl_sha i = sha256 ?img" "rl_digest i = sha256"
    and rest: "rl_http_init i" "http_status 4 (rl_hops i) 0 = Some 200" "rl_heap_ok i" "rl_hello i"
    using assms(4) by (simp_all add: good_download_def)
  have sha: "length (rl_sha i) = 32" using digest by (simp add: sha256_length)
  define t where "t = (\<lambda>now. fst (fw_update_handle_begin ?a now (peer_image e) ?b s))"
  have d: "fw_update_handle_begin ?a now (peer_image e) ?b s = (t now, 0)" for now
    using begin_works [of ?a ?n "peer_image e" s "rl_sha i" now] works ok n sha by (simp add: t_def prod_eq_iff)
  have ats: "ats \<noteq> []" using assms(2) by auto
  define u where "u = t (at_now (hd ats))"
  have b: "xfer_send_req e WUPS_OP_NET_FW_XFER_BEGIN ?b (s, ats) = ((u, tl ats), 0)"
    unfolding u_def by (rule send_up [OF assms(1) ats s]) (simp add: dispatch_quiet(1) [OF s] d [simplified])
  have st: "staged ?a u ?n (rl_sha i) []" by (rule send_begin [OF b s law sha refl])
  have "link_up (tl ats)" "length ?img \<le> length (tl ats)" "length ([] :: bytes) + length ?img = unat ?n" "0 + length ps \<le> rl_deadline_pass i"
    using assms(1,2) n cap by (cases ats; simp add: link_up_def)+
  from up_loop [OF works law refl this(1,2) st this(3) ps this(4), of "(0, [Rs_Started])"] obtain v ats1 out where
    l: "relay_loop e i 0 (0, [Rs_Started]) (rl_reads i) [] (u, tl ats) = ((v, ats1), out, Inr ?img)" and v: "staged ?a v ?n (sha256 ?img) ?img"
    and up: "link_up ats1" "length (tl ats) \<le> length ats1 + length ?img" using reads digest by auto
  have ats1: "ats1 \<noteq> []" using up(2) assms(2) by (cases ats) auto
  have q: "quiet v" using staged_quiet [OF v] by simp
  define w where "w = (\<lambda>now. fst (fw_update_handle_end ?a now (peer_junk e) (peer_image e) (end_bytes 1) v))"
  have e: "fw_update_handle_end ?a now (peer_junk e) (peer_image e) (end_bytes 1) v = (w now, 0, True)" for now
    using end_works [OF works law v _ sane junk, of now "peer_image e"] n by (auto simp: w_def)
  have c: "xfer_send_req e WUPS_OP_NET_FW_XFER_END (end_bytes 1) (v, ats1) = (((w (at_now (hd ats1)))\<lparr>rp_rebooted := True\<rparr>, tl ats1), 0)"
    by (rule send_up [OF up(1) ats1 q]) (simp add: dispatch_quiet(3) [OF q] e)
  show ?thesis using b l c digest rest by (simp add: relay_task_def)
qed


section \<open>A relay at work\<close>

lemma ram_lfs_works: "fs_works ram_lfs 1000000"
  by (simp add: ram_lfs_def fs_works_def)

definition sample_peer_env :: "(string \<Rightarrow> bytes option) peer_env" where
  "sample_peer_env = \<lparr>peer_fs = ram_lfs, peer_image = [1, 2, 3], peer_junk = replicate 64 7\<rparr>"

definition sample_peer :: "(string \<Rightarrow> bytes option) rp_update" where
  "sample_peer = \<lparr>s_fs_ok = True, S_open = False, S_image_len = 0, S_received = 0, S_sha = [], S_last_req_ms = 0, S_buf = [],
     s_pending = False, s_pending_boot_ms = 0, fs = (\<lambda>p. None), fw_logged = [], rp_rebooted = False\<rparr>"

definition sample_pieces :: "bytes list" where
  "sample_pieces = replicate 6 (replicate 2048 0) @ [[0, 0x20, 0, 0x20, 1, 0x31, 0, 0x10] @ replicate 2040 0, replicate 2048 0]"

definition sample_relay :: relay_in where
  "sample_relay = \<lparr>rl_image_len = 0x4000, rl_sha = sha256 (concat sample_pieces), rl_http_init = True,
     rl_hops = [\<lparr>hop_open = True, hop_status = 302, hop_redirect = True\<rparr>, \<lparr>hop_open = True, hop_status = 200, hop_redirect = True\<rparr>], rl_heap_ok = True,
     rl_reads = map Some sample_pieces, rl_deadline_pass = 8, rl_hello = True, rl_digest = sha256\<rparr>"

definition sample_attempts :: "attempt list" where
  "sample_attempts = replicate 20000 \<lparr>at_idle_expired = False, at_now = 0, at_delivery = Delivered\<rparr>"

lemma vectors_at:
  "length pre = 0x3000 \<Longrightarrow> sane_vectors 0x4000 (pre @ [0, 0x20, 0, 0x20, 1, 0x31, 0, 0x10] @ post)"
  by (simp add: sane_vectors_def rd_u32le_def)

lemma sample_ready:
  "link_up sample_attempts" "2 + length (concat sample_pieces) \<le> length sample_attempts"
  "peer_ready sample_peer_env (length (concat sample_pieces)) sample_peer" "good_download sample_relay sample_pieces"
proof -
  have len: "length (concat sample_pieces) = 0x4000" by (simp add: sample_pieces_def length_concat sum_list_replicate)
  show "link_up sample_attempts" by (simp add: sample_attempts_def link_up_def)
  show "2 + length (concat sample_pieces) \<le> length sample_attempts" by (simp add: len sample_attempts_def)
  have "fs_works ram_lfs (0x4000 + 3 + 32768)" using ram_lfs_works by (auto simp: fs_works_def ram_lfs_def)
  then show "peer_ready sample_peer_env (length (concat sample_pieces)) sample_peer"
    using ram_lfs_laws(1) by (simp add: len peer_ready_def sample_peer_env_def sample_peer_def quiet_def)
  have "concat sample_pieces = concat (replicate 6 (replicate 2048 0)) @ [0, 0x20, 0, 0x20, 1, 0x31, 0, 0x10] @
      replicate 2040 0 @ replicate 2048 0" by (simp only: sample_pieces_def concat_append concat.simps append_assoc append_Nil2)
  moreover have "length (concat (replicate 6 (replicate 2048 (0::u8)))) = 0x3000" by (simp add: length_concat sum_list_replicate)
  ultimately have "sane_vectors 0x4000 (concat sample_pieces)" by (simp only: vectors_at)
  moreover have "\<forall>p\<in>set sample_pieces. p \<noteq> [] \<and> length p \<le> 2048" "length sample_pieces = 8" by (auto simp: sample_pieces_def)
  moreover have "http_status 4 (rl_hops sample_relay) 0 = Some 200" by (simp add: sample_relay_def numeral_eq_Suc)
  ultimately show "good_download sample_relay sample_pieces" by (simp add: good_download_def sample_relay_def len)
qed


theorem relay_exact_witness:
  "\<exists>t ats' out img. relay_task sample_peer_env sample_relay (sample_peer, sample_attempts) = ((t, ats'), out) \<and> last out = Rs_Done \<and>
     committed ram_lfs 0x4000 (sha256 (concat sample_pieces)) img (fs t) \<and> rp_rebooted t"
proof -
  obtain t ats' out where run: "relay_task sample_peer_env sample_relay (sample_peer, sample_attempts) = ((t, ats'), out)" "last out = Rs_Done"
    using relay_runs [OF sample_ready] by blast
  have "fs_appends (peer_fs sample_peer_env)" "length (peer_junk sample_peer_env) = 64" "length (rl_sha sample_relay) = 32" "quiet sample_peer"
    using ram_lfs_laws(1) by (simp_all add: sample_peer_env_def sample_relay_def sample_peer_def quiet_def sha256_length)
  from relay_exact [OF run this] run show ?thesis by (auto simp: sample_peer_env_def sample_relay_def)
qed

end
