(* ===== verification/Rp_Router.thy ===== *)
theory Rp_Router
  imports Wire_Deframer
begin

text \<open>
  The hub of the star: \<open>wups_router.cpp\<close> of the RP2040, with one receive machine per port, the
  routing rules and the frame writer.  A port is a stream that may be missing; what is written to it is
  kept as the list of bytes.  The application's handler of local frames is a parameter of the routing
  functions, and its state an extension of the router's record.
\<close>

section \<open>Ports\<close>

definition WUPS_PORT_NONE :: nat where [simp]: "WUPS_PORT_NONE = 0"
definition WUPS_PORT_RPI :: nat where [simp]: "WUPS_PORT_RPI = 1"
definition WUPS_PORT_CH32X :: nat where [simp]: "WUPS_PORT_CH32X = 2"
definition WUPS_PORT_ESP32 :: nat where [simp]: "WUPS_PORT_ESP32 = 3"
definition WUPS_PORT_COUNT :: nat where [simp]: "WUPS_PORT_COUNT = 4"

definition WUPS_RX_IDLE_RESET_MS :: u32 where [simp]: "WUPS_RX_IDLE_RESET_MS = 50"

text \<open>The receive structure of a port has the fields of the other receivers' structure.\<close>

record router =
  port_up :: "nat \<Rightarrow> bool"
  port_rx :: "nat \<Rightarrow> s_rx"
  port_last_rx_ms :: "nat \<Rightarrow> u32"
  rp_tx_seq :: u8
  Wups_Frames_Rx :: "nat \<Rightarrow> u32"
  Wups_Frames_Tx :: "nat \<Rightarrow> u32"
  Wups_Frames_Forwarded :: "nat \<Rightarrow> u32"
  port_wire :: "nat \<Rightarrow> bytes"

definition addr_to_port :: "u8 \<Rightarrow> nat" where
  "addr_to_port a =
     (if a = WUPS_ADDR_RPI then WUPS_PORT_RPI
      else if a = WUPS_ADDR_CH32X then WUPS_PORT_CH32X
      else if a = WUPS_ADDR_ESP32 then WUPS_PORT_ESP32
      else WUPS_PORT_NONE)"

section \<open>Sending\<close>

definition bump :: "nat \<Rightarrow> (nat \<Rightarrow> u32) \<Rightarrow> nat \<Rightarrow> u32" where
  "bump p c = c(p := c p + 1)"

definition wups_send_with_src ::
  "nat \<Rightarrow> u8 \<Rightarrow> u8 \<Rightarrow> u8 \<Rightarrow> u8 \<Rightarrow> u8 \<Rightarrow> u8 \<Rightarrow> bytes \<Rightarrow> 'z router_scheme \<Rightarrow> 'z router_scheme" where
  "wups_send_with_src port dst src cls op flags seq payload s =
     (if port = WUPS_PORT_NONE \<or> port \<ge> WUPS_PORT_COUNT then s
      else if \<not> port_up s port then s
      else if length payload > WUPS_MAX_PAYLOAD then s
      else let n = of_nat (length payload) :: u16;
               header = [WUPS_SYNC1, WUPS_SYNC2, dst, src, cls, op, flags, seq,
                         ucast (n AND 0xFF), ucast (drop_bit 8 n AND 0xFF)];
               (a, b) = foldl fletcher_step (foldl fletcher_step (0, 0) (drop 2 header)) payload;
               trailer = [a, b, WUPS_END1, WUPS_END2, WUPS_GUARD_BYTE] in
      s\<lparr>port_wire := (port_wire s)(port := port_wire s port @ header @ payload @ trailer),
        Wups_Frames_Tx := bump port (Wups_Frames_Tx s)\<rparr>)"

definition rp_send_seq ::
  "nat \<Rightarrow> u8 \<Rightarrow> u8 \<Rightarrow> u8 \<Rightarrow> u8 \<Rightarrow> u8 \<Rightarrow> bytes \<Rightarrow> 'z router_scheme \<Rightarrow> 'z router_scheme" where
  "rp_send_seq port dst cls op flags seq payload s =
     wups_send_with_src port dst WUPS_ADDR_RP2040 cls op flags seq payload s"

definition rp_send ::
  "nat \<Rightarrow> u8 \<Rightarrow> u8 \<Rightarrow> u8 \<Rightarrow> u8 \<Rightarrow> bytes \<Rightarrow> 'z router_scheme \<Rightarrow> 'z router_scheme" where
  "rp_send port dst cls op flags payload s =
     wups_send_with_src port dst WUPS_ADDR_RP2040 cls op flags (rp_tx_seq s) payload
       (s\<lparr>rp_tx_seq := rp_tx_seq s + 1\<rparr>)"

section \<open>Routing\<close>

definition emit_forward :: "nat \<Rightarrow> wups_frame \<Rightarrow> 'z router_scheme \<Rightarrow> 'z router_scheme" where
  "emit_forward out_port f s =
     (if out_port = WUPS_PORT_NONE \<or> out_port \<ge> WUPS_PORT_COUNT then s
      else if \<not> port_up s out_port then s
      else let s = wups_send_with_src out_port (f_dst f) (f_src f) (f_cls f) (f_op f) (f_flags f) (f_seq f)
                     (f_payload f) s in
      s\<lparr>Wups_Frames_Forwarded := bump out_port (Wups_Frames_Forwarded s)\<rparr>)"

text \<open>\<open>on_local\<close> is the application's handler of this frame on this port.\<close>

definition wups_route_frame ::
  "('z router_scheme \<Rightarrow> 'z router_scheme) \<Rightarrow> nat \<Rightarrow> wups_frame \<Rightarrow> 'z router_scheme \<Rightarrow> 'z router_scheme" where
  "wups_route_frame on_local inbound_port f s =
     (let to_self = (f_dst f = WUPS_ADDR_RP2040);
          is_bcast = (f_dst f = WUPS_ADDR_BROADCAST);
          is_internal = (f_dst f = WUPS_ADDR_INTERNAL);
          s = (if to_self \<or> is_bcast \<or> is_internal then on_local s else s) in
      if is_bcast then
        fold (\<lambda>p s. if p \<noteq> inbound_port then emit_forward p f s else s) [1..<WUPS_PORT_COUNT] s
      else if is_internal then
        fold (\<lambda>p s. if p = WUPS_PORT_RPI then s else if p = inbound_port then s else emit_forward p f s)
          [1..<WUPS_PORT_COUNT] s
      else if to_self then s
      else if inbound_port = WUPS_PORT_RPI \<and> f_flags f AND WUPS_FLAG_RESP \<noteq> 0 \<and> f_cls f = WUPS_CLASS_HOST
      then on_local s
      else let out_port = addr_to_port (f_dst f) in
      if out_port \<noteq> WUPS_PORT_NONE \<and> out_port \<noteq> inbound_port then emit_forward out_port f s else s)"

section \<open>Receiving\<close>

text \<open>The receive machine of one port: the frame it has completed is handed to \<open>rp_deliver_frame\<close>.\<close>

fun rp_rx_byte :: "u8 \<Rightarrow> s_rx \<Rightarrow> s_rx \<times> wups_frame option" where
  "rp_rx_byte b s =
    (case rx_state s of
       WUPS_RX_SYNC1 \<Rightarrow> (if b = WUPS_SYNC1 then s\<lparr>rx_state := WUPS_RX_SYNC2\<rparr> else s, None)
     | WUPS_RX_SYNC2 \<Rightarrow>
         (if b = WUPS_SYNC2 then s\<lparr>rx_exp_a := 0, rx_exp_b := 0, rx_pidx := 0, rx_state := WUPS_RX_DST\<rparr>
          else rx_reset_with b s, None)
     | WUPS_RX_DST \<Rightarrow> ((rx_step b (s\<lparr>rx_dst := b\<rparr>))\<lparr>rx_state := WUPS_RX_SRC\<rparr>, None)
     | WUPS_RX_SRC \<Rightarrow> ((rx_step b (s\<lparr>rx_src := b\<rparr>))\<lparr>rx_state := WUPS_RX_CLASS\<rparr>, None)
     | WUPS_RX_CLASS \<Rightarrow> ((rx_step b (s\<lparr>rx_cls := b\<rparr>))\<lparr>rx_state := WUPS_RX_OP\<rparr>, None)
     | WUPS_RX_OP \<Rightarrow> ((rx_step b (s\<lparr>rx_op := b\<rparr>))\<lparr>rx_state := WUPS_RX_FLAGS\<rparr>, None)
     | WUPS_RX_FLAGS \<Rightarrow> ((rx_step b (s\<lparr>rx_flags := b\<rparr>))\<lparr>rx_state := WUPS_RX_SEQ\<rparr>, None)
     | WUPS_RX_SEQ \<Rightarrow> ((rx_step b (s\<lparr>rx_seq := b\<rparr>))\<lparr>rx_state := WUPS_RX_LEN_L\<rparr>, None)
     | WUPS_RX_LEN_L \<Rightarrow> ((rx_step b (s\<lparr>rx_len := ucast b\<rparr>))\<lparr>rx_state := WUPS_RX_LEN_H\<rparr>, None)
     | WUPS_RX_LEN_H \<Rightarrow>
         (let s = rx_step b (s\<lparr>rx_len := rx_len s OR push_bit 8 (ucast b)\<rparr>) in
          (if unat (rx_len s) > WUPS_MAX_PAYLOAD then rx_reset_with b s
           else s\<lparr>rx_state := (if rx_len s = 0 then WUPS_RX_CK_A else WUPS_RX_PAYLOAD)\<rparr>, None))
     | WUPS_RX_PAYLOAD \<Rightarrow>
         (let s = rx_step b (s\<lparr>rx_payload := (rx_payload s)[unat (rx_pidx s) := b], rx_pidx := rx_pidx s + 1\<rparr>) in
          (if rx_pidx s \<ge> rx_len s then s\<lparr>rx_state := WUPS_RX_CK_A\<rparr> else s, None))
     | WUPS_RX_CK_A \<Rightarrow> (s\<lparr>rx_ck_a := b, rx_state := WUPS_RX_CK_B\<rparr>, None)
     | WUPS_RX_CK_B \<Rightarrow>
         (if rx_ck_a s = rx_exp_a s \<and> b = rx_exp_b s then s\<lparr>rx_state := WUPS_RX_END1\<rparr>
          else rx_reset_with b s, None)
     | WUPS_RX_END1 \<Rightarrow>
         (if b = WUPS_END1 then s\<lparr>rx_state := WUPS_RX_END2\<rparr> else rx_reset_with b s, None)
     | WUPS_RX_END2 \<Rightarrow>
         (if b = WUPS_END2 then (rx_reset s, Some (rx_frame s)) else (rx_reset_with b s, None)))"

text \<open>
  In the source the frame is delivered before the machine is reset; the delivery does not touch
  the receive structure of its port.
\<close>

definition rp_deliver_frame ::
  "(nat \<Rightarrow> wups_frame \<Rightarrow> 'z router_scheme \<Rightarrow> 'z router_scheme) \<Rightarrow> nat \<Rightarrow> wups_frame \<Rightarrow>
   'z router_scheme \<Rightarrow> 'z router_scheme" where
  "rp_deliver_frame on_local p f s =
     wups_route_frame (on_local p f) p f (s\<lparr>Wups_Frames_Rx := bump p (Wups_Frames_Rx s)\<rparr>)"

definition port_byte ::
  "(nat \<Rightarrow> wups_frame \<Rightarrow> 'z router_scheme \<Rightarrow> 'z router_scheme) \<Rightarrow> nat \<Rightarrow> u8 \<Rightarrow>
   'z router_scheme \<Rightarrow> 'z router_scheme" where
  "port_byte on_local p b s =
     (case rp_rx_byte b (port_rx s p) of
        (r, out) \<Rightarrow>
          let s = s\<lparr>port_rx := (port_rx s)(p := r)\<rparr> in
          (case out of None \<Rightarrow> s | Some f \<Rightarrow> rp_deliver_frame on_local p f s))"

definition wups_router_init :: "(nat \<Rightarrow> bool) \<Rightarrow> 'z router_scheme \<Rightarrow> 'z router_scheme" where
  "wups_router_init streams s =
     s\<lparr>port_up := (\<lambda>p. p \<noteq> WUPS_PORT_NONE \<and> p < WUPS_PORT_COUNT \<and> streams p), port_rx := (\<lambda>p. rx_reset (port_rx s p))\<rparr>"

text \<open>One pass over a port; \<open>avail\<close> are the bytes it has, of which a pass takes 1024 at most.\<close>

definition drain_port ::
  "(nat \<Rightarrow> wups_frame \<Rightarrow> 'z router_scheme \<Rightarrow> 'z router_scheme) \<Rightarrow> u32 \<Rightarrow> bytes \<Rightarrow> nat \<Rightarrow>
   'z router_scheme \<Rightarrow> 'z router_scheme" where
  "drain_port on_local now avail p s =
     (if \<not> port_up s p then s
      else let got = take 1024 avail; s = fold (port_byte on_local p) got s in
      if got \<noteq> [] then s\<lparr>port_last_rx_ms := (port_last_rx_ms s)(p := now)\<rparr>
      else if rx_state (port_rx s p) \<noteq> WUPS_RX_SYNC1 \<and> now - port_last_rx_ms s p > WUPS_RX_IDLE_RESET_MS
      then s\<lparr>port_rx := (port_rx s)(p := rx_reset (port_rx s p))\<rparr>
      else s)"

definition wups_router_drain ::
  "(nat \<Rightarrow> wups_frame \<Rightarrow> 'z router_scheme \<Rightarrow> 'z router_scheme) \<Rightarrow> (nat \<Rightarrow> u32) \<Rightarrow> (nat \<Rightarrow> bytes) \<Rightarrow>
   'z router_scheme \<Rightarrow> 'z router_scheme" where
  "wups_router_drain on_local now avail s =
     fold (\<lambda>p. drain_port on_local (now p) (avail p) p) [1..<WUPS_PORT_COUNT] s"

section \<open>The receive machine is the others' machine\<close>

definition rp_step :: "s_rx \<Rightarrow> u8 \<Rightarrow> s_rx \<times> wups_frame option" where
  "rp_step r b = rp_rx_byte b r"

lemma rp_simulates: "\<exists>k'. esp_step now (r, k) b = ((fst (rp_step r b), k'), snd (rp_step r b))"
  by (cases "rx_state r") (auto simp: esp_step_def rp_step_def out_frame_def Let_def split: prod.splits)

interpretation rp: deframer rp_step rx_view rx_ok
proof unfold_locales
  fix r b
  assume ok: "rx_ok r"
  obtain k k' :: link_rx where st: "esp_step 0 (r, k) b = ((fst (rp_step r b), k'), snd (rp_step r b))"
    using rp_simulates by blast
  from esp.ok_step [of "(r, k)" 0 b] esp.view_step [of "(r, k)" 0 b] esp.out_step [of "(r, k)" 0 b] ok
  show "rx_ok (fst (rp_step r b))" "rx_view (fst (rp_step r b)) = fst (spec_step (rx_view r) b)"
    "snd (rp_step r b) = snd (spec_step (rx_view r) b)"
    by (simp_all add: st del: rx_view.simps)
  show "candidate (rx_view r)" using ok by (simp add: rx_ok_def)
qed

section \<open>What is written where\<close>

text \<open>The writer emits the encoding of the frame and a guard byte, if the port is there.\<close>

lemma send_writes:
  "port_wire (wups_send_with_src p dst src cls op flags seq payload s) = (port_wire s)(p := port_wire s p @
     (if 0 < p \<and> p < 4 \<and> port_up s p \<and> length payload \<le> 240
      then encode \<lparr>f_dst = dst, f_src = src, f_cls = cls, f_op = op, f_flags = flags, f_seq = seq, f_payload = payload\<rparr> @ [0]
      else []))"
  by (auto simp: wups_send_with_src_def Let_def encode_def frame_body_def wups_fletcher8_def le16_def split: prod.split)

lemma send_port_up [simp]: "port_up (wups_send_with_src p dst src cls op flags seq payload s) = port_up s"
  by (simp add: wups_send_with_src_def Let_def split: prod.split)

lemma send_rx [simp]: "port_rx (wups_send_with_src p dst src cls op flags seq payload s) = port_rx s"
  by (simp add: wups_send_with_src_def Let_def split: prod.split)

lemma emit_forward_wire:
  "port_wire (emit_forward p f s) = (port_wire s)(p := port_wire s p @
     (if 0 < p \<and> p < 4 \<and> port_up s p \<and> frame_fits f then encode f @ [0] else []))"
proof -
  have self: "\<lparr>f_dst = f_dst f, f_src = f_src f, f_cls = f_cls f, f_op = f_op f, f_flags = f_flags f,
      f_seq = f_seq f, f_payload = f_payload f\<rparr> = f" by simp
  show ?thesis by (simp add: emit_forward_def send_writes frame_fits_def Let_def self)
qed

lemma emit_forward_keeps [simp]:
  "port_up (emit_forward p f s) = port_up s" "port_rx (emit_forward p f s) = port_rx s"
  by (simp_all add: emit_forward_def Let_def)

text \<open>The ports a frame is forwarded to, and whether the application sees it.\<close>

definition route_ports :: "nat \<Rightarrow> wups_frame \<Rightarrow> nat set" where
  "route_ports inb f =
     (if f_dst f = WUPS_ADDR_BROADCAST then {1, 2, 3} - {inb}
      else if f_dst f = WUPS_ADDR_INTERNAL then {2, 3} - {inb}
      else if f_dst f = WUPS_ADDR_RP2040 then {}
      else if inb = WUPS_PORT_RPI \<and> f_flags f AND WUPS_FLAG_RESP \<noteq> 0 \<and> f_cls f = WUPS_CLASS_HOST then {}
      else {addr_to_port (f_dst f)} - {0, inb})"

definition handled_locally :: "nat \<Rightarrow> wups_frame \<Rightarrow> bool" where
  "handled_locally inb f \<longleftrightarrow>
     f_dst f \<in> {WUPS_ADDR_RP2040, WUPS_ADDR_BROADCAST, WUPS_ADDR_INTERNAL} \<or>
     inb = WUPS_PORT_RPI \<and> f_flags f AND WUPS_FLAG_RESP \<noteq> 0 \<and> f_cls f = WUPS_CLASS_HOST"

lemma fold_forward:
  "distinct ps \<Longrightarrow> port_wire (fold (\<lambda>p s. if C p then emit_forward p f s else s) ps s) q = port_wire s q @
     (if q \<in> set ps \<and> C q \<and> 0 < q \<and> q < 4 \<and> port_up s q \<and> frame_fits f then encode f @ [0] else [])"
proof (induction ps arbitrary: s)
  case (Cons p ps)
  then show ?case by (cases "q = p") (auto simp: emit_forward_wire)
qed simp

lemma route_wire:
  assumes "frame_fits f" and t: "t = (if handled_locally inb f then on_local s else s)"
  shows "port_wire (wups_route_frame on_local inb f s) p =
     port_wire t p @ (if p \<in> route_ports inb f \<and> port_up t p then encode f @ [0] else [])"
proof -
  have internal: "(\<lambda>p s. if p = WUPS_PORT_RPI then s else if p = inb then s else emit_forward p f s) =
      (\<lambda>p s. if p \<noteq> 1 \<and> p \<noteq> inb then emit_forward p f s else s)" by (intro ext) simp
  have ports: "q \<in> {1..<4} \<longleftrightarrow> q = 1 \<or> q = 2 \<or> q = (3::nat)" for q by auto
  consider (bcast) "f_dst f = 0xFF" | (internal) "f_dst f = 5" | (self) "f_dst f = 2" | (bridge) "f_dst f \<notin> {0xFF, 5, 2}"
      "inb = 1 \<and> f_flags f AND 2 \<noteq> 0 \<and> f_cls f = 4"
    | (unicast) "f_dst f \<notin> {0xFF, 5, 2}" "\<not> (inb = 1 \<and> f_flags f AND 2 \<noteq> 0 \<and> f_cls f = 4)" by blast
  then show ?thesis
  proof cases
    case bcast
    then have "wups_route_frame on_local inb f s = fold (\<lambda>p s. if p \<noteq> inb then emit_forward p f s else s) [1..<4] t"
      by (simp add: wups_route_frame_def t handled_locally_def)
    then show ?thesis using bcast assms(1) by (auto simp: fold_forward route_ports_def ports)
  next
    case internal
    then have "wups_route_frame on_local inb f s = fold (\<lambda>p s. if p \<noteq> 1 \<and> p \<noteq> inb then emit_forward p f s else s) [1..<4] t"
      unfolding wups_route_frame_def \<open>(\<lambda>p s. if p = WUPS_PORT_RPI then s else if p = inb then s else emit_forward p f s) = _\<close>
      by (simp add: t handled_locally_def)
    then show ?thesis using internal assms(1) by (auto simp: fold_forward route_ports_def ports)
  next
    case self
    then show ?thesis by (simp add: wups_route_frame_def t handled_locally_def route_ports_def)
  next
    case bridge
    then show ?thesis by (simp add: wups_route_frame_def t handled_locally_def route_ports_def)
  next
    case unicast
    then have "wups_route_frame on_local inb f s =
        (if addr_to_port (f_dst f) \<noteq> 0 \<and> addr_to_port (f_dst f) \<noteq> inb then emit_forward (addr_to_port (f_dst f)) f t else t)"
      unfolding wups_route_frame_def t handled_locally_def by (auto simp: Let_def)
    moreover have "addr_to_port (f_dst f) < 4" by (simp add: addr_to_port_def)
    ultimately show ?thesis using unicast assms(1) by (auto simp: emit_forward_wire route_ports_def)
  qed
qed


definition idle_hub :: router where
  "idle_hub = \<lparr>port_up = (\<lambda>p. p = 2 \<or> p = 3), port_rx = (\<lambda>p. rx_boot), port_last_rx_ms = (\<lambda>p. 0), rp_tx_seq = 0,
     Wups_Frames_Rx = (\<lambda>p. 0), Wups_Frames_Tx = (\<lambda>p. 0), Wups_Frames_Forwarded = (\<lambda>p. 0), port_wire = (\<lambda>p. [])\<rparr>"

definition sample_hello :: wups_frame where
  "sample_hello = \<lparr>f_dst = 0xFF, f_src = 4, f_cls = 1, f_op = 1, f_flags = 4, f_seq = 9, f_payload = [1, 2]\<rparr>"


end
