(* ===== verification/Rp_Main.thy ===== *)
theory Rp_Main
  imports Rp_Router Rp_Update Power_Status "HOL-Library.Signed_Division"
begin

text \<open>
  The handler of local frames in \<open>main.cpp\<close> of the RP2040, on top of the router: telemetry is cached, shown
  and reported to the cloud at a limited rate, commands from the cloud are unwrapped and routed on, events
  and answers are wrapped for publication, firmware images go to \<open>fw_update.cpp\<close>, and two independent
  layers of messages are kept for the display.  Calls into the display modules (\<open>trust_ui.cpp\<close>,
  \<open>local_menu.cpp\<close>, \<open>ui_settings.cpp\<close>) are recorded; their answers and the clock are inputs.  Output
  on the debug ports is left out.
\<close>

section \<open>State\<close>

text \<open>The snapshot for the display and the alarms; fields that only the loop sets are left out.\<close>

record ui_view =
  u_t :: int
  u_cs :: int
  u_pg :: int
  u_vi :: int
  u_ci :: int
  u_cf :: int
  u_bp :: int
  u_vb :: int
  u_vbc :: int
  u_vs :: int
  u_is :: int
  u_vr :: int
  u_ir :: int
  u_pd_in_mV :: int
  u_pd_in_mA :: int
  u_pd_out_mV :: int
  u_pd_out_mA :: int
  u_vbus_out_ch_mV :: int
  u_vsys_mV :: int
  u_iin_mA :: int
  u_temp_lm_dC :: int
  u_temp_mp_dC :: int
  u_usb_c_attach :: int
  u_soc_ch :: int
  u_iout_limit_mA :: int

datatype ui_call =
    Local_Menu_Close
  | Local_Menu_Open
  | Trust_Prompt bytes u8
  | Trust_Close
  | Beep u16 u16
  | Settings_Reset
  | Apply_Brightness
  | Render_Applying

record 'f rp_main = router +
  fw :: "'f rp_update"
  ui :: ui_view
  Last_Power_Status :: wups_power_status_v1
  Last_Pwr_V2 :: wups_power_status_v2
  Last_Power_Status_Ms :: u32
  Last_Pwr_Raw :: bytes
  newFrameReceived :: bool
  lastFrameTime :: u32
  Last_Telemetry_Uplink_Ms :: u32
  Telemetry_Uplink_Primed :: bool
  Last_Uplink_Pg :: bool
  Last_Uplink_Faults :: u16
  infoText :: bytes
  infoUntilMs :: u32
  infoChirpPending :: bool
  netAlertText :: bytes
  netAlertActive :: bool
  netAlertBeeped :: bool
  netAlertLastAssertMs :: u32
  netAlertDismissedText :: bytes
  netAlertDismissedAtMs :: u32
  currentScreen :: u8
  lastInteractionTime :: u32
  s_esp32_menu_from_local :: bool
  ui_calls :: "ui_call list"

text \<open>One sample of the clock serves a whole frame.\<close>

record 'f main_in =
  in_fs :: "'f lfs"
  in_now :: u32
  in_image :: bytes
  in_junk :: bytes
  in_menu_active :: bool
  in_trust_active :: bool

definition ui_do :: "ui_call \<Rightarrow> 'f rp_main \<Rightarrow> 'f rp_main" where
  "ui_do c s = s\<lparr>ui_calls := ui_calls s @ [c]\<rparr>"

definition TELEMETRY_UPLINK_INTERVAL_MS :: u32 where [simp]: "TELEMETRY_UPLINK_INTERVAL_MS = 30000"
definition ALERT_DISMISS_COOLDOWN_MS :: u32 where [simp]: "ALERT_DISMISS_COOLDOWN_MS = 600000"
definition INFO_TTL_MS :: u32 where [simp]: "INFO_TTL_MS = 60000"
definition SCREEN_COUNT :: u8 where [simp]: "SCREEN_COUNT = 5"
definition FW_VERSION_U16 :: u16 where [simp]: "FW_VERSION_U16 = 0x0102"

definition c_bytes :: "string \<Rightarrow> bytes" where
  "c_bytes t = map of_char t"

definition FW_VERSION_STR :: bytes where "FW_VERSION_STR = c_bytes ''rp2040:1.2.4''"

section \<open>Wrapping for publication\<close>

definition sizeof_net_hdr :: nat where [simp]: "sizeof_net_hdr = 6"

definition wupsRequestPublish :: "bytes \<Rightarrow> u8 \<Rightarrow> u8 \<Rightarrow> bytes \<Rightarrow> 'f rp_main \<Rightarrow> 'f rp_main" where
  "wupsRequestPublish topic qos retain payload s =
     (if topic = [] \<or> length topic > 200 then s
      else if sizeof_net_hdr + length topic + length payload > WUPS_MAX_PAYLOAD then s
      else rp_send WUPS_PORT_ESP32 WUPS_ADDR_ESP32 WUPS_CLASS_NET WUPS_OP_NET_PUBLISH WUPS_FLAG_REQ
        ([1, qos, retain, of_nat (length topic)] @ le16 (of_nat (length payload)) @ topic @ payload) s)"

definition wupsBuildFrame :: "nat \<Rightarrow> u8 \<Rightarrow> u8 \<Rightarrow> u8 \<Rightarrow> u8 \<Rightarrow> u8 \<Rightarrow> u8 \<Rightarrow> bytes \<Rightarrow> bytes" where
  "wupsBuildFrame out_cap dst src cls op flags seq payload =
     (if out_cap < WUPS_FRAMING_BYTES + length payload then []
      else let n = of_nat (length payload) :: u16;
               out = [WUPS_SYNC1, WUPS_SYNC2, dst, src, cls, op, flags, seq,
                      ucast (n AND 0xFF), ucast (drop_bit 8 n AND 0xFF)] @ payload;
               (a, b) = foldl fletcher_step (0, 0) (drop 2 out) in
      out @ [a, b, WUPS_END1, WUPS_END2])"

definition publish_built :: "string \<Rightarrow> u8 \<Rightarrow> bytes \<Rightarrow> 'f rp_main \<Rightarrow> 'f rp_main" where
  "publish_built topic qos frame s =
     (if frame = [] then s else wupsRequestPublish (c_bytes topic) qos 0 frame s)"

definition wupsPublishCmdResponse :: "u8 \<Rightarrow> u8 \<Rightarrow> u8 \<Rightarrow> u8 \<Rightarrow> 'f rp_main \<Rightarrow> 'f rp_main" where
  "wupsPublishCmdResponse cls op seq code s =
     publish_built ''cmd/response'' 1
       (wupsBuildFrame (WUPS_FRAMING_BYTES + 1) WUPS_ADDR_RPI WUPS_ADDR_RP2040 cls op WUPS_FLAG_RESP seq [code]) s"

definition wupsPublishTelemetryStatus :: "u8 \<Rightarrow> bytes \<Rightarrow> 'f rp_main \<Rightarrow> 'f rp_main" where
  "wupsPublishTelemetryStatus seq payload s =
     (if payload = [] \<or> length payload > WUPS_MAX_PAYLOAD then s
      else publish_built ''telemetry'' 0
        (wupsBuildFrame (WUPS_FRAMING_BYTES + WUPS_MAX_PAYLOAD) WUPS_ADDR_BROADCAST WUPS_ADDR_CH32X
           WUPS_CLASS_POWER WUPS_OP_PWR_STATUS WUPS_FLAG_EVENT seq payload) s)"

definition wupsPublishHostStatus :: "u8 \<Rightarrow> bytes \<Rightarrow> 'f rp_main \<Rightarrow> 'f rp_main" where
  "wupsPublishHostStatus seq status s =
     publish_built ''telemetry'' 0
       (wupsBuildFrame (WUPS_FRAMING_BYTES + sizeof_host_status_v1) WUPS_ADDR_BROADCAST WUPS_ADDR_RPI
          WUPS_CLASS_HOST WUPS_OP_HOST_STATUS WUPS_FLAG_EVENT seq status) s"

definition wupsPublishEventFrame :: "wups_frame \<Rightarrow> 'f rp_main \<Rightarrow> 'f rp_main" where
  "wupsPublishEventFrame f s =
     publish_built ''event'' 1
       (wupsBuildFrame (WUPS_FRAMING_BYTES + 64) (f_dst f) (f_src f) (f_cls f) (f_op f) (f_flags f) (f_seq f) (f_payload f)) s"

definition wupsPublishCmdResponseFrame :: "wups_frame \<Rightarrow> 'f rp_main \<Rightarrow> 'f rp_main" where
  "wupsPublishCmdResponseFrame f s =
     publish_built ''cmd/response'' 1
       (wupsBuildFrame (WUPS_FRAMING_BYTES + 64) (f_dst f) (f_src f) (f_cls f) (f_op f) (f_flags f) (f_seq f) (f_payload f)) s"

section \<open>Power telemetry\<close>

definition soc_lut :: "(int \<times> int) list" where
  "soc_lut = [(4000, 100), (3900, 88), (3800, 75), (3700, 60), (3600, 40), (3500, 22), (3400, 10), (3300, 4), (3200, 0)]"

fun soc_segments :: "int \<Rightarrow> (int \<times> int) list \<Rightarrow> int" where
  "soc_segments cellV ((v1, s1) # (v2, s2) # rest) =
     (if cellV \<le> v1 \<and> cellV > v2 then s1 + ((cellV - v1) * (s2 - s1)) sdiv (v2 - v1)
      else soc_segments cellV ((v2, s2) # rest))"
| "soc_segments cellV _ = 0"

definition voltageToSoc :: "int \<Rightarrow> int" where
  "voltageToSoc bv_mV =
     (let cellV = bv_mV sdiv 2 in
      if cellV \<ge> fst (hd soc_lut) then snd (hd soc_lut)
      else if cellV \<le> fst (last soc_lut) then snd (last soc_lut)
      else soc_segments cellV soc_lut)"

definition show_v2 :: "wups_power_status_v2 \<Rightarrow> ui_view \<Rightarrow> ui_view" where
  "show_v2 s2 u = u\<lparr>
     u_t := (if sint (p2_temp_mp_dC s2) = -32768 then sint (p2_temp_lm_dC s2)
             else max (sint (p2_temp_mp_dC s2)) (sint (p2_temp_lm_dC s2))),
     u_cs := uint (p2_charge_state s2),
     u_pg := (if p2_vbus_in_mV s2 > 5000 then 1 else 0),
     u_vi := uint (p2_vbus_in_mV s2),
     u_ci := sint (p2_ichg_mA s2),
     u_cf := uint (p2_faults s2),
     u_bp := (if p2_flags s2 AND WUPS_PWR2_FLAG_BATT_PRESENT \<noteq> 0 then 1 else 0),
     u_vb := uint (p2_vbat_mV s2),
     u_vbc := uint (p2_vbat_mV s2),
     u_vr := uint (p2_vout_read_mV s2) div 100,
     u_ir := uint (p2_iout_limit_mA s2) div 100,
     u_vs := uint (p2_vout_set_mV s2) div 100,
     u_is := uint (p2_iout_limit_mA s2) div 100,
     u_pd_in_mV := uint (p2_pd_in_mV s2),
     u_pd_in_mA := uint (p2_pd_in_mA s2),
     u_pd_out_mV := uint (p2_pd_out_mV s2),
     u_pd_out_mA := uint (p2_pd_out_mA s2),
     u_vbus_out_ch_mV := uint (p2_vbus_out_mV s2),
     u_vsys_mV := uint (p2_vsys_mV s2),
     u_iin_mA := uint (p2_iin_mA s2),
     u_temp_lm_dC := sint (p2_temp_lm_dC s2),
     u_temp_mp_dC := sint (p2_temp_mp_dC s2),
     u_usb_c_attach := (if p2_flags s2 AND WUPS_PWR2_FLAG_USB_C_ATTACH \<noteq> 0 then 1 else 0),
     u_iout_limit_mA := uint (p2_iout_limit_mA s2),
     u_soc_ch := voltageToSoc (uint (p2_vbat_mV s2))\<rparr>"

definition show_v1 :: "wups_power_status_v1 \<Rightarrow> ui_view \<Rightarrow> ui_view" where
  "show_v1 s1 u = u\<lparr>
     u_t := sint (p1_temp_dC s1),
     u_cs := uint (p1_charge_state s1),
     u_pg := (if p1_vbus_in_mV s1 > 5000 then 1 else 0),
     u_vi := uint (p1_vbus_in_mV s1),
     u_ci := sint (p1_ibat_mA s1),
     u_cf := uint (p1_faults s1),
     u_bp := (if p1_vbat_mV s1 > 100 then 1 else 0),
     u_vb := uint (p1_vbat_mV s1),
     u_vbc := uint (p1_vbat_mV s1),
     u_vs := uint (p1_pd_contract_mV s1) div 100,
     u_is := uint (p1_pd_contract_mA s1) div 100,
     u_vr := uint (p1_vbus_out_mV s1) div 100,
     u_ir := sint (p1_ibus_out_mA s1) sdiv 100\<rparr>"

text \<open>Decoding into the snapshot, with the input state and the faults that decide about reporting.\<close>

definition decode_status :: "bytes \<Rightarrow> 'f rp_main \<Rightarrow> ('f rp_main \<times> bool \<times> u16) option" where
  "decode_status p s =
     (if p ! 0 = 2 \<and> sizeof_power_status_v2 \<le> length p then
        let s2 = load_status_v2 p in
        Some (s\<lparr>Last_Pwr_V2 := s2, ui := show_v2 s2 (ui s)\<rparr>, p2_vbus_in_mV s2 > 5000, p2_faults s2)
      else if p ! 0 = 1 \<and> sizeof_power_status_v1 \<le> length p then
        let s1 = load_status_v1 p in
        Some (s\<lparr>Last_Power_Status := s1, ui := show_v1 s1 (ui s)\<rparr>, p1_vbus_in_mV s1 > 5000, p1_faults s1)
      else None)"

definition uplink_due :: "u32 \<Rightarrow> bool \<Rightarrow> u16 \<Rightarrow> 'f rp_main \<Rightarrow> bool" where
  "uplink_due now pg faults s =
     (if \<not> Telemetry_Uplink_Primed s then True
      else if pg \<noteq> Last_Uplink_Pg s \<or> faults \<noteq> Last_Uplink_Faults s then True
      else now - Last_Telemetry_Uplink_Ms s \<ge> TELEMETRY_UPLINK_INTERVAL_MS)"

definition handle_power_status :: "'f main_in \<Rightarrow> wups_frame \<Rightarrow> 'f rp_main \<Rightarrow> 'f rp_main" where
  "handle_power_status i f s =
     (case decode_status (f_payload f) s of
        None \<Rightarrow> s
      | Some (s, pg, faults) \<Rightarrow>
          let s = (if length (f_payload f) \<le> WUPS_MAX_PAYLOAD then s\<lparr>Last_Pwr_Raw := f_payload f\<rparr> else s);
              s = s\<lparr>Last_Power_Status_Ms := in_now i, newFrameReceived := True, lastFrameTime := in_now i\<rparr>;
              s = wups_send_with_src WUPS_PORT_RPI WUPS_ADDR_RPI WUPS_ADDR_CH32X WUPS_CLASS_POWER WUPS_OP_PWR_STATUS
                    WUPS_FLAG_EVENT (f_seq f) (f_payload f) s in
          if uplink_due (in_now i) pg faults s then
            (wupsPublishTelemetryStatus (f_seq f) (f_payload f) s)\<lparr>Last_Telemetry_Uplink_Ms := in_now i,
               Last_Uplink_Pg := pg, Last_Uplink_Faults := faults, Telemetry_Uplink_Primed := True\<rparr>
          else s)"

definition handle_status_request :: "wups_frame \<Rightarrow> 'f rp_main \<Rightarrow> 'f rp_main" where
  "handle_status_request f s =
     (let s = (if Last_Power_Status_Ms s \<noteq> 0 \<and> Last_Pwr_Raw s \<noteq> []
               then wupsPublishTelemetryStatus (f_seq f) (Last_Pwr_Raw s) s else s) in
      wupsPublishCmdResponse (f_cls f) (f_op f) (f_seq f) 0 s)"

section \<open>Commands from the cloud\<close>

text \<open>The frame inside a \<open>net.downlink\<close>, if the wrapper and the frame are well formed.\<close>

definition unwrap_downlink :: "bytes \<Rightarrow> wups_frame option" where
  "unwrap_downlink p =
     (let topic_len = unat (p ! 3); payload_len = unat (rd_u16le (drop 4 p)) in
      if p ! 0 \<noteq> 1 then None
      else if sizeof_net_hdr + topic_len + payload_len > length p then None
      else let inner = drop (sizeof_net_hdr + topic_len) p in
      if payload_len < WUPS_FRAMING_BYTES then None
      else if inner ! 0 \<noteq> WUPS_SYNC1 \<or> inner ! 1 \<noteq> WUPS_SYNC2 then None
      else let inner_len = unat (rd_u16le (drop 8 inner)) in
      if inner_len > WUPS_MAX_PAYLOAD then None
      else if WUPS_FRAMING_BYTES + inner_len \<noteq> payload_len then None
      else if inner ! (WUPS_HEADER_BYTES + inner_len + 2) \<noteq> WUPS_END1 then None
      else if inner ! (WUPS_HEADER_BYTES + inner_len + 3) \<noteq> WUPS_END2 then None
      else if foldl fletcher_step (0, 0) (take (8 + inner_len) (drop 2 inner)) \<noteq>
              (inner ! (WUPS_HEADER_BYTES + inner_len), inner ! (WUPS_HEADER_BYTES + inner_len + 1)) then None
      else Some \<lparr>f_dst = inner ! 2, f_src = inner ! 3, f_cls = inner ! 4, f_op = inner ! 5, f_flags = inner ! 6,
                 f_seq = inner ! 7, f_payload = take inner_len (drop WUPS_HEADER_BYTES inner)\<rparr>)"

lemma unwrap_shorter: "unwrap_downlink p = Some f \<Longrightarrow> length (f_payload f) < length p"
  by (auto simp: unwrap_downlink_def Let_def split: if_splits)

section \<open>Messages for the display\<close>

text \<open>A C string ends at its first zero byte; a stored text is the bytes copied before the terminator.\<close>

definition cstr :: "bytes \<Rightarrow> bytes" where
  "cstr bs = takeWhile (\<lambda>b. b \<noteq> 0) bs"

definition info_notice :: "u32 \<Rightarrow> bytes \<Rightarrow> 'f rp_main \<Rightarrow> 'f rp_main" where
  "info_notice now text s =
     (let text = take 40 text in
      if text = [] then s\<lparr>infoText := [], infoUntilMs := 0, infoChirpPending := False\<rparr>
      else let same = (cstr (infoText s) \<noteq> [] \<and> length (cstr (infoText s)) = length text \<and> take (length text) (infoText s) = text);
               s = s\<lparr>infoText := text, infoUntilMs := now + INFO_TTL_MS\<rparr> in
      if \<not> same then s\<lparr>infoChirpPending := True\<rparr> else s)"

definition modem_alert :: "u32 \<Rightarrow> bytes \<Rightarrow> 'f rp_main \<Rightarrow> 'f rp_main" where
  "modem_alert now text s =
     (let text = take 23 text in
      if text = [] then s\<lparr>netAlertActive := False, netAlertText := [], netAlertDismissedText := [], netAlertDismissedAtMs := 0\<rparr>
      else let s = s\<lparr>netAlertLastAssertMs := now\<rparr>;
               dismissed = (cstr (netAlertDismissedText s) \<noteq> [] \<and> cstr text = cstr (netAlertDismissedText s) \<and>
                            now - netAlertDismissedAtMs s < ALERT_DISMISS_COOLDOWN_MS) in
      if dismissed then s
      else let s = s\<lparr>netAlertDismissedText := [], netAlertDismissedAtMs := 0, netAlertText := text\<rparr>;
               s = (if \<not> netAlertActive s then s\<lparr>netAlertBeeped := False\<rparr> else s) in
      s\<lparr>netAlertActive := True\<rparr>)"

definition handle_display_msg :: "u32 \<Rightarrow> wups_frame \<Rightarrow> 'f rp_main \<Rightarrow> 'f rp_main" where
  "handle_display_msg now f s =
     (let p = f_payload f in
      if p ! 0 = 1 then
        let text = take (min (unat (p ! 2)) (length p - 4)) (drop 4 p) in
        if f_src f \<noteq> WUPS_ADDR_ESP32 then info_notice now text s else modem_alert now text s
      else s)"

section \<open>The other operations\<close>

definition handle_fw_xfer :: "'f main_in \<Rightarrow> wups_frame \<Rightarrow> 'f rp_main \<Rightarrow> 'f rp_main" where
  "handle_fw_xfer i f s =
     (let s = (if f_op f = WUPS_OP_NET_FW_XFER_BEGIN \<and> in_menu_active i then ui_do Local_Menu_Close s else s);
          s = (if f_op f = WUPS_OP_NET_FW_XFER_END \<and> 2 \<le> length (f_payload f) \<and> f_payload f ! 1 = 1
               then ui_do Render_Applying s else s);
          (u, result, reboot_after) = xfer_handle (in_fs i) (in_now i) (in_junk i) (in_image i) (f_op f) (f_payload f) (fw s);
          s = s\<lparr>fw := u\<rparr>;
          out_port = addr_to_port (f_src f);
          s = (if out_port \<noteq> WUPS_PORT_NONE
               then rp_send_seq out_port (f_src f) WUPS_CLASS_NET (f_op f) WUPS_FLAG_RESP (f_seq f) [result] s else s) in
      if reboot_after then s\<lparr>fw := (fw s)\<lparr>rp_rebooted := True\<rparr>\<rparr> else s)"

definition handle_hello :: "'f main_in \<Rightarrow> 'f rp_main \<Rightarrow> 'f rp_main" where
  "handle_hello i s =
     (let s = (if in_trust_active i then ui_do Trust_Close s else s) in
      s\<lparr>currentScreen := 0, lastInteractionTime := in_now i, netAlertActive := False, netAlertDismissedText := [],
        netAlertDismissedAtMs := 0, infoText := [], infoUntilMs := 0, infoChirpPending := False\<rparr>)"

definition handle_set_screen :: "'f main_in \<Rightarrow> wups_frame \<Rightarrow> 'f rp_main \<Rightarrow> 'f rp_main" where
  "handle_set_screen i f s =
     (let version = f_payload f ! 0; screen = f_payload f ! 1 in
      if version = 1 \<and> screen < SCREEN_COUNT then
        let from_local = s_esp32_menu_from_local s; s = s\<lparr>s_esp32_menu_from_local := False\<rparr> in
        if from_local \<and> screen = 0 then ui_do Local_Menu_Open (ui_do Trust_Close s)
        else ui_do Trust_Close (s\<lparr>currentScreen := screen, lastInteractionTime := in_now i\<rparr>)
      else s)"

definition handle_beep :: "wups_frame \<Rightarrow> 'f rp_main \<Rightarrow> 'f rp_main" where
  "handle_beep f s =
     (let p = f_payload f;
          s = (if p ! 0 = 1 then
                 let freq = rd_u16le (drop 2 p); dur = rd_u16le (drop 4 p);
                     freq = (if freq \<noteq> 0 then freq else 1500);
                     dur = (if dur \<noteq> 0 then dur else 150) in
                 ui_do (Beep freq (if dur > 5000 then 5000 else dur)) s
               else s);
          out_port = addr_to_port (f_src f);
          s = (if out_port \<noteq> WUPS_PORT_NONE
               then rp_send_seq out_port (f_src f) WUPS_CLASS_UI WUPS_OP_UI_BEEP WUPS_FLAG_RESP (f_seq f) [] s else s) in
      wupsPublishCmdResponse (f_cls f) (f_op f) (f_seq f) 0 s)"

definition handle_ping :: "u32 \<Rightarrow> wups_frame \<Rightarrow> 'f rp_main \<Rightarrow> 'f rp_main" where
  "handle_ping now f s =
     (let buf = [1, 0] @ le16 FW_VERSION_U16 @ le32 now @ FW_VERSION_STR; out_port = addr_to_port (f_src f) in
      if out_port \<noteq> WUPS_PORT_NONE
      then rp_send_seq out_port (f_src f) WUPS_CLASS_SYSTEM WUPS_OP_SYS_PING WUPS_FLAG_RESP (f_seq f) buf s else s)"

section \<open>The dispatcher\<close>

definition flag :: "u8 \<Rightarrow> wups_frame \<Rightarrow> bool" where
  "flag m f \<longleftrightarrow> f_flags f AND m \<noteq> 0"

text \<open>The branches after the one that unwraps commands.\<close>

definition local_op :: "'f main_in \<Rightarrow> wups_frame \<Rightarrow> 'f rp_main \<Rightarrow> 'f rp_main" where
  "local_op i f s =
     (let cls = f_cls f; op = f_op f; len = length (f_payload f) in
      if cls = WUPS_CLASS_NET \<and> flag WUPS_FLAG_REQ f \<and> f_dst f = WUPS_ADDR_RP2040 \<and>
         op \<in> {WUPS_OP_NET_FW_XFER_BEGIN, WUPS_OP_NET_FW_XFER_DATA, WUPS_OP_NET_FW_XFER_END}
      then handle_fw_xfer i f s
      else if cls = WUPS_CLASS_SYSTEM \<and> op = WUPS_OP_SYS_LOG \<and> len \<ge> 4 then s
      else if cls = WUPS_CLASS_POWER \<and> op = WUPS_OP_PWR_STATUS \<and> flag WUPS_FLAG_REQ f then handle_status_request f s
      else if cls = WUPS_CLASS_POWER \<and> flag WUPS_FLAG_REQ f \<and>
              op \<in> {WUPS_OP_PWR_ENABLE, WUPS_OP_PWR_DISABLE, WUPS_OP_PWR_CYCLE, WUPS_OP_PWR_RESET}
      then wupsPublishCmdResponse cls op (f_seq f) 0 s
      else if cls = WUPS_CLASS_UI \<and> op = WUPS_OP_UI_TRUST_PROMPT \<and> flag WUPS_FLAG_REQ f then
        ui_do (Trust_Prompt (f_payload f) (f_seq f)) (if in_menu_active i then ui_do Local_Menu_Close s else s)
      else if cls = WUPS_CLASS_SYSTEM \<and> op = WUPS_OP_SYS_HELLO \<and> f_src f = WUPS_ADDR_ESP32 then handle_hello i s
      else if cls = WUPS_CLASS_UI \<and> op = WUPS_OP_UI_SET_SCREEN \<and> len \<ge> 2 then handle_set_screen i f s
      else if cls = WUPS_CLASS_UI \<and> op = WUPS_OP_UI_BEEP \<and> flag WUPS_FLAG_REQ f \<and> len \<ge> 6 then handle_beep f s
      else if cls = WUPS_CLASS_UI \<and> op = WUPS_OP_UI_LOCAL_RESET then
        ui_do (Beep 1500 40) (ui_do Apply_Brightness (ui_do Settings_Reset s))
      else if cls = WUPS_CLASS_UI \<and> op = WUPS_OP_UI_DISPLAY_MSG \<and> len \<ge> 4 then handle_display_msg (in_now i) f s
      else if cls = WUPS_CLASS_SYSTEM \<and> op = WUPS_OP_SYS_PING \<and> flag WUPS_FLAG_REQ f then handle_ping (in_now i) f s
      else if cls = WUPS_CLASS_HOST \<and> op = WUPS_OP_HOST_STATUS \<and> f_src f = WUPS_ADDR_RPI \<and> len \<ge> sizeof_host_status_v1 then
        (if f_payload f ! 0 \<noteq> 1 then s else wupsPublishHostStatus (f_seq f) (take sizeof_host_status_v1 (f_payload f)) s)
      else s)"

text \<open>An unwrapped command is routed like a frame from the same port; wrappers may be nested.\<close>

function wups_on_local_frame :: "'f main_in \<Rightarrow> nat \<Rightarrow> wups_frame \<Rightarrow> 'f rp_main \<Rightarrow> 'f rp_main" where
  "wups_on_local_frame i inbound_port f s =
     (let s = s\<lparr>fw := fw_update_note_frame_ok (in_fs i) (fw s)\<rparr> in
      if inbound_port = WUPS_PORT_RPI \<and> flag WUPS_FLAG_RESP f \<and> f_cls f = WUPS_CLASS_HOST
      then wupsPublishCmdResponseFrame f s
      else if flag WUPS_FLAG_EVENT f \<and> inbound_port \<noteq> WUPS_PORT_ESP32 \<and>
              (f_cls f = WUPS_CLASS_POWER \<and> f_op f = WUPS_OP_PWR_EVENT \<or>
               f_cls f = WUPS_CLASS_HOST \<and> f_op f = WUPS_OP_HOST_EVENT)
      then wupsPublishEventFrame f s
      else if f_cls f = WUPS_CLASS_POWER \<and> f_op f = WUPS_OP_PWR_STATUS \<and> f_src f = WUPS_ADDR_CH32X \<and>
              length (f_payload f) \<ge> 1
      then handle_power_status i f s
      else if f_cls f = WUPS_CLASS_NET \<and> f_op f = WUPS_OP_NET_DOWNLINK \<and> flag WUPS_FLAG_EVENT f \<and>
              length (f_payload f) \<ge> sizeof_net_hdr
      then (case unwrap_downlink (f_payload f) of
              None \<Rightarrow> s
            | Some ifr \<Rightarrow> wups_route_frame (\<lambda>t. wups_on_local_frame i inbound_port ifr t) inbound_port ifr s)
      else local_op i f s)"
  by pat_completeness auto
termination by (relation "measure (\<lambda>(i, p, f, s). length (f_payload f))") (auto dest: unwrap_shorter)

declare wups_on_local_frame.simps [simp del]

section \<open>What is reported\<close>

lemma build_encodes:
  assumes "length payload \<le> 240"
  shows "wupsBuildFrame cap dst src cls op flags seq payload =
    (if cap < 14 + length payload then []
     else encode \<lparr>f_dst = dst, f_src = src, f_cls = cls, f_op = op, f_flags = flags, f_seq = seq, f_payload = payload\<rparr>)"
  by (simp add: wupsBuildFrame_def encode_def frame_body_def wups_fletcher8_def le16_def Let_def split: prod.split)

definition publication :: "u8 \<Rightarrow> u8 \<Rightarrow> bytes \<Rightarrow> bytes \<Rightarrow> wups_frame" where
  "publication seq qos topic body = \<lparr>f_dst = WUPS_ADDR_ESP32, f_src = WUPS_ADDR_RP2040, f_cls = WUPS_CLASS_NET,
     f_op = WUPS_OP_NET_PUBLISH, f_flags = WUPS_FLAG_REQ, f_seq = seq,
     f_payload = [1, qos, 0, of_nat (length topic)] @ le16 (of_nat (length body)) @ topic @ body\<rparr>"

lemma publish_writes:
  assumes "body \<noteq> []" and "topic \<noteq> []" and "length topic \<le> 200" and "6 + length topic + length body \<le> 240"
  shows "port_wire (publish_built topic qos body s) = (port_wire s)(3 := port_wire s 3 @
      (if port_up s 3 then encode (publication (rp_tx_seq s) qos (c_bytes topic) body) @ [0] else []))"
proof -
  have "c_bytes topic \<noteq> []" "length (c_bytes topic) = length topic" using assms(2) by (simp_all add: c_bytes_def)
  then show ?thesis
    using assms by (simp add: publish_built_def wupsRequestPublish_def rp_send_def send_writes publication_def)
qed

lemma publish_keeps [simp]:
  "port_up (publish_built topic qos body s) = port_up s" "port_rx (publish_built topic qos body s) = port_rx s"
  "Last_Pwr_Raw (publish_built topic qos body s) = Last_Pwr_Raw s"
  by (simp_all add: publish_built_def wupsRequestPublish_def rp_send_def wups_send_with_src_def Let_def split: prod.split)

lemma decode_keeps:
  assumes "decode_status p s = Some (t, pg, faults)"
  shows "port_wire t = port_wire s" "port_up t = port_up s" "rp_tx_seq t = rp_tx_seq s"
    "Telemetry_Uplink_Primed t = Telemetry_Uplink_Primed s" "Last_Uplink_Pg t = Last_Uplink_Pg s"
    "Last_Uplink_Faults t = Last_Uplink_Faults s" "Last_Telemetry_Uplink_Ms t = Last_Telemetry_Uplink_Ms s" "p \<noteq> []"
  using assms by (auto simp: decode_status_def Let_def split: if_splits)

lemma send_keeps [simp]:
  "Telemetry_Uplink_Primed (wups_send_with_src p d sr c o' fl sq b t) = Telemetry_Uplink_Primed t"
  "Last_Uplink_Pg (wups_send_with_src p d sr c o' fl sq b t) = Last_Uplink_Pg t"
  "Last_Uplink_Faults (wups_send_with_src p d sr c o' fl sq b t) = Last_Uplink_Faults t"
  "Last_Telemetry_Uplink_Ms (wups_send_with_src p d sr c o' fl sq b t) = Last_Telemetry_Uplink_Ms t"
  "Last_Pwr_Raw (wups_send_with_src p d sr c o' fl sq b t) = Last_Pwr_Raw t"
  "rp_tx_seq (wups_send_with_src p d sr c o' fl sq b t) = rp_tx_seq t"
  by (simp_all add: wups_send_with_src_def Let_def split: prod.split)

definition status_frame :: "u8 \<Rightarrow> u8 \<Rightarrow> bytes \<Rightarrow> wups_frame" where
  "status_frame dst seq payload = \<lparr>f_dst = dst, f_src = WUPS_ADDR_CH32X, f_cls = WUPS_CLASS_POWER,
     f_op = WUPS_OP_PWR_STATUS, f_flags = WUPS_FLAG_EVENT, f_seq = seq, f_payload = payload\<rparr>"


definition sample_hub :: "(string \<Rightarrow> bytes option) rp_main" where
  "sample_hub = \<lparr>port_up = (\<lambda>p. 0 < p \<and> p < 4), port_rx = (\<lambda>p. rx_boot), port_last_rx_ms = (\<lambda>p. 0), rp_tx_seq = 0,
     Wups_Frames_Rx = (\<lambda>p. 0), Wups_Frames_Tx = (\<lambda>p. 0), Wups_Frames_Forwarded = (\<lambda>p. 0), port_wire = (\<lambda>p. []),
     fw = power_on (\<lambda>p. None), ui = ui_view.make 0 0 0 0 0 0 0 0 0 0 0 0 0 0 0 0 0 0 0 0 0 0 0 0 0,
     Last_Power_Status = zero_v1, Last_Pwr_V2 = zero_v2, Last_Power_Status_Ms = 0, Last_Pwr_Raw = [],
     newFrameReceived = False, lastFrameTime = 0, Last_Telemetry_Uplink_Ms = 0, Telemetry_Uplink_Primed = True,
     Last_Uplink_Pg = True, Last_Uplink_Faults = 0, infoText = [], infoUntilMs = 0, infoChirpPending = False,
     netAlertText = [], netAlertActive = False, netAlertBeeped = False, netAlertLastAssertMs = 0,
     netAlertDismissedText = [], netAlertDismissedAtMs = 0, currentScreen = 0, lastInteractionTime = 0,
     s_esp32_menu_from_local = False, ui_calls = []\<rparr>"

definition sample_main_in :: "(string \<Rightarrow> bytes option) main_in" where
  "sample_main_in = \<lparr>in_fs = ram_lfs, in_now = 5000, in_image = [], in_junk = [], in_menu_active = False, in_trust_active = False\<rparr>"


end
