(* ===== verification/Mqtt_Downlink.thy ===== *)
theory Mqtt_Downlink
  imports Cmd_Auth Fw_Session
begin

text \<open>
  Commands on their way through the ESP32: \<open>on_mqtt_data\<close> of \<open>wups_link.c\<close> takes an MQTT message,
  strips and checks its envelope, executes the two commands that are the node's own, firmware updates and
  restarts, and wraps everything else for the hub; \<open>forward_to_rp2040\<close> of \<open>arkiv_rpc.c\<close> wraps commands
  that came over the chain.  The theorem says exactly what a message puts on the wire.
\<close>

section \<open>State and constants\<close>

definition WUPS_SYS_RESET_RESULT_OK :: u8 where [simp]: "WUPS_SYS_RESET_RESULT_OK = 0"
definition WUPS_SYS_RESET_RESULT_BUSY :: u8 where [simp]: "WUPS_SYS_RESET_RESULT_BUSY = 1"
definition WUPS_SYS_RESET_RESULT_BAD_REQ :: u8 where [simp]: "WUPS_SYS_RESET_RESULT_BAD_REQ = 2"

definition sizeof_sys_reset :: nat where [simp]: "sizeof_sys_reset = 4"
definition sizeof_downlink_hdr :: nat where [simp]: "sizeof_downlink_hdr = 6"

text \<open>The restart timer: whether it has been created, and the delay it was last started with.\<close>

record ('n, 'p) downlink =
  dn_auth :: "'n cmdauth"
  dn_fw :: "'p fw_ota"
  dn_tx :: link_tx
  s_reset_timer :: bool
  dn_restart_us :: "u64 option"

record down_in =
  dl :: downlink_in
  dl_now :: u64
  dl_timer_created :: bool

section \<open>Restart on command\<close>

definition reset_resp_frame :: "u8 \<Rightarrow> u8 \<Rightarrow> u8 \<Rightarrow> bytes" where
  "reset_resp_frame dst seq result =
     (let resp = [WUPS_SYNC1, WUPS_SYNC2, dst, WUPS_ADDR_ESP32, WUPS_CLASS_SYSTEM, WUPS_OP_SYS_RESET, WUPS_FLAG_RESP,
                  seq, 1, 0, result];
          (a, b) = wups_fletcher8 (take 9 (drop 2 resp)) in
      resp @ [a, b, WUPS_END1, WUPS_END2])"

text \<open>The result and the delay of a request, from its frame and whether an update is under way.\<close>

definition reset_request :: "bool \<Rightarrow> bytes \<Rightarrow> u8 \<times> u32" where
  "reset_request in_progress frame =
     (let plen = unat (rd_u16le (drop 8 frame)); p = drop WUPS_HEADER_BYTES frame;
          delay = ucast (rd_u16le (drop 2 p)) :: u32;
          (result, delay_ms) =
            (if WUPS_FRAMING_BYTES + plen > length frame then (WUPS_SYS_RESET_RESULT_BAD_REQ, 1500)
             else if plen \<ge> sizeof_sys_reset then
               (if p ! 0 \<noteq> 1 then (WUPS_SYS_RESET_RESULT_BAD_REQ, 1500)
                else if delay \<noteq> 0 then (WUPS_SYS_RESET_RESULT_OK, min 10000 (max 500 delay))
                else (WUPS_SYS_RESET_RESULT_OK, 1500))
             else (WUPS_SYS_RESET_RESULT_OK, 1500)) in
      (if result = WUPS_SYS_RESET_RESULT_OK \<and> in_progress then WUPS_SYS_RESET_RESULT_BUSY else result, delay_ms))"

definition start_reset_timer :: "bool \<Rightarrow> u32 \<Rightarrow> ('n, 'p) downlink \<Rightarrow> ('n, 'p) downlink" where
  "start_reset_timer created delay_ms s =
     (if \<not> s_reset_timer s \<and> \<not> created then s\<lparr>dn_fw := emit Esp_Restart (dn_fw s)\<rparr>
      else s\<lparr>s_reset_timer := True, dn_restart_us := Some (ucast delay_ms * 1000)\<rparr>)"

definition try_handle_sys_reset ::
  "down_in \<Rightarrow> bytes \<Rightarrow> ('n, 'p) downlink \<Rightarrow> ('n, 'p) downlink \<times> bool" where
  "try_handle_sys_reset i frame s =
     (if length frame < WUPS_FRAMING_BYTES then (s, False)
      else if frame ! 0 \<noteq> WUPS_SYNC1 \<or> frame ! 1 \<noteq> WUPS_SYNC2 then (s, False)
      else if frame ! 4 \<noteq> WUPS_CLASS_SYSTEM \<or> frame ! 5 \<noteq> WUPS_OP_SYS_RESET then (s, False)
      else if frame ! 2 \<noteq> WUPS_ADDR_ESP32 \<and> frame ! 2 \<noteq> WUPS_ADDR_BROADCAST then (s, False)
      else if frame ! 6 AND WUPS_FLAG_REQ = 0 then (s, True)
      else let seq = frame ! 7;
               (result, delay_ms) = reset_request (s_in_progress (dn_fw s)) frame;
               s = (if dl_ack_pending (dl i) then s\<lparr>dn_fw := emit (Arkiv_Ack seq result) (dn_fw s)\<rparr>
                    else if dl_topic (dl i)
                    then s\<lparr>dn_fw := emit (Cmd_Response (reset_resp_frame (frame ! 3) seq result)) (dn_fw s)\<rparr>
                    else s) in
      if result \<noteq> WUPS_SYS_RESET_RESULT_OK then (s, True)
      else (start_reset_timer (dl_timer_created i) delay_ms s, True))"

definition wups_link_try_sys_reset ::
  "down_in \<Rightarrow> bytes \<Rightarrow> ('n, 'p) downlink \<Rightarrow> ('n, 'p) downlink \<times> bool" where
  "wups_link_try_sys_reset i frame s = try_handle_sys_reset i frame s"

section \<open>Wrapping for the hub\<close>

definition downlink_payload :: "bytes \<Rightarrow> bytes \<Rightarrow> bytes" where
  "downlink_payload topic frame =
     [1, 0, 0, of_nat (length topic)] @ le16 (of_nat (length frame)) @ topic @ frame"

definition send_downlink :: "bytes \<Rightarrow> bytes \<Rightarrow> link_tx \<Rightarrow> link_tx" where
  "send_downlink topic frame st =
     (if sizeof_downlink_hdr + length topic + length frame > WUPS_MAX_PAYLOAD then st
      else wups_link_send WUPS_ADDR_RP2040 WUPS_CLASS_NET WUPS_OP_NET_DOWNLINK WUPS_FLAG_EVENT
        (downlink_payload topic frame) st)"

definition on_mqtt_data ::
  "'n auth_env \<Rightarrow> 'p ota_api \<Rightarrow> down_in \<Rightarrow> bytes \<Rightarrow> bytes \<Rightarrow> ('n, 'p) downlink \<Rightarrow> ('n, 'p) downlink" where
  "on_mqtt_data env a i topic payload s =
     (if length topic > 200 then s
      else let (auth, stripped) = cmdauth_check_and_strip env (dl_now i) (dn_auth s) payload; s = s\<lparr>dn_auth := auth\<rparr> in
      case stripped of
        None \<Rightarrow> s
      | Some frame \<Rightarrow>
          let (fw, consumed) = fw_ota_try_handle_downlink a (dl i) frame (dn_fw s); s = s\<lparr>dn_fw := fw\<rparr> in
          if consumed then s
          else let (s, consumed) = try_handle_sys_reset i frame s in
          if consumed then s
          else s\<lparr>dn_tx := send_downlink topic frame (dn_tx s)\<rparr>)"

definition forward_to_rp2040 :: "string \<Rightarrow> bytes \<Rightarrow> link_tx \<Rightarrow> link_tx" where
  "forward_to_rp2040 iccid frame st =
     (let topic = map of_char (''c/'' @ iccid @ ''/cmd/request'') in
      if length topic \<ge> 64 then st else send_downlink topic frame st)"

definition send_hello_bcast :: "link_tx \<Rightarrow> link_tx" where
  "send_hello_bcast st =
     wups_link_send WUPS_ADDR_BROADCAST WUPS_CLASS_SYSTEM WUPS_OP_SYS_HELLO WUPS_FLAG_EVENT
       ([1, WUPS_PROTO_VERSION, WUPS_ADDR_ESP32, 0] @ le16 0x0100 @ le16 (WUPS_CAP_SYSTEM OR WUPS_CAP_NET) @ le32 0) st"

section \<open>What a message puts on the wire\<close>

text \<open>The commands the node keeps to itself, and the frame the hub gets for any other one.\<close>

definition esp_local :: "bytes \<Rightarrow> bool" where
  "esp_local frame \<longleftrightarrow> 14 \<le> length frame \<and> take 2 frame = [0xAA, 0x55] \<and>
     (frame ! 4 = WUPS_CLASS_NET \<and> frame ! 5 = WUPS_OP_NET_FW_UPDATE \<or>
      frame ! 4 = WUPS_CLASS_SYSTEM \<and> frame ! 5 = WUPS_OP_SYS_RESET \<and> frame ! 2 \<in> {WUPS_ADDR_ESP32, WUPS_ADDR_BROADCAST})"

definition downlink_frame :: "u8 \<Rightarrow> bytes \<Rightarrow> bytes \<Rightarrow> wups_frame" where
  "downlink_frame seq topic frame = \<lparr>f_dst = WUPS_ADDR_RP2040, f_src = WUPS_ADDR_ESP32, f_cls = WUPS_CLASS_NET,
     f_op = WUPS_OP_NET_DOWNLINK, f_flags = WUPS_FLAG_EVENT, f_seq = seq, f_payload = downlink_payload topic frame\<rparr>"

lemma downlink_payload_length [simp]: "length (downlink_payload topic frame) = 6 + length topic + length frame"
  by (simp add: downlink_payload_def)

lemma send_downlink_bytes:
  "uart_out (send_downlink topic frame st) = uart_out st @
     (if 6 + length topic + length frame \<le> 240 then encode (downlink_frame (s_tx_seq st) topic frame) @ [0] else [])"
  by (simp add: send_downlink_def wups_link_send_def send_frame_full_bytes downlink_frame_def)

lemma take2_nth: "2 \<le> length xs \<Longrightarrow> take 2 xs = [x, y] \<longleftrightarrow> xs ! 0 = x \<and> xs ! 1 = y"
  by (cases xs rule: remdups_adj.cases) auto

lemma fw_downlink_consumed:
  "snd (fw_ota_try_handle_downlink a i frame s) \<longleftrightarrow>
     14 \<le> length frame \<and> take 2 frame = [0xAA, 0x55] \<and> frame ! 4 = WUPS_CLASS_NET \<and> frame ! 5 = WUPS_OP_NET_FW_UPDATE"
  by (auto simp: fw_ota_try_handle_downlink_def take2_nth Let_def split: prod.split)

lemma sys_reset_consumed:
  "snd (try_handle_sys_reset i frame s) \<longleftrightarrow>
     14 \<le> length frame \<and> take 2 frame = [0xAA, 0x55] \<and> frame ! 4 = WUPS_CLASS_SYSTEM \<and> frame ! 5 = WUPS_OP_SYS_RESET \<and>
     frame ! 2 \<in> {WUPS_ADDR_ESP32, WUPS_ADDR_BROADCAST}"
  by (auto simp: try_handle_sys_reset_def take2_nth Let_def split: prod.split)

lemma sys_reset_tx [simp]: "dn_tx (fst (try_handle_sys_reset i frame s)) = dn_tx s"
  by (auto simp: try_handle_sys_reset_def start_reset_timer_def Let_def split: prod.split)

lemma mqtt_data_wire:
  "uart_out (dn_tx (on_mqtt_data env a i topic msg s)) = uart_out (dn_tx s) @
     (case snd (cmdauth_check_and_strip env (dl_now i) (dn_auth s) msg) of
        None \<Rightarrow> []
      | Some frame \<Rightarrow>
          if length topic \<le> 200 \<and> \<not> esp_local frame \<and> 6 + length topic + length frame \<le> 240
          then encode (downlink_frame (s_tx_seq (dn_tx s)) topic frame) @ [0] else [])"
proof (cases "length topic \<le> 200")
  case long: True
  obtain auth stripped where chk: "cmdauth_check_and_strip env (dl_now i) (dn_auth s) msg = (auth, stripped)" by fastforce
  show ?thesis
  proof (cases stripped)
    case None
    then show ?thesis by (simp add: on_mqtt_data_def chk)
  next
    case (Some frame)
    obtain fw c1 where fw: "fw_ota_try_handle_downlink a (dl i) frame (dn_fw s) = (fw, c1)" by fastforce
    let ?s = "s\<lparr>dn_auth := auth, dn_fw := fw\<rparr>"
    obtain t c2 where rs: "try_handle_sys_reset i frame ?s = (t, c2)" by fastforce
    have tx: "dn_tx t = dn_tx s" using sys_reset_tx [of i frame ?s] rs by simp
    have "c1 \<or> c2 \<longleftrightarrow> esp_local frame"
      using fw_downlink_consumed [of a "dl i" frame "dn_fw s"] sys_reset_consumed [of i frame ?s] fw rs
      by (auto simp: esp_local_def)
    then show ?thesis using long Some
      by (auto simp: on_mqtt_data_def Let_def chk fw rs tx send_downlink_bytes)
  qed
next
  case False
  then show ?thesis by (simp add: on_mqtt_data_def split: option.split)
qed

text \<open>
  C15. Nothing reaches the hub that the owner has not signed: a message puts exactly one frame on the wire,
  the wrapped content of its envelope, if the envelope is accepted, its content is not one of the
  node's own commands and it fits, and nothing otherwise.
\<close>

theorem downlink_wire_exact:
  "uart_out (dn_tx (on_mqtt_data env a i topic msg s)) = uart_out (dn_tx s) @
     (case snd (cmdauth_check_and_strip env (dl_now i) (dn_auth s) msg) of
        None \<Rightarrow> []
      | Some frame \<Rightarrow>
          if length topic \<le> 200 \<and> \<not> esp_local frame \<and> 6 + length topic + length frame \<le> 240
          then encode (downlink_frame (s_tx_seq (dn_tx s)) topic frame) @ [0] else [])"
  by (rule mqtt_data_wire)

text \<open>
  A restart on command never cuts an update short: the timer is started, or the restart done at
  once, only for a request that arrives with no update, transfer or relay in progress, and the
  delay is between half a second and ten seconds.
\<close>

theorem reset_spares_updates:
  assumes "try_handle_sys_reset i frame s = (t, consumed)"
  shows "(dn_restart_us t \<noteq> dn_restart_us s \<longrightarrow>
       \<not> s_in_progress (dn_fw s) \<and> (\<exists>us. dn_restart_us t = Some us \<and> 500000 \<le> us \<and> us \<le> 10000000)) \<and>
     (count_list (fw_log (dn_fw t)) Esp_Restart \<noteq> count_list (fw_log (dn_fw s)) Esp_Restart \<longrightarrow> \<not> s_in_progress (dn_fw s))"
proof -
  obtain result d where rq: "reset_request (s_in_progress (dn_fw s)) frame = (result, d)" by fastforce
  have busy: "\<not> s_in_progress (dn_fw s)" if "result = 0"
    using rq that by (auto simp: reset_request_def Let_def split: if_splits)
  have "500 \<le> d \<and> d \<le> 10000"
    using rq by (auto simp: reset_request_def Let_def min_def max_def not_le less_imp_le split: if_splits)
  then have d: "500 \<le> unat d" "unat d \<le> 10000" by (auto simp: word_le_nat_alt)
  have "unat (ucast d :: u64) = unat d"
    using unat_bound [of d] by (simp add: unsigned_ucast_eq take_bit_nat_eq_self)
  then have "unat (ucast d * 1000 :: u64) = unat d * 1000" using d by (simp add: unat_word_ariths)
  then have "500000 \<le> (ucast d * 1000 :: u64) \<and> (ucast d * 1000 :: u64) \<le> 10000000"
    using d by (simp add: word_le_nat_alt)
  then show ?thesis using assms busy rq
    by (auto simp: try_handle_sys_reset_def start_reset_timer_def Let_def split: if_splits)
qed

definition sample_reset :: wups_frame where
  "sample_reset = \<lparr>f_dst = 0xFF, f_src = 1, f_cls = 1, f_op = 5, f_flags = 1, f_seq = 9, f_payload = [1, 0, 0xD0, 0x07]\<rparr>"

definition sample_downlink :: "(ram \<times> ram, part \<times> bytes) downlink" where
  "sample_downlink = \<lparr>dn_auth = cmdauth_boot (sample_store, sample_store), dn_fw = ram_boot,
     dn_tx = \<lparr>s_tx_seq = 0, s_frames_tx = 0, s_bytes_tx = 0, uart_out = []\<rparr>, s_reset_timer = False, dn_restart_us = None\<rparr>"

definition sample_down_in :: down_in where
  "sample_down_in = \<lparr>dl = \<lparr>dl_conf = sample_conf, dl_ppp_up = True, dl_task_created = True, dl_ack_pending = False, dl_topic = True\<rparr>,
     dl_now = 0, dl_timer_created = True\<rparr>"

theorem reset_spares_updates_witness:
  "\<exists>t. try_handle_sys_reset sample_down_in (encode sample_reset) sample_downlink = (t, True) \<and>
     dn_restart_us t = Some 2000000 \<and> \<not> s_in_progress (dn_fw sample_downlink)"
proof -
  obtain t c where run: "try_handle_sys_reset sample_down_in (encode sample_reset) sample_downlink = (t, c)" by fastforce
  have "reset_request False (encode sample_reset) = (0, 2000)" by code_simp
  moreover have "s_in_progress (dn_fw sample_downlink) = False" by (simp add: sample_downlink_def fw_boot_def)
  moreover have "length (encode sample_reset) = 18" "encode sample_reset ! 0 = 0xAA" "encode sample_reset ! 1 = 0x55"
    "encode sample_reset ! 4 = 1" "encode sample_reset ! 5 = 5" "encode sample_reset ! 2 = 0xFF" "encode sample_reset ! 6 = 1"
    by code_simp+
  ultimately have out: "c \<and> dn_restart_us t = Some 2000000"
    using run by (auto simp: try_handle_sys_reset_def start_reset_timer_def sample_down_in_def Let_def split: if_splits)
  moreover have "dn_restart_us sample_downlink = None" by (simp add: sample_downlink_def)
  ultimately show ?thesis using reset_spares_updates [OF run] run by auto
qed

end
