(* ===== verification/Command_Path.thy ===== *)
theory Command_Path
  imports Rp_Main Mqtt_Downlink Ch32_Loop
begin

text \<open>
  A command on its way through all three controllers: the message that arrives over MQTT at the ESP32
  (\<open>Mqtt_Downlink\<close>), the serial line to the hub, its receiver, dispatcher and router
  (\<open>Rp_Router\<close>, \<open>Rp_Main\<close>), the serial line to the power controller, its receive ring and its
  handler (\<open>Ch32_Main\<close>, \<open>Ch32_Loop\<close>).  Each hop is a lemma about the models of that node.
\<close>

section \<open>At the hub: one frame\<close>

lemma fold_keeps: "(\<And>p s. g (F p s) = g s) \<Longrightarrow> g (fold F ps s) = g s"
  by (induction ps arbitrary: s) simp_all

lemma route_rx:
  assumes "\<And>s. port_rx (on_local s) = port_rx s"
  shows "port_rx (wups_route_frame on_local inb f s) = port_rx s"
  by (simp add: wups_route_frame_def Let_def fold_keeps [where g = port_rx] assms)

lemma rx_view_start: "rx_state r = WUPS_RX_SYNC1 \<Longrightarrow> rx_view r = []"
  by simp

lemma hunting_guard: "rx_state r = WUPS_RX_SYNC1 \<Longrightarrow> rp_rx_byte 0 r = (r, None)"
  by simp

declare rp_rx_byte.simps [simp del]

lemma deframe_snoc:
  "fst (deframe step s (bs @ [b])) = fst (step (fst (deframe step s bs)) b)"
  "snd (deframe step s (bs @ [b])) =
     snd (deframe step s bs) @ (case snd (step (fst (deframe step s bs)) b) of None \<Rightarrow> [] | Some f \<Rightarrow> [f])"
  by (simp_all add: deframe_append split: prod.splits option.splits)

lemma port_byte_step:
  "rp_step (port_rx s p) b = (r, out) \<Longrightarrow> port_byte on_local p b s =
     (case out of None \<Rightarrow> s\<lparr>port_rx := (port_rx s)(p := r)\<rparr>
      | Some f \<Rightarrow> rp_deliver_frame on_local p f (s\<lparr>port_rx := (port_rx s)(p := r)\<rparr>))"
  by (simp add: port_byte_def rp_step_def Let_def)

lemma quiet_bytes:
  "snd (deframe rp_step (port_rx s p) bs) = [] \<Longrightarrow>
     fold (port_byte on_local p) bs s = s\<lparr>port_rx := (port_rx s)(p := fst (deframe rp_step (port_rx s p) bs))\<rparr>"
proof (induction bs arbitrary: s)
  case (Cons b bs)
  obtain r out where st: "rp_step (port_rx s p) b = (r, out)" by fastforce
  have out: "out = None" "snd (deframe rp_step r bs) = []"
    using Cons.prems by (simp_all add: snd_deframe_Cons st split: option.splits del: deframe.simps(2))
  show ?case using Cons.IH [of "s\<lparr>port_rx := (port_rx s)(p := r)\<rparr>"] out
    by (simp add: port_byte_step [OF st] fst_deframe_Cons st del: deframe.simps(2))
      (rule arg_cong [where f = "\<lambda>z. s\<lparr>port_rx := z\<rparr>"], auto)
qed simp

text \<open>A receiver that is looking for a frame delivers it with its last byte, and ignores the guard byte.\<close>

lemma receives_frame:
  assumes "rx_ok (port_rx s p)" and "rx_state (port_rx s p) = WUPS_RX_SYNC1" and "frame_fits f"
    and keep: "\<And>t. port_rx (on_local p f t) = port_rx t"
  obtains r where "rx_state r = WUPS_RX_SYNC1"
    "fold (port_byte on_local p) (encode f @ [0]) s =
       rp_deliver_frame on_local p f (s\<lparr>port_rx := (port_rx s)(p := r)\<rparr>)"
proof -
  let ?r = "port_rx s p"
  obtain bs b where enc: "encode f = bs @ [b]" using encode_ends by (metis append_assoc)
  have view: "rx_view ?r = []" using assms(2) by (rule rx_view_start)
  note all = rp.round_trip [OF assms(1) disjI1 [OF view] assms(3), unfolded enc]
  have none: "snd (deframe rp_step ?r bs) = []"
  proof (rule ccontr)
    assume some: "snd (deframe rp_step ?r bs) \<noteq> []"
    then have "f \<in> set (snd (deframe rp_step ?r bs))"
      using all(2) by (cases "snd (deframe rp_step ?r bs)") (auto simp: deframe_snoc(2))
    then obtain pre suf where "bs = pre @ encode f @ suf"
      using rp.sound [OF assms(1), of f bs] unfolding view by auto
    then have "length (encode f) \<le> length bs" by simp
    then show False by (simp add: enc)
  qed
  let ?m = "fst (deframe rp_step ?r bs)"
  define s1 where "s1 = s\<lparr>port_rx := (port_rx s)(p := ?m)\<rparr>"
  obtain r out where st: "rp_step (port_rx s1 p) b = (r, out)" by fastforce
  then have st': "rp_step ?m b = (r, out)" by (simp add: s1_def)
  have out: "out = Some f" using all(2) none by (simp add: deframe_snoc(2) st' split: option.splits)
  have r: "rx_state r = WUPS_RX_SYNC1"
    using all(1) unfolding deframe_snoc(1) st' fst_conv by (rule rx_view_Nil)
  let ?t = "rp_deliver_frame on_local p f (s\<lparr>port_rx := (port_rx s)(p := r)\<rparr>)"
  have "port_byte on_local p b s1 = ?t" unfolding port_byte_step [OF st] out by (simp add: s1_def)
  moreover have "fold (port_byte on_local p) bs s = s1" unfolding s1_def by (rule quiet_bytes [OF none])
  moreover have "port_rx ?t p = r" by (simp add: rp_deliver_frame_def route_rx [OF keep])
  then have "rp_step (port_rx ?t p) 0 = (port_rx ?t p, None)" using hunting_guard [OF r] by (simp add: rp_step_def)
  then have "port_byte on_local p 0 ?t = ?t" by (simp add: port_byte_step)
  ultimately have "fold (port_byte on_local p) (encode f @ [0]) s = ?t" by (simp add: enc)
  with r show ?thesis by (rule that)
qed

section \<open>At the hub: a wrapped command\<close>

lemma unwrap_wrapped:
  assumes "frame_fits g" and "length topic \<le> 200"
  shows "unwrap_downlink (downlink_payload topic (encode g)) = Some g"
proof -
  obtain a b where ck: "wups_fletcher8 (frame_body g) = (a, b)" by fastforce
  let ?n = "length (f_payload g)" and ?e = "encode g" and ?p = "downlink_payload topic (encode g)"
  have n: "?n \<le> 240" using assms(1) by (simp add: frame_fits_def)
  have len: "length ?e = 14 + ?n" by (simp add: encode_length)
  have hdr: "?p ! 0 = 1" "unat (?p ! 3) = length topic" "rd_u16le (drop 4 ?p) = of_nat (length ?e)"
    using assms(2) by (simp_all only: downlink_payload_def append.simps nth_Cons_0 nth_Cons_numeral drop_Cons_numeral)
      (simp_all add: rd_u16le_le16 unat_of_nat_small)
  have flen: "unat (rd_u16le (drop 4 ?p)) = 14 + ?n" unfolding hdr(3) len using n by (subst unat_of_nat_small) simp_all
  let ?h = "[1, 0, 0, of_nat (length topic)] @ le16 (of_nat (length ?e)) @ topic"
  have "?p = ?h @ ?e" "length ?h = 6 + length topic" by (simp_all add: downlink_payload_def)
  then have rest: "drop (6 + length topic) ?p = ?e" by (metis append_eq_conv_conj)
  have inner_len: "unat (rd_u16le (drop 8 ?e)) = ?n"
    using unat_payload_len [OF assms(1)] by (simp add: encode_parts [OF ck] rd_u16le_le16)
  have start: "?e ! 0 = 0xAA" "?e ! 1 = 0x55" by (simp_all add: encode_parts [OF ck])
  have body: "take (8 + ?n) (drop 2 ?e) = frame_body g" by (simp add: encode_def ck)
  have tail: "?e ! (10 + ?n) = a" "?e ! (10 + ?n + 1) = b" "?e ! (10 + ?n + 2) = 0x55" "?e ! (10 + ?n + 3) = 0xAA"
    by (simp_all add: encode_parts [OF ck] nth_append le16_def)
  have "decode_frame ?e = g" by (rule decode_encode [OF assms(1)])
  then have "\<lparr>f_dst = ?e ! 2, f_src = ?e ! 3, f_cls = ?e ! 4, f_op = ?e ! 5, f_flags = ?e ! 6, f_seq = ?e ! 7,
      f_payload = take ?n (drop 10 ?e)\<rparr> = g" by (simp add: decode_frame_def inner_len)
  moreover have "6 + length topic + (14 + ?n) \<le> length ?p" by (simp add: len)
  moreover have "foldl fletcher_step (0, 0) (take (8 + ?n) (drop 2 ?e)) = (a, b)"
    using ck by (simp add: body wups_fletcher8_def)
  ultimately show ?thesis unfolding unwrap_downlink_def Let_def
    using n hdr(1,2) flen rest inner_len start tail by simp
qed

definition power_command :: "wups_frame \<Rightarrow> bool" where
  "power_command g \<longleftrightarrow> frame_fits g \<and> f_cls g = WUPS_CLASS_POWER \<and> f_flags g AND WUPS_FLAG_REQ \<noteq> 0 \<and>
     f_dst g \<in> {WUPS_ADDR_CH32X, WUPS_ADDR_INTERNAL, WUPS_ADDR_BROADCAST} \<and>
     f_op g \<in> {WUPS_OP_PWR_ENABLE, WUPS_OP_PWR_DISABLE, WUPS_OP_PWR_CYCLE, WUPS_OP_PWR_RESET}"

lemma response_keeps:
  "port_wire (wupsPublishCmdResponse cls op seq code s) 2 = port_wire s 2"
  "port_rx (wupsPublishCmdResponse cls op seq code s) = port_rx s"
  "port_up (wupsPublishCmdResponse cls op seq code s) = port_up s"
  by (simp_all add: wupsPublishCmdResponse_def publish_built_def wupsRequestPublish_def rp_send_def send_writes)

lemma local_command:
  assumes "power_command g"
  shows "wups_on_local_frame i 3 g s =
     wupsPublishCmdResponse (f_cls g) (f_op g) (f_seq g) 0 (s\<lparr>fw := fw_update_note_frame_ok (in_fs i) (fw s)\<rparr>)"
  using assms by (auto simp: wups_on_local_frame.simps power_command_def local_op_def flag_def Let_def)

lemma command_routed:
  assumes "power_command g" and "port_up s 2"
  shows "port_wire (wups_route_frame (wups_on_local_frame i 3 g) 3 g s) 2 = port_wire s 2 @ encode g @ [0]"
    and "port_rx (wups_route_frame (wups_on_local_frame i 3 g) 3 g s) = port_rx s"
proof -
  have fits: "frame_fits g" using assms(1) by (simp add: power_command_def)
  have ports: "2 \<in> route_ports 3 g" using assms(1) by (auto simp: power_command_def route_ports_def addr_to_port_def)
  show "port_wire (wups_route_frame (wups_on_local_frame i 3 g) 3 g s) 2 = port_wire s 2 @ encode g @ [0]"
    using route_wire [OF fits refl, of "wups_on_local_frame i 3 g" 3 s 2] ports assms(2)
    by (simp add: local_command [OF assms(1)] response_keeps)
  show "port_rx (wups_route_frame (wups_on_local_frame i 3 g) 3 g s) = port_rx s"
    by (rule route_rx) (simp add: local_command [OF assms(1)] response_keeps)
qed

lemma hub_passes_command:
  assumes "power_command g" and "length topic \<le> 200" and "6 + length topic + length (encode g) \<le> 240"
    and "rx_ok (port_rx h 3)" and "rx_state (port_rx h 3) = WUPS_RX_SYNC1" and "port_up h 2"
  shows "port_wire (fold (port_byte (wups_on_local_frame i) 3) (encode (downlink_frame seq topic (encode g)) @ [0]) h) 2 =
     port_wire h 2 @ encode g @ [0]"
proof -
  let ?d = "downlink_frame seq topic (encode g)"
  have fits: "frame_fits ?d" using assms(3) by (simp add: frame_fits_def downlink_frame_def)
  have "unwrap_downlink (f_payload ?d) = Some g"
    using unwrap_wrapped [of g topic] assms(1,2) by (simp add: power_command_def downlink_frame_def)
  then have run: "wups_on_local_frame i 3 ?d t =
      wups_route_frame (wups_on_local_frame i 3 g) 3 g (t\<lparr>fw := fw_update_note_frame_ok (in_fs i) (fw t)\<rparr>)" for t
    by (subst wups_on_local_frame.simps) (simp add: downlink_frame_def flag_def Let_def)
  have up: "port_rx (wups_on_local_frame i 3 ?d t) = port_rx t" for t
  proof -
    have "port_rx (wups_route_frame (wups_on_local_frame i 3 g) 3 g u) = port_rx u" for u :: "'a rp_main"
      by (rule route_rx) (simp add: local_command [OF assms(1)] response_keeps)
    then show ?thesis by (simp add: run)
  qed
  obtain r where r: "fold (port_byte (wups_on_local_frame i) 3) (encode ?d @ [0]) h =
      rp_deliver_frame (wups_on_local_frame i) 3 ?d (h\<lparr>port_rx := (port_rx h)(3 := r)\<rparr>)"
    by (rule receives_frame [OF assms(4,5) fits, of "wups_on_local_frame i"]) (simp_all add: up)
  have self: "wups_route_frame ol 3 ?d t = ol t" for ol :: "'a rp_main \<Rightarrow> 'a rp_main" and t
    by (simp add: wups_route_frame_def downlink_frame_def)
  show ?thesis unfolding r rp_deliver_frame_def self run
    using assms(6) by (simp add: command_routed [OF assms(1)])
qed

section \<open>From the broker to the power switch\<close>

definition command_accepted :: "'n auth_env \<Rightarrow> u64 \<Rightarrow> 'n cmdauth \<Rightarrow> u32 \<Rightarrow> u64 \<Rightarrow> u64 \<Rightarrow> bytes \<Rightarrow> bytes \<Rightarrow> bool" where
  "command_accepted env now s epoch ctr expiry frame sig \<longleftrightarrow>
     s_ready s \<and> length sig = ENV_SIG_LEN \<and> epoch = s_cur_epoch s \<and>
     signed_by env (s_op_pub s) (wae1 epoch ctr expiry frame) sig \<and> s_last_ctr s < ctr \<and> \<not> env_expired now expiry"

lemma command_not_local: "power_command g \<Longrightarrow> \<not> esp_local (encode g)"
  by (simp add: esp_local_def power_command_def encode_def frame_body_def split: prod.split)

lemma command_sent:
  assumes "power_command g" and "length topic \<le> 200" and "length topic + length (f_payload g) \<le> 220"
  shows "uart_out (dn_tx (on_mqtt_data env a i topic (wae1 epoch ctr expiry (encode g) @ sig) d)) = uart_out (dn_tx d) @
     (if command_accepted env (dl_now i) (dn_auth d) epoch ctr expiry (encode g) sig
      then encode (downlink_frame (s_tx_seq (dn_tx d)) topic (encode g)) @ [0] else [])"
proof -
  have "length (encode g) < 2 ^ 16" using assms(3) by (simp add: encode_length)
  then show ?thesis using assms command_not_local [OF assms(1)]
    by (auto simp: mqtt_data_wire check_wae1 command_accepted_def encode_length)
qed


text \<open>The owner switches the output off.\<close>

definition sample_off :: wups_frame where
  "sample_off = \<lparr>f_dst = 0xFF, f_src = 1, f_cls = 2, f_op = 3, f_flags = 1, f_seq = 7, f_payload = []\<rparr>"

definition sample_device :: "(ram \<times> ram, part \<times> bytes) downlink" where
  "sample_device = sample_downlink\<lparr>dn_auth := (dn_auth sample_downlink)\<lparr>s_ready := True, s_op_pub := replicate 64 7, s_cur_epoch := 3\<rparr>\<rparr>"

definition sample_envelope :: bytes where
  "sample_envelope = wae1 3 5 0 (encode sample_off)"


end
