(* ===== verification/Http_Backend.thy ===== *)
theory Http_Backend
  imports Mqtt_Downlink Ota_Http Power_Status
begin

text \<open>
  The HTTP control mode, \<open>http_backend.c\<close>: every 30 seconds one signed POST carries telemetry and the
  acknowledgements of commands, and its answer brings new commands.  The reader and printer of JSON
  text, the digest and the transport are parameters; an answer is the list of events the HTTP client raises.  The theorems
  are the delivery contract with the server: a command is executed at most once, and only if the answer that
  brought it is signed for this very request.
\<close>

section \<open>State\<close>

definition HTTP_RESP_MAX :: nat where [simp]: "HTTP_RESP_MAX = 2048"
definition HTTP_BODY_MAX :: nat where [simp]: "HTTP_BODY_MAX = 2048"
definition HTTP_FRESHNESS_MS :: int where [simp]: "HTTP_FRESHNESS_MS = 90000"
definition ACK_ID_MAX :: nat where [simp]: "ACK_ID_MAX = 48"
definition ACK_PENDING_MAX :: nat where [simp]: "ACK_PENDING_MAX = 8"
definition CMDS_PER_RESP_MAX :: nat where [simp]: "CMDS_PER_RESP_MAX = ACK_PENDING_MAX"
definition EXEC_RING_MAX :: nat where [simp]: "EXEC_RING_MAX = 16"
definition REJ_MAX :: nat where [simp]: "REJ_MAX = 4"
definition TLM_MAX_INNER :: nat where [simp]: "TLM_MAX_INNER = 64"
definition HMAC_BLOCK :: nat where [simp]: "HMAC_BLOCK = 64"

record slot_t =
  sl_valid :: bool
  sl_observed_us :: int
  sl_data :: bytes

text \<open>\<open>applied\<close> is the log: the identifiers of the commands that were dispatched, in order.\<close>

record http =
  s_slots :: "slot_t list"
  s_pending :: "string list"
  s_executed :: "string list"
  s_exec_idx :: nat
  s_rejected :: "(string \<times> string) list"
  s_resp_dropped :: "bool \<times> u32"
  s_cmd_seq :: u8
  s_resp :: bytes
  s_resp_total :: nat
  s_resp_sig :: string
  s_last_success_s :: u32
  http_tx :: link_tx
  applied :: "string list"

text \<open>A JSON document; a number is its integer reading (\<open>valueint\<close>).  A missing member is \<open>None\<close>, and so is
  every member of anything that is not an object.\<close>

datatype json = JNull | JNum int | JStr string | JArr "json list" | JObj "(string \<times> json) list"

fun item :: "json option \<Rightarrow> string \<Rightarrow> json option" where
  "item (Some (JObj ms)) k = map_of ms k"
| "item j k = None"

fun text_of :: "json option \<Rightarrow> string option" where
  "text_of (Some (JStr t)) = Some t"
| "text_of j = None"

definition jc_id :: "json \<Rightarrow> string option" where "jc_id c = text_of (item (Some c) ''id'')"
definition jc_cmd :: "json \<Rightarrow> string option" where "jc_cmd c = text_of (item (Some c) ''cmd'')"
definition jc_args :: "json \<Rightarrow> json option" where "jc_args c = item (Some c) ''args''"

definition json_cmds :: "json \<Rightarrow> json list" where
  "json_cmds root = (case item (Some root) ''commands'' of Some (JArr cs) \<Rightarrow> cs | j \<Rightarrow> [])"

text \<open>The platform: SHA-256, the parser, the printer into a buffer of a given size, and the version text.\<close>

record http_env =
  sha :: "bytes \<Rightarrow> bytes"
  parse :: "bytes \<Rightarrow> json option"
  render :: "nat \<Rightarrow> json \<Rightarrow> bytes option"
  fw_version :: string

section \<open>Telemetry cache\<close>

definition slot_for :: "u8 \<Rightarrow> u8 \<Rightarrow> nat option" where
  "slot_for cls op =
     (if cls = WUPS_CLASS_POWER \<and> op = WUPS_OP_PWR_STATUS then Some 0
      else if cls = WUPS_CLASS_HOST \<and> op = WUPS_OP_HOST_STATUS then Some 1
      else if cls = WUPS_CLASS_NET \<and> op = WUPS_OP_NET_STATUS then Some 2
      else None)"

definition http_backend_observe_telemetry_frame :: "int \<Rightarrow> bytes \<Rightarrow> http \<Rightarrow> http" where
  "http_backend_observe_telemetry_frame now_us frame s =
     (if length frame < WUPS_HEADER_BYTES + 2 then s
      else let inner_len = unat (rd_u16le (drop 8 frame)) in
      if WUPS_HEADER_BYTES + inner_len + 2 > length frame then s
      else if inner_len = 0 \<or> inner_len > TLM_MAX_INNER then s
      else case slot_for (frame ! 4) (frame ! 5) of
        None \<Rightarrow> s
      | Some k \<Rightarrow> s\<lparr>s_slots := (s_slots s)[k := \<lparr>sl_valid = True, sl_observed_us = now_us,
            sl_data = take inner_len (drop WUPS_HEADER_BYTES frame)\<rparr>]\<rparr>)"

definition take_slot :: "int \<Rightarrow> nat \<Rightarrow> nat \<Rightarrow> http \<Rightarrow> bytes" where
  "take_slot now_us idx cap s =
     (let sl = s_slots s ! idx in
      if sl_valid sl \<and> sl_observed_us sl \<ge> now_us - HTTP_FRESHNESS_MS * 1000 \<and> length (sl_data sl) \<le> cap
      then sl_data sl else [])"

section \<open>Signatures\<close>

definition k_pad :: "u8 \<Rightarrow> bytes \<Rightarrow> bytes" where
  "k_pad x key = map (\<lambda>b. b XOR x) (key @ replicate (HMAC_BLOCK - length key) 0)"

definition hmac_sha256_3 :: "(bytes \<Rightarrow> bytes) \<Rightarrow> bytes \<Rightarrow> bytes \<Rightarrow> bytes \<Rightarrow> bytes \<Rightarrow> bytes" where
  "hmac_sha256_3 H key s1 s2 s3 =
     (let key = (if length key > HMAC_BLOCK then H key else key);
          inner = H (k_pad 0x36 key @ s1 @ s2 @ s3) in
      H (k_pad 0x5C key @ inner))"

definition mac_to_hex :: "bytes \<Rightarrow> string" where
  "mac_to_hex mac = concat (map (\<lambda>b. [''0123456789abcdef'' ! unat (drop_bit 4 b), ''0123456789abcdef'' ! unat (b AND 0xF)]) mac)"

definition sign_request :: "(bytes \<Rightarrow> bytes) \<Rightarrow> bytes \<Rightarrow> string \<Rightarrow> string \<Rightarrow> bytes \<Rightarrow> string" where
  "sign_request H key ts nonce body = mac_to_hex (hmac_sha256_3 H key (map of_char ts) (map of_char nonce) body)"

text \<open>\<open>same_name\<close> is the comparison without regard to case.\<close>

definition verify_response_sig :: "(bytes \<Rightarrow> bytes) \<Rightarrow> bytes \<Rightarrow> string \<Rightarrow> bytes \<Rightarrow> string \<Rightarrow> bool" where
  "verify_response_sig H key req_nonce body provided \<longleftrightarrow>
     provided \<noteq> [] \<and> same_name (mac_to_hex (hmac_sha256_3 H key (map of_char req_nonce) body [])) provided"

section \<open>Acknowledgements and refusals\<close>

definition exec_seen :: "string \<Rightarrow> http \<Rightarrow> bool" where
  "exec_seen cid s \<longleftrightarrow> list_ex (\<lambda>e. e \<noteq> [] \<and> e = cid) (s_executed s)"

definition exec_add :: "string \<Rightarrow> http \<Rightarrow> http" where
  "exec_add cid s = s\<lparr>s_executed := (s_executed s)[s_exec_idx s := take (ACK_ID_MAX - 1) cid],
     s_exec_idx := (s_exec_idx s + 1) mod EXEC_RING_MAX\<rparr>"

definition ack_add :: "string \<Rightarrow> http \<Rightarrow> http" where
  "ack_add cid s =
     (if cid \<in> set (s_pending s) then s
      else let p = (if length (s_pending s) \<ge> ACK_PENDING_MAX then drop 1 (s_pending s) else s_pending s) in
      s\<lparr>s_pending := p @ [take (ACK_ID_MAX - 1) cid]\<rparr>)"

definition ack_drop_front :: "nat \<Rightarrow> http \<Rightarrow> http" where
  "ack_drop_front n s = s\<lparr>s_pending := drop n (s_pending s)\<rparr>"

fun rej_refresh :: "string \<Rightarrow> string \<Rightarrow> (string \<times> string) list \<Rightarrow> (string \<times> string) list option" where
  "rej_refresh tid reason [] = None"
| "rej_refresh tid reason ((i, r) # rs) =
     (if i = tid then Some ((i, reason) # rs) else map_option ((#) (i, r)) (rej_refresh tid reason rs))"

definition rej_add :: "string \<Rightarrow> string \<Rightarrow> http \<Rightarrow> http" where
  "rej_add cid reason s =
     (let tid = take (ACK_ID_MAX - 1) cid in
      case rej_refresh tid reason (s_rejected s) of
        Some rs \<Rightarrow> s\<lparr>s_rejected := rs\<rparr>
      | None \<Rightarrow>
          let rs = (if length (s_rejected s) \<ge> REJ_MAX then drop 1 (s_rejected s) else s_rejected s) in
          s\<lparr>s_rejected := rs @ [(tid, reason)]\<rparr>)"

definition rej_drop_front :: "nat \<Rightarrow> http \<Rightarrow> http" where
  "rej_drop_front n s = s\<lparr>s_rejected := drop n (s_rejected s)\<rparr>"

section \<open>Commands\<close>

definition encode_frame :: "nat \<Rightarrow> u8 \<Rightarrow> u8 \<Rightarrow> u8 \<Rightarrow> u8 \<Rightarrow> u8 \<Rightarrow> u8 \<Rightarrow> bytes \<Rightarrow> bytes" where
  "encode_frame cap dst src cls op flags seq payload =
     (if WUPS_HEADER_BYTES + length payload + 4 > cap \<or> length payload > WUPS_MAX_PAYLOAD then []
      else let n = of_nat (length payload) :: u16;
               out = [WUPS_SYNC1, WUPS_SYNC2, dst, src, cls, op, flags, seq,
                      ucast (n AND 0xFF), ucast (drop_bit 8 n AND 0xFF)] @ payload;
               (a, b) = foldl fletcher_step (0, 0) (drop 2 out) in
      out @ [a, b, WUPS_END1, WUPS_END2])"

definition json_int :: "json option \<Rightarrow> string \<Rightarrow> int \<Rightarrow> int" where
  "json_int args key dflt = (case item args key of Some (JNum v) \<Rightarrow> v | j \<Rightarrow> dflt)"

definition clamp :: "int \<Rightarrow> int \<Rightarrow> int" where
  "clamp hi v = (if v < 0 then 0 else if v > hi then hi else v)"

definition build_cmd_payload :: "string \<Rightarrow> json option \<Rightarrow> nat \<Rightarrow> (u8 \<times> u8 \<times> bytes) option" where
  "build_cmd_payload cmd args pl_cap =
     (if cmd = ''host.shutdown'' \<or> cmd = ''host.reset'' then
        if pl_cap < 4 then None
        else Some (WUPS_CLASS_HOST, if cmd ! 5 = CHR ''s'' then WUPS_OP_HOST_SHUTDOWN else WUPS_OP_HOST_RESET,
               [1, 2] @ le16 (word_of_int (clamp 0xFFFF (json_int args ''delay_s'' 5))))
      else if cmd = ''power.cycle'' then
        if pl_cap < 4 then None
        else Some (WUPS_CLASS_POWER, WUPS_OP_PWR_CYCLE,
               [1, 0] @ le16 (word_of_int (clamp 60000 (json_int args ''off_ms'' 1500))))
      else if cmd = ''ui.beep'' then
        if pl_cap < 6 then None
        else Some (WUPS_CLASS_UI, WUPS_OP_UI_BEEP,
               [1, 0] @ le16 (word_of_int (clamp 0xFFFF (json_int args ''freq_hz'' 0))) @
               le16 (word_of_int (clamp 0xFFFF (json_int args ''dur_ms'' 0))))
      else if cmd = ''ui.display_msg'' then
        let text = (case text_of (item args ''text'') of Some t \<Rightarrow> t | None \<Rightarrow> []); tl = min 64 (length text) in
        if pl_cap < 4 + tl then None
        else Some (WUPS_CLASS_UI, WUPS_OP_UI_DISPLAY_MSG,
               [1, word_of_int (clamp 0xFF (json_int args ''line'' 0)), of_nat tl, 0] @ map of_char (take tl text))
      else None)"

definition cmd_known :: "string \<Rightarrow> bool" where
  "cmd_known cmd \<longleftrightarrow>
     cmd \<in> set [''host.shutdown'', ''host.reset'', ''power.cycle'', ''ui.beep'', ''ui.display_msg'']"

definition dispatch_command :: "string \<Rightarrow> json option \<Rightarrow> http \<Rightarrow> http \<times> bool" where
  "dispatch_command cmd args s =
     (case build_cmd_payload cmd args 80 of
        None \<Rightarrow> (s, False)
      | Some (cls, op, pl) \<Rightarrow>
          let inner = encode_frame WUPS_MAX_FRAME WUPS_ADDR_BROADCAST WUPS_ADDR_RPI cls op WUPS_FLAG_REQ (s_cmd_seq s) pl;
              s = s\<lparr>s_cmd_seq := s_cmd_seq s + 1\<rparr>; topic = map of_char ''http'' in
          if inner = [] then (s, False)
          else if sizeof_downlink_hdr + length topic + length inner > WUPS_MAX_PAYLOAD then (s, False)
          else (s\<lparr>http_tx := wups_link_send WUPS_ADDR_RP2040 WUPS_CLASS_NET WUPS_OP_NET_DOWNLINK WUPS_FLAG_EVENT
                  (downlink_payload topic inner) (http_tx s)\<rparr>, True))"

section \<open>Answers\<close>

text \<open>One command of an answer.\<close>

definition handle_cmd :: "json \<Rightarrow> http \<Rightarrow> http" where
  "handle_cmd c s =
     (let cid = (case jc_id c of Some i \<Rightarrow> i | None \<Rightarrow> []) in
      if length cid = 0 \<or> length cid \<ge> ACK_ID_MAX then rej_add cid ''bad_id'' s
      else if exec_seen cid s then ack_add cid s
      else case jc_cmd c of
        None \<Rightarrow> rej_add cid ''bad_args'' s
      | Some cmd \<Rightarrow>
          if \<not> cmd_known cmd then rej_add cid ''unsupported_cmd'' s
          else case dispatch_command cmd (jc_args c) s of
            (s, True) \<Rightarrow> ack_add cid (exec_add cid (s\<lparr>applied := applied s @ [cid]\<rparr>))
          | (s, False) \<Rightarrow> rej_add cid ''bad_args'' s)"

definition handle_response :: "http_env \<Rightarrow> bytes \<Rightarrow> bytes \<Rightarrow> string \<Rightarrow> string \<Rightarrow> http \<Rightarrow> http" where
  "handle_response env json key req_nonce resp_sig s =
     (if json = [] then s
      else case parse env json of
        None \<Rightarrow> s
      | Some root \<Rightarrow>
          let cmds = json_cmds root in
          if cmds \<noteq> [] \<and> \<not> verify_response_sig (sha env) key req_nonce json resp_sig then s
          else fold handle_cmd (take CMDS_PER_RESP_MAX cmds) s)"

datatype http_evt = On_Header string string | On_Data bytes

definition resp_evt :: "http_evt \<Rightarrow> http \<Rightarrow> http" where
  "resp_evt e s =
     (case e of
        On_Header k v \<Rightarrow> if same_name k ''X-W3PUPS-Sig'' then s\<lparr>s_resp_sig := take 64 v\<rparr> else s
      | On_Data d \<Rightarrow>
          let s = s\<lparr>s_resp_total := s_resp_total s + length d\<rparr>; room = HTTP_RESP_MAX - 1 - length (s_resp s) in
          s\<lparr>s_resp := s_resp s @ take room d\<rparr>)"

section \<open>Requests\<close>

definition num :: "string \<Rightarrow> 'a::len word \<Rightarrow> string \<times> json" where
  "num k w = (k, JNum (uint w))"

definition snum :: "string \<Rightarrow> 'a::len word \<Rightarrow> string \<times> json" where
  "snum k w = (k, JNum (sint w))"

definition add_net_telemetry :: "bytes \<Rightarrow> (string \<times> json) list" where
  "add_net_telemetry raw =
     (if length raw < sizeof_net_status_v1 then []
      else [(''net'', JObj ([num ''state'' (raw ! 1), snum ''rssi_dbm'' (raw ! 2), snum ''rsrp_dbm'' (raw ! 3), snum ''rsrq_db'' (raw ! 4)] @
        (if raw ! 0 = 3 \<and> length raw \<ge> sizeof_net_status_v3 \<and> -20 \<le> sint (raw ! 30) \<and> sint (raw ! 30) \<le> 30
         then [snum ''sinr_db'' (raw ! 30)] else []) @
        [num ''bytes_tx'' (rd_u32le (drop 12 raw)), num ''bytes_rx'' (rd_u32le (drop 16 raw))]))])"

definition power_json_v2 :: "wups_power_status_view \<Rightarrow> json" where
  "power_json_v2 ps = (let p = view_v2 ps in
     JObj [(''version'', JNum 2), num ''flags'' (p2_flags p), num ''charge_state'' (p2_charge_state p),
       num ''vbus_in_mv'' (p2_vbus_in_mV p), num ''pd_in_mv'' (p2_pd_in_mV p), num ''pd_in_ma'' (p2_pd_in_mA p),
       num ''vbus_out_mv'' (p2_vbus_out_mV p), num ''vout_set_mv'' (p2_vout_set_mV p), num ''vout_read_mv'' (p2_vout_read_mV p),
       num ''iout_limit_ma'' (p2_iout_limit_mA p), num ''pd_out_mv'' (p2_pd_out_mV p), num ''pd_out_ma'' (p2_pd_out_mA p),
       num ''vbat_mv'' (p2_vbat_mV p), snum ''ibat_ma'' (p2_ichg_mA p), num ''vsys_mv'' (p2_vsys_mV p), num ''iin_ma'' (p2_iin_mA p),
       snum ''temp_lm_dc'' (p2_temp_lm_dC p),
       if temp_mp_valid ps then snum ''temp_mp_dc'' (p2_temp_mp_dC p) else (''temp_mp_dc'', JNull),
       snum ''temp_dc'' (temp_agg_dC ps), num ''faults'' (p2_faults p), num ''uptime_s'' (p2_uptime_s p)])"

definition power_json_v1 :: "wups_power_status_view \<Rightarrow> json" where
  "power_json_v1 ps = (let p = view_v1 ps in
     JObj [num ''charge_state'' (p1_charge_state p), num ''vbus_in_mv'' (p1_vbus_in_mV p), num ''vbus_out_mv'' (p1_vbus_out_mV p),
       snum ''ibus_out_ma'' (p1_ibus_out_mA p), num ''vbat_mv'' (p1_vbat_mV p), snum ''ibat_ma'' (p1_ibat_mA p),
       snum ''temp_dc'' (p1_temp_dC p), num ''faults'' (p1_faults p)])"

definition power_telemetry :: "bytes \<Rightarrow> (string \<times> json) list" where
  "power_telemetry raw =
     (let (ver, ps) = (if raw = [] then (0, zero_view) else wups_power_status_decode raw) in
      if ver = 2 then [(''power'', power_json_v2 ps)]
      else if ver = 1 then [(''power'', power_json_v1 ps)]
      else [])"

definition host_telemetry :: "bytes \<Rightarrow> (string \<times> json) list" where
  "host_telemetry raw =
     (if length raw < sizeof_host_status_v1 then []
      else [(''host'', JObj [num ''eth_state'' (raw ! 1), snum ''cpu_temp_dc'' (rd_u16le (drop 2 raw)), num ''mem_pct'' (raw ! 4),
        num ''disk_pct'' (raw ! 5), num ''load_x100'' (rd_u16le (drop 6 raw)), num ''uptime_s'' (rd_u32le (drop 8 raw))])])"

definition build_body :: "string \<Rightarrow> int \<Rightarrow> int \<Rightarrow> http \<Rightarrow> json" where
  "build_body fw_ver now now_us s = JObj (
     [(''ts'', JNum now), (''fw_ver'', JStr fw_ver), (''uptime_s'', JNum (now_us div 1000000))] @
     power_telemetry (take_slot now_us 0 TLM_MAX_INNER s) @
     host_telemetry (take_slot now_us 1 TLM_MAX_INNER s) @
     add_net_telemetry (take_slot now_us 2 TLM_MAX_INNER s) @
     [(''acks'', JArr (map JStr (s_pending s)))] @
     (if s_rejected s \<noteq> []
      then [(''rejected'', JArr (map (\<lambda>(i, r). JObj [(''id'', JStr i), (''reason'', JStr r)]) (s_rejected s)))] else []) @
     (if fst (s_resp_dropped s)
      then [(''resp_dropped'', JObj [num ''bytes'' (snd (s_resp_dropped s)), (''max'', JNum (int HTTP_RESP_MAX - 1))])] else []))"

record post_in =
  pi_url :: bool
  pi_devid :: bool
  pi_secret :: "string option"
  pi_time :: int
  pi_ts :: string
  pi_nonce :: string
  pi_client :: bool
  pi_now_us :: int
  pi_events :: "http_evt list"
  pi_err :: bool
  pi_status :: int

text \<open>One cycle: the state after it, its result, and the request if one was made.\<close>

definition post_once :: "http_env \<Rightarrow> post_in \<Rightarrow> http \<Rightarrow> http \<times> int \<times> (json \<times> string) option" where
  "post_once env i s =
     (if \<not> pi_url i \<or> \<not> pi_devid i then (s, -1, None)
      else case pi_secret i of
        None \<Rightarrow> (s, -1, None)
      | Some secret \<Rightarrow>
          let key = map of_char secret; acks_in_body = length (s_pending s); rej_in_body = length (s_rejected s);
              dropped_in_body = fst (s_resp_dropped s); b = build_body (fw_version env) (pi_time i) (pi_now_us i) s in
          case render env HTTP_BODY_MAX b of
            None \<Rightarrow> (s, -1, None)
          | Some body \<Rightarrow>
              if body = [] then (s, -1, None)
              else let sig = sign_request (sha env) key (pi_ts i) (pi_nonce i) body;
                       s = s\<lparr>s_resp := [], s_resp_total := 0, s_resp_sig := []\<rparr> in
              if \<not> pi_client i then (s, -1, None)
              else let s = fold resp_evt (pi_events i) s in
              if pi_err i \<or> pi_status i < 200 \<or> pi_status i \<ge> 300 then (s, -1, Some (b, sig))
              else let s = s\<lparr>s_last_success_s := word_of_int (pi_now_us i div 1000000)\<rparr>;
                       s = rej_drop_front rej_in_body (ack_drop_front acks_in_body s);
                       s = (if dropped_in_body then s\<lparr>s_resp_dropped := (False, snd (s_resp_dropped s))\<rparr> else s);
                       s = (if s_resp_total s > HTTP_RESP_MAX - 1
                            then s\<lparr>s_resp_dropped := (True, of_nat (s_resp_total s))\<rparr>
                            else handle_response env (s_resp s) key (pi_nonce i) (s_resp_sig s) s) in
              (s, 0, Some (b, sig)))"

definition http_boot :: "link_tx \<Rightarrow> http" where
  "http_boot tx = \<lparr>s_slots = replicate 3 \<lparr>sl_valid = False, sl_observed_us = 0, sl_data = []\<rparr>, s_pending = [],
     s_executed = replicate EXEC_RING_MAX [], s_exec_idx = 0, s_rejected = [], s_resp_dropped = (False, 0), s_cmd_seq = 0,
     s_resp = [], s_resp_total = 0, s_resp_sig = [], s_last_success_s = 0, http_tx = tx, applied = []\<rparr>"

section \<open>What an answer changes\<close>

text \<open>The ring holds the last sixteen identifiers that were dispatched; \<open>L\<close> is the log.\<close>

definition ring_ok :: "http \<Rightarrow> bool" where
  "ring_ok s \<longleftrightarrow> length (s_executed s) = 16 \<and> s_exec_idx s = length (applied s) mod 16 \<and>
     (\<forall>j<length (applied s). length (applied s) \<le> j + 16 \<longrightarrow> s_executed s ! (j mod 16) = applied s ! j \<and> applied s ! j \<noteq> [])"

lemma keeps_log [simp]:
  "s_resp (rej_add c r s) = s_resp s" "s_resp_sig (rej_add c r s) = s_resp_sig s"
  "s_resp (ack_add c s) = s_resp s" "s_resp_sig (ack_add c s) = s_resp_sig s"
  "s_resp (exec_add c s) = s_resp s" "s_resp_sig (exec_add c s) = s_resp_sig s"
  "applied (rej_add c r s) = applied s" "s_executed (rej_add c r s) = s_executed s" "s_exec_idx (rej_add c r s) = s_exec_idx s"
  "s_pending (rej_add c r s) = s_pending s" "http_tx (rej_add c r s) = http_tx s"
  "applied (ack_add c s) = applied s" "s_executed (ack_add c s) = s_executed s" "s_exec_idx (ack_add c s) = s_exec_idx s"
  "http_tx (ack_add c s) = http_tx s"
  "s_pending (exec_add c s) = s_pending s" "applied (exec_add c s) = applied s" "http_tx (exec_add c s) = http_tx s"
  by (simp_all add: rej_add_def ack_add_def exec_add_def Let_def split: option.split)

lemma dispatch_keeps:
  assumes "dispatch_command cmd args s = (t, ok)"
  shows "applied t = applied s" "s_executed t = s_executed s" "s_exec_idx t = s_exec_idx s" "s_pending t = s_pending s"
    "s_resp t = s_resp s" "s_resp_sig t = s_resp_sig s" "\<not> ok \<Longrightarrow> http_tx t = http_tx s"
  using assms by (auto simp: dispatch_command_def Let_def split: option.splits if_splits)

lemma ring_step:
  assumes "ring_ok s" and "cid \<noteq> []" and "length cid < 48"
  shows "ring_ok (exec_add cid (s\<lparr>applied := applied s @ [cid]\<rparr>))"
proof -
  let ?n = "length (applied s)"
  have "(s_executed s)[?n mod 16 := cid] ! (j mod 16) = (applied s @ [cid]) ! j \<and> (applied s @ [cid]) ! j \<noteq> []"
    if "j < Suc ?n" "Suc ?n \<le> j + 16" for j
  proof (cases "j = ?n")
    case False
    then have j: "j < ?n" "?n \<le> j + 16" using that by auto
    have "j mod 16 \<noteq> ?n mod 16"
    proof
      assume "j mod 16 = ?n mod 16"
      then have "16 dvd ?n - j" using j(1) by (metis less_imp_le mod_eq_dvd_iff_nat)
      then show False using j(1) that(2) by (auto dest: dvd_imp_le)
    qed
    then show ?thesis using j assms(1) by (simp add: ring_ok_def nth_append)
  qed (use assms in \<open>simp add: ring_ok_def\<close>)
  then show ?thesis using assms by (simp add: ring_ok_def exec_add_def mod_Suc_eq)
qed

text \<open>One command: it is not dispatched and the log stays, or it is new, dispatched and acknowledged.\<close>

definition cmd_id :: "json \<Rightarrow> string" where
  "cmd_id c = (case jc_id c of Some i \<Rightarrow> i | None \<Rightarrow> [])"

lemma handle_cmd_cases:
  obtains (same) "applied (handle_cmd c s) = applied s" "s_executed (handle_cmd c s) = s_executed s"
      "s_exec_idx (handle_cmd c s) = s_exec_idx s" "http_tx (handle_cmd c s) = http_tx s"
      "s_pending (handle_cmd c s) = s_pending s \<or> handle_cmd c s = ack_add (cmd_id c) s"
  | (new) t where "cmd_id c \<noteq> []" "length (cmd_id c) < 48" "\<not> exec_seen (cmd_id c) s"
      "applied t = applied s" "s_executed t = s_executed s" "s_exec_idx t = s_exec_idx s" "s_pending t = s_pending s"
      "handle_cmd c s = ack_add (cmd_id c) (exec_add (cmd_id c) (t\<lparr>applied := applied t @ [cmd_id c]\<rparr>))"
proof -
  let ?i = "cmd_id c"
  note h = handle_cmd_def [of c s, folded cmd_id_def, unfolded Let_def]
  show ?thesis
  proof (cases "?i \<noteq> [] \<and> length ?i < 48 \<and> \<not> exec_seen ?i s \<and> (\<exists>cmd. jc_cmd c = Some cmd \<and> cmd_known cmd)")
    case True
    then obtain cmd where cmd: "jc_cmd c = Some cmd" "cmd_known cmd" by blast
    obtain t ok where d: "dispatch_command cmd (jc_args c) s = (t, ok)" by fastforce
    show ?thesis
    proof (cases ok)
      case ok: True
      show ?thesis by (rule new [of t]) (use True cmd d ok dispatch_keeps [OF d] in \<open>simp_all add: h\<close>)
    next
      case False
      show ?thesis by (rule same) (use True cmd d False dispatch_keeps [OF d] in \<open>simp_all add: h\<close>)
    qed
  next
    case False
    then have "handle_cmd c s = ack_add ?i s \<or> (\<exists>r. handle_cmd c s = rej_add ?i r s)"
      by (auto simp: h not_less split: option.split)
    then show ?thesis by (elim disjE exE) (rule same; simp)+
  qed
qed

lemma seen_if_recent:
  assumes "ring_ok s" and "j < length (applied s)" and "length (applied s) \<le> j + 16"
  shows "exec_seen (applied s ! j) s"
proof -
  have "s_executed s ! (j mod 16) = applied s ! j" "applied s ! j \<noteq> []" "length (s_executed s) = 16"
    using assms by (simp_all add: ring_ok_def)
  then have "applied s ! j \<in> set (s_executed s)" by (metis mod_less_divisor nth_mem zero_less_numeral)
  then show ?thesis using \<open>applied s ! j \<noteq> []\<close> by (auto simp: exec_seen_def list_ex_iff)
qed

definition no_near_repeat :: "'a list \<Rightarrow> bool" where
  "no_near_repeat L \<longleftrightarrow> (\<forall>i j. i < j \<and> j < length L \<and> j \<le> i + 16 \<longrightarrow> L ! i \<noteq> L ! j)"

lemma handle_cmd_ring:
  assumes "ring_ok s" and "no_near_repeat (applied s)"
  shows "ring_ok (handle_cmd c s) \<and> no_near_repeat (applied (handle_cmd c s))"
proof (cases rule: handle_cmd_cases [of c s])
  case same
  then show ?thesis using assms by (simp add: ring_ok_def)
next
  case (new t)
  have "ring_ok t" using new assms(1) by (simp add: ring_ok_def)
  from ring_step [OF this new(1,2)] have "ring_ok (handle_cmd c s)" using new(8) by (simp add: ring_ok_def)
  moreover have "(applied s @ [cmd_id c]) ! i \<noteq> (applied s @ [cmd_id c]) ! j"
    if "i < j" "j < Suc (length (applied s))" "j \<le> i + 16" for i j
  proof (cases "j = length (applied s)")
    case True
    then show ?thesis using seen_if_recent [OF assms(1), of i] new(3) that by (auto simp: nth_append)
  next
    case False
    then show ?thesis using assms(2) that by (simp add: no_near_repeat_def nth_append)
  qed
  then have "no_near_repeat (applied s @ [cmd_id c])" by (simp add: no_near_repeat_def)
  ultimately show ?thesis using new by simp
qed

lemma handle_cmds_ring:
  "ring_ok s \<Longrightarrow> no_near_repeat (applied s) \<Longrightarrow>
     ring_ok (fold handle_cmd cs s) \<and> no_near_repeat (applied (fold handle_cmd cs s))"
  by (induction cs arbitrary: s) (simp_all add: handle_cmd_ring)

text \<open>After the acknowledgements were dropped, the first eight commands leave theirs pending.\<close>

lemma handle_cmd_pending:
  assumes "length (s_pending s) < 8"
  shows "length (s_pending (handle_cmd c s)) \<le> Suc (length (s_pending s)) \<and> set (s_pending s) \<subseteq> set (s_pending (handle_cmd c s))"
    and "set (applied (handle_cmd c s)) \<subseteq> set (applied s) \<union> (set (s_pending (handle_cmd c s)) \<inter> {cmd_id c})"
proof -
  have ack: "length (s_pending (ack_add i t)) \<le> Suc (length (s_pending t)) \<and> set (s_pending t) \<subseteq> set (s_pending (ack_add i t))"
    "length i < 48 \<Longrightarrow> i \<in> set (s_pending (ack_add i t))" if "length (s_pending t) < 8" for i t
    using that by (auto simp: ack_add_def Let_def)
  have "(length (s_pending (handle_cmd c s)) \<le> Suc (length (s_pending s)) \<and> set (s_pending s) \<subseteq> set (s_pending (handle_cmd c s))) \<and>
      set (applied (handle_cmd c s)) \<subseteq> set (applied s) \<union> (set (s_pending (handle_cmd c s)) \<inter> {cmd_id c})"
  proof (cases rule: handle_cmd_cases [of c s])
    case same
    then show ?thesis using ack(1) [OF assms, of "cmd_id c"] by auto
  next
    case (new t)
    then show ?thesis
      using ack [of "exec_add (cmd_id c) (t\<lparr>applied := applied t @ [cmd_id c]\<rparr>)" "cmd_id c"] assms by auto
  qed
  then show "length (s_pending (handle_cmd c s)) \<le> Suc (length (s_pending s)) \<and> set (s_pending s) \<subseteq> set (s_pending (handle_cmd c s))"
    "set (applied (handle_cmd c s)) \<subseteq> set (applied s) \<union> (set (s_pending (handle_cmd c s)) \<inter> {cmd_id c})" by blast+
qed

lemma handle_cmds_pending:
  assumes "length (s_pending s) + length cs \<le> 8"
  shows "set (s_pending s) \<subseteq> set (s_pending (fold handle_cmd cs s)) \<and>
     set (applied (fold handle_cmd cs s)) \<subseteq> set (applied s) \<union> set (s_pending (fold handle_cmd cs s))"
  using assms
proof (induction cs arbitrary: s)
  case (Cons c cs)
  then have p: "length (s_pending s) < 8" by simp
  note one = handle_cmd_pending [OF p, of c]
  have "length (s_pending (handle_cmd c s)) + length cs \<le> 8" using one(1) Cons.prems by simp
  from Cons.IH [OF this] one show ?case by fastforce
qed simp

text \<open>An answer whose commands are not in the log yet adds each of them once.\<close>

lemma handle_cmd_grows:
  "\<exists>new. applied (handle_cmd c s) = applied s @ new \<and> length new \<le> 1 \<and>
     (new = [] \<or> new = [cmd_id c] \<and> \<not> exec_seen (cmd_id c) s)"
proof (cases rule: handle_cmd_cases [of c s])
  case same
  then show ?thesis by simp
next
  case (new t)
  then show ?thesis by (intro exI [of _ "[cmd_id c]"]) simp
qed

lemma distinct_near: "distinct L \<Longrightarrow> no_near_repeat L"
  by (auto simp: no_near_repeat_def nth_eq_iff_index_eq)

lemma handle_cmds_distinct:
  assumes "ring_ok s" and "distinct (applied s)" and "n \<le> length (applied s)"
    and "length (applied s) + length cs \<le> n + 16" and "\<forall>c\<in>set cs. cmd_id c \<notin> set (take n (applied s))"
  shows "distinct (applied (fold handle_cmd cs s))"
  using assms
proof (induction cs arbitrary: s)
  case (Cons c cs)
  let ?L = "applied s" and ?t = "handle_cmd c s"
  obtain new where g: "applied ?t = ?L @ new" "length new \<le> 1" "new = [] \<or> new = [cmd_id c] \<and> \<not> exec_seen (cmd_id c) s"
    using handle_cmd_grows by blast
  have "cmd_id c \<notin> set ?L" if "new \<noteq> []"
  proof
    assume "cmd_id c \<in> set ?L"
    then obtain j where j: "j < length ?L" "?L ! j = cmd_id c" by (auto simp: in_set_conv_nth)
    have "\<not> length ?L \<le> j + 16" using seen_if_recent [OF Cons.prems(1) j(1)] g(3) that j(2) by auto
    then have "j < n" using Cons.prems(4) by simp
    then show False using Cons.prems(3,5) j by (auto simp: in_set_conv_nth)
  qed
  then have d: "distinct (applied ?t)" using Cons.prems(2) g by auto
  have "ring_ok ?t" using handle_cmd_ring [OF Cons.prems(1) distinct_near [OF Cons.prems(2)]] by blast
  from Cons.IH [OF this d] Cons.prems(3-5) g show ?case by simp
qed simp

section \<open>One cycle\<close>

lemma handle_cmd_resp: "s_resp (handle_cmd c s) = s_resp s" "s_resp_sig (handle_cmd c s) = s_resp_sig s"
  by (auto simp: handle_cmd_def Let_def dispatch_keeps split: option.split prod.split bool.split)

lemma handle_cmds_resp: "s_resp (fold handle_cmd cs s) = s_resp s \<and> s_resp_sig (fold handle_cmd cs s) = s_resp_sig s"
  by (induction cs arbitrary: s) (simp_all add: handle_cmd_resp)

lemma resp_evts_keep:
  "applied (fold resp_evt es s) = applied s \<and> s_executed (fold resp_evt es s) = s_executed s \<and>
   s_exec_idx (fold resp_evt es s) = s_exec_idx s \<and> s_pending (fold resp_evt es s) = s_pending s \<and>
   http_tx (fold resp_evt es s) = http_tx s"
  by (induction es arbitrary: s) (auto simp: resp_evt_def Let_def split: http_evt.split)

definition same_log :: "http \<Rightarrow> http \<Rightarrow> bool" where
  "same_log s t \<longleftrightarrow> applied t = applied s \<and> s_executed t = s_executed s \<and> s_exec_idx t = s_exec_idx s \<and> http_tx t = http_tx s"

text \<open>The acknowledgements a request carries, as its reader finds them: all that are pending.\<close>

definition acks_of :: "json \<Rightarrow> string list" where
  "acks_of b = (case item (Some b) ''acks'' of Some (JArr js) \<Rightarrow> List.map_filter (\<lambda>j. text_of (Some j)) js | j \<Rightarrow> [])"

lemma body_acks: "acks_of (build_body v now us s) = s_pending s"
proof -
  have "map_of (power_telemetry r) ''acks'' = None" "map_of (host_telemetry r) ''acks'' = None"
    "map_of (add_net_telemetry r) ''acks'' = None" for r
    by (simp_all add: power_telemetry_def host_telemetry_def add_net_telemetry_def split: prod.split)
  moreover have "List.map_filter (\<lambda>j. text_of (Some j)) (map JStr xs) = xs" for xs
    by (induction xs) (simp_all add: List.map_filter_simps)
  ultimately show ?thesis by (simp add: acks_of_def build_body_def map_add_def)
qed

text \<open>A cycle that fails changes none of this; one that succeeds has drained what it carried.\<close>

lemma post_once_cases:
  assumes "post_once env i s = (t, r, out)"
  obtains (fail) "r \<noteq> 0" "same_log s t" "s_pending t = s_pending s"
  | (success) secret u b sg cs where "r = 0" "out = Some (b, sg)" "acks_of b = s_pending s" "same_log s u" "s_pending u = []"
      "t = fold handle_cmd cs u" "length cs \<le> 8" "pi_secret i = Some secret"
      "cs = [] \<or> (\<exists>root. parse env (s_resp t) = Some root \<and> cs = take 8 (json_cmds root) \<and>
         verify_response_sig (sha env) (map of_char secret) (pi_nonce i) (s_resp t) (s_resp_sig t))"
proof -
  define a where "a = fold resp_evt (pi_events i) (s\<lparr>s_resp := [], s_resp_total := 0, s_resp_sig := []\<rparr>)"
  have a: "same_log s a" "s_pending a = s_pending s"
    using resp_evts_keep [of "pi_events i" "s\<lparr>s_resp := [], s_resp_total := 0, s_resp_sig := []\<rparr>"]
    by (simp_all add: a_def same_log_def)
  define u0 where "u0 = rej_drop_front (length (s_rejected s)) (ack_drop_front (length (s_pending s))
      (a\<lparr>s_last_success_s := word_of_int (pi_now_us i div 1000000)\<rparr>))"
  define u where "u = (if fst (s_resp_dropped s) then u0\<lparr>s_resp_dropped := (False, snd (s_resp_dropped u0))\<rparr> else u0)"
  have u: "same_log s u" "s_pending u = []"
    using a by (simp_all add: u_def u0_def same_log_def rej_drop_front_def ack_drop_front_def)
  show ?thesis
  proof (cases "r = 0")
    case False
    show ?thesis
      by (rule fail [OF False])
        (use assms False a in \<open>auto simp: post_once_def Let_def same_log_def a_def [symmetric] split: if_splits option.splits\<close>)
  next
    case True
    obtain secret body where sec: "pi_secret i = Some secret" "render env 2048 (build_body (fw_version env) (pi_time i) (pi_now_us i) s) = Some body" and
      run: "out = Some (build_body (fw_version env) (pi_time i) (pi_now_us i) s, sign_request (sha env) (map of_char secret) (pi_ts i) (pi_nonce i) body)"
        "t = (if s_resp_total u > 2047 then u\<lparr>s_resp_dropped := (True, of_nat (s_resp_total u))\<rparr>
              else handle_response env (s_resp u) (map of_char secret) (pi_nonce i) (s_resp_sig u) u)"
      using assms True
      by (auto simp: post_once_def Let_def a_def [symmetric] u0_def [symmetric] u_def split: if_splits option.splits)
    note acks = body_acks [of "fw_version env" "pi_time i" "pi_now_us i" s]
    show ?thesis
    proof (cases "s_resp_total u > 2047")
      case big: True
      show ?thesis
        by (rule success [OF True run(1) acks, of "u\<lparr>s_resp_dropped := (True, of_nat (s_resp_total u))\<rparr>" "[]"])
          (use u big run sec in \<open>simp_all add: same_log_def\<close>)
    next
      case False
      show ?thesis
      proof (cases "t = u")
        case same: True
        show ?thesis by (rule success [OF True run(1) acks u, of "[]"]) (use same sec in simp_all)
      next
        case changed: False
        have "s_resp u \<noteq> []" using False changed run(2) by (auto simp: handle_response_def)
        then obtain root where all: "parse env (s_resp u) = Some root" "t = fold handle_cmd (take 8 (json_cmds root)) u"
            "json_cmds root = [] \<or> verify_response_sig (sha env) (map of_char secret) (pi_nonce i) (s_resp u) (s_resp_sig u)"
          using False changed run(2) by (auto simp: handle_response_def Let_def split: option.splits if_splits)
        have "json_cmds root \<noteq> []" using changed all(2) by auto
        moreover have "s_resp t = s_resp u \<and> s_resp_sig t = s_resp_sig u" unfolding all(2) by (rule handle_cmds_resp)
        ultimately show ?thesis
          by (intro success [OF True run(1) acks u all(2)]) (use all sec in auto)
      qed
    qed
  qed
qed

lemma post_once_ring:
  assumes "ring_ok s" and "no_near_repeat (applied s)"
  shows "ring_ok (fst (post_once env i s)) \<and> no_near_repeat (applied (fst (post_once env i s)))"
proof -
  obtain t r out where run: "post_once env i s = (t, r, out)" by (metis prod.collapse)
  from run show ?thesis
  proof (cases rule: post_once_cases)
    case fail
    then show ?thesis using assms run by (simp add: ring_ok_def same_log_def)
  next
    case (success secret u b sg cs)
    then have "ring_ok u" "no_near_repeat (applied u)" using assms by (simp_all add: ring_ok_def same_log_def)
    from handle_cmds_ring [OF this] show ?thesis using run success(6) by simp
  qed
qed

section \<open>The contract with the server\<close>

definition posts :: "http_env \<Rightarrow> http \<Rightarrow> post_in list \<Rightarrow> http" where
  "posts env s ps = foldl (\<lambda>s i. fst (post_once env i s)) s ps"

definition response_ids :: "http_env \<Rightarrow> http \<Rightarrow> string list" where
  "response_ids env t = (case parse env (s_resp t) of None \<Rightarrow> [] | Some root \<Rightarrow> map cmd_id (json_cmds root))"

text \<open>
  What the server promises: an answer does not ask again for a command that this or an earlier request has
  acknowledged.  \<open>told\<close> are the acknowledgements it was sent, whether or not its answer came back.
\<close>

fun honest :: "http_env \<Rightarrow> string list \<Rightarrow> http \<Rightarrow> post_in list \<Rightarrow> bool" where
  "honest env told s [] = True"
| "honest env told s (i # ps) =
     (case post_once env i s of (t, r, out) \<Rightarrow>
        let told = told @ (case out of None \<Rightarrow> [] | Some (b, sg) \<Rightarrow> acks_of b) in
        (r = 0 \<longrightarrow> list_all (\<lambda>c. c \<notin> set told) (response_ids env t)) \<and> honest env told t ps)"

lemma honest_run:
  assumes "honest env told s ps" and "ring_ok s" and "distinct (applied s)"
    and "set (applied s) \<subseteq> set told \<union> set (s_pending s)"
  shows "distinct (applied (posts env s ps))"
  using assms
proof (induction ps arbitrary: told s)
  case (Cons i ps)
  obtain t r out where run: "post_once env i s = (t, r, out)" by (metis prod.collapse)
  define told' where "told' = told @ (case out of None \<Rightarrow> [] | Some (b, sg) \<Rightarrow> acks_of b)"
  have h: "r = 0 \<longrightarrow> list_all (\<lambda>c. c \<notin> set told') (response_ids env t)" "honest env told' t ps"
    using Cons.prems(1) by (simp_all add: run told'_def Let_def)
  have ring: "ring_ok t"
    using post_once_ring [OF Cons.prems(2) distinct_near [OF Cons.prems(3)], of env i] by (simp add: run)
  have more: "set told \<subseteq> set told'" by (simp add: told'_def)
  from run have "distinct (applied t) \<and> set (applied t) \<subseteq> set told' \<union> set (s_pending t)"
  proof (cases rule: post_once_cases)
    case fail
    then show ?thesis using Cons.prems(3,4) more by (auto simp: same_log_def)
  next
    case (success secret u b sg cs)
    have u: "ring_ok u" "applied u = applied s" using success(4) Cons.prems(2) by (simp_all add: ring_ok_def same_log_def)
    have old: "set (applied s) \<subseteq> set told'" using Cons.prems(4) success(2,3) by (auto simp: told'_def)
    have "cmd_id c \<in> set (response_ids env t)" if "c \<in> set cs" for c
      using success(9) that by (auto simp: response_ids_def dest: in_set_takeD)
    then have "\<forall>c\<in>set cs. cmd_id c \<notin> set (applied s)" using h(1) success(1) old by (auto simp: list_all_iff)
    then have "distinct (applied t)"
      using handle_cmds_distinct [OF u(1), of "length (applied s)" cs] Cons.prems(3) success(6,7) u(2) by simp
    moreover have "set (applied t) \<subseteq> set (applied s) \<union> set (s_pending t)"
      using handle_cmds_pending [of u cs] success(5-7) u(2) by simp
    ultimately show ?thesis using old by blast
  qed
  from Cons.IH [OF h(2) ring] this show ?case by (simp add: posts_def run)
qed (simp add: posts_def)

lemma boot_ring: "ring_ok (http_boot tx)"
  by (simp add: ring_ok_def http_boot_def)


text \<open>
  Even a server that repeats what has been acknowledged, or anyone who replays its
  answers, gets a command executed again only after sixteen others.
\<close>

theorem http_repeats_far_apart:
  "\<forall>i j. i < j \<and> j < length (applied (posts env (http_boot tx) ps)) \<and>
     applied (posts env (http_boot tx) ps) ! i = applied (posts env (http_boot tx) ps) ! j \<longrightarrow> i + 16 < j"
proof -
  have "ring_ok (posts env s ps) \<and> no_near_repeat (applied (posts env s ps))"
    if "ring_ok s" "no_near_repeat (applied s)" for s
    using that
  proof (induction ps arbitrary: s)
    case (Cons i ps)
    show ?case using Cons.IH [of "fst (post_once env i s)"] post_once_ring [OF Cons.prems, of env i]
      by (simp add: posts_def)
  qed (simp add: posts_def)
  from this [OF boot_ring] have "no_near_repeat (applied (posts env (http_boot tx) ps))"
    by (simp add: http_boot_def no_near_repeat_def)
  then show ?thesis unfolding no_near_repeat_def by (metis not_le)
qed

text \<open>
  C17. An answer without a valid signature executes nothing: whenever a cycle sends something to the hub, its
  answer was complete and carried the code of the secret over this request's nonce and this body.
\<close>

theorem http_commands_signed:
  assumes "http_tx (fst (post_once env i s)) \<noteq> http_tx s"
  shows "\<exists>secret. pi_secret i = Some secret \<and>
     verify_response_sig (sha env) (map of_char secret) (pi_nonce i)
       (s_resp (fst (post_once env i s))) (s_resp_sig (fst (post_once env i s)))"
proof -
  obtain t r out where run: "post_once env i s = (t, r, out)" by (metis prod.collapse)
  from run show ?thesis
  proof (cases rule: post_once_cases)
    case fail
    then show ?thesis using assms run by (simp add: same_log_def)
  next
    case (success secret u b sg cs)
    have "cs \<noteq> []" using assms run success(4,6) by (auto simp: same_log_def)
    then show ?thesis using success(8,9) run by auto
  qed
qed

section \<open>A concrete exchange\<close>

text \<open>
  The server answers the first request with a command, and the answer to the second is lost.  The digest of this
  platform is constant, so that the signature is a row of zeros.
\<close>

definition sample_cmd :: json where
  "sample_cmd = JObj [(''id'', JStr ''c1''), (''cmd'', JStr ''power.cycle''), (''args'', JObj [(''off_ms'', JNum 3000)])]"

definition sample_http_env :: http_env where
  "sample_http_env = \<lparr>sha = (\<lambda>b. replicate 32 0),
     parse = (\<lambda>b. Some (JObj (if b = [1] then [(''commands'', JArr [sample_cmd])] else []))),
     render = (\<lambda>cap b. Some [9]), fw_version = ''1.0''\<rparr>"

definition sample_post :: "bytes \<Rightarrow> bool \<Rightarrow> post_in" where
  "sample_post answer lost = \<lparr>pi_url = True, pi_devid = True, pi_secret = Some ''K'', pi_time = 1, pi_ts = ''1'', pi_nonce = ''2'', pi_client = True,
     pi_now_us = 0, pi_events = [On_Header ''X-W3PUPS-Sig'' (replicate 64 (CHR ''0'')), On_Data answer], pi_err = lost, pi_status = 200\<rparr>"

definition sample_boot :: http where
  "sample_boot = http_boot \<lparr>s_tx_seq = 0, s_frames_tx = 0, s_bytes_tx = 0, uart_out = []\<rparr>"

lemma sample_signed: "verify_response_sig (sha sample_http_env) key nonce body (replicate 64 (CHR ''0''))"
proof -
  have "mac_to_hex (replicate 32 0) = replicate 64 (CHR ''0'')" by code_simp
  then show ?thesis by (simp add: verify_response_sig_def hmac_sha256_3_def Let_def sample_http_env_def same_name_def)
qed

lemma sample_received:
  "fold resp_evt (pi_events (sample_post answer lost)) s = s\<lparr>s_resp_sig := replicate 64 (CHR ''0''),
     s_resp_total := s_resp_total s + length answer, s_resp := s_resp s @ take (2047 - length (s_resp s)) answer\<rparr>"
  by (simp add: sample_post_def resp_evt_def Let_def same_name_def)

lemma encode_frame_encodes:
  "length payload \<le> 240 \<Longrightarrow> encode_frame 254 dst src cls op flags seq payload =
     encode \<lparr>f_dst = dst, f_src = src, f_cls = cls, f_op = op, f_flags = flags, f_seq = seq, f_payload = payload\<rparr>"
  by (simp add: encode_frame_def encode_def frame_body_def wups_fletcher8_def le16_def Let_def split: prod.split)

lemma sample_dispatch:
  obtains u where "dispatch_command ''power.cycle'' (jc_args sample_cmd) s = (u, True)"
    "s_frames_tx (http_tx u) = s_frames_tx (http_tx s) + 1"
proof -
  have ne: "encode f \<noteq> []" for f using encode_length [of f] by auto
  show ?thesis
    by (rule that)
      (simp add: sample_cmd_def jc_args_def dispatch_command_def build_cmd_payload_def encode_frame_encodes ne encode_length Let_def,
       simp add: wups_link_send_def send_frame_full_def encode_length Let_def split: prod.split)
qed

lemma sample_executed:
  assumes "\<not> exec_seen ''c1'' s"
  shows "applied (handle_cmd sample_cmd s) = applied s @ [''c1'']"
    and "s_frames_tx (http_tx (handle_cmd sample_cmd s)) = s_frames_tx (http_tx s) + 1"
proof -
  obtain u where u: "dispatch_command ''power.cycle'' (jc_args sample_cmd) s = (u, True)"
    "s_frames_tx (http_tx u) = s_frames_tx (http_tx s) + 1" by (rule sample_dispatch)
  have c: "jc_id sample_cmd = Some ''c1''" "jc_cmd sample_cmd = Some ''power.cycle''" "cmd_known ''power.cycle''"
    by (simp_all add: sample_cmd_def jc_id_def jc_cmd_def cmd_known_def)
  show "applied (handle_cmd sample_cmd s) = applied s @ [''c1'']"
    "s_frames_tx (http_tx (handle_cmd sample_cmd s)) = s_frames_tx (http_tx s) + 1"
    using assms u dispatch_keeps(1) [OF u(1)] by (simp_all add: handle_cmd_def c Let_def)
qed

lemma sample_fields:
  "pi_url (sample_post a l)" "pi_devid (sample_post a l)" "pi_secret (sample_post a l) = Some ''K''"
  "pi_client (sample_post a l)" "pi_err (sample_post a l) = l" "pi_status (sample_post a l) = 200" "pi_now_us (sample_post a l) = 0"
  "render sample_http_env n b = Some [9]" "parse sample_http_env [1] = Some (JObj [(''commands'', JArr [sample_cmd])])"
  "fw_version sample_http_env = ''1.0''" "pi_time (sample_post a l) = 1"
  "s_pending sample_boot = []" "s_rejected sample_boot = []" "s_resp_dropped sample_boot = (False, 0)"
  "s_resp sample_boot = []" "applied sample_boot = []" "s_frames_tx (http_tx sample_boot) = 0"
  "s_executed sample_boot = replicate 16 []"
  by (simp_all add: sample_post_def sample_http_env_def sample_boot_def http_boot_def)

lemma sample_answered:
  obtains t b sg where "post_once sample_http_env (sample_post [1] False) sample_boot = (t, 0, Some (b, sg))"
    "acks_of b = []" "applied t = [''c1'']" "s_frames_tx (http_tx t) = 1"
proof -
  have "\<not> exec_seen ''c1'' u" if "s_executed u = replicate 16 []" for u using that by (simp add: exec_seen_def list_ex_iff)
  note one = sample_executed [OF this]
  show ?thesis
  proof (rule that)
    show "post_once sample_http_env (sample_post [1] False) sample_boot =
        (handle_cmd sample_cmd (sample_boot\<lparr>s_resp_sig := replicate 64 (CHR ''0''), s_resp_total := 1, s_resp := [1],
           s_last_success_s := 0, s_pending := [], s_rejected := []\<rparr>), 0, Some (build_body ''1.0'' 1 0 sample_boot,
         sign_request (sha sample_http_env) (map of_char ''K'') (pi_ts (sample_post [1] False)) (pi_nonce (sample_post [1] False)) [9]))"
      by (simp add: post_once_def sample_fields sample_received Let_def handle_response_def json_cmds_def sample_signed
          ack_drop_front_def rej_drop_front_def)
  qed (simp_all add: body_acks sample_fields one)
qed

lemma lost_keeps:
  assumes "post_once env (sample_post a True) s = (t, r, out)"
  shows "r \<noteq> 0 \<and> applied t = applied s"
proof -
  have "r \<noteq> 0" using assms by (auto simp: post_once_def sample_fields Let_def split: option.splits if_splits)
  with assms show ?thesis by (cases rule: post_once_cases) (simp_all add: same_log_def)
qed

lemma sample_run:
  "honest sample_http_env [] sample_boot [sample_post [1] False, sample_post [1] True]"
  "applied (posts sample_http_env sample_boot [sample_post [1] False, sample_post [1] True]) = [''c1'']"
proof -
  obtain t b sg where first: "post_once sample_http_env (sample_post [1] False) sample_boot = (t, 0, Some (b, sg))"
    "acks_of b = []" "applied t = [''c1'']" "s_frames_tx (http_tx t) = 1" by (rule sample_answered)
  obtain u r out where second: "post_once sample_http_env (sample_post [1] True) t = (u, r, out)" by (metis prod.collapse)
  note lost = lost_keeps [OF second]
  show "honest sample_http_env [] sample_boot [sample_post [1] False, sample_post [1] True]"
    using first(2) lost by (simp add: first(1) second Let_def list_all_iff)
  show "applied (posts sample_http_env sample_boot [sample_post [1] False, sample_post [1] True]) = [''c1'']"
    using lost by (simp add: posts_def first second)
qed


theorem http_repeats_far_apart_witness:
  "\<not> (1 < length (applied (posts sample_http_env sample_boot (replicate 3 (sample_post [1] False)))) \<and>
     applied (posts sample_http_env sample_boot (replicate 3 (sample_post [1] False))) ! 0 =
     applied (posts sample_http_env sample_boot (replicate 3 (sample_post [1] False))) ! 1)"
  using http_repeats_far_apart [of sample_http_env _ "replicate 3 (sample_post [1] False)"]
  unfolding sample_boot_def by fastforce

theorem http_commands_signed_witness:
  "\<exists>secret. pi_secret (sample_post [1] False) = Some secret \<and>
     verify_response_sig (sha sample_http_env) (map of_char secret) (pi_nonce (sample_post [1] False))
       (s_resp (fst (post_once sample_http_env (sample_post [1] False) sample_boot)))
       (s_resp_sig (fst (post_once sample_http_env (sample_post [1] False) sample_boot)))"
proof (rule http_commands_signed)
  obtain t b sg where "post_once sample_http_env (sample_post [1] False) sample_boot = (t, 0, Some (b, sg))"
    "s_frames_tx (http_tx t) = 1" by (rule sample_answered)
  then show "http_tx (fst (post_once sample_http_env (sample_post [1] False) sample_boot)) \<noteq> http_tx sample_boot"
    using sample_fields(17) by auto
qed

end
